(* ===== verification/QS_Prelude.thy ===== *)
theory QS_Prelude
  imports Main "HOL-Library.Word"
begin

text \<open>
  Shared vocabulary of the development: bytes and Go strings, checked indexing and slicing
  (a Go panic is a value of the result type), the result type of fallible functions,
  \<^verbatim>\<open>strings.TrimSpace\<close>, and the generic facts about little-endian numbers and uniquely
  decodable byte encodings that the wire formats and the primary-key identities rest on.
\<close>

unbundle bit_operations_syntax

named_theorems res_simps \<open>evaluation rules of the result type\<close>

named_theorems le_simps \<open>little-endian bytes and the words they spell\<close>

section \<open>Results: errors and panics as values\<close>

text \<open>
  A Go function that returns an error value gives \<open>Inl (Err e)\<close>; an operation that would
  panic (an index or a slice bound out of range) gives \<open>Inl Panic\<close>.
\<close>

datatype 'e fault = Err 'e | Panic

type_synonym ('e, 'a) res = "'e fault + 'a"

fun bindR :: "'x + 'a \<Rightarrow> ('a \<Rightarrow> 'x + 'b) \<Rightarrow> 'x + 'b" where
  "bindR (Inl e) f = Inl e"
| "bindR (Inr a) f = f a"

text \<open>Wrapping the error of a call, as \<^verbatim>\<open>fmt.Errorf\<close> with \<^verbatim>\<open>%w\<close> does; a panic passes through.\<close>

fun wrapErr :: "('e \<Rightarrow> 'd) \<Rightarrow> ('e, 'a) res \<Rightarrow> ('d, 'a) res" where
  "wrapErr h (Inl (Err e)) = Inl (Err (h e))"
| "wrapErr h (Inl Panic) = Inl Panic"
| "wrapErr h (Inr x) = Inr x"

definition idx :: "'a list \<Rightarrow> nat \<Rightarrow> ('e, 'a) res" where
  "idx xs i = (if i < length xs then Inr (xs ! i) else Inl Panic)"

definition slice :: "'a list \<Rightarrow> nat \<Rightarrow> nat \<Rightarrow> ('e, 'a list) res" where
  "slice xs i j = (if i \<le> j \<and> j \<le> length xs then Inr (take (j - i) (drop i xs)) else Inl Panic)"

declare bindR.simps [res_simps] wrapErr.simps [res_simps]

lemma bindR_Inr_iff: "bindR m f = Inr y \<longleftrightarrow> (\<exists>x. m = Inr x \<and> f x = Inr y)"
  by (cases m) auto

lemma bindR_Inl_iff: "bindR m f = Inl e \<longleftrightarrow> m = Inl e \<or> (\<exists>x. m = Inr x \<and> f x = Inl e)"
  by (cases m) auto

lemma wrapErr_Inr_iff: "wrapErr h r = Inr x \<longleftrightarrow> r = Inr x"
  by (cases "(h, r)" rule: wrapErr.cases) auto

lemma idx_in [res_simps]: "i < length xs \<Longrightarrow> idx xs i = Inr (xs ! i)"
  by (simp add: idx_def)

lemma slice_in [res_simps]:
  "i \<le> j \<Longrightarrow> j \<le> length xs \<Longrightarrow> slice xs i j = Inr (take (j - i) (drop i xs))"
  by (simp add: slice_def)

lemma idx_Inr_iff: "idx xs i = Inr x \<longleftrightarrow> i < length xs \<and> x = xs ! i"
  by (auto simp: idx_def)

lemma slice_Inr_iff:
  "slice xs i j = Inr ys \<longleftrightarrow> i \<le> j \<and> j \<le> length xs \<and> ys = take (j - i) (drop i xs)"
  by (auto simp: slice_def)

lemma slice_length: "slice xs i j = Inr ys \<Longrightarrow> length ys = j - i"
  by (auto simp: slice_Inr_iff)

subsection \<open>Absence of panics\<close>

definition no_panic :: "('e, 'a) res \<Rightarrow> bool" where
  "no_panic r \<longleftrightarrow> r \<noteq> Inl Panic"

named_theorems no_panic_intros \<open>introduction rules of \<open>no_panic\<close>\<close>

lemma no_panic_Inr [no_panic_intros, simp]: "no_panic (Inr x)"
  by (simp add: no_panic_def)

lemma no_panic_Err [no_panic_intros, simp]: "no_panic (Inl (Err e))"
  by (simp add: no_panic_def)

lemma no_panic_bindR [no_panic_intros]:
  "no_panic m \<Longrightarrow> (\<And>x. m = Inr x \<Longrightarrow> no_panic (f x)) \<Longrightarrow> no_panic (bindR m f)"
  by (cases m) (auto simp: no_panic_def)

lemma no_panic_if [no_panic_intros]:
  "(b \<Longrightarrow> no_panic x) \<Longrightarrow> (\<not> b \<Longrightarrow> no_panic y) \<Longrightarrow> no_panic (if b then x else y)"
  by simp

lemma no_panic_option [no_panic_intros]:
  "(r = None \<Longrightarrow> no_panic x) \<Longrightarrow> (\<And>a. r = Some a \<Longrightarrow> no_panic (f a)) \<Longrightarrow> no_panic (case r of None \<Rightarrow> x | Some a \<Rightarrow> f a)"
  by (simp split: option.split)

lemma no_panic_prod [no_panic_intros]:
  "(\<And>a b. p = (a, b) \<Longrightarrow> no_panic (f a b)) \<Longrightarrow> no_panic (case p of (a, b) \<Rightarrow> f a b)"
  by (simp split: prod.split)

lemma no_panic_wrapErr [no_panic_intros]: "no_panic r \<Longrightarrow> no_panic (wrapErr h r)"
  by (cases "(h, r)" rule: wrapErr.cases) (auto simp: no_panic_def)

lemma no_panic_idx [no_panic_intros]: "i < length xs \<Longrightarrow> no_panic (idx xs i)"
  by (simp add: no_panic_def idx_def)

lemma no_panic_slice [no_panic_intros]: "i \<le> j \<Longrightarrow> j \<le> length xs \<Longrightarrow> no_panic (slice xs i j)"
  by (simp add: no_panic_def slice_def)

section \<open>Bytes and strings\<close>

type_synonym byte = "8 word"
type_synonym u16 = "16 word"
type_synonym u32 = "32 word"
type_synonym u64 = "64 word"

definition byte_of_char :: "char \<Rightarrow> byte" where
  "byte_of_char c = word_of_nat (of_char c)"

definition char_of_byte :: "byte \<Rightarrow> char" where
  "char_of_byte b = char_of (unat b)"

definition bytes_of_string :: "string \<Rightarrow> byte list" where
  "bytes_of_string s = map byte_of_char s"

definition string_of_bytes :: "byte list \<Rightarrow> string" where
  "string_of_bytes bs = map char_of_byte bs"

lemma unat_byte_less [simp]: "unat (b :: byte) < 256"
  using unsigned_less [of b, where 'a = nat] by simp

lemma char_of_byte_of_char [simp]: "char_of_byte (byte_of_char c) = c"
  by (simp add: char_of_byte_def byte_of_char_def unat_of_nat)

lemma byte_of_char_of_byte [simp]: "byte_of_char (char_of_byte b) = b"
  by (simp add: char_of_byte_def byte_of_char_def)

lemma string_of_bytes_of_string [simp]: "string_of_bytes (bytes_of_string s) = s"
  by (simp add: string_of_bytes_def bytes_of_string_def comp_def)

lemma bytes_of_string_of_bytes [simp]: "bytes_of_string (string_of_bytes bs) = bs"
  by (simp add: string_of_bytes_def bytes_of_string_def comp_def)

lemma length_bytes_of_string [simp]: "length (bytes_of_string s) = length s"
  by (simp add: bytes_of_string_def)

lemma bytes_of_string_inject [simp]: "bytes_of_string s = bytes_of_string t \<longleftrightarrow> s = t"
  by (metis string_of_bytes_of_string)

subsection \<open>strings.TrimSpace\<close>

text \<open>
  The UTF-8 encodings of the code points \<^verbatim>\<open>unicode.IsSpace\<close> accepts: the six ASCII spaces,
  U+0085, U+00A0, U+1680, U+2000 to U+200A, U+2028, U+2029, U+202F, U+205F and U+3000.
  \<^verbatim>\<open>strings.TrimSpace\<close> removes them from both ends.
\<close>

definition space_runes :: "string list" where
  "space_runes =
     [[CHR 0x09], [CHR 0x0A], [CHR 0x0B], [CHR 0x0C], [CHR 0x0D], [CHR 0x20],
      [CHR 0xC2, CHR 0x85], [CHR 0xC2, CHR 0xA0], [CHR 0xE1, CHR 0x9A, CHR 0x80],
      [CHR 0xE2, CHR 0x80, CHR 0x80], [CHR 0xE2, CHR 0x80, CHR 0x81],
      [CHR 0xE2, CHR 0x80, CHR 0x82], [CHR 0xE2, CHR 0x80, CHR 0x83],
      [CHR 0xE2, CHR 0x80, CHR 0x84], [CHR 0xE2, CHR 0x80, CHR 0x85],
      [CHR 0xE2, CHR 0x80, CHR 0x86], [CHR 0xE2, CHR 0x80, CHR 0x87],
      [CHR 0xE2, CHR 0x80, CHR 0x88], [CHR 0xE2, CHR 0x80, CHR 0x89],
      [CHR 0xE2, CHR 0x80, CHR 0x8A], [CHR 0xE2, CHR 0x80, CHR 0xA8],
      [CHR 0xE2, CHR 0x80, CHR 0xA9], [CHR 0xE2, CHR 0x80, CHR 0xAF],
      [CHR 0xE2, CHR 0x81, CHR 0x9F], [CHR 0xE3, CHR 0x80, CHR 0x80]]"

function trim_front :: "string list \<Rightarrow> string \<Rightarrow> string" where
  "trim_front ps s =
     (case List.find (\<lambda>p. p \<noteq> [] \<and> take (length p) s = p) ps of
        None \<Rightarrow> s
      | Some p \<Rightarrow> trim_front ps (drop (length p) s))"
  by pat_completeness auto
termination
proof (relation "measure (\<lambda>(ps, s). length s)")
  show "wf (measure (\<lambda>(ps :: string list, s). length s))" by simp
next
  fix ps :: "string list" and s p
  assume "List.find (\<lambda>p. p \<noteq> [] \<and> take (length p) s = p) ps = Some p"
  then have "p \<noteq> []" "take (length p) s = p"
    by (auto simp: find_Some_iff)
  then show "((ps, drop (length p) s), ps, s) \<in> measure (\<lambda>(ps, s). length s)"
    by (cases s) auto
qed

declare trim_front.simps [simp del]

definition trim_space :: "string \<Rightarrow> string" where
  "trim_space s = rev (trim_front (map rev space_runes) (rev (trim_front space_runes s)))"

lemma trim_front_suffix: "\<exists>pre. s = pre @ trim_front ps s"
proof (induction ps s rule: trim_front.induct)
  case (1 ps s)
  show ?case
  proof (cases "List.find (\<lambda>p. p \<noteq> [] \<and> take (length p) s = p) ps")
    case None
    then show ?thesis by (simp add: trim_front.simps [of ps s])
  next
    case (Some p)
    from "1.IH" [OF Some] obtain pre where "drop (length p) s = pre @ trim_front ps (drop (length p) s)"
      by blast
    then have "s = (take (length p) s @ pre) @ trim_front ps (drop (length p) s)"
      by (metis append.assoc append_take_drop_id)
    then have "\<exists>q. s = q @ trim_front ps (drop (length p) s)" by blast
    with Some show ?thesis by (simp add: trim_front.simps [of ps s])
  qed
qed

lemma trim_space_infix: "\<exists>pre post. s = pre @ trim_space s @ post"
proof -
  obtain pre where pre: "s = pre @ trim_front space_runes s"
    using trim_front_suffix by blast
  obtain post where "rev (trim_front space_runes s) =
      post @ trim_front (map rev space_runes) (rev (trim_front space_runes s))"
    using trim_front_suffix by blast
  then have "trim_front space_runes s = trim_space s @ rev post"
    unfolding trim_space_def by (metis rev_append rev_rev_ident)
  with pre show ?thesis by metis
qed

lemma length_trim_space: "length (trim_space s) \<le> length s"
  using trim_space_infix [of s] by (metis le_add1 le_add2 length_append order_trans)

lemma trim_space_Nil [simp]: "trim_space [] = []"
  using length_trim_space [of "[]"] by simp

section \<open>Little-endian numbers\<close>

lemma nat_bit_above: "(a :: nat) < 2 ^ n \<Longrightarrow> n \<le> m \<Longrightarrow> \<not> bit a m"
proof -
  assume "a < 2 ^ n" "n \<le> m"
  then have "bit a m = bit (take_bit n a) m"
    by (simp add: take_bit_nat_eq_self)
  with \<open>n \<le> m\<close> show ?thesis by (simp add: bit_take_bit_iff)
qed

lemma nat_or_push_bit: "(a :: nat) < 2 ^ n \<Longrightarrow> a OR push_bit n b = a + b * 2 ^ n"
proof -
  assume a: "a < 2 ^ n"
  have "a AND push_bit n b = 0"
  proof (rule bit_eqI)
    fix m
    show "bit (a AND push_bit n b) m = bit 0 m"
      using nat_bit_above [OF a, of m] by (cases "n \<le> m") (simp_all add: bit_and_iff bit_push_bit_iff)
  qed
  then have "a + push_bit n b = a OR push_bit n b"
    by (rule disjunctive_add_eq_or)
  then show ?thesis
    by (simp add: push_bit_eq_mult)
qed

fun le_val :: "byte list \<Rightarrow> nat" where
  "le_val [] = 0"
| "le_val (b # bs) = unat b + 256 * le_val bs"

fun le_bytes :: "nat \<Rightarrow> nat \<Rightarrow> byte list" where
  "le_bytes 0 v = []"
| "le_bytes (Suc n) v = word_of_nat v # le_bytes n (v div 256)"

lemma length_le_bytes [simp]: "length (le_bytes n v) = n"
  by (induction n arbitrary: v) auto

lemma le_val_less: "le_val bs < 256 ^ length bs"
proof (induction bs)
  case (Cons b bs)
  then have "le_val bs + 1 \<le> 256 ^ length bs" by simp
  then have "256 * (le_val bs + 1) \<le> 256 * 256 ^ length bs" by (rule mult_le_mono2)
  moreover have "x < 256 \<Longrightarrow> 256 * (y + 1) \<le> z \<Longrightarrow> x + 256 * y < z" for x y z :: nat
    by simp
  ultimately have "unat b + 256 * le_val bs < 256 * 256 ^ length bs"
    using unat_byte_less by blast
  then show ?case by simp
qed simp

lemma le_val_le_bytes: "le_val (le_bytes n v) = v mod 256 ^ n"
proof (induction n arbitrary: v)
  case (Suc n)
  have "v mod (256 * 256 ^ n) = 256 * (v div 256 mod 256 ^ n) + v mod 256"
    by (rule mod_mult2_eq)
  moreover have "unat (word_of_nat v :: byte) = v mod 256"
    by (simp add: unat_of_nat)
  ultimately show ?case using Suc [of "v div 256"] by simp
qed simp

lemma le_bytes_le_val: "le_bytes (length bs) (le_val bs) = bs"
proof (induction bs)
  case (Cons b bs)
  have "(unat b + 256 * le_val bs) div 256 = le_val bs" by simp
  moreover have "(word_of_nat (unat b + 256 * le_val bs) :: byte) = b"
  proof -
    have "unat (word_of_nat (unat b + 256 * le_val bs) :: byte) = (unat b + 256 * le_val bs) mod 256"
      by (simp only: unat_of_nat len_num0 len_num1 len_bit0 len_bit1) simp
    then show ?thesis by (simp only: word_unat_eq_iff) simp
  qed
  ultimately show ?case using Cons by simp
qed simp

lemma le_bytes_inject: "v < 256 ^ n \<Longrightarrow> w < 256 ^ n \<Longrightarrow> le_bytes n v = le_bytes n w \<longleftrightarrow> v = w"
  by (metis le_val_le_bytes mod_less)

lemma le_bytes_word_inject [simp]:
  "le_bytes 2 (unat (a :: u16)) = le_bytes 2 (unat b) \<longleftrightarrow> a = b"
  "le_bytes 4 (unat (c :: u32)) = le_bytes 4 (unat d) \<longleftrightarrow> c = d"
  "le_bytes 8 (unat (e :: u64)) = le_bytes 8 (unat f) \<longleftrightarrow> e = f"
  using unsigned_less [of a, where 'a = nat] unsigned_less [of b, where 'a = nat] unsigned_less [of c, where 'a = nat]
    unsigned_less [of d, where 'a = nat] unsigned_less [of e, where 'a = nat] unsigned_less [of f, where 'a = nat]
  by (simp_all add: le_bytes_inject word_unat_eq_iff)

lemma le_val_append: "le_val (xs @ ys) = le_val xs + 256 ^ length xs * le_val ys"
  by (induction xs) (simp_all add: algebra_simps)

section \<open>Uniquely decodable encodings\<close>

text \<open>
  The contract of a byte encoding that can be followed by anything: two encodings that start
  equal byte strings encode the same value and leave the same rest. It is what makes a
  concatenation of encoded fields collision free.
\<close>

locale prefix_code =
  fixes valid :: "'a \<Rightarrow> bool" and enc :: "'a \<Rightarrow> 'b list"
  assumes unique: "valid x \<Longrightarrow> valid y \<Longrightarrow> enc x @ r = enc y @ s \<Longrightarrow> x = y \<and> r = s"
begin

lemma inject: "valid x \<Longrightarrow> valid y \<Longrightarrow> enc x = enc y \<longleftrightarrow> x = y"
  using unique [of x y "[]" "[]"] by (metis append_Nil2)

lemma append_inject:
  "valid x \<Longrightarrow> valid y \<Longrightarrow> enc x @ r = enc y @ s \<longleftrightarrow> x = y \<and> r = s"
  using unique [of x y r s] by metis

lemma fields_inject:
  "length xs = length ys \<Longrightarrow> list_all valid xs \<Longrightarrow> list_all valid ys \<Longrightarrow>
   concat (map enc xs) @ r = concat (map enc ys) @ s \<longleftrightarrow> xs = ys \<and> r = s"
proof (induction xs ys rule: list_induct2)
  case (Cons x xs y ys)
  have "valid x" "valid y" "list_all valid xs" "list_all valid ys" using Cons.prems by simp_all
  then have "enc x @ (concat (map enc xs) @ r) = enc y @ (concat (map enc ys) @ s) \<longleftrightarrow>
      x = y \<and> xs = ys \<and> r = s"
    using append_inject Cons.IH by metis
  then show ?case by simp
qed simp

end

text \<open>The stronger contract of an encoding that comes with a decoder of its first value.\<close>

locale prefix_decoder =
  fixes valid :: "'a \<Rightarrow> bool" and enc :: "'a \<Rightarrow> 'b list"
    and dec :: "'b list \<Rightarrow> ('a \<times> 'b list) option"
  assumes dec_enc: "valid x \<Longrightarrow> dec (enc x @ r) = Some (x, r)"

sublocale prefix_decoder \<subseteq> prefix_code valid enc
proof unfold_locales
  fix x y r s
  assume v: "valid x" "valid y" and eq: "enc x @ r = enc y @ s"
  have "dec (enc x @ r) = Some (x, r)" using v(1) by (rule dec_enc)
  moreover have "dec (enc x @ r) = Some (y, s)" unfolding eq using v(2) by (rule dec_enc)
  ultimately show "x = y \<and> r = s" by simp
qed

end
