(* ===== verification/MySQL_Wire.thy ===== *)
theory MySQL_Wire
  imports QS_Prelude
begin

text \<open>
  The byte level of the MySQL front door (\<^verbatim>\<open>qsmysql\<close>): packet framing
  (\<^verbatim>\<open>packet.go\<close>, \<^verbatim>\<open>stream.go\<close>), little-endian integers and length-encoded integers and
  strings (\<^verbatim>\<open>resultset.go\<close>, \<^verbatim>\<open>prepared.go\<close>, \<^verbatim>\<open>handshake.go\<close>, \<^verbatim>\<open>handshake_response.go\<close>).
  Decoders return \<open>Inl Panic\<close> where the Go code would index or slice out of range.
\<close>

section \<open>Definitions\<close>

subsection \<open>Little-endian integers\<close>

definition appendUint16LE :: "byte list \<Rightarrow> u16 \<Rightarrow> byte list" where
  "appendUint16LE out value = out @ [ucast value, ucast (drop_bit 8 value)]"

definition appendUint32LE :: "byte list \<Rightarrow> u32 \<Rightarrow> byte list" where
  "appendUint32LE out value =
     out @ [ucast value, ucast (drop_bit 8 value), ucast (drop_bit 16 value), ucast (drop_bit 24 value)]"

definition appendUint64LE :: "byte list \<Rightarrow> u64 \<Rightarrow> byte list" where
  "appendUint64LE out value =
     out @ [ucast value, ucast (drop_bit 8 value), ucast (drop_bit 16 value), ucast (drop_bit 24 value),
            ucast (drop_bit 32 value), ucast (drop_bit 40 value), ucast (drop_bit 48 value),
            ucast (drop_bit 56 value)]"

fun readUint16LE :: "byte list \<Rightarrow> ('e, u16) res" where
  "readUint16LE (d0 # d1 # _) = Inr (ucast d0 OR push_bit 8 (ucast d1))"
| "readUint16LE _ = Inl Panic"

fun readUint32LE :: "byte list \<Rightarrow> ('e, u32) res" where
  "readUint32LE (d0 # d1 # d2 # d3 # _) =
     Inr (ucast d0 OR push_bit 8 (ucast d1) OR push_bit 16 (ucast d2) OR push_bit 24 (ucast d3))"
| "readUint32LE _ = Inl Panic"

fun readUint64LE :: "byte list \<Rightarrow> ('e, u64) res" where
  "readUint64LE (d0 # d1 # d2 # d3 # d4 # d5 # d6 # d7 # _) =
     Inr (ucast d0 OR push_bit 8 (ucast d1) OR push_bit 16 (ucast d2) OR push_bit 24 (ucast d3) OR
          push_bit 32 (ucast d4) OR push_bit 40 (ucast d5) OR push_bit 48 (ucast d6) OR
          push_bit 56 (ucast d7))"
| "readUint64LE _ = Inl Panic"

subsection \<open>Length-encoded integers and strings\<close>

definition appendLengthEncodedInteger :: "byte list \<Rightarrow> u64 \<Rightarrow> byte list" where
  "appendLengthEncodedInteger out value =
     (if value < 251 then out @ [ucast value]
      else if value \<le> 0xffff then out @ [0xfc, ucast value, ucast (drop_bit 8 value)]
      else if value \<le> 0xffffff then
        out @ [0xfd, ucast value, ucast (drop_bit 8 value), ucast (drop_bit 16 value)]
      else appendUint64LE (out @ [0xfe]) value)"

definition encodeLengthEncodedInteger :: "u64 \<Rightarrow> byte list" where
  "encodeLengthEncodedInteger value = appendLengthEncodedInteger [] value"

definition appendLengthEncodedString :: "byte list \<Rightarrow> string \<Rightarrow> byte list" where
  "appendLengthEncodedString out value =
     appendLengthEncodedInteger out (word_of_nat (length value)) @ bytes_of_string value"

text \<open>The third Go result, \<^verbatim>\<open>ok\<close>, is the \<open>option\<close>: \<open>None\<close> is \<^verbatim>\<open>ok == false\<close>.\<close>

definition readLengthEncodedInteger :: "byte list \<Rightarrow> nat \<Rightarrow> ('e, (u64 \<times> nat) option) res" where
  "readLengthEncodedInteger data offset =
     (if offset \<ge> length data then Inr None
      else bindR (idx data offset) (\<lambda>first.
        if first = 0xfc then
          (if offset + 3 > length data then Inr None
           else bindR (slice data (offset + 1) (offset + 3)) (\<lambda>d.
                bindR (readUint16LE d) (\<lambda>v. Inr (Some (ucast v, offset + 3)))))
        else if first = 0xfd then
          (if offset + 4 > length data then Inr None
           else bindR (idx data (offset + 1)) (\<lambda>d1. bindR (idx data (offset + 2)) (\<lambda>d2.
                bindR (idx data (offset + 3)) (\<lambda>d3.
                  Inr (Some (ucast d1 OR push_bit 8 (ucast d2) OR push_bit 16 (ucast d3), offset + 4))))))
        else if first = 0xfe then
          (if offset + 9 > length data then Inr None
           else bindR (slice data (offset + 1) (offset + 9)) (\<lambda>d.
                bindR (readUint64LE d) (\<lambda>v. Inr (Some (v, offset + 9)))))
        else if first \<ge> 0xfb then Inr None
        else Inr (Some (ucast first, offset + 1))))"

definition readLengthEncodedBytes :: "byte list \<Rightarrow> nat \<Rightarrow> ('e, (byte list \<times> nat) option) res" where
  "readLengthEncodedBytes data offset =
     bindR (readLengthEncodedInteger data offset) (\<lambda>r.
       case r of
         None \<Rightarrow> Inr None
       | Some (len, next) \<Rightarrow>
           if len > word_of_nat (length data - next) then Inr None
           else bindR (slice data next (next + unat len)) (\<lambda>d. Inr (Some (d, next + unat len))))"

definition readNullTerminatedBytes :: "byte list \<Rightarrow> nat \<Rightarrow> (byte list \<times> nat) option" where
  "readNullTerminatedBytes data offset =
     (if offset > length data then None
      else case List.find (\<lambda>i. data ! i = 0) [offset ..< length data] of
             None \<Rightarrow> None
           | Some i \<Rightarrow> Some (take (i - offset) (drop offset data), i + 1))"

definition readNullTerminatedString :: "byte list \<Rightarrow> nat \<Rightarrow> (string \<times> nat) option" where
  "readNullTerminatedString data offset =
     map_option (\<lambda>(raw, next). (string_of_bytes raw, next)) (readNullTerminatedBytes data offset)"

subsection \<open>Packets\<close>

definition MaxPayloadLength :: nat where
  "MaxPayloadLength = 2 ^ 24 - 1"

definition PacketHeaderLength :: nat where
  "PacketHeaderLength = 4"

record Packet =
  SequenceID :: byte
  Payload :: "byte list"

datatype packet_error =
    PayloadTooLong nat
  | PacketTooShort nat
  | PayloadLengthMismatch nat nat
  | ContextError
  | NilReader
  | NilWriter
  | EOF
  | UnexpectedEOF
  | WriteFailed
  | ErrShortWrite

definition EncodePacket :: "Packet \<Rightarrow> (packet_error, byte list) res" where
  "EncodePacket packet =
     (if length (Payload packet) > MaxPayloadLength
      then Inl (Err (PayloadTooLong (length (Payload packet))))
      else let len = length (Payload packet) in
        Inr ([word_of_nat len, word_of_nat (drop_bit 8 len), word_of_nat (drop_bit 16 len),
              SequenceID packet] @ Payload packet))"

definition DecodePacket :: "byte list \<Rightarrow> (packet_error, Packet) res" where
  "DecodePacket data =
     (if length data < PacketHeaderLength then Inl (Err (PacketTooShort (length data)))
      else bindR (idx data 0) (\<lambda>d0. bindR (idx data 1) (\<lambda>d1. bindR (idx data 2) (\<lambda>d2.
        let len = unat d0 OR push_bit 8 (unat d1) OR push_bit 16 (unat d2) in
        if length data - PacketHeaderLength \<noteq> len
        then Inl (Err (PayloadLengthMismatch len (length data - PacketHeaderLength)))
        else bindR (slice data PacketHeaderLength (length data)) (\<lambda>payload.
             bindR (idx data 3) (\<lambda>d3.
               Inr \<lparr>SequenceID = d3, Payload = payload\<rparr>))))))"

subsection \<open>Packet streams\<close>

text \<open>
  The reader of a \<^verbatim>\<open>Stream\<close> is the bytes that have yet to arrive before the peer closes;
  \<^verbatim>\<open>io.ReadFull\<close> takes the next \<open>n\<close> of them, fails with \<^verbatim>\<open>EOF\<close> when there is none and with
  \<^verbatim>\<open>ErrUnexpectedEOF\<close> when there are fewer. The writer is a parameter: given its state and the
  bytes it returns the number of bytes written, whether it failed, and its new state.
\<close>

definition ReadFull :: "byte list \<Rightarrow> nat \<Rightarrow> (packet_error, byte list \<times> byte list) res" where
  "ReadFull rd n =
     (if n = 0 then Inr ([], rd)
      else if rd = [] then Inl (Err EOF)
      else if length rd < n then Inl (Err UnexpectedEOF)
      else Inr (take n rd, drop n rd))"

definition ReadPacket :: "bool \<Rightarrow> byte list option \<Rightarrow> (packet_error, Packet \<times> byte list) res" where
  "ReadPacket ctxErr reader =
     (if ctxErr then Inl (Err ContextError)
      else case reader of
        None \<Rightarrow> Inl (Err NilReader)
      | Some rd \<Rightarrow>
          bindR (ReadFull rd PacketHeaderLength) (\<lambda>(header, rd).
          bindR (idx header 0) (\<lambda>h0. bindR (idx header 1) (\<lambda>h1. bindR (idx header 2) (\<lambda>h2.
            let len = unat h0 OR push_bit 8 (unat h1) OR push_bit 16 (unat h2) in
            bindR (ReadFull rd len) (\<lambda>(payload, rd).
            bindR (idx header 3) (\<lambda>h3.
              Inr (\<lparr>SequenceID = h3, Payload = payload\<rparr>, rd))))))))"

definition WritePacket ::
  "('w \<Rightarrow> byte list \<Rightarrow> nat \<times> bool \<times> 'w) \<Rightarrow> bool \<Rightarrow> 'w option \<Rightarrow> Packet \<Rightarrow> (packet_error, unit) res \<times> 'w option" where
  "WritePacket put ctxErr writer packet =
     (if ctxErr then (Inl (Err ContextError), writer)
      else case writer of
        None \<Rightarrow> (Inl (Err NilWriter), writer)
      | Some w \<Rightarrow>
          (case EncodePacket packet of
             Inl e \<Rightarrow> (Inl e, writer)
           | Inr encoded \<Rightarrow>
               (case put w encoded of (written, failed, w') \<Rightarrow>
                  if failed then (Inl (Err WriteFailed), Some w')
                  else if written \<noteq> length encoded then (Inl (Err ErrShortWrite), Some w')
                  else (Inr (), Some w'))))"

fun writeResponsePackets ::
  "('w \<Rightarrow> byte list \<Rightarrow> nat \<times> bool \<times> 'w) \<Rightarrow> bool \<Rightarrow> 'w option \<Rightarrow> Packet list \<Rightarrow> (packet_error, unit) res \<times> 'w option" where
  "writeResponsePackets put ctxErr writer [] = (Inr (), writer)"
| "writeResponsePackets put ctxErr writer (p # ps) =
     (case WritePacket put ctxErr writer p of
        (Inl e, writer') \<Rightarrow> (Inl e, writer')
      | (Inr _, writer') \<Rightarrow> writeResponsePackets put ctxErr writer' ps)"

section \<open>Little-endian lemmas\<close>

lemma unat_ucast_byte:
  "8 \<le> LENGTH('a :: len) \<Longrightarrow> unat (ucast (b :: byte) :: 'a word) = unat b"
proof -
  assume "8 \<le> LENGTH('a)"
  then have "(2 :: nat) ^ 8 \<le> 2 ^ LENGTH('a)" by (intro power_increasing) simp_all
  then have "unat b < 2 ^ LENGTH('a)" using unat_byte_less [of b] by (simp del: unat_byte_less)
  then show ?thesis by (simp add: unsigned_ucast_eq take_bit_nat_eq_self)
qed

text \<open>One more byte on top of the \<open>n\<close> low bits collected so far.\<close>

lemma or_push_byte:
  fixes x :: "'a :: len word"
  assumes x: "unat x < 2 ^ n" and n: "n + 8 \<le> LENGTH('a)"
  shows "unat (x OR push_bit n (ucast (b :: byte))) = unat x + unat b * 2 ^ n"
    and "unat (x OR push_bit n (ucast (b :: byte))) < 2 ^ (n + 8)"
proof -
  have le: "(2 :: nat) ^ (n + 8) \<le> 2 ^ LENGTH('a)" using n by (intro power_increasing) simp_all
  have "unat b + 1 \<le> 256" using unat_byte_less [of b] by linarith
  then have "(unat b + 1) * 2 ^ n \<le> 256 * 2 ^ n" by (rule mult_le_mono1)
  then have step: "unat b * 2 ^ n + 2 ^ n \<le> 2 ^ (n + 8)" by (simp add: power_add)
  with le x have lt: "unat b * 2 ^ n < 2 ^ LENGTH('a)" by linarith
  have "unat (push_bit n (ucast b :: 'a word)) = take_bit LENGTH('a) (push_bit n (unat b))"
    using n by (simp only: unsigned_push_bit_eq unat_ucast_byte)
  also have "\<dots> = push_bit n (unat b)"
    using lt by (intro take_bit_nat_eq_self) (simp add: push_bit_eq_mult)
  finally have "unat (x OR push_bit n (ucast b)) = unat x OR push_bit n (unat b)"
    by (simp only: unsigned_or_eq)
  then show eq: "unat (x OR push_bit n (ucast b)) = unat x + unat b * 2 ^ n"
    using nat_or_push_bit [OF x] by simp
  show "unat (x OR push_bit n (ucast b)) < 2 ^ (n + 8)"
    unfolding eq using step x by linarith
qed

lemma readUint16LE_val: "readUint16LE (d0 # d1 # r) = Inr v \<Longrightarrow> unat v = le_val [d0, d1]"
proof -
  assume v: "readUint16LE (d0 # d1 # r) = Inr v"
  have a: "unat (ucast d0 :: u16) < 2 ^ 8" by (simp add: unat_ucast_byte)
  note s1 = or_push_byte [OF a, where b = d1]
  from v show ?thesis by (auto simp: s1 unat_ucast_byte)
qed

lemma readUint32LE_val:
  "readUint32LE (d0 # d1 # d2 # d3 # r) = Inr v \<Longrightarrow> unat v = le_val [d0, d1, d2, d3]"
proof -
  assume v: "readUint32LE (d0 # d1 # d2 # d3 # r) = Inr v"
  let ?x0 = "ucast d0 :: u32"
  let ?x1 = "?x0 OR push_bit 8 (ucast d1)"
  let ?x2 = "?x1 OR push_bit 16 (ucast d2)"
  let ?x3 = "?x2 OR push_bit 24 (ucast d3)"
  have b0: "unat ?x0 < 2 ^ 8" by (simp add: unat_ucast_byte)
  have e1: "unat ?x1 = unat ?x0 + unat d1 * 2 ^ 8" and b1: "unat ?x1 < 2 ^ 16"
    using or_push_byte [OF b0, of d1] by simp_all
  have e2: "unat ?x2 = unat ?x1 + unat d2 * 2 ^ 16" and b2: "unat ?x2 < 2 ^ 24"
    using or_push_byte [OF b1, of d2] by simp_all
  have e3: "unat ?x3 = unat ?x2 + unat d3 * 2 ^ 24" and b3: "unat ?x3 < 2 ^ 32"
    using or_push_byte [OF b2, of d3] by simp_all
  from v have "v = ?x3" by (simp only: readUint32LE.simps sum.inject or.assoc)
  then have "unat v = unat ?x3" by (rule arg_cong)
  then show ?thesis unfolding e3 e2 e1 by (simp add: unat_ucast_byte)
qed

lemma readUint64LE_val:
  "readUint64LE (d0 # d1 # d2 # d3 # d4 # d5 # d6 # d7 # r) = Inr v \<Longrightarrow> unat v = le_val [d0, d1, d2, d3, d4, d5, d6, d7]"
proof -
  assume v: "readUint64LE (d0 # d1 # d2 # d3 # d4 # d5 # d6 # d7 # r) = Inr v"
  let ?x0 = "ucast d0 :: u64"
  let ?x1 = "?x0 OR push_bit 8 (ucast d1)"
  let ?x2 = "?x1 OR push_bit 16 (ucast d2)"
  let ?x3 = "?x2 OR push_bit 24 (ucast d3)"
  let ?x4 = "?x3 OR push_bit 32 (ucast d4)"
  let ?x5 = "?x4 OR push_bit 40 (ucast d5)"
  let ?x6 = "?x5 OR push_bit 48 (ucast d6)"
  let ?x7 = "?x6 OR push_bit 56 (ucast d7)"
  have b0: "unat ?x0 < 2 ^ 8" by (simp add: unat_ucast_byte)
  have e1: "unat ?x1 = unat ?x0 + unat d1 * 2 ^ 8" and b1: "unat ?x1 < 2 ^ 16"
    using or_push_byte [OF b0, of d1] by simp_all
  have e2: "unat ?x2 = unat ?x1 + unat d2 * 2 ^ 16" and b2: "unat ?x2 < 2 ^ 24"
    using or_push_byte [OF b1, of d2] by simp_all
  have e3: "unat ?x3 = unat ?x2 + unat d3 * 2 ^ 24" and b3: "unat ?x3 < 2 ^ 32"
    using or_push_byte [OF b2, of d3] by simp_all
  have e4: "unat ?x4 = unat ?x3 + unat d4 * 2 ^ 32" and b4: "unat ?x4 < 2 ^ 40"
    using or_push_byte [OF b3, of d4] by simp_all
  have e5: "unat ?x5 = unat ?x4 + unat d5 * 2 ^ 40" and b5: "unat ?x5 < 2 ^ 48"
    using or_push_byte [OF b4, of d5] by simp_all
  have e6: "unat ?x6 = unat ?x5 + unat d6 * 2 ^ 48" and b6: "unat ?x6 < 2 ^ 56"
    using or_push_byte [OF b5, of d6] by simp_all
  have e7: "unat ?x7 = unat ?x6 + unat d7 * 2 ^ 56" and b7: "unat ?x7 < 2 ^ 64"
    using or_push_byte [OF b6, of d7] by simp_all
  from v have "v = ?x7" by (simp only: readUint64LE.simps sum.inject or.assoc)
  then have "unat v = unat ?x7" by (rule arg_cong)
  then show ?thesis unfolding e7 e6 e5 e4 e3 e2 e1 by (simp add: unat_ucast_byte)
qed

lemma word_of_nat_div:
  "(word_of_nat (unat (v :: 'a :: len word) div 2 ^ n) :: byte) = ucast (drop_bit n v)"
proof -
  have "unat (drop_bit n v) = drop_bit n (unat v)" by (rule unat_drop_bit_eq)
  also have "\<dots> = unat v div 2 ^ n" by (rule drop_bit_eq_div)
  finally show ?thesis by (metis of_nat_unat)
qed

lemma le_bytes_map: "le_bytes n v = map (\<lambda>i. word_of_nat (v div 2 ^ (8 * i))) [0 ..< n]"
proof (induction n arbitrary: v)
  case (Suc n)
  have "le_bytes (Suc n) v = word_of_nat v # map (\<lambda>i. word_of_nat (v div 2 ^ (8 * Suc i))) [0 ..< n]"
    by (simp add: Suc power_add div_mult2_eq)
  also have "\<dots> = word_of_nat v # map (\<lambda>i. word_of_nat (v div 2 ^ (8 * i))) [Suc 0 ..< Suc n]"
    unfolding map_Suc_upt [symmetric] map_map comp_def ..
  also have "\<dots> = map (\<lambda>i. word_of_nat (v div 2 ^ (8 * i))) [0 ..< Suc n]"
    by (subst (2) upt_conv_Cons) simp_all
  finally show ?case .
qed simp

lemma le_bytes_word: "le_bytes n (unat v) = map (\<lambda>i. ucast (drop_bit (8 * i) v)) [0 ..< n]"
  by (simp only: le_bytes_map word_of_nat_div)

lemma appendUint16LE_bytes [le_simps]: "appendUint16LE out v = out @ le_bytes 2 (unat v)"
  by (simp add: appendUint16LE_def le_bytes_word upt_rec)

lemma appendUint32LE_bytes [le_simps]: "appendUint32LE out v = out @ le_bytes 4 (unat v)"
  by (simp add: appendUint32LE_def le_bytes_word upt_rec)

lemma appendUint64LE_bytes [le_simps]: "appendUint64LE out v = out @ le_bytes 8 (unat v)"
  by (simp add: appendUint64LE_def le_bytes_word upt_rec)

lemma list2: "length xs = 2 \<Longrightarrow> \<exists>a b. xs = [a, b]"
  by (auto simp: numeral_eq_Suc length_Suc_conv)

lemma list4: "length xs = 4 \<Longrightarrow> \<exists>a b c d. xs = [a, b, c, d]"
  by (auto simp: numeral_eq_Suc length_Suc_conv)

lemma list8: "length xs = 8 \<Longrightarrow> \<exists>a b c d e f g h. xs = [a, b, c, d, e, f, g, h]"
  by (auto simp: numeral_eq_Suc length_Suc_conv)

lemma readUint16LE_le_val: "length xs = 2 \<Longrightarrow> \<exists>v. readUint16LE (xs @ r) = Inr v \<and> unat v = le_val xs"
  using list2 [of xs] readUint16LE_val by fastforce

lemma readUint32LE_le_val: "length xs = 4 \<Longrightarrow> \<exists>v. readUint32LE (xs @ r) = Inr v \<and> unat v = le_val xs"
  using list4 [of xs] readUint32LE_val by fastforce

lemma readUint64LE_le_val: "length xs = 8 \<Longrightarrow> \<exists>v. readUint64LE (xs @ r) = Inr v \<and> unat v = le_val xs"
  using list8 [of xs] readUint64LE_val by fastforce

lemma readUint16LE_le_bytes [le_simps]: "readUint16LE (le_bytes 2 v @ r) = Inr (word_of_nat v)"
proof -
  obtain w :: u16 where w: "readUint16LE (le_bytes 2 v @ r) = (Inr w :: ('a, u16) res)"
      "unat w = le_val (le_bytes 2 v)"
    using readUint16LE_le_val [of "le_bytes 2 v" r] by auto
  then have "unat w = v mod 2 ^ 16" by (simp add: le_val_le_bytes)
  then have "w = word_of_nat v" by (simp add: word_unat_eq_iff unat_of_nat)
  with w show ?thesis by simp
qed

lemma readUint32LE_le_bytes [le_simps]: "readUint32LE (le_bytes 4 v @ r) = Inr (word_of_nat v)"
proof -
  obtain w :: u32 where w: "readUint32LE (le_bytes 4 v @ r) = (Inr w :: ('a, u32) res)"
      "unat w = le_val (le_bytes 4 v)"
    using readUint32LE_le_val [of "le_bytes 4 v" r] by auto
  then have "unat w = v mod 2 ^ 32" by (simp add: le_val_le_bytes)
  then have "w = word_of_nat v" by (simp add: word_unat_eq_iff unat_of_nat)
  with w show ?thesis by simp
qed

lemma readUint64LE_le_bytes [le_simps]: "readUint64LE (le_bytes 8 v @ r) = Inr (word_of_nat v)"
proof -
  obtain w :: u64 where w: "readUint64LE (le_bytes 8 v @ r) = (Inr w :: ('a, u64) res)"
      "unat w = le_val (le_bytes 8 v)"
    using readUint64LE_le_val [of "le_bytes 8 v" r] by auto
  then have "unat w = v mod 2 ^ 64" by (simp add: le_val_le_bytes)
  then have "w = word_of_nat v" by (simp add: word_unat_eq_iff unat_of_nat)
  with w show ?thesis by simp
qed

lemma readUint16LE_no_panic: "2 \<le> length xs \<Longrightarrow> \<exists>v. readUint16LE xs = Inr v"
  using readUint16LE_le_val [of "take 2 xs" "drop 2 xs"] by auto

lemma readUint32LE_no_panic: "4 \<le> length xs \<Longrightarrow> \<exists>v. readUint32LE xs = Inr v"
  using readUint32LE_le_val [of "take 4 xs" "drop 4 xs"] by auto

lemma readUint64LE_no_panic: "8 \<le> length xs \<Longrightarrow> \<exists>v. readUint64LE xs = Inr v"
  using readUint64LE_le_val [of "take 8 xs" "drop 8 xs"] by auto

lemma readUint_le_bytes_exact [le_simps]:
  "readUint16LE (le_bytes 2 v) = Inr (word_of_nat v)" "readUint32LE (le_bytes 4 v) = Inr (word_of_nat v)"
  "readUint64LE (le_bytes 8 v) = Inr (word_of_nat v)"
  using readUint16LE_le_bytes [of v "[]"] readUint32LE_le_bytes [of v "[]"] readUint64LE_le_bytes [of v "[]"]
  unfolding append_Nil2 by blast+

lemma readUint16LE_iff:
  assumes len: "length xs = 2"
  shows "readUint16LE xs = (Inr v :: ('e, u16) res) \<longleftrightarrow> xs = le_bytes 2 (unat v)"
proof
  assume r: "readUint16LE xs = (Inr v :: ('e, u16) res)"
  obtain a b where xs: "xs = [a, b]" using list2 [OF len] by blast
  have "unat v = le_val xs" using readUint16LE_val [of a b "[]" v] r unfolding xs by blast
  then show "xs = le_bytes 2 (unat v)" using le_bytes_le_val [of xs] len by simp
qed (simp add: readUint_le_bytes_exact)

lemma readUint32LE_iff:
  assumes len: "length xs = 4"
  shows "readUint32LE xs = (Inr v :: ('e, u32) res) \<longleftrightarrow> xs = le_bytes 4 (unat v)"
proof
  assume r: "readUint32LE xs = (Inr v :: ('e, u32) res)"
  obtain a b c d where xs: "xs = [a, b, c, d]" using list4 [OF len] by blast
  have "unat v = le_val xs" using readUint32LE_val [of a b c d "[]" v] r unfolding xs by blast
  then show "xs = le_bytes 4 (unat v)" using le_bytes_le_val [of xs] len by simp
qed (simp add: readUint_le_bytes_exact)

lemma no_panic_read16 [no_panic_intros]: "2 \<le> length xs \<Longrightarrow> no_panic (readUint16LE xs)"
  by (cases xs rule: readUint16LE.cases) (simp_all add: no_panic_def)

lemma no_panic_read32 [no_panic_intros]: "4 \<le> length xs \<Longrightarrow> no_panic (readUint32LE xs)"
  by (cases xs rule: readUint32LE.cases) (simp_all add: no_panic_def)

lemma no_panic_read64 [no_panic_intros]: "8 \<le> length xs \<Longrightarrow> no_panic (readUint64LE xs)"
  by (cases xs rule: readUint64LE.cases) (simp_all add: no_panic_def)

section \<open>Length-encoded integers and strings\<close>

text \<open>The encoding by its leading byte and its little-endian tail.\<close>

lemma encode_cases:
  "encodeLengthEncodedInteger v =
     (if unat v < 251 then le_bytes 1 (unat v)
      else if unat v < 2 ^ 16 then 0xfc # le_bytes 2 (unat v)
      else if unat v < 2 ^ 24 then 0xfd # le_bytes 3 (unat v)
      else 0xfe # le_bytes 8 (unat v))"
proof -
  have "v < 251 \<longleftrightarrow> unat v < 251" "v \<le> 0xffff \<longleftrightarrow> unat v < 2 ^ 16" "v \<le> 0xffffff \<longleftrightarrow> unat v < 2 ^ 24"
    by (simp_all add: word_less_nat_alt word_le_nat_alt less_Suc_eq_le flip: numeral_eq_Suc) auto
  then show ?thesis
    by (simp add: encodeLengthEncodedInteger_def appendLengthEncodedInteger_def appendUint64LE_bytes)
       (simp add: le_bytes_word upt_rec)
qed

lemma read3_val:
  "unat (ucast d1 OR push_bit 8 (ucast d2) OR push_bit 16 (ucast d3) :: u64) = le_val [d1, d2, d3]"
proof -
  let ?x0 = "ucast d1 :: u64"
  let ?x1 = "?x0 OR push_bit 8 (ucast d2)"
  let ?x2 = "?x1 OR push_bit 16 (ucast d3)"
  have b0: "unat ?x0 < 2 ^ 8" by (simp add: unat_ucast_byte)
  have e1: "unat ?x1 = unat ?x0 + unat d2 * 2 ^ 8" and b1: "unat ?x1 < 2 ^ 16"
    using or_push_byte [OF b0, of d2] by simp_all
  have e2: "unat ?x2 = unat ?x1 + unat d3 * 2 ^ 16"
    using or_push_byte [OF b1, of d3] by simp_all
  show ?thesis unfolding or.assoc [symmetric] e2 e1 by (simp add: unat_ucast_byte)
qed

lemma read3_le_bytes:
  assumes "unat (v :: u64) < 2 ^ 24"
  shows "(ucast (ucast v :: byte) OR push_bit 8 (ucast (ucast (drop_bit 8 v) :: byte)) OR
          push_bit 16 (ucast (ucast (drop_bit 16 v) :: byte)) :: u64) = v"
proof -
  have "le_bytes 3 (unat v) = [ucast v, ucast (drop_bit 8 v), ucast (drop_bit 16 v)]"
    by (simp add: le_bytes_word upt_rec)
  then show ?thesis using le_val_le_bytes [of 3 "unat v"] assms
    by (simp only: word_unat_eq_iff read3_val) simp
qed

lemma le_bytes_1: "le_bytes 1 v = [word_of_nat v]" by simp

lemma readLengthEncodedInteger_encode:
  "readLengthEncodedInteger (pre @ encodeLengthEncodedInteger v @ rest) (length pre) =
     Inr (Some (v, length pre + length (encodeLengthEncodedInteger v)))"
proof -
  consider "unat v < 251" | "251 \<le> unat v" "unat v < 2 ^ 16" | "2 ^ 16 \<le> unat v" "unat v < 2 ^ 24"
    | "2 ^ 24 \<le> unat v" by linarith
  then show ?thesis
  proof cases
    case 1
    then have e: "encodeLengthEncodedInteger v = [ucast v]"
      by (simp add: encode_cases)
    have u: "unat (ucast v :: byte) = unat v"
      using 1 by (simp add: unsigned_ucast_eq take_bit_nat_eq_self)
    have "ucast v < (0xfb :: byte)" using 1 u by (simp add: word_less_nat_alt)
    moreover have "ucast (ucast v :: byte) = v"
      by (simp add: word_unat_eq_iff unat_ucast_byte u)
    ultimately show ?thesis unfolding e
      by (auto simp: readLengthEncodedInteger_def idx_def nth_append)
  next
    case 2
    then have e: "encodeLengthEncodedInteger v = 0xfc # le_bytes 2 (unat v)"
      by (simp add: encode_cases)
    have "ucast (word_of_nat (unat v) :: u16) = v" 
      using 2(2) by (simp add: word_unat_eq_iff unsigned_ucast_eq unsigned_take_bit_eq take_bit_nat_eq_self)
    then show ?thesis unfolding e
      by (simp add: readUint16LE_le_bytes [of "unat v" "[]", simplified] readLengthEncodedInteger_def idx_def slice_def nth_append)
  next
    case 3
    then have e: "encodeLengthEncodedInteger v = [0xfd, ucast v, ucast (drop_bit 8 v), ucast (drop_bit 16 v)]"
      by (simp add: encode_cases le_bytes_word upt_rec)
    show ?thesis unfolding e
      using read3_le_bytes [OF 3(2)]
      by (simp add: readLengthEncodedInteger_def idx_def nth_append)
  next
    case 4
    then have e: "encodeLengthEncodedInteger v = 0xfe # le_bytes 8 (unat v)"
      by (simp add: encode_cases)
    show ?thesis unfolding e
      by (simp add: readUint64LE_le_bytes [of "unat v" "[]", simplified] readLengthEncodedInteger_def idx_def slice_def nth_append)
  qed
qed

lemma readLengthEncodedInteger_no_panic: "readLengthEncodedInteger data offset \<noteq> Inl e"
proof
  assume "readLengthEncodedInteger data offset = Inl e"
  moreover have "offset + 3 \<le> length data \<Longrightarrow> \<exists>v. readUint16LE (take 2 (drop (offset + 1) data)) = (Inr v :: ('a, u16) res)"
    by (intro readUint16LE_no_panic) simp
  moreover have "offset + 9 \<le> length data \<Longrightarrow> \<exists>v. readUint64LE (take 8 (drop (offset + 1) data)) = (Inr v :: ('a, u64) res)"
    by (intro readUint64LE_no_panic) simp
  ultimately show False
    by (auto simp: readLengthEncodedInteger_def idx_def slice_def split: if_splits)
qed

lemma readLengthEncodedInteger_progress:
  "readLengthEncodedInteger data offset = Inr (Some (v, next)) \<Longrightarrow> offset < next \<and> next \<le> length data"
  by (auto simp: readLengthEncodedInteger_def bindR_Inr_iff idx_Inr_iff split: if_splits)

lemma readLengthEncodedInteger_total:
  "readLengthEncodedInteger data offset = (Inr None :: ('e, (u64 \<times> nat) option) res) \<or>
   (\<exists>v next. readLengthEncodedInteger data offset = (Inr (Some (v, next)) :: ('e, (u64 \<times> nat) option) res) \<and>
      offset < next \<and> next \<le> length data)"
proof (cases "readLengthEncodedInteger data offset :: ('e, (u64 \<times> nat) option) res")
  case (Inl e)
  then show ?thesis using readLengthEncodedInteger_no_panic by blast
next
  case (Inr r)
  then show ?thesis by (cases r) (auto dest: readLengthEncodedInteger_progress)
qed

lemma readLengthEncodedBytes_no_panic:
  assumes "length data < 2 ^ 64"
  shows "readLengthEncodedBytes data offset \<noteq> (Inl e :: ('e, (byte list \<times> nat) option) res)"
  using readLengthEncodedInteger_total [of data offset, where 'e = 'e]
proof (elim disjE exE conjE)
  fix len "next"
  assume r: "readLengthEncodedInteger data offset = (Inr (Some (len, next)) :: ('e, (u64 \<times> nat) option) res)"
    and le: "next \<le> length data"
  have "len \<le> word_of_nat (length data - next) \<Longrightarrow> next + unat len \<le> length data"
    using assms le by (simp add: word_le_nat_alt unat_of_nat del: of_nat_diff)
  with r show ?thesis by (auto simp: readLengthEncodedBytes_def slice_def not_less)
qed (simp add: readLengthEncodedBytes_def)

lemma no_panic_readLengthEncodedBytes [no_panic_intros]:
  "length data < 2 ^ 64 \<Longrightarrow> no_panic (readLengthEncodedBytes data offset)"
  using readLengthEncodedBytes_no_panic unfolding no_panic_def by metis

lemma readLengthEncodedBytes_progress:
  assumes "readLengthEncodedBytes data offset = (Inr (Some (v, next)) :: ('e, (byte list \<times> nat) option) res)"
  shows "offset < next \<and> next \<le> length data \<and> v = take (length v) (drop (next - length v) data)"
  using readLengthEncodedInteger_total [of data offset, where 'e = 'e] assms
  by (elim disjE exE conjE)
     (auto simp: readLengthEncodedBytes_def slice_def split: if_splits)

lemma appendLengthEncodedInteger_append:
  "appendLengthEncodedInteger out v = out @ encodeLengthEncodedInteger v"
  by (simp add: encodeLengthEncodedInteger_def appendLengthEncodedInteger_def appendUint64LE_def)

lemma appendLengthEncodedString_append:
  "appendLengthEncodedString out s = out @ appendLengthEncodedString [] s"
  by (simp add: appendLengthEncodedString_def appendLengthEncodedInteger_append)

lemma readLengthEncodedBytes_append:
  assumes "length s + length rest < 2 ^ 64"
  shows "readLengthEncodedBytes (pre @ appendLengthEncodedString [] s @ rest) (length pre) =
     Inr (Some (bytes_of_string s, length pre + length (appendLengthEncodedString [] s)))"
proof -
  have "unat (word_of_nat (length s) :: u64) = length s"
    "word_of_nat (length s) \<le> (word_of_nat (length s + length rest) :: u64)"
    using assms by (simp_all add: unat_of_nat word_le_nat_alt del: of_nat_add)
  moreover have "appendLengthEncodedString [] s = encodeLengthEncodedInteger (word_of_nat (length s)) @ bytes_of_string s"
    by (simp add: appendLengthEncodedString_def encodeLengthEncodedInteger_def)
  ultimately show ?thesis
    by (simp add: readLengthEncodedBytes_def slice_def not_less
        readLengthEncodedInteger_encode [of pre "word_of_nat (length s)" "bytes_of_string s @ rest"]
        del: of_nat_add)
qed

section \<open>Packets and streams\<close>

lemma packet_header_val:
  "unat d0 OR push_bit 8 (unat d1) OR push_bit 16 (unat d2) = le_val [d0, d1, d2]"
proof -
  have a: "unat d0 OR push_bit 8 (unat d1) = unat d0 + unat d1 * 2 ^ 8"
    by (rule nat_or_push_bit) simp
  have "unat d0 + unat d1 * 2 ^ 8 < 2 ^ 16"
    using le_val_less [of "[d0, d1]"] by simp
  then have "(unat d0 + unat d1 * 2 ^ 8) OR push_bit 16 (unat d2) = unat d0 + unat d1 * 2 ^ 8 + unat d2 * 2 ^ 16"
    by (rule nat_or_push_bit)
  then show ?thesis unfolding or.assoc [symmetric] a by simp
qed

lemma packet_header_bytes:
  "[word_of_nat len, word_of_nat (drop_bit 8 len), word_of_nat (drop_bit 16 len)] = le_bytes 3 len"
  by (simp add: le_bytes_map upt_rec drop_bit_eq_div)

lemma packet_header_len:
  "len \<le> MaxPayloadLength \<Longrightarrow>
   le_val [word_of_nat len, word_of_nat (drop_bit 8 len), word_of_nat (drop_bit 16 len)] = len"
  unfolding packet_header_bytes le_val_le_bytes by (simp add: MaxPayloadLength_def)

lemma EncodePacket_fits:
  "length (Payload p) \<le> MaxPayloadLength \<Longrightarrow>
   EncodePacket p = Inr (le_bytes 3 (length (Payload p)) @ SequenceID p # Payload p)"
  by (simp add: EncodePacket_def Let_def packet_header_bytes [symmetric])

lemma list4_prefix: "4 \<le> length xs \<Longrightarrow> \<exists>a b c d r. xs = a # b # c # d # r"
  using list4 [of "take 4 xs"] append_take_drop_id [of 4 xs] by (metis append_Cons append_Nil length_take min.absorb2)

lemma DecodePacket_Cons:
  "DecodePacket (a # b # c # d # r) =
     (if length r \<noteq> le_val [a, b, c] then Inl (Err (PayloadLengthMismatch (le_val [a, b, c]) (length r)))
      else Inr \<lparr>SequenceID = d, Payload = r\<rparr>)"
  by (simp add: DecodePacket_def PacketHeaderLength_def idx_def slice_def Let_def packet_header_val
           del: le_val.simps)

lemma ReadPacket_Cons:
  "ReadPacket False (Some (a # b # c # d # r)) =
     bindR (ReadFull r (le_val [a, b, c])) (\<lambda>(payload, rd). Inr (\<lparr>SequenceID = d, Payload = payload\<rparr>, rd))"
  by (simp add: ReadPacket_def ReadFull_def PacketHeaderLength_def idx_def Let_def packet_header_val
           del: le_val.simps)

text \<open>
  The contract of \<^verbatim>\<open>io.Writer\<close>: a write appends a prefix of its argument to what the peer will
  see and reports its length, and it reports an error when the prefix is not the whole argument.
\<close>

locale byte_sink =
  fixes put :: "'w \<Rightarrow> byte list \<Rightarrow> nat \<times> bool \<times> 'w" and received :: "'w \<Rightarrow> byte list"
  assumes appends: "put w bs = (n, failed, w') \<Longrightarrow> n \<le> length bs \<and> received w' = received w @ take n bs"
    and short_fails: "put w bs = (n, failed, w') \<Longrightarrow> n < length bs \<Longrightarrow> failed"
begin

lemma WritePacket_Inr:
  assumes "WritePacket put ctxErr (Some w) p = (Inr (), wr)"
  obtains w' enc where "wr = Some w'" "EncodePacket p = Inr enc" "received w' = received w @ enc"
proof (cases "EncodePacket p")
  case (Inl e)
  then show ?thesis using assms by (simp add: WritePacket_def split: if_splits)
next
  case (Inr enc)
  obtain n failed w' where w: "put w enc = (n, failed, w')" by (cases "put w enc") auto
  from assms Inr w have "n = length enc" "wr = Some w'"
    by (auto simp: WritePacket_def split: if_splits)
  with appends [OF w] Inr show ?thesis by (auto intro: that)
qed

lemma WritePacket_prefix:
  assumes "WritePacket put ctxErr (Some w) p = (r, wr)"
  obtains w' where "wr = Some w'" "\<exists>bs. received w' = received w @ bs"
proof (cases "EncodePacket p")
  case (Inl e)
  then show ?thesis using assms that by (auto simp: WritePacket_def split: if_splits)
next
  case (Inr enc)
  obtain n failed w' where w: "put w enc = (n, failed, w')" by (cases "put w enc") auto
  from assms Inr w show ?thesis using that appends [OF w]
    by (auto simp: WritePacket_def split: if_splits)
qed

lemma writeResponsePackets_received:
  "writeResponsePackets put ctxErr (Some w) ps = (Inr (), Some w') \<Longrightarrow>
   \<exists>encs. list_all2 (\<lambda>p enc. EncodePacket p = Inr enc) ps encs \<and> received w' = received w @ concat encs"
proof (induction ps arbitrary: w)
  case (Cons p ps)
  from Cons.prems obtain w1 enc where 1: "EncodePacket p = Inr enc" "received w1 = received w @ enc"
      "writeResponsePackets put ctxErr (Some w1) ps = (Inr (), Some w')"
    by (auto split: prod.splits sum.splits elim!: WritePacket_Inr)
  from Cons.IH [OF 1(3)] obtain encs where "list_all2 (\<lambda>p enc. EncodePacket p = Inr enc) ps encs"
      "received w' = received w1 @ concat encs" by blast
  with 1 have "list_all2 (\<lambda>p enc. EncodePacket p = Inr enc) (p # ps) (enc # encs) \<and>
      received w' = received w @ concat (enc # encs)" by simp
  then show ?case by blast
qed simp

end

text \<open>
  A connection that accepts a bounded number of further bytes before it fails, as a peer that
  closes does; \<open>room\<close> is how many.
\<close>

record conn =
  sent :: "byte list"
  room :: nat

definition conn_write :: "conn \<Rightarrow> byte list \<Rightarrow> nat \<times> bool \<times> conn" where
  "conn_write c bs =
     (let n = min (room c) (length bs) in
      (n, n < length bs, \<lparr>sent = sent c @ take n bs, room = room c - n\<rparr>))"

interpretation conn_sink: byte_sink conn_write sent
  by unfold_locales (auto simp: conn_write_def Let_def)

fun read_packets :: "nat \<Rightarrow> byte list \<Rightarrow> (packet_error, Packet list \<times> byte list) res" where
  "read_packets 0 rd = Inr ([], rd)"
| "read_packets (Suc n) rd =
     bindR (ReadPacket False (Some rd)) (\<lambda>(p, rd). bindR (read_packets n rd) (\<lambda>(ps, rd). Inr (p # ps, rd)))"

definition packet_size :: "Packet \<Rightarrow> nat" where
  "packet_size p = PacketHeaderLength + length (Payload p)"

lemma EncodePacket_Inr_iff:
  "EncodePacket p = Inr enc \<longleftrightarrow>
   length (Payload p) \<le> MaxPayloadLength \<and> enc = le_bytes 3 (length (Payload p)) @ SequenceID p # Payload p"
  using EncodePacket_fits [of p] by (auto simp: EncodePacket_def)

lemma le_bytes_3: "\<exists>a b c. le_bytes 3 v = [a, b, c]"
  by (simp add: le_bytes_map upt_rec)

lemma ReadPacket_encoded:
  assumes "EncodePacket p = Inr enc"
  shows "ReadPacket False (Some (enc @ rest)) = Inr (p, rest)"
proof -
  obtain a b c where abc: "le_bytes 3 (length (Payload p)) = [a, b, c]" using le_bytes_3 by blast
  from assms have fits: "length (Payload p) < 256 ^ 3" and enc: "enc = a # b # c # SequenceID p # Payload p"
    by (auto simp: EncodePacket_Inr_iff abc MaxPayloadLength_def)
  have "le_val [a, b, c] = length (Payload p)"
    using le_val_le_bytes [of 3 "length (Payload p)"] fits unfolding abc by simp
  then show ?thesis unfolding enc append_Cons ReadPacket_Cons
    by (auto simp: ReadFull_def simp del: le_val.simps)
qed

lemma read_packets_encoded:
  "list_all2 (\<lambda>p enc. EncodePacket p = Inr enc) ps encs \<Longrightarrow>
   read_packets (length ps) (concat encs @ rest) = Inr (ps, rest)"
  by (induction rule: list_all2_induct) (simp_all add: ReadPacket_encoded)

lemma conn_write_fits:
  assumes "length (Payload p) \<le> MaxPayloadLength" "packet_size p \<le> room c"
  shows "\<exists>c'. WritePacket conn_write False (Some c) p = (Inr (), Some c') \<and> room c' = room c - packet_size p"
  using assms
  by (auto simp: WritePacket_def EncodePacket_fits conn_write_def packet_size_def PacketHeaderLength_def Let_def)

lemma writeResponsePackets_room:
  "list_all (\<lambda>p. length (Payload p) \<le> MaxPayloadLength) ps \<Longrightarrow> sum_list (map packet_size ps) \<le> room c \<Longrightarrow>
   \<exists>c'. writeResponsePackets conn_write False (Some c) ps = (Inr (), Some c')"
proof (induction ps arbitrary: c)
  case (Cons p ps)
  then obtain c1 where c1: "WritePacket conn_write False (Some c) p = (Inr (), Some c1)" "room c1 = room c - packet_size p"
    using conn_write_fits [of p c] by auto
  moreover have "sum_list (map packet_size ps) \<le> room c1" using Cons.prems c1(2) by simp
  ultimately show ?case using Cons.IH [of c1] Cons.prems by simp
qed simp

section \<open>Properties\<close>

text \<open>C40: \<^verbatim>\<open>DecodePacket\<close> and \<^verbatim>\<open>EncodePacket\<close> are exact inverses: a byte string decodes to a packet
  if and only if it is what encoding that packet gives, so no two framings denote one packet and
  every accepted framing is canonical.\<close>

theorem DecodePacket_EncodePacket: "DecodePacket enc = Inr p \<longleftrightarrow> EncodePacket p = Inr enc"
proof
  assume dec: "DecodePacket enc = Inr p"
  then have "4 \<le> length enc" by (auto simp: DecodePacket_def PacketHeaderLength_def split: if_splits)
  then obtain a b c d r where enc: "enc = a # b # c # d # r" using list4_prefix by blast
  from dec have r: "length r = le_val [a, b, c]" and p: "p = \<lparr>SequenceID = d, Payload = r\<rparr>"
    unfolding enc DecodePacket_Cons by (auto split: if_splits)
  have "le_bytes 3 (length r) = [a, b, c]"
    using le_bytes_le_val [of "[a, b, c]"] unfolding r by (simp add: numeral_3_eq_3)
  moreover have "length r < 256 ^ 3"
    using le_val_less [of "[a, b, c]"] unfolding r by (simp add: numeral_3_eq_3)
  ultimately show "EncodePacket p = Inr enc"
    by (simp add: EncodePacket_Inr_iff p enc MaxPayloadLength_def)
next
  assume e: "EncodePacket p = Inr enc"
  obtain a b c where abc: "le_bytes 3 (length (Payload p)) = [a, b, c]" using le_bytes_3 by blast
  from e have "length (Payload p) < 256 ^ 3" "enc = a # b # c # SequenceID p # Payload p"
    by (auto simp: EncodePacket_Inr_iff abc MaxPayloadLength_def)
  moreover then have "le_val [a, b, c] = length (Payload p)"
    using le_val_le_bytes [of 3 "length (Payload p)"] unfolding abc by simp
  ultimately show "DecodePacket enc = Inr p" by (simp add: DecodePacket_Cons del: le_val.simps)
qed

text \<open>C39: a response written by \<^verbatim>\<open>writeResponsePackets\<close> reaches the peer intact. When every payload
  fits a packet and the connection takes the bytes, the call succeeds, it appends only to what was
  already sent, and reading as many packets from the appended bytes gives back the same packets
  and leaves exactly what followed them.\<close>

theorem writeResponsePackets_read_back:
  assumes "list_all (\<lambda>p. length (Payload p) \<le> MaxPayloadLength) ps"
    and "sum_list (map packet_size ps) \<le> room c"
  shows "\<exists>c' bs. writeResponsePackets conn_write False (Some c) ps = (Inr (), Some c') \<and>
     sent c' = sent c @ bs \<and> (\<forall>rest. read_packets (length ps) (bs @ rest) = Inr (ps, rest))"
proof -
  obtain c' where w: "writeResponsePackets conn_write False (Some c) ps = (Inr (), Some c')"
    using writeResponsePackets_room [OF assms] by blast
  from conn_sink.writeResponsePackets_received [OF w] obtain encs
    where e: "list_all2 (\<lambda>p enc. EncodePacket p = Inr enc) ps encs" "sent c' = sent c @ concat encs" by blast
  have "\<forall>rest. read_packets (length ps) (concat encs @ rest) = Inr (ps, rest)"
    using read_packets_encoded [OF e(1)] by blast
  with w e(2) show ?thesis by blast
qed

theorem writeResponsePackets_read_back_witness:
  "let ps = [\<lparr>SequenceID = 1, Payload = [1, 2]\<rparr>, \<lparr>SequenceID = 2, Payload = [254]\<rparr>];
       c = \<lparr>sent = [7], room = 11\<rparr>
   in \<exists>c' bs. writeResponsePackets conn_write False (Some c) ps = (Inr (), Some c') \<and>
     sent c' = sent c @ bs \<and> (\<forall>rest. read_packets (length ps) (bs @ rest) = Inr (ps, rest))"
  unfolding Let_def
  by (rule writeResponsePackets_read_back) (simp_all add: MaxPayloadLength_def packet_size_def PacketHeaderLength_def)

text \<open>A length-encoded integer read back where it was appended gives the integer and the offset
  just after it, whatever surrounds it, for every 64-bit value and all four widths.\<close>

theorem readLengthEncodedInteger_roundtrip:
  "readLengthEncodedInteger (appendLengthEncodedInteger pre v @ rest) (length pre) =
     Inr (Some (v, length (appendLengthEncodedInteger pre v)))"
  by (simp add: appendLengthEncodedInteger_append readLengthEncodedInteger_encode)

text \<open>\<^verbatim>\<open>readLengthEncodedBytes\<close> never panics, on any input and offset: the unsigned comparison of
  the claimed length with the bytes that remain guards the slice. When it succeeds it consumes at
  least one byte, stays inside the data, and returns the bytes just before the new offset.\<close>

theorem readLengthEncodedBytes_safe:
  assumes "length data < 2 ^ 63"
  shows "\<exists>r. readLengthEncodedBytes data offset = (Inr r :: ('e, (byte list \<times> nat) option) res) \<and>
     (\<forall>v next. r = Some (v, next) \<longrightarrow>
        offset < next \<and> next \<le> length data \<and> v = take (length v) (drop (next - length v) data))"
proof (cases "readLengthEncodedBytes data offset :: ('e, (byte list \<times> nat) option) res")
  case (Inl e)
  then show ?thesis using readLengthEncodedBytes_no_panic [of data offset e] assms by simp
next
  case (Inr r)
  then show ?thesis using readLengthEncodedBytes_progress by blast
qed

theorem readLengthEncodedBytes_safe_witness:
  "let data = [0xfe, 0xff, 0xff, 0xff, 0xff, 0xff, 0xff, 0xff, 0xff, 1]
   in \<exists>r. readLengthEncodedBytes data 0 = (Inr r :: (unit, (byte list \<times> nat) option) res) \<and>
     (\<forall>v next. r = Some (v, next) \<longrightarrow>
        0 < next \<and> next \<le> length data \<and> v = take (length v) (drop (next - length v) data))"
  unfolding Let_def by (rule readLengthEncodedBytes_safe) simp

end
