(* ===== verification/Go_Strings.thy ===== *)
theory Go_Strings
  imports QS_Prelude
begin

text \<open>
  What the program uses of Go's \<^verbatim>\<open>strconv\<close>, \<^verbatim>\<open>fmt\<close>, \<^verbatim>\<open>strings\<close> and \<^verbatim>\<open>encoding/hex\<close>:
  decimal and hexadecimal formatting, splitting on a separator, case folding, and hexadecimal
  decoding.
\<close>

section \<open>Numbers as text\<close>

definition digit_char :: "nat \<Rightarrow> char" where
  "digit_char d = char_of (48 + d)"

fun dec_nat :: "nat \<Rightarrow> string" where
  "dec_nat n = (if n < 10 then [digit_char n] else dec_nat (n div 10) @ [digit_char (n mod 10)])"

declare dec_nat.simps [simp del]

definition FormatInt :: "int \<Rightarrow> string" where
  "FormatInt i = (if i < 0 then CHR ''-'' # dec_nat (nat (- i)) else dec_nat (nat i))"

text \<open>\<^verbatim>\<open>%0wd\<close> of a value that is not negative.\<close>

definition fmt_0d :: "nat \<Rightarrow> nat \<Rightarrow> string" where
  "fmt_0d w n = (let s = dec_nat n in replicate (w - length s) (CHR ''0'') @ s)"

definition hex_digit :: "nat \<Rightarrow> char" where
  "hex_digit d = (if d < 10 then char_of (48 + d) else char_of (87 + d))"

definition fmt_02x :: "byte \<Rightarrow> string" where
  "fmt_02x b = [hex_digit (unat b div 16), hex_digit (unat b mod 16)]"

definition hex_EncodeToString :: "byte list \<Rightarrow> string" where
  "hex_EncodeToString bs = concat (map fmt_02x bs)"

definition hex_val :: "char \<Rightarrow> nat option" where
  "hex_val c = (let n = of_char c in
     if 48 \<le> n \<and> n \<le> 57 then Some (n - 48)
     else if 97 \<le> n \<and> n \<le> 102 then Some (n - 87)
     else if 65 \<le> n \<and> n \<le> 70 then Some (n - 55)
     else None)"

fun hex_DecodeString :: "string \<Rightarrow> byte list option" where
  "hex_DecodeString [] = Some []"
| "hex_DecodeString [_] = None"
| "hex_DecodeString (a # b # s) =
     (case (hex_val a, hex_val b) of
        (Some x, Some y) \<Rightarrow> map_option (\<lambda>bs. word_of_nat (16 * x + y) # bs) (hex_DecodeString s)
      | _ \<Rightarrow> None)"

section \<open>Splitting\<close>

fun split_char :: "char \<Rightarrow> string \<Rightarrow> string list" where
  "split_char sep [] = [[]]"
| "split_char sep (c # s) =
     (if c = sep then [] # split_char sep s
      else case split_char sep s of
             [] \<Rightarrow> [[c]]
           | p # ps \<Rightarrow> (c # p) # ps)"

section \<open>Case\<close>

text \<open>
  \<^verbatim>\<open>strings.ToLower\<close> as far as a comparison with an ASCII text can see: the ASCII letters, and
  the two letters outside ASCII whose lower case is an ASCII letter (U+0130 and U+212A, here in
  UTF-8). Every other rune keeps a non-ASCII lower case and is left as it is.
\<close>

definition lower_char :: "char \<Rightarrow> char" where
  "lower_char c = (let n = of_char c :: nat in if 65 \<le> n \<and> n \<le> 90 then char_of (n + 32) else c)"

fun ToLower :: "string \<Rightarrow> string" where
  "ToLower [] = []"
| "ToLower (c # s) =
     (if c = CHR 0xC4 \<and> take 1 s = [CHR 0xB0] then CHR ''i'' # ToLower (drop 1 s)
      else if c = CHR 0xE2 \<and> take 2 s = [CHR 0x84, CHR 0xAA] then CHR ''k'' # ToLower (drop 2 s)
      else lower_char c # ToLower s)"

text \<open>
  The simple case folding \<^verbatim>\<open>strings.EqualFold\<close> compares by, for the classes that hold an ASCII
  letter: besides its upper and lower case, U+017F folds to \<^verbatim>\<open>s\<close> and U+212A to \<^verbatim>\<open>k\<close>. Letters
  outside ASCII are compared as they are.
\<close>

fun fold_case :: "string \<Rightarrow> string" where
  "fold_case [] = []"
| "fold_case (c # s) =
     (if c = CHR 0xC5 \<and> take 1 s = [CHR 0xBF] then CHR ''s'' # fold_case (drop 1 s)
      else if c = CHR 0xE2 \<and> take 2 s = [CHR 0x84, CHR 0xAA] then CHR ''k'' # fold_case (drop 2 s)
      else lower_char c # fold_case s)"

definition EqualFold :: "string \<Rightarrow> string \<Rightarrow> bool" where
  "EqualFold s t \<longleftrightarrow> fold_case s = fold_case t"

section \<open>Lemmas\<close>

lemma hex_val_digit: "d < 16 \<Longrightarrow> hex_val (hex_digit d) = Some d"
  by (auto simp: hex_val_def hex_digit_def Let_def)

lemma hex_roundtrip [simp]: "hex_DecodeString (hex_EncodeToString bs) = Some bs"
proof (induction bs)
  case (Cons b bs)
  have "unat b < 16 * 16" using unat_byte_less [of b] by linarith
  then have "unat b div 16 < 16" "unat b mod 16 < 16" by (simp_all add: less_mult_imp_div_less)
  then show ?case using Cons
    by (simp add: hex_EncodeToString_def fmt_02x_def hex_val_digit)
qed (simp add: hex_EncodeToString_def)

lemma dec_nat_nonempty: "dec_nat n \<noteq> []"
  by (subst dec_nat.simps) simp

fun val_dec :: "string \<Rightarrow> nat \<Rightarrow> nat" where
  "val_dec [] a = a"
| "val_dec (c # s) a = val_dec s (10 * a + (of_char c - 48))"

lemma val_dec_append: "val_dec (s @ t) a = val_dec t (val_dec s a)"
  by (induction s arbitrary: a) auto

lemma of_digit_char: "d < 10 \<Longrightarrow> of_char (digit_char d) = 48 + d"
  by (simp add: digit_char_def)

lemma val_dec_dec_nat: "val_dec (dec_nat n) 0 = n"
proof (induction n rule: dec_nat.induct)
  case (1 n)
  show ?case
  proof (cases "n < 10")
    case True
    then show ?thesis by (simp add: dec_nat.simps [of n] of_digit_char)
  next
    case False
    then have "val_dec (dec_nat n) 0 = 10 * (n div 10) + (of_char (digit_char (n mod 10)) - 48)"
      using 1 by (simp add: dec_nat.simps [of n] val_dec_append)
    then show ?thesis by (simp add: of_digit_char)
  qed
qed

lemma dec_nat_inject [simp]: "dec_nat m = dec_nat n \<longleftrightarrow> m = n"
  by (metis val_dec_dec_nat)

lemma dec_nat_digits: "c \<in> set (dec_nat n) \<Longrightarrow> 48 \<le> (of_char c :: nat) \<and> (of_char c :: nat) \<le> 57"
proof (induction n rule: dec_nat.induct)
  case (1 n)
  have "d < 10 \<Longrightarrow> 48 \<le> (of_char (digit_char d) :: nat) \<and> (of_char (digit_char d) :: nat) \<le> 57" for d
    by (simp add: of_digit_char)
  then show ?case
    using 1 by (cases "n < 10") (auto simp: dec_nat.simps [of n])
qed

lemma FormatInt_inject [simp]: "FormatInt i = FormatInt j \<longleftrightarrow> i = j"
proof -
  have m: "CHR ''-'' \<notin> set (dec_nat n)" for n using dec_nat_digits [of "CHR ''-''" n] by auto
  have "CHR ''-'' # s \<noteq> dec_nat n" for s n using m [of n] by (metis list.set_intros(1))
  then show ?thesis by (auto simp: FormatInt_def dest: sym)
qed

lemma trim_front_fixed_iff:
  "trim_front ps s = s \<longleftrightarrow> (\<forall>p \<in> set ps. p \<noteq> [] \<longrightarrow> take (length p) s \<noteq> p)"
proof (cases "List.find (\<lambda>p. p \<noteq> [] \<and> take (length p) s = p) ps")
  case None
  then have "trim_front ps s = s" by (simp add: trim_front.simps [of ps s])
  with None show ?thesis by (auto simp: find_None_iff)
next
  case (Some p)
  then have p: "p \<in> set ps" "p \<noteq> []" "take (length p) s = p" by (auto simp: find_Some_iff)
  obtain pre where "drop (length p) s = pre @ trim_front ps (drop (length p) s)" using trim_front_suffix by blast
  then have "length (trim_front ps (drop (length p) s)) \<le> length s - length p" by (metis le_add2 length_append length_drop)
  moreover have "0 < length p" "length p \<le> length s" using p by auto (metis length_take min.bounded_iff order_refl)
  ultimately have "length (trim_front ps (drop (length p) s)) < length s" by linarith
  then have "trim_front ps s \<noteq> s" using Some by (auto simp: trim_front.simps [of ps s])
  with p show ?thesis by blast
qed

lemma trim_front_idem [simp]: "trim_front ps (trim_front ps s) = trim_front ps s"
proof (induction ps s rule: trim_front.induct)
  case (1 ps s)
  then show ?case
    by (cases "List.find (\<lambda>p. p \<noteq> [] \<and> take (length p) s = p) ps") (simp_all add: trim_front.simps [of ps s])
qed

lemma trim_front_prefix: "trim_front ps (s @ t) = s @ t \<Longrightarrow> trim_front ps s = s"
  unfolding trim_front_fixed_iff
proof (intro ballI impI notI)
  fix p assume a: "\<forall>p \<in> set ps. p \<noteq> [] \<longrightarrow> take (length p) (s @ t) \<noteq> p" "p \<in> set ps" "p \<noteq> []" "take (length p) s = p"
  then have "length p \<le> length s" by (metis length_take min.bounded_iff order_refl)
  then have "take (length p) (s @ t) = p" using a(4) by simp
  with a(1-3) show False by blast
qed

lemma trim_space_idem [simp]: "trim_space (trim_space s) = trim_space s"
proof -
  let ?f = "trim_front space_runes s"
  obtain post where "rev ?f = post @ trim_front (map rev space_runes) (rev ?f)" using trim_front_suffix by blast
  then have "?f = trim_space s @ rev post" unfolding trim_space_def by (metis rev_append rev_rev_ident)
  then have "trim_front space_runes (trim_space s) = trim_space s"
    by (metis trim_front_idem trim_front_prefix)
  then show ?thesis by (simp add: trim_space_def)
qed

lemma trim_space_graphic:
  assumes "\<forall>c \<in> set s. 33 \<le> (of_char c :: nat) \<and> (of_char c :: nat) \<le> 126"
  shows "trim_space s = s"
proof -
  have g: "trim_front ps u = u" if "set u = set s" "\<forall>p \<in> set ps. p \<noteq> [] \<and> \<not> (33 \<le> (of_char (hd p) :: nat) \<and> (of_char (hd p) :: nat) \<le> 126)"
    for ps u
    unfolding trim_front_fixed_iff
  proof (intro ballI impI notI)
    fix p assume p: "p \<in> set ps" "p \<noteq> []" "take (length p) u = p"
    then have "hd p \<in> set u" by (metis hd_in_set in_set_takeD)
    with that p assms show False by auto
  qed
  have "trim_front space_runes s = s" by (rule g) (simp_all add: space_runes_def)
  moreover have "trim_front (map rev space_runes) (rev s) = rev s" by (rule g) (simp_all add: space_runes_def)
  ultimately show ?thesis by (simp add: trim_space_def)
qed

lemma hex_EncodeToString_graphic:
  "c \<in> set (hex_EncodeToString bs) \<Longrightarrow> 33 \<le> (of_char c :: nat) \<and> (of_char c :: nat) \<le> 126"
proof -
  have d: "d < 16 \<Longrightarrow> 33 \<le> (of_char (hex_digit d) :: nat) \<and> (of_char (hex_digit d) :: nat) \<le> 126" for d
    by (auto simp: hex_digit_def)
  have "unat b div 16 < 16" for b :: byte using unat_byte_less [of b] by linarith
  then show "c \<in> set (hex_EncodeToString bs) \<Longrightarrow> ?thesis"
    using d by (auto simp: hex_EncodeToString_def fmt_02x_def)
qed

lemma trim_space_hex [simp]: "trim_space (hex_EncodeToString bs) = hex_EncodeToString bs"
  by (rule trim_space_graphic) (use hex_EncodeToString_graphic in blast)

lemma hex_EncodeToString_eq_Nil [simp]: "hex_EncodeToString bs = [] \<longleftrightarrow> bs = []"
  by (cases bs) (simp_all add: hex_EncodeToString_def fmt_02x_def)

end
