(* ===== verification/Go_Time.thy ===== *)
theory Go_Time
  imports QS_Prelude
begin

text \<open>
  What the program uses of Go's \<^verbatim>\<open>time\<close> package: instants as seconds and nanoseconds since
  0001-01-01 00:00:00 UTC with the offset of their location, \<^verbatim>\<open>time.Date\<close> with its
  normalisation of out-of-range fields, and the calendar accessors, over the proleptic Gregorian
  calendar. The lemmas show that the accessors invert \<^verbatim>\<open>time.Date\<close> exactly on valid calendar
  dates, which is what the validity checks of the program compare.
\<close>

section \<open>Calendar\<close>

definition is_leap :: "int \<Rightarrow> bool" where
  "is_leap y \<longleftrightarrow> y mod 4 = 0 \<and> (y mod 100 \<noteq> 0 \<or> y mod 400 = 0)"

definition days_before_year :: "int \<Rightarrow> int" where
  "days_before_year y = 365 * (y - 1) + (y - 1) div 4 - (y - 1) div 100 + (y - 1) div 400"

definition month_starts :: "int list" where
  "month_starts = [0, 31, 59, 90, 120, 151, 181, 212, 243, 273, 304, 334]"

definition days_before_month :: "int \<Rightarrow> int \<Rightarrow> int" where
  "days_before_month y m = month_starts ! nat (m - 1) + (if is_leap y \<and> m > 2 then 1 else 0)"

definition days_in_month :: "int \<Rightarrow> int \<Rightarrow> int" where
  "days_in_month y m =
     (if m = 2 then (if is_leap y then 29 else 28) else if m \<in> {4, 6, 9, 11} then 30 else 31)"

definition year_of_days :: "int \<Rightarrow> int" where
  "year_of_days n =
     (let y = 400 * n div 146097 + 1 in if days_before_year (y + 1) \<le> n then y + 1 else y)"

definition month_of_yday :: "int \<Rightarrow> int \<Rightarrow> int" where
  "month_of_yday y d = int (length (takeWhile (\<lambda>m. days_before_month y m \<le> d) [1 .. 12]))"

section \<open>Instants\<close>

record Time =
  tsec :: int
  tnsec :: int
  tzoff :: int

definition zero_time :: Time where
  "zero_time = \<lparr>tsec = 0, tnsec = 0, tzoff = 0\<rparr>"

definition IsZero :: "Time \<Rightarrow> bool" where
  "IsZero t \<longleftrightarrow> tsec t = 0 \<and> tnsec t = 0"

definition UTC :: "Time \<Rightarrow> Time" where
  "UTC t = t\<lparr>tzoff := 0\<rparr>"

definition time_Date :: "int \<Rightarrow> int \<Rightarrow> int \<Rightarrow> int \<Rightarrow> int \<Rightarrow> int \<Rightarrow> int \<Rightarrow> Time" where
  "time_Date year month day hour minute sec nsec =
     (let y = year + (month - 1) div 12; m = (month - 1) mod 12 + 1;
          days = days_before_year y + days_before_month y m + (day - 1)
      in \<lparr>tsec = days * 86400 + hour * 3600 + minute * 60 + sec + nsec div 1000000000,
          tnsec = nsec mod 1000000000, tzoff = 0\<rparr>)"

definition local_days :: "Time \<Rightarrow> int" where
  "local_days t = (tsec t + tzoff t) div 86400"

definition local_secs :: "Time \<Rightarrow> int" where
  "local_secs t = (tsec t + tzoff t) mod 86400"

definition Year :: "Time \<Rightarrow> int" where
  "Year t = year_of_days (local_days t)"

definition YearDay0 :: "Time \<Rightarrow> int" where
  "YearDay0 t = local_days t - days_before_year (Year t)"

definition Month :: "Time \<Rightarrow> int" where
  "Month t = month_of_yday (Year t) (YearDay0 t)"

definition Day :: "Time \<Rightarrow> int" where
  "Day t = YearDay0 t - days_before_month (Year t) (Month t) + 1"

definition Hour :: "Time \<Rightarrow> int" where
  "Hour t = local_secs t div 3600"

definition Minute :: "Time \<Rightarrow> int" where
  "Minute t = local_secs t mod 3600 div 60"

definition Second :: "Time \<Rightarrow> int" where
  "Second t = local_secs t mod 60"

definition Nanosecond :: "Time \<Rightarrow> int" where
  "Nanosecond t = tnsec t"

section \<open>Valid dates\<close>

definition valid_date :: "int \<Rightarrow> int \<Rightarrow> int \<Rightarrow> bool" where
  "valid_date y m d \<longleftrightarrow> 1 \<le> m \<and> m \<le> 12 \<and> 1 \<le> d \<and> d \<le> days_in_month y m"

definition valid_clock :: "int \<Rightarrow> int \<Rightarrow> int \<Rightarrow> int \<Rightarrow> bool" where
  "valid_clock h mi s ns \<longleftrightarrow>
     0 \<le> h \<and> h \<le> 23 \<and> 0 \<le> mi \<and> mi \<le> 59 \<and> 0 \<le> s \<and> s \<le> 59 \<and> 0 \<le> ns \<and> ns < 1000000000"

section \<open>Lemmas\<close>

lemma div_bounds: "0 < (c :: int) \<Longrightarrow> c * (k div c) \<le> k \<and> k \<le> c * (k div c) + c - 1"
  using mult_div_mod_eq [of c k] pos_mod_bound [of c k] pos_mod_sign [of c k] by linarith

lemma days_before_year_bounds:
  "146097 * (y - 1) - 699 \<le> 400 * days_before_year y"
  "400 * days_before_year y \<le> 146097 * (y - 1) + 396"
  using div_bounds [of 4 "y - 1"] div_bounds [of 100 "y - 1"] div_bounds [of 400 "y - 1"]
  by (simp_all add: days_before_year_def)

lemma div_Suc_int: "0 < (c :: int) \<Longrightarrow> (y - 1) div c = y div c - (if y mod c = 0 then 1 else 0)"
proof -
  assume c: "0 < c"
  have e: "c * (y div c) + y mod c = y" and b: "0 \<le> y mod c" "y mod c < c" using c by simp_all
  show ?thesis
  proof (cases "y mod c = 0")
    case True
    have "(y - 1) div c = y div c - 1"
      by (rule int_div_pos_eq [where r = "c - 1"]) (use e True c in \<open>simp_all add: right_diff_distrib\<close>)
    then show ?thesis using True by simp
  next
    case False
    have "(y - 1) div c = y div c"
      by (rule int_div_pos_eq [where r = "y mod c - 1"]) (use e False b in \<open>linarith+\<close>)
    then show ?thesis using False by simp
  qed
qed

lemma leap_mods: "(y :: int) mod 400 = 0 \<Longrightarrow> y mod 100 = 0" "(y :: int) mod 100 = 0 \<Longrightarrow> y mod 4 = 0"
  using dvd_trans [of 100 400 y] dvd_trans [of 4 100 y] by (simp_all add: dvd_eq_mod_eq_0)

lemma days_before_year_Suc:
  "days_before_year (y + 1) = days_before_year y + (if is_leap y then 366 else 365)"
proof -
  define p q r where "p \<longleftrightarrow> y mod 4 = 0" and "q \<longleftrightarrow> y mod 100 = 0" and "r \<longleftrightarrow> y mod 400 = 0"
  have d: "(y - 1) div 4 = y div 4 - (if p then 1 else 0)" "(y - 1) div 100 = y div 100 - (if q then 1 else 0)"
    "(y - 1) div 400 = y div 400 - (if r then 1 else 0)"
    unfolding p_def q_def r_def by (rule div_Suc_int, simp)+
  have "r \<longrightarrow> q" "q \<longrightarrow> p" unfolding p_def q_def r_def by (simp_all add: leap_mods)
  moreover have "is_leap y \<longleftrightarrow> p \<and> (\<not> q \<or> r)" unfolding is_leap_def p_def q_def r_def by blast
  ultimately show ?thesis unfolding days_before_year_def d by auto
qed

lemma year_of_days_unique:
  assumes "days_before_year y \<le> n" "n < days_before_year (y + 1)"
  shows "year_of_days n = y"
proof -
  define g where "g = 400 * n div 146097"
  have lo: "146097 * (y - 1) - 699 \<le> 400 * n" using days_before_year_bounds(1) [of y] assms(1) by linarith
  have hi: "400 * n < 146097 * y" using days_before_year_bounds(2) [of "y + 1"] assms(2) by simp
  have "146097 * g \<le> 400 * n" "400 * n \<le> 146097 * g + 146096"
    using div_bounds [of 146097 "400 * n"] unfolding g_def by simp_all
  then have "y - 2 \<le> g" "g \<le> y - 1" using lo hi by simp_all
  then have "y = g + 1 \<or> y = g + 2" by linarith
  moreover have "year_of_days n = (if days_before_year (g + 2) \<le> n then g + 2 else g + 1)"
    by (simp add: year_of_days_def Let_def g_def add.commute)
  ultimately show ?thesis using assms by (auto simp: add.commute add.left_commute)
qed

lemma year_of_days_bounds:
  "days_before_year (year_of_days n) \<le> n" "n < days_before_year (year_of_days n + 1)"
proof -
  define g where "g = 400 * n div 146097"
  have g: "146097 * g \<le> 400 * n" "400 * n < 146097 * (g + 1)"
    using div_bounds [of 146097 "400 * n"] unfolding g_def by simp_all
  have a: "days_before_year (g + 1) \<le> n" using days_before_year_bounds(2) [of "g + 1"] g(1) by simp
  have b: "n < days_before_year (g + 3)" using days_before_year_bounds(1) [of "g + 3"] g(2) by simp
  have "year_of_days n = (if days_before_year (g + 2) \<le> n then g + 2 else g + 1)"
    by (simp add: year_of_days_def Let_def g_def add.commute)
  with a b show "days_before_year (year_of_days n) \<le> n" "n < days_before_year (year_of_days n + 1)"
    by (auto simp: add.commute add.left_commute)
qed

lemma month_list: "[1 .. 12] = [1, 2, 3, 4, 5, 6, 7, 8, 9, 10, 11, 12 :: int]"
  by (simp add: upto_rec1)

lemma month_cases:
  assumes "1 \<le> (m :: int)" "m \<le> 12"
  shows "m = 1 \<or> m = 2 \<or> m = 3 \<or> m = 4 \<or> m = 5 \<or> m = 6 \<or> m = 7 \<or> m = 8 \<or> m = 9 \<or> m = 10 \<or> m = 11 \<or> m = 12"
proof -
  have "m \<in> set [1 .. 12]" using assms by simp
  then show ?thesis unfolding month_list by simp
qed

lemma days_before_month_eqs:
  "days_before_month y 1 = 0" "days_before_month y 2 = 31"
  "days_before_month y 3 = 59 + (if is_leap y then 1 else 0)"
  "days_before_month y 4 = 90 + (if is_leap y then 1 else 0)"
  "days_before_month y 5 = 120 + (if is_leap y then 1 else 0)"
  "days_before_month y 6 = 151 + (if is_leap y then 1 else 0)"
  "days_before_month y 7 = 181 + (if is_leap y then 1 else 0)"
  "days_before_month y 8 = 212 + (if is_leap y then 1 else 0)"
  "days_before_month y 9 = 243 + (if is_leap y then 1 else 0)"
  "days_before_month y 10 = 273 + (if is_leap y then 1 else 0)"
  "days_before_month y 11 = 304 + (if is_leap y then 1 else 0)"
  "days_before_month y 12 = 334 + (if is_leap y then 1 else 0)"
  by (simp_all add: days_before_month_def month_starts_def)

lemma month_of_yday_unique:
  assumes v: "valid_date y m d"
  shows "month_of_yday y (days_before_month y m + (d - 1)) = m"
proof -
  have m: "1 \<le> m" "m \<le> 12" and d: "1 \<le> d" "d \<le> days_in_month y m" using v by (simp_all add: valid_date_def)
  show ?thesis
    using month_cases [OF m] d unfolding month_of_yday_def month_list
    by (elim disjE; cases "is_leap y") (simp_all add: days_before_month_eqs days_in_month_def)
qed

lemma month_end:
  assumes "1 \<le> m" "m \<le> 12"
  shows "0 \<le> days_before_month y m \<and>
   days_before_month y m + days_in_month y m \<le> (if is_leap y then 366 else 365)"
  using month_cases [OF assms]
  by (elim disjE; cases "is_leap y") (simp_all add: days_before_month_eqs days_in_month_def)

lemma valid_month_ex:
  assumes "0 \<le> d" "d < (if is_leap y then 366 else 365)"
  shows "\<exists>m. valid_date y m (d - days_before_month y m + 1)"
proof (rule ccontr)
  assume none: "\<nexists>m. valid_date y m (d - days_before_month y m + 1)"
  have step: "1 \<le> m \<Longrightarrow> m \<le> 12 \<Longrightarrow> days_before_month y m \<le> d \<Longrightarrow>
      days_before_month y m + days_in_month y m \<le> d" for m
    using none [unfolded valid_date_def not_ex, THEN spec, of m] by simp
  show False
    using assms step [of 1] step [of 2] step [of 3] step [of 4] step [of 5] step [of 6] step [of 7]
      step [of 8] step [of 9] step [of 10] step [of 11] step [of 12]
    by (cases "is_leap y") (simp_all add: days_before_month_eqs days_in_month_def)
qed

lemma month_of_yday_valid:
  assumes "0 \<le> d" "d < (if is_leap y then 366 else 365)"
  shows "valid_date y (month_of_yday y d) (d - days_before_month y (month_of_yday y d) + 1)"
proof -
  obtain m where v: "valid_date y m (d - days_before_month y m + 1)"
    using valid_month_ex [OF assms] by blast
  then have "month_of_yday y d = m" using month_of_yday_unique [OF v] by simp
  with v show ?thesis by simp
qed

lemma local_time_Date:
  assumes "valid_date y m d" "valid_clock h mi s ns"
  shows "local_days (time_Date y m d h mi s ns) = days_before_year y + days_before_month y m + (d - 1)"
    and "local_secs (time_Date y m d h mi s ns) = h * 3600 + mi * 60 + s"
proof -
  define n where "n = days_before_year y + days_before_month y m + (d - 1)"
  define c where "c = h * 3600 + mi * 60 + s"
  have m: "(m - 1) div 12 = 0" "(m - 1) mod 12 + 1 = m" and ns: "ns div 1000000000 = 0"
    using assms by (simp_all add: valid_date_def valid_clock_def)
  have c: "0 \<le> c" "c < 86400" using assms(2) by (simp_all add: c_def valid_clock_def)
  have t: "tsec (time_Date y m d h mi s ns) = n * 86400 + c" "tzoff (time_Date y m d h mi s ns) = 0"
    by (simp_all add: time_Date_def Let_def m ns n_def c_def)
  show "local_days (time_Date y m d h mi s ns) = days_before_year y + days_before_month y m + (d - 1)"
    using c by (simp add: local_days_def t n_def [symmetric])
  show "local_secs (time_Date y m d h mi s ns) = h * 3600 + mi * 60 + s"
    using c by (simp add: local_secs_def t c_def [symmetric])
qed

lemma time_Date_fields:
  assumes v: "valid_date y m d" and c: "valid_clock h mi s ns"
  shows "Year (time_Date y m d h mi s ns) = y" "Month (time_Date y m d h mi s ns) = m"
    "Day (time_Date y m d h mi s ns) = d" "Hour (time_Date y m d h mi s ns) = h"
    "Minute (time_Date y m d h mi s ns) = mi" "Second (time_Date y m d h mi s ns) = s"
    "Nanosecond (time_Date y m d h mi s ns) = ns"
proof -
  note l = local_time_Date [OF v c]
  have m: "1 \<le> m" "m \<le> 12" "1 \<le> d" "d \<le> days_in_month y m" using v by (simp_all add: valid_date_def)
  show year: "Year (time_Date y m d h mi s ns) = y"
    unfolding Year_def l using month_end [OF m(1,2), of y] m(3,4)
    by (intro year_of_days_unique) (simp_all add: days_before_year_Suc)
  then have yd: "YearDay0 (time_Date y m d h mi s ns) = days_before_month y m + (d - 1)"
    by (simp add: YearDay0_def l)
  show month: "Month (time_Date y m d h mi s ns) = m"
    unfolding Month_def year yd by (rule month_of_yday_unique [OF v])
  show "Day (time_Date y m d h mi s ns) = d" by (simp add: Day_def year month yd)
  have r: "0 \<le> h" "h < 24" "0 \<le> mi" "mi < 60" "0 \<le> s" "s < 60" "0 \<le> ns" "ns < 1000000000"
    using c by (simp_all add: valid_clock_def)
  have h: "(h * 3600 + mi * 60 + s) div 3600 = h"
    by (rule int_div_pos_eq [where r = "mi * 60 + s"]) (use r in simp_all)
  have q: "(h * 3600 + mi * 60 + s) mod 3600 = mi * 60 + s"
    by (rule int_mod_pos_eq [where q = h]) (use r in simp_all)
  have mi: "(mi * 60 + s) div 60 = mi"
    by (rule int_div_pos_eq [where r = s]) (use r in simp_all)
  have s: "(h * 3600 + mi * 60 + s) mod 60 = s"
    by (rule int_mod_pos_eq [where q = "h * 60 + mi"]) (use r in simp_all)
  show "Hour (time_Date y m d h mi s ns) = h" "Minute (time_Date y m d h mi s ns) = mi"
    "Second (time_Date y m d h mi s ns) = s"
    unfolding Hour_def Minute_def Second_def l by (simp_all only: h q mi s)
  show "Nanosecond (time_Date y m d h mi s ns) = ns"
    using r by (simp add: Nanosecond_def time_Date_def Let_def)
qed

lemma time_fields_valid:
  "valid_date (Year t) (Month t) (Day t)"
  "0 \<le> Hour t" "Hour t \<le> 23" "0 \<le> Minute t" "Minute t \<le> 59" "0 \<le> Second t" "Second t \<le> 59"
proof -
  have "0 \<le> YearDay0 t" "YearDay0 t < (if is_leap (Year t) then 366 else 365)"
    unfolding YearDay0_def Year_def
    using year_of_days_bounds [of "local_days t"] days_before_year_Suc [of "year_of_days (local_days t)"]
    by simp_all
  then show "valid_date (Year t) (Month t) (Day t)"
    unfolding Month_def Day_def by (rule month_of_yday_valid)
  have s: "0 \<le> local_secs t" "local_secs t < 86400" by (simp_all add: local_secs_def)
  then show "0 \<le> Hour t" "Hour t \<le> 23" "0 \<le> Minute t" "Minute t \<le> 59" "0 \<le> Second t" "Second t \<le> 59"
    unfolding Hour_def Minute_def Second_def
    using pos_mod_bound [of 3600 "local_secs t"] pos_mod_sign [of 3600 "local_secs t"]
    by (simp_all add: pos_imp_zdiv_nonneg_iff zdiv_mono1)
qed

text \<open>The check the program makes to reject dates that \<^verbatim>\<open>time.Date\<close> would normalise.\<close>

lemma time_Date_check:
  assumes "0 \<le> ns" "ns < 1000000000"
  shows "Year (time_Date y m d h mi s ns) = y \<and> Month (time_Date y m d h mi s ns) = m \<and>
     Day (time_Date y m d h mi s ns) = d \<and> Hour (time_Date y m d h mi s ns) = h \<and>
     Minute (time_Date y m d h mi s ns) = mi \<and> Second (time_Date y m d h mi s ns) = s \<longleftrightarrow>
   valid_date y m d \<and> valid_clock h mi s ns"
  using time_Date_fields [of y m d h mi s ns] time_fields_valid [of "time_Date y m d h mi s ns"] assms
  by (auto simp: valid_clock_def)

text \<open>A UTC instant is the one its own fields denote.\<close>

lemma time_Date_of_fields:
  assumes "tzoff t = 0" "0 \<le> tnsec t" "tnsec t < 1000000000"
  shows "time_Date (Year t) (Month t) (Day t) (Hour t) (Minute t) (Second t) (Nanosecond t) = t"
proof -
  note f = time_fields_valid [of t]
  have m: "(Month t - 1) div 12 = 0" "(Month t - 1) mod 12 + 1 = Month t"
    using f(1) by (simp_all add: valid_date_def)
  have days: "days_before_year (Year t) + days_before_month (Year t) (Month t) + (Day t - 1) = local_days t"
    by (simp add: Day_def YearDay0_def)
  have s: "local_secs t = Hour t * 3600 + Minute t * 60 + Second t"
  proof -
    have a: "local_secs t = 3600 * Hour t + local_secs t mod 3600" by (simp add: Hour_def)
    have b: "local_secs t mod 3600 = 60 * Minute t + local_secs t mod 3600 mod 60" by (simp add: Minute_def)
    have "local_secs t mod 3600 mod 60 = Second t" by (simp add: Second_def mod_mod_cancel)
    then show ?thesis using a b by linarith
  qed
  have sec: "local_days t * 86400 + local_secs t = tsec t"
    using assms(1) by (simp add: local_days_def local_secs_def)
  have "time_Date (Year t) (Month t) (Day t) (Hour t) (Minute t) (Second t) (Nanosecond t) =
      \<lparr>tsec = local_days t * 86400 + local_secs t, tnsec = tnsec t, tzoff = 0\<rparr>"
    unfolding time_Date_def Let_def m(1) add_0_right m(2) days s Nanosecond_def
    using assms by simp
  then show ?thesis unfolding sec using assms(1) by simp
qed

end
