(* ===== verification/Bridge_Types.thy ===== *)
theory Bridge_Types
  imports QS_Prelude Go_Strings Go_Time
begin

text \<open>
  The protocol-neutral vocabulary of \<^verbatim>\<open>qsbridge\<close> that the MySQL adapter encodes: data types
  and value kinds, dynamically typed values, statement results, protocol errors, parameter and
  column metadata, and the mapping of result columns to protocol columns
  (\<^verbatim>\<open>result_schema.go\<close>). Floating-point values are their IEEE 754 bit patterns.
\<close>

section \<open>Data types and values\<close>

text \<open>\<^verbatim>\<open>DataType\<close> and \<^verbatim>\<open>ValueKind\<close> are open string types; any text the program does not name is
  the last constructor.\<close>

datatype DataType =
  DataTypeUnknown | DataTypeBool | DataTypeInt | DataTypeFloat | DataTypeString | DataTypeTime
  | DataTypeOther string

datatype ValueKind =
  ValueUnknown | ValueNull | ValueBool | ValueInt | ValueFloat | ValueString | ValueTime
  | ValueOther string

text \<open>
  A Go \<^verbatim>\<open>any\<close> by its dynamic type. A value of a type the program does not switch on carries the
  name of its type and its printed form.
\<close>

datatype any =
    ANil
  | ABool bool
  | AInt u64 | AInt8 byte | AInt16 u16 | AInt32 u32 | AInt64 u64
  | AUint u64 | AUint8 byte | AUint16 u16 | AUint32 u32 | AUint64 u64
  | AFloat32 u32 | AFloat64 u64
  | AString string
  | ATime Time
  | AOther string string

fun type_name :: "any \<Rightarrow> string" where
  "type_name ANil = ''<nil>''"
| "type_name (ABool _) = ''bool''"
| "type_name (AInt _) = ''int''"
| "type_name (AInt8 _) = ''int8''"
| "type_name (AInt16 _) = ''int16''"
| "type_name (AInt32 _) = ''int32''"
| "type_name (AInt64 _) = ''int64''"
| "type_name (AUint _) = ''uint''"
| "type_name (AUint8 _) = ''uint8''"
| "type_name (AUint16 _) = ''uint16''"
| "type_name (AUint32 _) = ''uint32''"
| "type_name (AUint64 _) = ''uint64''"
| "type_name (AFloat32 _) = ''float32''"
| "type_name (AFloat64 _) = ''float64''"
| "type_name (AString _) = ''string''"
| "type_name (ATime _) = ''time.Time''"
| "type_name (AOther n _) = n"

section \<open>Floating-point conversions\<close>

fun floor_log2 :: "nat \<Rightarrow> nat" where
  "floor_log2 n = (if n \<le> 1 then 0 else Suc (floor_log2 (n div 2)))"

declare floor_log2.simps [simp del]

definition sign_bit64 :: "bool \<Rightarrow> nat" where
  "sign_bit64 neg = (if neg then 2 ^ 63 else 0)"

text \<open>\<^verbatim>\<open>float64(i)\<close> of an integer: round to nearest, ties to even.\<close>

definition float64_of_int :: "int \<Rightarrow> u64" where
  "float64_of_int i =
     (let m = nat \<bar>i\<bar>; k = floor_log2 m in
      if m = 0 then 0
      else if k \<le> 52 then
        word_of_nat (sign_bit64 (i < 0) + (k + 1022) * 2 ^ 52 + m * 2 ^ (52 - k))
      else
        let q = m div 2 ^ (k - 52); r = m mod 2 ^ (k - 52); half = 2 ^ (k - 53);
            q' = (if r > half \<or> (r = half \<and> odd q) then q + 1 else q)
        in word_of_nat (sign_bit64 (i < 0) + (k + 1022) * 2 ^ 52 + q'))"

text \<open>\<^verbatim>\<open>float64(math.Float32frombits(w))\<close>, which is exact.\<close>

definition float64_of_float32 :: "u32 \<Rightarrow> u64" where
  "float64_of_float32 w =
     (let s = sign_bit64 (bit w 31); e = unat w div 2 ^ 23 mod 2 ^ 8; m = unat w mod 2 ^ 23 in
      if e = 255 then word_of_nat (s + 2047 * 2 ^ 52 + (if m = 0 then 0 else (m * 2 ^ 29) OR 2 ^ 51))
      else if e = 0 \<and> m = 0 then word_of_nat s
      else if e = 0 then
        let k = floor_log2 m in word_of_nat (s + (k + 873) * 2 ^ 52 + m * 2 ^ (52 - k))
      else word_of_nat (s + (e + 896) * 2 ^ 52 + m * 2 ^ 29))"

section \<open>Statements, errors, parameters, columns\<close>

record StatementNotice =
  notice_Level :: string
  notice_Code :: string
  notice_SQLState :: string
  notice_Message :: string

record SessionAction =
  action_Kind :: string
  action_Name :: string
  action_Value :: string

record StatementResult =
  AffectedRows :: u64
  LastInsertID :: u64
  Warnings :: u16
  Notices :: "StatementNotice list"
  Status :: string
  SessionActions :: "SessionAction list"

definition empty_statement :: StatementResult where
  "empty_statement = \<lparr>AffectedRows = 0, LastInsertID = 0, Warnings = 0, Notices = [], Status = [],
     SessionActions = []\<rparr>"

record ProtocolError =
  SQLState :: string
  VendorCode :: int
  Message :: string

definition SQLStateGeneralError :: string where
  "SQLStateGeneralError = ''HY000''"

record ParameterRef =
  ref_Index :: int
  ref_Name :: string
  ref_Type :: DataType
  ref_Nullable :: bool

record ParameterValue =
  pv_Index :: int
  pv_Name :: string
  pv_Kind :: ValueKind
  pv_Value :: any

definition IndexedParameterValue :: "int \<Rightarrow> ValueKind \<Rightarrow> any \<Rightarrow> ParameterValue" where
  "IndexedParameterValue index kind value =
     \<lparr>pv_Index = index, pv_Name = [], pv_Kind = kind, pv_Value = value\<rparr>"

record ResultColumn =
  rc_Name :: string
  rc_Type :: DataType
  rc_Nullable :: bool
  rc_Source :: string

record ResultCell =
  cell_Kind :: ValueKind
  cell_Value :: any

datatype ProtocolColumnFlag =
  ProtocolColumnNullable | ProtocolColumnDirectSource | ProtocolColumnDerived | ProtocolColumnNumeric
  | ProtocolColumnString | ProtocolColumnTemporal | ProtocolColumnBoolean

record ProtocolColumn =
  col_Name :: string
  col_Source :: string
  col_Nullable :: bool
  LogicalType :: DataType
  TypeName :: string
  WireType :: string
  col_Flags :: "ProtocolColumnFlag list"

datatype ProtocolKind = ProtocolMySQL | ProtocolGRPC | ProtocolGo | ProtocolHTTP | ProtocolOther string

section \<open>Result schemas\<close>

definition protocolColumnFlags :: "ResultColumn \<Rightarrow> ProtocolColumnFlag list" where
  "protocolColumnFlags column =
     (if rc_Nullable column then [ProtocolColumnNullable] else []) @
     (if rc_Source column \<noteq> [] then [ProtocolColumnDirectSource] else [ProtocolColumnDerived]) @
     (case rc_Type column of
        DataTypeBool \<Rightarrow> [ProtocolColumnBoolean]
      | DataTypeInt \<Rightarrow> [ProtocolColumnNumeric]
      | DataTypeFloat \<Rightarrow> [ProtocolColumnNumeric]
      | DataTypeString \<Rightarrow> [ProtocolColumnString]
      | DataTypeTime \<Rightarrow> [ProtocolColumnTemporal]
      | _ \<Rightarrow> [])"

fun mysqlProtocolTypeNames :: "DataType \<Rightarrow> string \<times> string" where
  "mysqlProtocolTypeNames DataTypeBool = (''BOOL'', ''MYSQL_TYPE_TINY'')"
| "mysqlProtocolTypeNames DataTypeInt = (''BIGINT'', ''MYSQL_TYPE_LONGLONG'')"
| "mysqlProtocolTypeNames DataTypeFloat = (''DOUBLE'', ''MYSQL_TYPE_DOUBLE'')"
| "mysqlProtocolTypeNames DataTypeString = (''VARCHAR'', ''MYSQL_TYPE_VAR_STRING'')"
| "mysqlProtocolTypeNames DataTypeTime = (''DATETIME'', ''MYSQL_TYPE_DATETIME'')"
| "mysqlProtocolTypeNames _ = (''TEXT'', ''MYSQL_TYPE_STRING'')"

fun grpcProtocolTypeNames :: "DataType \<Rightarrow> string \<times> string" where
  "grpcProtocolTypeNames DataTypeBool = (''bool'', ''google.protobuf.BoolValue'')"
| "grpcProtocolTypeNames DataTypeInt = (''int64'', ''google.protobuf.Int64Value'')"
| "grpcProtocolTypeNames DataTypeFloat = (''double'', ''google.protobuf.DoubleValue'')"
| "grpcProtocolTypeNames DataTypeString = (''string'', ''google.protobuf.StringValue'')"
| "grpcProtocolTypeNames DataTypeTime = (''timestamp'', ''google.protobuf.Timestamp'')"
| "grpcProtocolTypeNames _ = (''value'', ''google.protobuf.Value'')"

fun goProtocolTypeNames :: "DataType \<Rightarrow> string \<times> string" where
  "goProtocolTypeNames DataTypeBool = (''bool'', ''bool'')"
| "goProtocolTypeNames DataTypeInt = (''int64'', ''int64'')"
| "goProtocolTypeNames DataTypeFloat = (''float64'', ''float64'')"
| "goProtocolTypeNames DataTypeString = (''string'', ''string'')"
| "goProtocolTypeNames DataTypeTime = (''time.Time'', ''time.Time'')"
| "goProtocolTypeNames _ = (''any'', ''any'')"

fun httpProtocolTypeNames :: "DataType \<Rightarrow> string \<times> string" where
  "httpProtocolTypeNames DataTypeBool = (''boolean'', ''json_boolean'')"
| "httpProtocolTypeNames DataTypeInt = (''integer'', ''json_number'')"
| "httpProtocolTypeNames DataTypeFloat = (''number'', ''json_number'')"
| "httpProtocolTypeNames DataTypeString = (''string'', ''json_string'')"
| "httpProtocolTypeNames DataTypeTime = (''string'', ''json_rfc3339'')"
| "httpProtocolTypeNames _ = (''value'', ''json_value'')"

fun dataTypeText :: "DataType \<Rightarrow> string" where
  "dataTypeText DataTypeUnknown = ''''"
| "dataTypeText DataTypeBool = ''bool''"
| "dataTypeText DataTypeInt = ''int''"
| "dataTypeText DataTypeFloat = ''float''"
| "dataTypeText DataTypeString = ''string''"
| "dataTypeText DataTypeTime = ''time''"
| "dataTypeText (DataTypeOther s) = s"

fun valueKindText :: "ValueKind \<Rightarrow> string" where
  "valueKindText ValueUnknown = ''''"
| "valueKindText ValueNull = ''null''"
| "valueKindText ValueBool = ''bool''"
| "valueKindText ValueInt = ''int''"
| "valueKindText ValueFloat = ''float''"
| "valueKindText ValueString = ''string''"
| "valueKindText ValueTime = ''time''"
| "valueKindText (ValueOther s) = s"

definition genericProtocolTypeNames :: "DataType \<Rightarrow> string \<times> string" where
  "genericProtocolTypeNames dataType =
     (if dataTypeText dataType = [] then (''unknown'', ''unknown'')
      else (dataTypeText dataType, dataTypeText dataType))"

fun protocolTypeNames :: "ProtocolKind \<Rightarrow> DataType \<Rightarrow> string \<times> string" where
  "protocolTypeNames ProtocolMySQL dataType = mysqlProtocolTypeNames dataType"
| "protocolTypeNames ProtocolGRPC dataType = grpcProtocolTypeNames dataType"
| "protocolTypeNames ProtocolGo dataType = goProtocolTypeNames dataType"
| "protocolTypeNames ProtocolHTTP dataType = httpProtocolTypeNames dataType"
| "protocolTypeNames (ProtocolOther _) dataType = genericProtocolTypeNames dataType"

definition toProtocolColumn :: "ProtocolKind \<Rightarrow> ResultColumn \<Rightarrow> ProtocolColumn" where
  "toProtocolColumn profile c =
     (let (typeName, wireType) = protocolTypeNames profile (rc_Type c) in
      \<lparr>col_Name = rc_Name c, col_Source = rc_Source c, col_Nullable = rc_Nullable c,
       LogicalType = rc_Type c, TypeName = typeName, WireType = wireType,
       col_Flags = protocolColumnFlags c\<rparr>)"

definition NewProtocolResultSchema :: "ProtocolKind \<Rightarrow> ResultColumn list \<Rightarrow> ProtocolColumn list" where
  "NewProtocolResultSchema profile columns = map (toProtocolColumn profile) columns"

end
