(* ===== verification/MySQL_Response.thy ===== *)
theory MySQL_Response
  imports MySQL_Wire Bridge_Types
begin

text \<open>
  OK and ERR packets and the response envelope (\<^verbatim>\<open>qsmysql/statement.go\<close>,
  \<^verbatim>\<open>qsmysql/response.go\<close>). Copies of slices are the identity here. The lemmas read the packets back
  as a client does.
\<close>

section \<open>Definitions\<close>

type_synonym CapabilityFlag = u32

definition CapabilityLongPassword :: CapabilityFlag where "CapabilityLongPassword = 0x00000001"
definition CapabilityConnectWithDB :: CapabilityFlag where "CapabilityConnectWithDB = 0x00000008"
definition CapabilityProtocol41 :: CapabilityFlag where "CapabilityProtocol41 = 0x00000200"
definition CapabilitySecureConnection :: CapabilityFlag where "CapabilitySecureConnection = 0x00008000"
definition CapabilityPluginAuth :: CapabilityFlag where "CapabilityPluginAuth = 0x00080000"
definition CapabilitySessionTrack :: CapabilityFlag where "CapabilitySessionTrack = 0x00800000"

definition StatusAutocommit :: u16 where "StatusAutocommit = 0x0002"

definition okPacketHeader :: byte where "okPacketHeader = 0x00"
definition errPacketHeader :: byte where "errPacketHeader = 0xff"

lemmas capability_defs =
  CapabilityLongPassword_def CapabilityConnectWithDB_def CapabilityProtocol41_def
  CapabilitySecureConnection_def CapabilityPluginAuth_def CapabilitySessionTrack_def

definition OKPayloadWithCapabilities :: "StatementResult \<Rightarrow> CapabilityFlag \<Rightarrow> byte list" where
  "OKPayloadWithCapabilities statement capabilities =
     (let payload = [okPacketHeader];
          payload = appendLengthEncodedInteger payload (AffectedRows statement);
          payload = appendLengthEncodedInteger payload (LastInsertID statement);
          payload = appendUint16LE payload StatusAutocommit;
          payload = appendUint16LE payload (Warnings statement)
      in if Status statement \<noteq> [] \<or> capabilities AND CapabilitySessionTrack \<noteq> 0
         then appendLengthEncodedString payload (Status statement)
         else payload)"

definition OKPayload :: "StatementResult \<Rightarrow> byte list" where
  "OKPayload statement = OKPayloadWithCapabilities statement 0"

definition OKPacketWithCapabilities :: "byte \<Rightarrow> StatementResult \<Rightarrow> CapabilityFlag \<Rightarrow> Packet" where
  "OKPacketWithCapabilities sequenceID statement capabilities =
     \<lparr>SequenceID = sequenceID, Payload = OKPayloadWithCapabilities statement capabilities\<rparr>"

definition OKPacket :: "byte \<Rightarrow> StatementResult \<Rightarrow> Packet" where
  "OKPacket sequenceID statement = OKPacketWithCapabilities sequenceID statement 0"

definition normalizedSQLState :: "string \<Rightarrow> string" where
  "normalizedSQLState sqlState =
     (let value = trim_space sqlState in if length value \<noteq> 5 then SQLStateGeneralError else value)"

definition ERRPayload :: "ProtocolError \<Rightarrow> byte list" where
  "ERRPayload protocolError =
     (let vendorCode = (if VendorCode protocolError = 0 then 1105 else VendorCode protocolError);
          message = (if Message protocolError = [] then ''unknown error'' else Message protocolError);
          sqlState = normalizedSQLState (SQLState protocolError);
          payload = [errPacketHeader];
          payload = appendUint16LE payload (word_of_int vendorCode);
          payload = payload @ [byte_of_char (CHR ''#'')];
          payload = payload @ bytes_of_string sqlState
      in payload @ bytes_of_string message)"

definition ERRPacket :: "byte \<Rightarrow> ProtocolError \<Rightarrow> Packet" where
  "ERRPacket sequenceID protocolError = \<lparr>SequenceID = sequenceID, Payload = ERRPayload protocolError\<rparr>"

text \<open>A Go error is its text; the caller never passes a nil error.\<close>

definition ProtocolErrorFromError :: "string \<Rightarrow> ProtocolError" where
  "ProtocolErrorFromError err = \<lparr>SQLState = SQLStateGeneralError, VendorCode = 1105, Message = err\<rparr>"

datatype CommandResponseKind =
  CommandResponseNone | CommandResponseQuery | CommandResponseFieldList | CommandResponsePrepared
  | CommandResponseOK | CommandResponseError | CommandResponseNoResponse | CommandResponseClose

record CommandResponse =
  resp_Kind :: CommandResponseKind
  Packets :: "Packet list"
  resp_Close :: bool
  Statement :: "StatementResult option"
  resp_ProtocolError :: "ProtocolError option"

definition new_response :: "CommandResponseKind \<Rightarrow> CommandResponse" where
  "new_response k = \<lparr>resp_Kind = k, Packets = [], resp_Close = False, Statement = None, resp_ProtocolError = None\<rparr>"

definition StatementOKResponse :: "StatementResult \<Rightarrow> CommandResponse" where
  "StatementOKResponse statement =
     (new_response CommandResponseOK)\<lparr>Packets := [OKPacket 1 statement], Statement := Some statement\<rparr>"

definition WithCapabilities :: "CommandResponse \<Rightarrow> CapabilityFlag \<Rightarrow> CommandResponse" where
  "WithCapabilities r capabilities =
     (if resp_Kind r \<noteq> CommandResponseOK then r
      else case Statement r of
        Some statement \<Rightarrow>
          let sequenceID = (case Packets r of p # _ \<Rightarrow> SequenceID p | [] \<Rightarrow> 1)
          in r\<lparr>Packets := [OKPacketWithCapabilities sequenceID statement capabilities]\<rparr>
      | None \<Rightarrow>
          if capabilities AND CapabilitySessionTrack = 0 then r
          else r\<lparr>Packets := map (\<lambda>p.
                  case Payload p of
                    b # _ \<Rightarrow> if length (Payload p) = 7 \<and> b = okPacketHeader then p\<lparr>Payload := Payload p @ [0]\<rparr> else p
                  | [] \<Rightarrow> p) (Packets r)\<rparr>)"

definition AuthSuccessResponse :: "string \<Rightarrow> CapabilityFlag \<Rightarrow> CommandResponse" where
  "AuthSuccessResponse plugin capabilities = WithCapabilities (StatementOKResponse empty_statement) capabilities"

definition PingResponse :: CommandResponse where
  "PingResponse = StatementOKResponse empty_statement"

definition QuitResponse :: CommandResponse where
  "QuitResponse = (new_response CommandResponseClose)\<lparr>resp_Close := True\<rparr>"

definition NoResponse :: CommandResponse where
  "NoResponse = new_response CommandResponseNoResponse"

definition ErrorResponse :: "ProtocolError \<Rightarrow> CommandResponse" where
  "ErrorResponse protocolError =
     (new_response CommandResponseError)
       \<lparr>Packets := [ERRPacket 1 protocolError], resp_ProtocolError := Some protocolError\<rparr>"

definition ErrorResponseFromError :: "string \<Rightarrow> CommandResponse" where
  "ErrorResponseFromError err = ErrorResponse (ProtocolErrorFromError err)"

section \<open>Reading OK and ERR packets as a client does\<close>

text \<open>
  A client parses an OK packet as header, two length-encoded integers, status flags, warnings and,
  when bytes remain, a length-encoded text; and an ERR packet as header, code, marker, five bytes
  of SQL state and the message up to the end.
\<close>

definition parse_ok :: "byte list \<Rightarrow> (u64 \<times> u64 \<times> u16 \<times> u16 \<times> string option) option" where
  "parse_ok p =
     (if take 1 p \<noteq> [okPacketHeader] then None else
      case (readLengthEncodedInteger p 1 :: (unit, (u64 \<times> nat) option) res) of
        Inr (Some (rows, i)) \<Rightarrow>
          (case (readLengthEncodedInteger p i :: (unit, (u64 \<times> nat) option) res) of
             Inr (Some (lid, j)) \<Rightarrow>
               (case ((readUint16LE (take 2 (drop j p)) :: (unit, u16) res),
                      (readUint16LE (take 2 (drop (j + 2) p)) :: (unit, u16) res)) of
                  (Inr status, Inr warnings) \<Rightarrow>
                    if j + 4 = length p then Some (rows, lid, status, warnings, None)
                    else (case (readLengthEncodedBytes p (j + 4) :: (unit, (byte list \<times> nat) option) res) of
                            Inr (Some (s, k)) \<Rightarrow>
                              if k = length p then Some (rows, lid, status, warnings, Some (string_of_bytes s)) else None
                          | _ \<Rightarrow> None)
                | _ \<Rightarrow> None)
           | _ \<Rightarrow> None)
      | _ \<Rightarrow> None)"

definition parse_err :: "byte list \<Rightarrow> (u16 \<times> string \<times> string) option" where
  "parse_err p =
     (if take 1 p = [errPacketHeader] \<and> drop 3 (take 4 p) = [byte_of_char (CHR ''#'')] \<and> length p \<ge> 9 then
        (case (readUint16LE (take 2 (drop 1 p)) :: (unit, u16) res) of
           Inr code \<Rightarrow> Some (code, string_of_bytes (take 5 (drop 4 p)), string_of_bytes (drop 9 p))
         | _ \<Rightarrow> None)
      else None)"

lemma OKPayload_layout:
  "OKPayloadWithCapabilities statement capabilities =
     okPacketHeader # encodeLengthEncodedInteger (AffectedRows statement) @
     encodeLengthEncodedInteger (LastInsertID statement) @ le_bytes 2 (unat StatusAutocommit) @
     le_bytes 2 (unat (Warnings statement)) @
     (if Status statement \<noteq> [] \<or> capabilities AND CapabilitySessionTrack \<noteq> 0
      then appendLengthEncodedString [] (Status statement) else [])"
  by (simp add: OKPayloadWithCapabilities_def Let_def appendLengthEncodedString_def
      appendLengthEncodedInteger_append appendUint16LE_bytes)

lemma parse_ok_layout:
  assumes "length s < 2 ^ 63"
    and "tail = [] \<and> info = None \<or> tail = appendLengthEncodedString [] s \<and> info = Some s"
  shows "parse_ok (okPacketHeader # encodeLengthEncodedInteger rows @ encodeLengthEncodedInteger lid @ le_bytes 2 (unat status) @
     le_bytes 2 (unat warnings) @ tail) = Some (rows, lid, status, warnings, info)"
proof -
  let ?p = "okPacketHeader # encodeLengthEncodedInteger rows @ encodeLengthEncodedInteger lid @ le_bytes 2 (unat status) @
     le_bytes 2 (unat warnings) @ tail"
  let ?i = "1 + length (encodeLengthEncodedInteger rows)"
  let ?j = "?i + length (encodeLengthEncodedInteger lid)"
  have 1: "readLengthEncodedInteger ?p 1 = (Inr (Some (rows, ?i)) :: (unit, _) res)"
    using readLengthEncodedInteger_encode [of "[okPacketHeader]" rows, where 'a = unit] by simp
  have 2: "readLengthEncodedInteger ?p ?i = (Inr (Some (lid, ?j)) :: (unit, _) res)"
    using readLengthEncodedInteger_encode [of "okPacketHeader # encodeLengthEncodedInteger rows" lid, where 'a = unit] by simp
  have 3: "readUint16LE (take 2 (drop ?j ?p)) = (Inr status :: (unit, _) res)"
    "readUint16LE (take 2 (drop (?j + 2) ?p)) = (Inr warnings :: (unit, _) res)"
    by (simp_all add: readUint_le_bytes_exact)
  have t: "appendLengthEncodedString [] s \<noteq> []"
    by (simp add: appendLengthEncodedString_def appendLengthEncodedInteger_def appendUint64LE_def)
  have 4: "readLengthEncodedBytes (q @ appendLengthEncodedString [] s) (length q) =
      (Inr (Some (bytes_of_string s, length (q @ appendLengthEncodedString [] s))) :: (unit, _) res)" for q
    using readLengthEncodedBytes_append [of s "[]" q, where 'a = unit] assms(1) by simp
  from assms(2) show ?thesis
  proof (elim disjE conjE)
    assume "tail = []" "info = None"
    then show ?thesis using 1 2 3 unfolding parse_ok_def by simp
  next
    assume tail: "tail = appendLengthEncodedString [] s" and info: "info = Some s"
    have "readLengthEncodedBytes ?p (?j + 4) = (Inr (Some (bytes_of_string s, length ?p)) :: (unit, _) res)"
      using 4 [of "okPacketHeader # encodeLengthEncodedInteger rows @ encodeLengthEncodedInteger lid @ le_bytes 2 (unat status) @
        le_bytes 2 (unat warnings)"] by (simp add: tail add.assoc)
    moreover have "?j + 4 \<noteq> length ?p" using t by (simp add: tail)
    ultimately show ?thesis using 1 2 3 unfolding parse_ok_def info by simp
  qed
qed

lemma length_normalizedSQLState: "length (normalizedSQLState s) = 5"
  by (simp add: normalizedSQLState_def Let_def SQLStateGeneralError_def)

section \<open>Properties\<close>

text \<open>C37: a client that parses an OK packet recovers exactly the affected rows, the last insert id, the
  autocommit status, the warning count, and the status text whenever one is sent; the text is sent
  when it is not empty or the client negotiated session tracking.\<close>

theorem OKPayload_parses:
  assumes "length (Status statement) < 2 ^ 63"
  shows "parse_ok (OKPayloadWithCapabilities statement capabilities) =
     Some (AffectedRows statement, LastInsertID statement, StatusAutocommit, Warnings statement,
           if Status statement \<noteq> [] \<or> capabilities AND CapabilitySessionTrack \<noteq> 0 then Some (Status statement)
           else None)"
  unfolding OKPayload_layout using assms by (intro parse_ok_layout [where s = "Status statement"]) auto

theorem OKPayload_parses_witness:
  "parse_ok (OKPayloadWithCapabilities
       (empty_statement\<lparr>AffectedRows := 300, LastInsertID := 70000, Warnings := 2, Status := ''done''\<rparr>) 0) =
     Some (300, 70000, StatusAutocommit, 2, Some ''done'')"
  using OKPayload_parses
    [of "empty_statement\<lparr>AffectedRows := 300, LastInsertID := 70000, Warnings := 2, Status := ''done''\<rparr>" 0]
  by simp

text \<open>C38: a client that parses an ERR packet recovers the vendor code (1105 when none was set), an SQL
  state of exactly five bytes (the general error state when the given one is not five bytes long)
  and the message (never empty).\<close>

theorem ERRPayload_parses:
  "parse_err (ERRPayload e) =
     Some (word_of_int (if VendorCode e = 0 then 1105 else VendorCode e), normalizedSQLState (SQLState e),
           if Message e = [] then ''unknown error'' else Message e)"
  using length_normalizedSQLState [of "SQLState e"]
  by (simp add: parse_err_def ERRPayload_def Let_def appendUint16LE_bytes readUint_le_bytes_exact)

end
