(* ===== verification/MySQL_Prepared.thy ===== *)
theory MySQL_Prepared
  imports MySQL_Wire Bridge_Types
begin

text \<open>
  Prepared statements on the wire (\<^verbatim>\<open>qsmysql/prepared.go\<close>): the envelopes of
  \<^verbatim>\<open>COM_STMT_EXECUTE\<close> and \<^verbatim>\<open>COM_STMT_SEND_LONG_DATA\<close>, the binary parameter values and the
  decoding of a parameter block with its null bitmap and types. Errors are their Go texts. The
  lemmas show that no byte sequence makes a decoder panic and that a parameter block laid out as
  the MySQL protocol prescribes decodes to the values the client bound.
\<close>

section \<open>Definitions\<close>

type_synonym ColumnType = byte

definition ColumnTypeDecimal :: ColumnType where "ColumnTypeDecimal = 0x00"
definition ColumnTypeTiny :: ColumnType where "ColumnTypeTiny = 0x01"
definition ColumnTypeShort :: ColumnType where "ColumnTypeShort = 0x02"
definition ColumnTypeLong :: ColumnType where "ColumnTypeLong = 0x03"
definition ColumnTypeFloat :: ColumnType where "ColumnTypeFloat = 0x04"
definition ColumnTypeDouble :: ColumnType where "ColumnTypeDouble = 0x05"
definition ColumnTypeNull :: ColumnType where "ColumnTypeNull = 0x06"
definition ColumnTypeTimestamp :: ColumnType where "ColumnTypeTimestamp = 0x07"
definition ColumnTypeLongLong :: ColumnType where "ColumnTypeLongLong = 0x08"
definition ColumnTypeInt24 :: ColumnType where "ColumnTypeInt24 = 0x09"
definition ColumnTypeDate :: ColumnType where "ColumnTypeDate = 0x0a"
definition ColumnTypeTime :: ColumnType where "ColumnTypeTime = 0x0b"
definition ColumnTypeDateTime :: ColumnType where "ColumnTypeDateTime = 0x0c"
definition ColumnTypeNewDate :: ColumnType where "ColumnTypeNewDate = 0x0e"
definition ColumnTypeVarchar :: ColumnType where "ColumnTypeVarchar = 0x0f"
definition ColumnTypeBit :: ColumnType where "ColumnTypeBit = 0x10"
definition ColumnTypeNewDecimal :: ColumnType where "ColumnTypeNewDecimal = 0xf6"
definition ColumnTypeTinyBlob :: ColumnType where "ColumnTypeTinyBlob = 0xf9"
definition ColumnTypeMediumBlob :: ColumnType where "ColumnTypeMediumBlob = 0xfa"
definition ColumnTypeLongBlob :: ColumnType where "ColumnTypeLongBlob = 0xfb"
definition ColumnTypeBlob :: ColumnType where "ColumnTypeBlob = 0xfc"
definition ColumnTypeVarString :: ColumnType where "ColumnTypeVarString = 0xfd"
definition ColumnTypeString :: ColumnType where "ColumnTypeString = 0xfe"

lemmas column_type_defs =
  ColumnTypeDecimal_def ColumnTypeTiny_def ColumnTypeShort_def ColumnTypeLong_def ColumnTypeFloat_def
  ColumnTypeDouble_def ColumnTypeNull_def ColumnTypeTimestamp_def ColumnTypeLongLong_def
  ColumnTypeInt24_def ColumnTypeDate_def ColumnTypeTime_def ColumnTypeDateTime_def
  ColumnTypeNewDate_def ColumnTypeVarchar_def ColumnTypeBit_def ColumnTypeNewDecimal_def
  ColumnTypeTinyBlob_def ColumnTypeMediumBlob_def ColumnTypeLongBlob_def ColumnTypeBlob_def
  ColumnTypeVarString_def ColumnTypeString_def

type_synonym CommandByte = byte

definition CommandQuit :: CommandByte where "CommandQuit = 0x01"
definition CommandQuery :: CommandByte where "CommandQuery = 0x03"
definition CommandFieldList :: CommandByte where "CommandFieldList = 0x04"
definition CommandPing :: CommandByte where "CommandPing = 0x0e"
definition CommandStmtPrepare :: CommandByte where "CommandStmtPrepare = 0x16"
definition CommandStmtExecute :: CommandByte where "CommandStmtExecute = 0x17"
definition CommandStmtSendLongData :: CommandByte where "CommandStmtSendLongData = 0x18"
definition CommandStmtClose :: CommandByte where "CommandStmtClose = 0x19"
definition CommandStmtReset :: CommandByte where "CommandStmtReset = 0x1a"

lemmas command_byte_defs =
  CommandQuit_def CommandQuery_def CommandFieldList_def CommandPing_def CommandStmtPrepare_def
  CommandStmtExecute_def CommandStmtSendLongData_def CommandStmtClose_def CommandStmtReset_def

record PreparedExecuteCommand =
  exec_StatementID :: u32
  exec_Flags :: byte
  IterationCount :: u32
  ParameterPayload :: "byte list"

record PreparedLongDataCommand =
  ld_StatementID :: u32
  ParameterID :: u16
  ld_Data :: "byte list"

definition ParameterIndex :: "PreparedLongDataCommand \<Rightarrow> int" where
  "ParameterIndex c = uint (ParameterID c) + 1"

record PreparedParameterType =
  pt_Type :: ColumnType
  pt_Unsigned :: bool

record PreparedExecuteDecodeOptions =
  CachedTypes :: "PreparedParameterType list"
  LongData :: "int \<rightharpoonup> byte list"

definition DecodePreparedExecuteCommand :: "byte list \<Rightarrow> (string, PreparedExecuteCommand) res" where
  "DecodePreparedExecuteCommand payload =
     (if length payload < 10 then
        Inl (Err (''COM_STMT_EXECUTE payload too short: '' @ dec_nat (length payload) @ '' bytes''))
      else bindR (idx payload 0) (\<lambda>p0.
        if p0 \<noteq> CommandStmtExecute then
          Inl (Err (''COM_STMT_EXECUTE payload has command byte 0x'' @ fmt_02x p0))
        else bindR (slice payload 1 5) (\<lambda>s1. bindR (readUint32LE s1) (\<lambda>statementID.
             bindR (idx payload 5) (\<lambda>flags.
             bindR (slice payload 6 10) (\<lambda>s6. bindR (readUint32LE s6) (\<lambda>iterationCount.
             bindR (slice payload 10 (length payload)) (\<lambda>rest.
               Inr \<lparr>exec_StatementID = statementID, exec_Flags = flags, IterationCount = iterationCount,
                    ParameterPayload = rest\<rparr>))))))))"

definition DecodePreparedLongDataCommand :: "byte list \<Rightarrow> (string, PreparedLongDataCommand) res" where
  "DecodePreparedLongDataCommand payload =
     (if length payload < 7 then
        Inl (Err (''COM_STMT_SEND_LONG_DATA payload too short: '' @ dec_nat (length payload) @ '' bytes''))
      else bindR (idx payload 0) (\<lambda>p0.
        if p0 \<noteq> CommandStmtSendLongData then
          Inl (Err (''COM_STMT_SEND_LONG_DATA payload has command byte 0x'' @ fmt_02x p0))
        else bindR (slice payload 1 5) (\<lambda>s1. bindR (readUint32LE s1) (\<lambda>statementID.
             bindR (slice payload 5 7) (\<lambda>s5. bindR (readUint16LE s5) (\<lambda>parameterID.
             bindR (slice payload 7 (length payload)) (\<lambda>rest.
               Inr \<lparr>ld_StatementID = statementID, ParameterID = parameterID, ld_Data = rest\<rparr>)))))))"

subsection \<open>Temporal values\<close>

definition datetime_error :: "int \<Rightarrow> int \<Rightarrow> int \<Rightarrow> int \<Rightarrow> int \<Rightarrow> int \<Rightarrow> u32 \<Rightarrow> string" where
  "datetime_error year month day hour minute second microsecond =
     ''invalid datetime '' @ fmt_0d 4 (nat year) @ ''-'' @ fmt_0d 2 (nat month) @ ''-'' @ fmt_0d 2 (nat day) @
     '' '' @ fmt_0d 2 (nat hour) @ '':'' @ fmt_0d 2 (nat minute) @ '':'' @ fmt_0d 2 (nat second) @
     ''.'' @ fmt_0d 6 (unat microsecond)"

definition validateBinaryDateTime ::
  "int \<Rightarrow> int \<Rightarrow> int \<Rightarrow> int \<Rightarrow> int \<Rightarrow> int \<Rightarrow> u32 \<Rightarrow> string option" where
  "validateBinaryDateTime year month day hour minute second microsecond =
     (if month < 1 \<or> month > 12 \<or> day < 1 \<or> hour > 23 \<or> minute > 59 \<or> second > 59 \<or> microsecond > 999999
      then Some (datetime_error year month day hour minute second microsecond)
      else
        let nanosecond = uint microsecond * 1000;
            value = time_Date year month day hour minute second nanosecond
        in if Year value \<noteq> year \<or> Month value \<noteq> month \<or> Day value \<noteq> day \<or> Hour value \<noteq> hour \<or>
              Minute value \<noteq> minute \<or> Second value \<noteq> second \<or> Nanosecond value \<noteq> nanosecond
           then Some (datetime_error year month day hour minute second microsecond)
           else None)"

definition readBinaryDateTime :: "byte list \<Rightarrow> nat \<Rightarrow> (string, Time \<times> nat) res" where
  "readBinaryDateTime payload offset =
     (if offset \<ge> length payload then Inl (Err ''datetime length truncated'')
      else bindR (idx payload offset) (\<lambda>b.
        let len = unat b; offset = offset + 1 in
        if len = 0 then Inr (zero_time, offset)
        else if len \<noteq> 4 \<and> len \<noteq> 7 \<and> len \<noteq> 11 then
          Inl (Err (''unsupported datetime length '' @ dec_nat len))
        else if offset + len > length payload then Inl (Err ''datetime payload truncated'')
        else bindR (slice payload offset (offset + 2)) (\<lambda>s. bindR (readUint16LE s) (\<lambda>y.
             bindR (idx payload (offset + 2)) (\<lambda>mo. bindR (idx payload (offset + 3)) (\<lambda>d.
             bindR (if len \<ge> 7 then bindR (idx payload (offset + 4)) (\<lambda>h.
                      bindR (idx payload (offset + 5)) (\<lambda>mi. bindR (idx payload (offset + 6)) (\<lambda>s.
                        Inr (uint h, uint mi, uint s))))
                    else Inr (0, 0, 0)) (\<lambda>(hour, minute, second).
             bindR (if len = 11 then bindR (slice payload (offset + 7) (offset + 11)) readUint32LE
                    else Inr 0) (\<lambda>microsecond.
               case validateBinaryDateTime (uint y) (uint mo) (uint d) hour minute second microsecond of
                 Some e \<Rightarrow> Inl (Err e)
               | None \<Rightarrow> Inr (time_Date (uint y) (uint mo) (uint d) hour minute second (uint microsecond * 1000),
                              offset + len)))))))))"

definition readBinaryTimeString :: "byte list \<Rightarrow> nat \<Rightarrow> (string, string \<times> nat) res" where
  "readBinaryTimeString payload offset =
     (if offset \<ge> length payload then Inl (Err ''time length truncated'')
      else bindR (idx payload offset) (\<lambda>b.
        let len = unat b; offset = offset + 1 in
        if len = 0 then Inr (''00:00:00'', offset)
        else if len \<noteq> 8 \<and> len \<noteq> 12 then Inl (Err (''unsupported time length '' @ dec_nat len))
        else if offset + len > length payload then Inl (Err ''time payload truncated'')
        else bindR (idx payload offset) (\<lambda>sg.
             bindR (slice payload (offset + 1) (offset + 5)) (\<lambda>s. bindR (readUint32LE s) (\<lambda>days.
             bindR (idx payload (offset + 5)) (\<lambda>hours. bindR (idx payload (offset + 6)) (\<lambda>minutes.
             bindR (idx payload (offset + 7)) (\<lambda>seconds.
               let sign = (if sg \<noteq> 0 then ''-'' else '''');
                   next = offset + len;
                   totalHours = (ucast days * 24 + ucast hours :: u64);
                   hms = sign @ fmt_0d 2 (unat totalHours) @ '':'' @ fmt_0d 2 (unat minutes) @ '':'' @
                         fmt_0d 2 (unat seconds)
               in if len = 12 then
                    bindR (slice payload (offset + 8) (offset + 12)) (\<lambda>s. bindR (readUint32LE s) (\<lambda>microseconds.
                      Inr (hms @ ''.'' @ fmt_0d 6 (unat microseconds), next)))
                  else Inr (hms, next)))))))))"

subsection \<open>Parameter values\<close>

definition decodePreparedBinaryValue ::
  "byte list \<Rightarrow> nat \<Rightarrow> PreparedParameterType \<Rightarrow> (string, ValueKind \<times> any \<times> nat) res" where
  "decodePreparedBinaryValue payload offset parameterType =
     (let t = pt_Type parameterType in
      if t = ColumnTypeNull then Inr (ValueNull, ANil, offset)
      else if t = ColumnTypeTiny then
        (if offset + 1 > length payload then Inl (Err ''tiny integer truncated'')
         else bindR (idx payload offset) (\<lambda>b.
           if pt_Unsigned parameterType then Inr (ValueInt, AUint64 (ucast b), offset + 1)
           else Inr (ValueInt, AInt64 (scast b), offset + 1)))
      else if t = ColumnTypeShort then
        (if offset + 2 > length payload then Inl (Err ''short integer truncated'')
         else bindR (slice payload offset (offset + 2)) (\<lambda>s. bindR (readUint16LE s) (\<lambda>raw.
           if pt_Unsigned parameterType then Inr (ValueInt, AUint64 (ucast raw), offset + 2)
           else Inr (ValueInt, AInt64 (scast raw), offset + 2))))
      else if t = ColumnTypeLong \<or> t = ColumnTypeInt24 then
        (if offset + 4 > length payload then Inl (Err ''integer truncated'')
         else bindR (slice payload offset (offset + 4)) (\<lambda>s. bindR (readUint32LE s) (\<lambda>raw.
           if pt_Unsigned parameterType then Inr (ValueInt, AUint64 (ucast raw), offset + 4)
           else Inr (ValueInt, AInt64 (scast raw), offset + 4))))
      else if t = ColumnTypeLongLong then
        (if offset + 8 > length payload then Inl (Err ''long integer truncated'')
         else bindR (slice payload offset (offset + 8)) (\<lambda>s. bindR (readUint64LE s) (\<lambda>raw.
           if pt_Unsigned parameterType then Inr (ValueInt, AUint64 raw, offset + 8)
           else Inr (ValueInt, AInt64 raw, offset + 8))))
      else if t = ColumnTypeFloat then
        (if offset + 4 > length payload then Inl (Err ''float truncated'')
         else bindR (slice payload offset (offset + 4)) (\<lambda>s. bindR (readUint32LE s) (\<lambda>raw.
           Inr (ValueFloat, AFloat64 (float64_of_float32 raw), offset + 4))))
      else if t = ColumnTypeDouble then
        (if offset + 8 > length payload then Inl (Err ''double truncated'')
         else bindR (slice payload offset (offset + 8)) (\<lambda>s. bindR (readUint64LE s) (\<lambda>raw.
           Inr (ValueFloat, AFloat64 raw, offset + 8))))
      else if t = ColumnTypeDate \<or> t = ColumnTypeNewDate \<or> t = ColumnTypeDateTime \<or> t = ColumnTypeTimestamp then
        bindR (readBinaryDateTime payload offset) (\<lambda>(value, next). Inr (ValueTime, ATime value, next))
      else if t = ColumnTypeTime then
        bindR (readBinaryTimeString payload offset) (\<lambda>(value, next). Inr (ValueString, AString value, next))
      else if t = ColumnTypeString \<or> t = ColumnTypeVarString \<or> t = ColumnTypeVarchar \<or> t = ColumnTypeBlob \<or>
              t = ColumnTypeTinyBlob \<or> t = ColumnTypeMediumBlob \<or> t = ColumnTypeLongBlob \<or>
              t = ColumnTypeDecimal \<or> t = ColumnTypeNewDecimal \<or> t = ColumnTypeBit then
        bindR (readLengthEncodedBytes payload offset) (\<lambda>r.
          case r of
            None \<Rightarrow> Inl (Err ''length-encoded value truncated'')
          | Some (raw, next) \<Rightarrow> Inr (ValueString, AString (string_of_bytes raw), next))
      else Inl (Err (''unsupported mysql prepared parameter type 0x'' @ fmt_02x t)))"

fun preparedParameterTypeFromRef :: "DataType \<Rightarrow> PreparedParameterType" where
  "preparedParameterTypeFromRef DataTypeBool = \<lparr>pt_Type = ColumnTypeTiny, pt_Unsigned = False\<rparr>"
| "preparedParameterTypeFromRef DataTypeInt = \<lparr>pt_Type = ColumnTypeLongLong, pt_Unsigned = False\<rparr>"
| "preparedParameterTypeFromRef DataTypeFloat = \<lparr>pt_Type = ColumnTypeDouble, pt_Unsigned = False\<rparr>"
| "preparedParameterTypeFromRef DataTypeTime = \<lparr>pt_Type = ColumnTypeDateTime, pt_Unsigned = False\<rparr>"
| "preparedParameterTypeFromRef _ = \<lparr>pt_Type = ColumnTypeVarString, pt_Unsigned = False\<rparr>"

subsection \<open>Parameter blocks\<close>

text \<open>The loop that reads the parameter types, and the loop over the parameters.\<close>

fun decodeTypes :: "byte list \<Rightarrow> nat \<Rightarrow> nat \<Rightarrow> (string, PreparedParameterType list \<times> nat) res" where
  "decodeTypes payload offset 0 = Inr ([], offset)"
| "decodeTypes payload offset (Suc n) =
     bindR (idx payload offset) (\<lambda>t. bindR (idx payload (offset + 1)) (\<lambda>flag.
     bindR (decodeTypes payload (offset + 2) n) (\<lambda>(ts, off).
       Inr (\<lparr>pt_Type = t, pt_Unsigned = (flag AND 0x80 \<noteq> 0)\<rparr> # ts, off))))"

fun decodeValues ::
  "byte list \<Rightarrow> byte list \<Rightarrow> (int \<rightharpoonup> byte list) \<Rightarrow> PreparedParameterType list \<Rightarrow> nat \<Rightarrow> ParameterRef list \<Rightarrow>
   nat \<Rightarrow> (string, ParameterValue list \<times> nat) res" where
  "decodeValues payload nullBitmap longData types i [] offset = Inr ([], offset)"
| "decodeValues payload nullBitmap longData types i (ref # refs) offset =
     (let index = (if ref_Index ref = 0 then int i + 1 else ref_Index ref) in
      bindR (idx nullBitmap (i div 8)) (\<lambda>nb.
        if nb AND push_bit (i mod 8) 1 \<noteq> 0 then
          bindR (decodeValues payload nullBitmap longData types (i + 1) refs offset) (\<lambda>(vs, off).
            Inr (IndexedParameterValue index ValueNull ANil # vs, off))
        else case longData index of
          Some data \<Rightarrow>
            bindR (decodeValues payload nullBitmap longData types (i + 1) refs offset) (\<lambda>(vs, off).
              Inr (IndexedParameterValue index ValueString (AString (string_of_bytes data)) # vs, off))
        | None \<Rightarrow>
            bindR (idx types i) (\<lambda>t.
              bindR (wrapErr (\<lambda>e. ''decode COM_STMT_EXECUTE parameter '' @ dec_nat (i + 1) @ '': '' @ e)
                      (decodePreparedBinaryValue payload offset t)) (\<lambda>(kind, value, next).
                bindR (decodeValues payload nullBitmap longData types (i + 1) refs next) (\<lambda>(vs, off).
                  Inr (IndexedParameterValue index kind value # vs, off))))))"

definition DecodePreparedExecuteParametersWithOptions ::
  "PreparedExecuteCommand \<Rightarrow> ParameterRef list \<Rightarrow> PreparedExecuteDecodeOptions \<Rightarrow>
   (string, ParameterValue list \<times> PreparedParameterType list) res" where
  "DecodePreparedExecuteParametersWithOptions execute refs options =
     (let parameterCount = length refs in
      if parameterCount = 0 then Inr ([], [])
      else
        let payload = ParameterPayload execute; nullBitmapLength = (parameterCount + 7) div 8 in
        if length payload < nullBitmapLength + 1 then
          Inl (Err (''COM_STMT_EXECUTE parameter payload truncated: got '' @ dec_nat (length payload) @
                    '' bytes, want at least '' @ dec_nat (nullBitmapLength + 1)))
        else bindR (slice payload 0 nullBitmapLength) (\<lambda>nullBitmap.
          bindR (idx payload nullBitmapLength) (\<lambda>newParameterBoundFlag.
            let offset = nullBitmapLength + 1 in
            bindR (if newParameterBoundFlag \<noteq> 0 then
                     (let typeBytes = parameterCount * 2 in
                      if length payload - offset < typeBytes then
                        Inl (Err (''COM_STMT_EXECUTE parameter types truncated: got '' @
                                  dec_nat (length payload - offset) @ '' bytes, want '' @ dec_nat typeBytes))
                      else decodeTypes payload offset parameterCount)
                   else if length (CachedTypes options) = parameterCount then Inr (CachedTypes options, offset)
                   else Inr (map (\<lambda>ref. preparedParameterTypeFromRef (ref_Type ref)) refs, offset)) (\<lambda>(types, offset).
            bindR (decodeValues payload nullBitmap (LongData options) types 0 refs offset) (\<lambda>(values, offset).
              if offset \<noteq> length payload then
                Inl (Err (''COM_STMT_EXECUTE parameter payload has '' @ FormatInt (int (length payload) - int offset) @
                          '' trailing bytes''))
              else Inr (values, types))))))"

definition DecodePreparedExecuteParameters ::
  "PreparedExecuteCommand \<Rightarrow> ParameterRef list \<Rightarrow> (string, ParameterValue list) res" where
  "DecodePreparedExecuteParameters execute refs =
     bindR (DecodePreparedExecuteParametersWithOptions execute refs
              \<lparr>CachedTypes = [], LongData = Map.empty\<rparr>) (\<lambda>(values, _). Inr values)"

section \<open>No decoder panics\<close>

lemma no_panic_DecodePreparedExecuteCommand [no_panic_intros]: "no_panic (DecodePreparedExecuteCommand payload)"
  unfolding DecodePreparedExecuteCommand_def
  by (intro no_panic_intros) (auto dest!: slice_length)

lemma no_panic_DecodePreparedLongDataCommand [no_panic_intros]: "no_panic (DecodePreparedLongDataCommand payload)"
  unfolding DecodePreparedLongDataCommand_def
  by (intro no_panic_intros) (auto dest!: slice_length)

lemma no_panic_readBinaryDateTime [no_panic_intros]: "no_panic (readBinaryDateTime payload offset)"
  unfolding readBinaryDateTime_def Let_def
  by (intro no_panic_intros) (auto dest!: slice_length)

lemma no_panic_readBinaryTimeString [no_panic_intros]: "no_panic (readBinaryTimeString payload offset)"
  unfolding readBinaryTimeString_def Let_def
  by (intro no_panic_intros) (auto dest!: slice_length)

lemma no_panic_decodePreparedBinaryValue [no_panic_intros]:
  assumes "length payload < 2 ^ 63"
  shows "no_panic (decodePreparedBinaryValue payload offset t)"
proof -
  have "length payload < 2 ^ 64" using assms by simp
  then show ?thesis
    unfolding decodePreparedBinaryValue_def Let_def
    by (intro no_panic_intros) (auto dest!: slice_length)
qed

lemma decodeTypes_length: "decodeTypes payload offset n = Inr (ts, off) \<Longrightarrow> length ts = n \<and> off = offset + 2 * n"
  by (induction n arbitrary: offset ts off) (fastforce simp: bindR_Inr_iff)+

lemma no_panic_decodeTypes [no_panic_intros]:
  "offset + 2 * n \<le> length payload \<Longrightarrow> no_panic (decodeTypes payload offset n)"
  by (induction n arbitrary: offset) (auto intro!: no_panic_intros)

lemma no_panic_decodeValues [no_panic_intros]:
  "length payload < 2 ^ 63 \<Longrightarrow> i + length refs \<le> length types \<Longrightarrow> (i + length refs + 7) div 8 \<le> length nullBitmap \<Longrightarrow>
   no_panic (decodeValues payload nullBitmap longData types i refs offset)"
proof (induction refs arbitrary: i offset)
  case (Cons ref refs)
  have "i div 8 < length nullBitmap" using Cons.prems(3) by simp
  moreover have "no_panic (decodeValues payload nullBitmap longData types (i + 1) refs off)" for off
    using Cons.prems by (intro Cons.IH) simp_all
  moreover have "no_panic (decodePreparedBinaryValue payload offset t)" for t
    using Cons.prems(1) by (rule no_panic_decodePreparedBinaryValue)
  moreover have "i < length types" using Cons.prems(2) by simp
  ultimately show ?case unfolding decodeValues.simps Let_def using Cons.prems(1) by (intro no_panic_intros)
qed simp

lemma no_panic_DecodePreparedExecuteParametersWithOptions [no_panic_intros]:
  assumes "length (ParameterPayload execute) < 2 ^ 63"
  shows "no_panic (DecodePreparedExecuteParametersWithOptions execute refs options)"
  using assms unfolding DecodePreparedExecuteParametersWithOptions_def Let_def
  by (intro no_panic_intros) (auto dest!: slice_length decodeTypes_length split: if_splits)

section \<open>Parameter blocks as a client lays them out\<close>

text \<open>
  The values a client binds, with the bytes the MySQL protocol prescribes for them: an integer of
  1, 2, 4 or 8 bytes in two's complement or unsigned, a double, a length-encoded string, or NULL.
\<close>

datatype client_param = CNull | CInt nat bool int | CDouble u64 | CString string

fun valid_param :: "client_param \<Rightarrow> bool" where
  "valid_param CNull = True"
| "valid_param (CInt w u i) \<longleftrightarrow> w \<in> {1, 2, 4, 8} \<and>
     (if u then 0 \<le> i \<and> i < 2 ^ (8 * w) else - (2 ^ (8 * w - 1)) \<le> i \<and> i < 2 ^ (8 * w - 1))"
| "valid_param (CDouble _) = True"
| "valid_param (CString s) = True"

fun param_type :: "client_param \<Rightarrow> byte \<times> byte" where
  "param_type CNull = (ColumnTypeNull, 0)"
| "param_type (CInt w u i) =
     ((if w = 1 then ColumnTypeTiny else if w = 2 then ColumnTypeShort else if w = 4 then ColumnTypeLong
       else ColumnTypeLongLong), if u then 0x80 else 0)"
| "param_type (CDouble _) = (ColumnTypeDouble, 0)"
| "param_type (CString _) = (ColumnTypeVarString, 0)"

fun param_bytes :: "client_param \<Rightarrow> byte list" where
  "param_bytes CNull = []"
| "param_bytes (CInt w u i) = le_bytes w (nat (i mod 2 ^ (8 * w)))"
| "param_bytes (CDouble d) = le_bytes 8 (unat d)"
| "param_bytes (CString s) = appendLengthEncodedString [] s"

definition null_byte :: "client_param list \<Rightarrow> nat \<Rightarrow> byte" where
  "null_byte ps j =
     foldr (\<lambda>k b. if 8 * j + k < length ps \<and> ps ! (8 * j + k) = CNull then set_bit k b else b) [0 ..< 8] 0"

definition execute_block :: "client_param list \<Rightarrow> byte list" where
  "execute_block ps =
     map (null_byte ps) [0 ..< (length ps + 7) div 8] @ [1] @
     concat (map (\<lambda>p. [fst (param_type p), snd (param_type p)]) ps) @
     concat (map param_bytes ps)"

text \<open>The meaning of a decoded value: the integer it holds, its double, its text.\<close>

fun any_int :: "any \<Rightarrow> int option" where
  "any_int (AInt64 w) = Some (sint w)"
| "any_int (AUint64 w) = Some (uint w)"
| "any_int _ = None"

fun denotes :: "client_param \<Rightarrow> ValueKind \<Rightarrow> any \<Rightarrow> bool" where
  "denotes CNull k v \<longleftrightarrow> k = ValueNull \<and> v = ANil"
| "denotes (CInt w u i) k v \<longleftrightarrow> k = ValueInt \<and> any_int v = Some i"
| "denotes (CDouble d) k v \<longleftrightarrow> k = ValueFloat \<and> v = AFloat64 d"
| "denotes (CString s) k v \<longleftrightarrow> k = ValueString \<and> v = AString s"

lemma word_of_nat_mod: "(word_of_nat (nat (i mod 2 ^ LENGTH('a))) :: 'a :: len word) = word_of_int i"
proof -
  have "(word_of_nat (nat (i mod 2 ^ LENGTH('a))) :: 'a word) = word_of_int (i mod 2 ^ LENGTH('a))"
    by (simp flip: word_of_int_nat)
  then show ?thesis by (simp add: word_of_int_eq_iff take_bit_eq_mod)
qed

lemma sint_scast_int:
  fixes i :: int
  assumes "- (2 ^ (LENGTH('a) - 1)) \<le> i" "i < 2 ^ (LENGTH('a) - 1)" "LENGTH('a :: len) \<le> LENGTH('b :: len)"
  shows "sint (scast (word_of_int i :: 'a word) :: 'b word) = i"
proof -
  have "sint (word_of_int i :: 'a word) = i"
    using assms(1,2) by (simp add: signed_take_bit_int_eq_self sint_sbintrunc')
  then show ?thesis using assms(3)
    by (simp add: sint_up_scast is_up.rep_eq)
qed

lemma uint_ucast_int:
  fixes i :: int
  assumes "0 \<le> i" "i < 2 ^ LENGTH('a)" "LENGTH('a :: len) \<le> LENGTH('b :: len)"
  shows "uint (ucast (word_of_int i :: 'a word) :: 'b word) = i"
proof -
  have "uint (word_of_int i :: 'a word) = i"
    using assms(1,2) by (simp add: take_bit_int_eq_self uint_word_of_int_eq)
  then show ?thesis using assms(3) by (simp add: uint_up_ucast is_up.rep_eq)
qed

lemma bit_foldr_set:
  "bit (foldr (\<lambda>k b. if P k then set_bit k b else b) ks (0 :: 'a :: len word)) m \<longleftrightarrow>
   m \<in> set ks \<and> P m \<and> m < LENGTH('a)"
  by (induction ks) (auto simp: bit_set_bit_iff)

lemma null_byte_bit:
  "i < length ps \<Longrightarrow> null_byte ps (i div 8) AND push_bit (i mod 8) 1 \<noteq> 0 \<longleftrightarrow> ps ! i = CNull"
  unfolding bit_iff_and_push_bit_not_eq_0 [symmetric] null_byte_def bit_foldr_set by simp

definition wire_type :: "client_param \<Rightarrow> PreparedParameterType" where
  "wire_type p = \<lparr>pt_Type = fst (param_type p), pt_Unsigned = (snd (param_type p) AND 0x80 \<noteq> 0)\<rparr>"

lemma decode_param_int:
  assumes "valid_param (CInt w u i)"
  shows "\<exists>v. decodePreparedBinaryValue (pre @ param_bytes (CInt w u i) @ rest) (length pre) (wire_type (CInt w u i)) =
     Inr (ValueInt, v, length pre + w) \<and> any_int v = Some i"
proof -
  have m: "word_of_nat (nat (i mod 256)) = (word_of_int i :: byte)"
      "word_of_nat (nat (i mod 65536)) = (word_of_int i :: u16)"
      "word_of_nat (nat (i mod 4294967296)) = (word_of_int i :: u32)"
      "word_of_nat (nat (i mod 18446744073709551616)) = (word_of_int i :: u64)"
    using word_of_nat_mod [of i, where 'a = 8] word_of_nat_mod [of i, where 'a = 16]
      word_of_nat_mod [of i, where 'a = 32] word_of_nat_mod [of i, where 'a = 64] by simp_all
  have w: "w = 1 \<or> w = 2 \<or> w = 4 \<or> w = 8" using assms by auto
  have u8: "u \<Longrightarrow> w = 8 \<Longrightarrow> uint (word_of_int i :: u64) = i"
    using assms by (simp add: uint_word_of_int_eq take_bit_int_eq_self)
  have s8: "\<not> u \<Longrightarrow> w = 8 \<Longrightarrow> sint (word_of_int i :: u64) = i"
    using assms by (simp add: sint_sbintrunc' signed_take_bit_int_eq_self)
  from w show ?thesis
    using assms u8 s8
    by (elim disjE; cases u)
       (simp_all add: decodePreparedBinaryValue_def wire_type_def column_type_defs idx_def slice_def
          readUint_le_bytes_exact m sint_scast_int uint_ucast_int nth_append)
qed

lemma decode_param:
  assumes "valid_param p" "length (pre @ param_bytes p @ rest) < 2 ^ 63"
  shows "\<exists>k v. decodePreparedBinaryValue (pre @ param_bytes p @ rest) (length pre) (wire_type p) =
     Inr (k, v, length pre + length (param_bytes p)) \<and> denotes p k v"
proof (cases p)
  case CNull
  then show ?thesis by (simp add: decodePreparedBinaryValue_def wire_type_def column_type_defs)
next
  case (CInt w u i)
  then show ?thesis using decode_param_int [of w u i pre rest] assms(1) by auto
next
  case (CDouble d)
  then show ?thesis
    by (simp add: decodePreparedBinaryValue_def wire_type_def column_type_defs slice_def readUint_le_bytes_exact)
next
  case (CString s)
  then have "length s + length rest < 2 ^ 64"
    using assms(2) by (simp add: appendLengthEncodedString_def)
  then show ?thesis using CString
    by (simp add: decodePreparedBinaryValue_def wire_type_def column_type_defs readLengthEncodedBytes_append)
qed

lemma decodeTypes_block:
  "decodeTypes (pre @ concat (map (\<lambda>p. [fst (param_type p), snd (param_type p)]) ps) @ rest) (length pre) (length ps) =
     Inr (map wire_type ps, length pre + 2 * length ps)"
proof (induction ps arbitrary: pre)
  case (Cons p ps)
  from Cons [of "pre @ [fst (param_type p), snd (param_type p)]"] show ?case
    by (simp add: idx_def nth_append wire_type_def)
qed simp

definition param_index :: "nat \<times> ParameterRef \<Rightarrow> int" where
  "param_index = (\<lambda>(i, ref). if ref_Index ref = 0 then int i + 1 else ref_Index ref)"

lemma decodeValues_null:
  assumes "idx bm (i div 8) = (Inr nb :: (string, byte) res)" "nb AND push_bit (i mod 8) 1 \<noteq> 0"
    and "decodeValues payload bm ld types (i + 1) refs offset = Inr (vs, off)"
  shows "decodeValues payload bm ld types i (ref # refs) offset =
     Inr (IndexedParameterValue (param_index (i, ref)) ValueNull ANil # vs, off)"
  using assms by (simp add: Let_def param_index_def)

lemma decodeValues_value:
  assumes "idx bm (i div 8) = (Inr nb :: (string, byte) res)" "nb AND push_bit (i mod 8) 1 = 0" "ld = Map.empty"
    and "idx types i = (Inr t :: (string, PreparedParameterType) res)"
    and "decodePreparedBinaryValue payload offset t = Inr (k, v, next)"
    and "decodeValues payload bm ld types (i + 1) refs next = Inr (vs, off)"
  shows "decodeValues payload bm ld types i (ref # refs) offset =
     Inr (IndexedParameterValue (param_index (i, ref)) k v # vs, off)"
  using assms by (simp add: Let_def param_index_def)

lemma decodeValues_block:
  assumes "length refs = length ps2" "list_all valid_param ps2"
    and "length (pre @ concat (map param_bytes ps2) @ rest) < 2 ^ 63"
  shows "\<exists>vs. decodeValues (pre @ concat (map param_bytes ps2) @ rest)
       (map (null_byte (ps1 @ ps2)) [0 ..< (length (ps1 @ ps2) + 7) div 8]) Map.empty
       (map wire_type (ps1 @ ps2)) (length ps1) refs (length pre) =
         Inr (vs, length pre + length (concat (map param_bytes ps2))) \<and>
     list_all2 (\<lambda>p v. denotes p (pv_Kind v) (pv_Value v)) ps2 vs \<and>
     map pv_Index vs = map param_index (List.enumerate (length ps1) refs)"
  using assms
proof (induction ps2 arbitrary: refs pre ps1)
  case (Cons p ps2)
  obtain ref refs' where refs: "refs = ref # refs'" using Cons.prems(1) by (cases refs) auto
  let ?payload = "pre @ concat (map param_bytes (p # ps2)) @ rest"
  let ?bm = "map (null_byte (ps1 @ p # ps2)) [0 ..< (length (ps1 @ p # ps2) + 7) div 8]"
  have i: "length ps1 div 8 < (length (ps1 @ p # ps2) + 7) div 8" by simp
  then have nb: "idx ?bm (length ps1 div 8) = (Inr (null_byte (ps1 @ p # ps2) (length ps1 div 8)) :: (string, _) res)"
    by (simp add: idx_def)
  have null: "null_byte (ps1 @ p # ps2) (length ps1 div 8) AND push_bit (length ps1 mod 8) 1 \<noteq> 0 \<longleftrightarrow> p = CNull"
    using null_byte_bit [of "length ps1" "ps1 @ p # ps2"] by simp
  have ty: "idx (map wire_type (ps1 @ p # ps2)) (length ps1) = (Inr (wire_type p) :: (string, _) res)"
    by (simp add: idx_def nth_append)
  obtain vs where ih: "decodeValues ?payload ?bm Map.empty (map wire_type (ps1 @ p # ps2)) (length ps1 + 1) refs'
        (length pre + length (param_bytes p)) = Inr (vs, length pre + length (concat (map param_bytes (p # ps2))))"
      "list_all2 (\<lambda>p v. denotes p (pv_Kind v) (pv_Value v)) ps2 vs"
      "map pv_Index vs = map param_index (List.enumerate (length ps1 + 1) refs')"
    using Cons.IH [of refs' "pre @ param_bytes p" "ps1 @ [p]"] Cons.prems refs by (auto simp: add.assoc)
  obtain k v where kv: "decodePreparedBinaryValue ?payload (length pre) (wire_type p) =
      Inr (k, v, length pre + length (param_bytes p))" "denotes p k v"
    using decode_param [of p pre "concat (map param_bytes ps2) @ rest"] Cons.prems by auto
  let ?v = "IndexedParameterValue (param_index (length ps1, ref)) k v"
  have "decodeValues ?payload ?bm Map.empty (map wire_type (ps1 @ p # ps2)) (length ps1) refs (length pre) =
      Inr (?v # vs, length pre + length (concat (map param_bytes (p # ps2))))"
  proof (cases "p = CNull")
    case True
    then have "k = ValueNull" "v = ANil" "length (param_bytes p) = 0" using kv(2) by simp_all
    with True show ?thesis unfolding refs using decodeValues_null [OF nb] null ih(1) by simp
  next
    case False
    with null have "null_byte (ps1 @ p # ps2) (length ps1 div 8) AND push_bit (length ps1 mod 8) 1 = 0" by simp
    then show ?thesis unfolding refs using decodeValues_value [OF nb _ refl ty kv(1) ih(1)] by blast
  qed
  then show ?case using ih(2,3) kv(2) refs
    by (intro exI [of _ "?v # vs"]) (simp add: IndexedParameterValue_def)
qed simp

section \<open>Properties\<close>

text \<open>C30: a parameter block that lays out any list of bound values as the protocol prescribes (null
  bitmap, new-types flag, type bytes, values) decodes without error: every parameter gets the
  value the client bound (NULL exactly for the parameters whose bit is set, integers of every
  width and signedness with their sign, doubles bit for bit, strings byte for byte) under the index
  of its placeholder, and the decoded types are the ones sent.\<close>

theorem execute_block_decodes:
  assumes "ps \<noteq> []" "length refs = length ps" "list_all valid_param ps" "length (execute_block ps) < 2 ^ 63"
    and "ParameterPayload execute = execute_block ps" "LongData options = Map.empty"
  shows "\<exists>vs. DecodePreparedExecuteParametersWithOptions execute refs options = Inr (vs, map wire_type ps) \<and>
     list_all2 (\<lambda>p v. denotes p (pv_Kind v) (pv_Value v)) ps vs \<and>
     map pv_Index vs = map param_index (List.enumerate 0 refs)"
proof -
  let ?n = "(length ps + 7) div 8"
  let ?bm = "map (null_byte ps) [0 ..< ?n]"
  let ?ty = "concat (map (\<lambda>p. [fst (param_type p), snd (param_type p)]) ps)"
  have blk: "execute_block ps = ?bm @ [1] @ ?ty @ concat (map param_bytes ps)" by (simp add: execute_block_def)
  have len_ty: "length ?ty = 2 * length ps" by (induction ps) auto
  have types: "decodeTypes (execute_block ps) (?n + 1) (length ps) = Inr (map wire_type ps, ?n + 1 + 2 * length ps)"
    using decodeTypes_block [of "?bm @ [1]" ps "concat (map param_bytes ps)"] by (simp add: blk)
  obtain vs where vs: "decodeValues (execute_block ps) ?bm Map.empty (map wire_type ps) 0 refs (?n + 1 + 2 * length ps) =
        Inr (vs, length (execute_block ps))" "list_all2 (\<lambda>p v. denotes p (pv_Kind v) (pv_Value v)) ps vs"
      "map pv_Index vs = map param_index (List.enumerate 0 refs)"
    using decodeValues_block [of refs ps "?bm @ [1] @ ?ty" "[]" "[]"] assms len_ty by (auto simp: blk)
  have "slice (execute_block ps) 0 ?n = (Inr ?bm :: (string, _) res)" "idx (execute_block ps) ?n = (Inr 1 :: (string, _) res)"
    "\<not> length (execute_block ps) < ?n + 1" "\<not> length (execute_block ps) - (?n + 1) < length ps * 2"
    using len_ty by (simp_all add: blk slice_def idx_def nth_append)
  then have "DecodePreparedExecuteParametersWithOptions execute refs options = Inr (vs, map wire_type ps)"
    using assms types vs(1) by (simp add: DecodePreparedExecuteParametersWithOptions_def)
  with vs show ?thesis by blast
qed

theorem execute_block_decodes_witness:
  "let ps = [CInt 1 False (- 5), CNull, CString ''a\<newline>b'', CInt 8 True 18446744073709551615];
       refs = map (\<lambda>i. \<lparr>ref_Index = i, ref_Name = [], ref_Type = DataTypeUnknown, ref_Nullable = True\<rparr>) [0, 2, 7, 0];
       execute = \<lparr>exec_StatementID = 1, exec_Flags = 0, IterationCount = 1, ParameterPayload = execute_block ps\<rparr>;
       options = \<lparr>CachedTypes = [], LongData = Map.empty\<rparr>
   in \<exists>vs. DecodePreparedExecuteParametersWithOptions execute refs options = Inr (vs, map wire_type ps) \<and>
     list_all2 (\<lambda>p v. denotes p (pv_Kind v) (pv_Value v)) ps vs \<and>
     map pv_Index vs = map param_index (List.enumerate 0 refs)"
  unfolding Let_def
  by (rule execute_block_decodes)
     (simp_all add: execute_block_def appendLengthEncodedString_def appendLengthEncodedInteger_def)

lemma split4: "4 \<le> length xs \<Longrightarrow> \<exists>v ys. xs = le_bytes 4 (unat (v :: u32)) @ ys"
proof -
  assume "4 \<le> length xs"
  then have l: "length (take 4 xs) = 4" by simp
  from readUint32LE_le_val [OF l, of "[]"] obtain v :: u32 where "readUint32LE (take 4 xs) = (Inr v :: (unit, u32) res)"
    by auto
  then have "take 4 xs = le_bytes 4 (unat v)" using readUint32LE_iff [OF l] by blast
  then show ?thesis by (metis append_take_drop_id)
qed

lemma split2: "2 \<le> length xs \<Longrightarrow> \<exists>v ys. xs = le_bytes 2 (unat (v :: u16)) @ ys"
proof -
  assume "2 \<le> length xs"
  then have l: "length (take 2 xs) = 2" by simp
  from readUint16LE_le_val [OF l, of "[]"] obtain v :: u16 where "readUint16LE (take 2 xs) = (Inr v :: (unit, u16) res)"
    by auto
  then have "take 2 xs = le_bytes 2 (unat v)" using readUint16LE_iff [OF l] by blast
  then show ?thesis by (metis append_take_drop_id)
qed

lemma validateBinaryDateTime_valid:
  "validateBinaryDateTime year month day hour minute second microsecond = None \<longleftrightarrow>
   valid_date year month day \<and> valid_clock hour minute second (uint microsecond * 1000)"
proof -
  have us: "microsecond > 999999 \<longleftrightarrow> uint microsecond * 1000 \<ge> 1000000000"
    by (auto simp: word_less_def)
  have ns: "Nanosecond (time_Date year month day hour minute second n) = n mod 1000000000" for n
    by (simp add: Nanosecond_def time_Date_def Let_def)
  show ?thesis
  proof (cases "microsecond > 999999")
    case True
    then show ?thesis using us by (simp add: validateBinaryDateTime_def valid_clock_def)
  next
    case False
    then have b: "0 \<le> uint microsecond * 1000" "uint microsecond * 1000 < 1000000000" using us by simp_all
    then show ?thesis
      using time_Date_check [OF b, of year month day hour minute second] False
      by (auto simp: validateBinaryDateTime_def Let_def ns valid_date_def valid_clock_def)
  qed
qed

text \<open>The three forms in which a client sends a \<^verbatim>\<open>DATETIME\<close> that is not zero, and what they denote.\<close>

datatype wire_datetime =
    WireDate u16 byte byte
  | WireSeconds u16 byte byte byte byte byte
  | WireMicros u16 byte byte byte byte byte u32

fun datetime_bytes :: "wire_datetime \<Rightarrow> byte list" where
  "datetime_bytes (WireDate y mo d) = 4 # le_bytes 2 (unat y) @ [mo, d]"
| "datetime_bytes (WireSeconds y mo d h mi s) = 7 # le_bytes 2 (unat y) @ [mo, d, h, mi, s]"
| "datetime_bytes (WireMicros y mo d h mi s us) = 11 # le_bytes 2 (unat y) @ [mo, d, h, mi, s] @ le_bytes 4 (unat us)"

text \<open>Year, month, day, hour, minute, second and nanosecond.\<close>

fun datetime_fields :: "wire_datetime \<Rightarrow> int \<times> int \<times> int \<times> int \<times> int \<times> int \<times> int" where
  "datetime_fields (WireDate y mo d) = (uint y, uint mo, uint d, 0, 0, 0, 0)"
| "datetime_fields (WireSeconds y mo d h mi s) = (uint y, uint mo, uint d, uint h, uint mi, uint s, 0)"
| "datetime_fields (WireMicros y mo d h mi s us) =
     (uint y, uint mo, uint d, uint h, uint mi, uint s, uint us * 1000)"

definition datetime_valid :: "wire_datetime \<Rightarrow> bool" where
  "datetime_valid v \<longleftrightarrow>
     (case datetime_fields v of (y, mo, d, h, mi, s, ns) \<Rightarrow> valid_date y mo d \<and> valid_clock h mi s ns)"

definition datetime_time :: "wire_datetime \<Rightarrow> Time" where
  "datetime_time v = (case datetime_fields v of (y, mo, d, h, mi, s, ns) \<Rightarrow> time_Date y mo d h mi s ns)"

definition time_fields :: "Time \<Rightarrow> int \<times> int \<times> int \<times> int \<times> int \<times> int \<times> int" where
  "time_fields t = (Year t, Month t, Day t, Hour t, Minute t, Second t, Nanosecond t)"

lemma datetime_time_fields: "datetime_valid v \<Longrightarrow> time_fields (datetime_time v) = datetime_fields v"
  using time_Date_fields
  by (auto simp: datetime_valid_def datetime_time_def time_fields_def split: prod.splits)

lemma datetime_read:
  "readBinaryDateTime (pre @ datetime_bytes v @ rest) (length pre) = Inr (t, next) \<longleftrightarrow>
     datetime_valid v \<and> t = datetime_time v \<and> next = length pre + length (datetime_bytes v)"
proof -
  have reads: "\<exists>a b. le_bytes 2 (unat y) = [a, b] \<and> readUint16LE [a, b] = (Inr y :: (string, u16) res)" for y :: u16
    using list2 [of "le_bytes 2 (unat y)"] readUint_le_bytes_exact(1) [of "unat y"] by fastforce
  have reads4: "\<exists>a b c d. le_bytes 4 (unat u) = [a, b, c, d] \<and> readUint32LE [a, b, c, d] = (Inr u :: (string, u32) res)"
    for u :: u32
    using list4 [of "le_bytes 4 (unat u)"] readUint_le_bytes_exact(2) [of "unat u"] by fastforce
  note defs = readBinaryDateTime_def Let_def idx_def slice_def nth_append datetime_valid_def datetime_time_def
  show ?thesis
  proof (cases v)
    case (WireDate y mo d)
    obtain a b where "le_bytes 2 (unat y) = [a, b]" "readUint16LE [a, b] = (Inr y :: (string, u16) res)"
      using reads by blast
    then show ?thesis using validateBinaryDateTime_valid [of "uint y" "uint mo" "uint d" 0 0 0 0]
      by (auto simp: WireDate defs simp del: readUint16LE.simps split: option.split)
  next
    case (WireSeconds y mo d h mi s)
    obtain a b where "le_bytes 2 (unat y) = [a, b]" "readUint16LE [a, b] = (Inr y :: (string, u16) res)"
      using reads by blast
    then show ?thesis using validateBinaryDateTime_valid [of "uint y" "uint mo" "uint d" "uint h" "uint mi" "uint s" 0]
      by (auto simp: WireSeconds defs simp del: readUint16LE.simps split: option.split)
  next
    case (WireMicros y mo d h mi s us)
    obtain a b p q r x where "le_bytes 2 (unat y) = [a, b]" "readUint16LE [a, b] = (Inr y :: (string, u16) res)"
      "le_bytes 4 (unat us) = [p, q, r, x]" "readUint32LE [p, q, r, x] = (Inr us :: (string, u32) res)"
      using reads reads4 by metis
    then show ?thesis using validateBinaryDateTime_valid [of "uint y" "uint mo" "uint d" "uint h" "uint mi" "uint s" us]
      by (auto simp: WireMicros defs simp del: readUint16LE.simps readUint32LE.simps split: option.split)
  qed
qed

lemma datetime_split:
  assumes "unat b = 4 \<or> unat b = 7 \<or> unat b = 11" "unat b \<le> length body"
  shows "\<exists>v rest. b # body = datetime_bytes v @ rest"
proof -
  obtain y :: u16 and ys where y: "body = le_bytes 2 (unat y) @ ys" using split2 [of body] assms by auto
  have len: "length ys = length body - 2" by (simp add: y)
  from assms(1) show ?thesis
  proof (elim disjE)
    assume b: "unat b = 4"
    then have "b = 4" by (simp add: word_unat_eq_iff)
    moreover obtain mo d rest where "ys = mo # d # rest"
      using len assms(2) b by (cases ys; cases "tl ys") auto
    ultimately show ?thesis by (intro exI [of _ "WireDate y mo d"] exI [of _ rest]) (simp add: y)
  next
    assume b: "unat b = 7"
    then have "b = 7" by (simp add: word_unat_eq_iff)
    moreover have "Suc (Suc (Suc (Suc (Suc 0)))) \<le> length ys" using len assms(2) b by simp
    then obtain mo d h mi s rest where "ys = mo # d # h # mi # s # rest" by (auto simp: Suc_le_length_iff)
    ultimately show ?thesis by (intro exI [of _ "WireSeconds y mo d h mi s"] exI [of _ rest]) (simp add: y)
  next
    assume b: "unat b = 11"
    then have "b = 11" by (simp add: word_unat_eq_iff)
    moreover have nine: "9 \<le> length ys" using len assms(2) b by simp
    then have "Suc (Suc (Suc (Suc (Suc 0)))) \<le> length ys" by simp
    then obtain mo d h mi s zs where z: "ys = mo # d # h # mi # s # zs" "4 \<le> length zs"
      using nine by (auto simp: Suc_le_length_iff)
    moreover obtain us :: u32 and rest where "zs = le_bytes 4 (unat us) @ rest" using split4 [OF z(2)] by blast
    ultimately show ?thesis by (intro exI [of _ "WireMicros y mo d h mi s us"] exI [of _ rest]) (simp add: y)
  qed
qed

lemma datetime_accepted:
  assumes "readBinaryDateTime payload offset = Inr (t, next)"
  obtains pre rest where "payload = pre @ 0 # rest" "offset = length pre" "t = zero_time" "next = offset + 1"
  | pre v rest where "payload = pre @ datetime_bytes v @ rest" "offset = length pre"
proof -
  have "offset < length payload" using assms by (auto simp: readBinaryDateTime_def split: if_splits)
  then obtain pre b body where p: "payload = pre @ b # body" "offset = length pre"
    by (metis id_take_nth_drop length_take min.absorb4)
  have "unat b = 0 \<or> (unat b = 4 \<or> unat b = 7 \<or> unat b = 11) \<and> unat b \<le> length body"
    using assms unfolding readBinaryDateTime_def p by (auto simp: idx_def Let_def split: if_splits)
  then show thesis
  proof (elim disjE)
    assume "unat b = 0"
    then have "b = 0" by (simp add: unat_eq_0)
    moreover have "t = zero_time" "next = offset + 1"
      using assms \<open>b = 0\<close> by (auto simp: readBinaryDateTime_def p idx_def Let_def)
    ultimately show thesis using that(1) p by blast
  next
    assume "(unat b = 4 \<or> unat b = 7 \<or> unat b = 11) \<and> unat b \<le> length body"
    then show thesis using datetime_split [of b body] that(2) p by metis
  qed
qed

text \<open>C33: whatever the payload and the offset, a binary \<^verbatim>\<open>DATETIME\<close> is read exactly when the bytes there
  are a length of zero, which is the zero time, or one of the forms of 4, 7 and 11 bytes whose fields
  denote a real Gregorian date and time of day (month lengths and leap years included). The decoded
  instant then has exactly those fields, the ones a form leaves out being zero, and the offset moves
  just behind the form. Every other length, a form that is cut short and fields that are no date are
  errors, never a panic.\<close>

theorem readBinaryDateTime_exact:
  "(readBinaryDateTime payload offset = Inr (t, next) \<longleftrightarrow>
     (\<exists>pre rest. payload = pre @ 0 # rest \<and> offset = length pre \<and> t = zero_time \<and> next = offset + 1) \<or>
     (\<exists>pre v rest. payload = pre @ datetime_bytes v @ rest \<and> offset = length pre \<and> datetime_valid v \<and>
        t = datetime_time v \<and> time_fields t = datetime_fields v \<and> next = offset + length (datetime_bytes v))) \<and>
   readBinaryDateTime payload offset \<noteq> Inl Panic"
proof -
  have zero: "readBinaryDateTime (pre @ 0 # rest) (length pre) = Inr (zero_time, length pre + 1)" for pre rest
    by (simp add: readBinaryDateTime_def idx_def Let_def)
  have "readBinaryDateTime payload offset \<noteq> Inl Panic"
    using no_panic_readBinaryDateTime by (simp add: no_panic_def)
  moreover have "(\<exists>pre rest. payload = pre @ 0 # rest \<and> offset = length pre \<and> t = zero_time \<and> next = offset + 1) \<or>
     (\<exists>pre v rest. payload = pre @ datetime_bytes v @ rest \<and> offset = length pre \<and> datetime_valid v \<and>
        t = datetime_time v \<and> time_fields t = datetime_fields v \<and> next = offset + length (datetime_bytes v))"
    if r: "readBinaryDateTime payload offset = Inr (t, next)"
    using r
  proof (cases rule: datetime_accepted)
    case (2 pre v rest)
    then show ?thesis using r datetime_read [of pre v rest t "next"] datetime_time_fields by blast
  qed blast
  ultimately show ?thesis using zero datetime_read by auto
qed

text \<open>C32: decoding the parameters of a \<^verbatim>\<open>COM_STMT_EXECUTE\<close> never panics, whatever bytes the client
  sends, whatever placeholders the plan has and whatever types and long data the session has
  cached: it returns values or an error.\<close>

theorem DecodePreparedExecuteParameters_safe:
  assumes "length (ParameterPayload execute) < 2 ^ 63"
  shows "DecodePreparedExecuteParametersWithOptions execute refs options \<noteq> Inl Panic"
  using no_panic_DecodePreparedExecuteParametersWithOptions [OF assms] by (simp add: no_panic_def)

theorem DecodePreparedExecuteParameters_safe_witness:
  "DecodePreparedExecuteParametersWithOptions
     \<lparr>exec_StatementID = 1, exec_Flags = 0, IterationCount = 1, ParameterPayload = [0, 1, 0xfd, 0, 0xfe, 0xff]\<rparr>
     [\<lparr>ref_Index = 1, ref_Name = [], ref_Type = DataTypeString, ref_Nullable = True\<rparr>]
     \<lparr>CachedTypes = [], LongData = Map.empty\<rparr> \<noteq> Inl Panic"
  by (rule DecodePreparedExecuteParameters_safe) simp

end
