(* ===== verification/MySQL_Result.thy ===== *)
theory MySQL_Result
  imports MySQL_Response MySQL_Prepared
begin

text \<open>
  Result sets (\<^verbatim>\<open>qsmysql/resultset.go\<close>, \<^verbatim>\<open>qsmysql/binary_resultset.go\<close>) and the response to
  \<^verbatim>\<open>COM_STMT_PREPARE\<close> (\<^verbatim>\<open>qsmysql/prepared.go\<close>): column definitions, text rows, binary rows with
  their null bitmap, field lists with their wildcard. The shortest decimal text of a
  floating-point value (\<^verbatim>\<open>strconv.FormatFloat\<close>) and the default text of a value
  (\<^verbatim>\<open>fmt.Sprint\<close>) are parameters \<open>formatFloat\<close> and \<open>sprint\<close>, as are the lower-cased runes of a
  text in the field list (\<open>lowerRunes\<close>). The lemmas read rows back as a client does.
\<close>

section \<open>Column definitions\<close>

definition CharacterSetUTF8MB4GeneralCI :: byte where "CharacterSetUTF8MB4GeneralCI = 45"
definition columnFlagNotNull :: u16 where "columnFlagNotNull = 0x0001"
definition nullTextValue :: byte where "nullTextValue = 0xfb"
definition eofPacketHeader :: byte where "eofPacketHeader = 0xfe"

record ColumnDefinition =
  Catalog :: string
  Schema :: string
  cd_Table :: string
  OriginalTable :: string
  cd_Name :: string
  OriginalName :: string
  cd_CharacterSet :: byte
  ColumnLength :: u32
  cd_Type :: ColumnType
  cd_Flags :: u16
  Decimals :: byte

definition sourceParts :: "string \<Rightarrow> string \<times> string \<times> string" where
  "sourceParts source =
     (if source = [] then ([], [], [])
      else let parts = split_char (CHR ''.'') source in
        if length parts = 1 then ([], [], parts ! 0)
        else if length parts = 2 then ([], parts ! 0, parts ! 1)
        else (parts ! (length parts - 3), parts ! (length parts - 2), parts ! (length parts - 1)))"

definition columnType :: "ProtocolColumn \<Rightarrow> ColumnType" where
  "columnType column =
     (case LogicalType column of
        DataTypeBool \<Rightarrow> ColumnTypeTiny
      | DataTypeInt \<Rightarrow> ColumnTypeLongLong
      | DataTypeFloat \<Rightarrow> ColumnTypeDouble
      | DataTypeTime \<Rightarrow> ColumnTypeDateTime
      | DataTypeString \<Rightarrow> ColumnTypeVarString
      | _ \<Rightarrow>
          if WireType column = ''MYSQL_TYPE_TINY'' then ColumnTypeTiny
          else if WireType column = ''MYSQL_TYPE_LONGLONG'' then ColumnTypeLongLong
          else if WireType column = ''MYSQL_TYPE_DOUBLE'' then ColumnTypeDouble
          else if WireType column = ''MYSQL_TYPE_DATETIME'' then ColumnTypeDateTime
          else if WireType column = ''MYSQL_TYPE_VAR_STRING'' then ColumnTypeVarString
          else ColumnTypeString)"

definition columnLength :: "ProtocolColumn \<Rightarrow> u32" where
  "columnLength column =
     (case LogicalType column of
        DataTypeBool \<Rightarrow> 1
      | DataTypeInt \<Rightarrow> 20
      | DataTypeFloat \<Rightarrow> 22
      | DataTypeTime \<Rightarrow> 19
      | DataTypeString \<Rightarrow> 1024
      | _ \<Rightarrow> 1024)"

definition columnDecimals :: "ProtocolColumn \<Rightarrow> byte" where
  "columnDecimals column = (if LogicalType column = DataTypeFloat then 31 else 0)"

text \<open>\<^verbatim>\<open>ResultSetOptions\<close> has one field, the default schema.\<close>

definition NewColumnDefinitionWithOptions :: "ProtocolColumn \<Rightarrow> string \<Rightarrow> ColumnDefinition" where
  "NewColumnDefinitionWithOptions column defaultSchema =
     (let (schema, table, originalName) = sourceParts (col_Source column);
          schema = (if schema = [] \<and> table \<noteq> [] then trim_space defaultSchema else schema)
      in \<lparr>Catalog = ''def'', Schema = schema, cd_Table = table, OriginalTable = table, cd_Name = col_Name column,
          OriginalName = (if originalName = [] then col_Name column else originalName),
          cd_CharacterSet = CharacterSetUTF8MB4GeneralCI, ColumnLength = columnLength column,
          cd_Type = columnType column, cd_Flags = (if \<not> col_Nullable column then 0 OR columnFlagNotNull else 0),
          Decimals = columnDecimals column\<rparr>)"

definition NewColumnDefinition :: "ProtocolColumn \<Rightarrow> ColumnDefinition" where
  "NewColumnDefinition column = NewColumnDefinitionWithOptions column []"

definition ColumnDefinition_Payload :: "ColumnDefinition \<Rightarrow> byte list" where
  "ColumnDefinition_Payload c =
     (let payload = appendLengthEncodedString [] (Catalog c);
          payload = appendLengthEncodedString payload (Schema c);
          payload = appendLengthEncodedString payload (cd_Table c);
          payload = appendLengthEncodedString payload (OriginalTable c);
          payload = appendLengthEncodedString payload (cd_Name c);
          payload = appendLengthEncodedString payload (OriginalName c);
          payload = payload @ [0x0c];
          payload = appendUint16LE payload (ucast (cd_CharacterSet c));
          payload = appendUint32LE payload (ColumnLength c);
          payload = payload @ [cd_Type c];
          payload = appendUint16LE payload (cd_Flags c);
          payload = payload @ [Decimals c]
      in payload @ [0x00, 0x00])"

definition FieldListPayload :: "ColumnDefinition \<Rightarrow> byte list" where
  "FieldListPayload c = ColumnDefinition_Payload c @ [nullTextValue]"

definition eofPayload :: "u16 \<Rightarrow> byte list" where
  "eofPayload warnings = appendUint16LE (appendUint16LE [eofPacketHeader] warnings) StatusAutocommit"

section \<open>Packets with consecutive sequence ids\<close>

text \<open>The loops that append a packet and increment the \<^verbatim>\<open>byte\<close> sequence, which wraps around.\<close>

fun sequencePackets :: "byte \<Rightarrow> byte list list \<Rightarrow> Packet list" where
  "sequencePackets sequence [] = []"
| "sequencePackets sequence (payload # payloads) =
     \<lparr>SequenceID = sequence, Payload = payload\<rparr> # sequencePackets (sequence + 1) payloads"

fun mapR :: "('a \<Rightarrow> ('e, 'b) res) \<Rightarrow> 'a list \<Rightarrow> ('e, 'b list) res" where
  "mapR f [] = Inr []"
| "mapR f (x # xs) = bindR (f x) (\<lambda>y. bindR (mapR f xs) (\<lambda>ys. Inr (y # ys)))"

section \<open>Text rows\<close>

definition integerTextValue :: "any \<Rightarrow> (string, string) res" where
  "integerTextValue value =
     (case value of
        AInt v \<Rightarrow> Inr (FormatInt (sint v))
      | AInt8 v \<Rightarrow> Inr (FormatInt (sint v))
      | AInt16 v \<Rightarrow> Inr (FormatInt (sint v))
      | AInt32 v \<Rightarrow> Inr (FormatInt (sint v))
      | AInt64 v \<Rightarrow> Inr (FormatInt (sint v))
      | AUint v \<Rightarrow> Inr (dec_nat (unat v))
      | AUint8 v \<Rightarrow> Inr (dec_nat (unat v))
      | AUint16 v \<Rightarrow> Inr (dec_nat (unat v))
      | AUint32 v \<Rightarrow> Inr (dec_nat (unat v))
      | AUint64 v \<Rightarrow> Inr (dec_nat (unat v))
      | _ \<Rightarrow> Inl (Err (''mysql text int cell has '' @ type_name value @ '' value'')))"

definition floatTextValue :: "(u64 \<Rightarrow> nat \<Rightarrow> string) \<Rightarrow> any \<Rightarrow> (string, string) res" where
  "floatTextValue formatFloat value =
     (case value of
        AFloat32 v \<Rightarrow> Inr (formatFloat (float64_of_float32 v) 32)
      | AFloat64 v \<Rightarrow> Inr (formatFloat v 64)
      | _ \<Rightarrow> Inl (Err (''mysql text float cell has '' @ type_name value @ '' value'')))"

text \<open>\<^verbatim>\<open>value.Format("2006-01-02 15:04:05")\<close>, in the location of the value.\<close>

definition formatDateTime :: "Time \<Rightarrow> string" where
  "formatDateTime t =
     (if Year t < 0 then CHR ''-'' # fmt_0d 4 (nat (- Year t)) else fmt_0d 4 (nat (Year t))) @ ''-'' @
     fmt_0d 2 (nat (Month t)) @ ''-'' @ fmt_0d 2 (nat (Day t)) @ '' '' @ fmt_0d 2 (nat (Hour t)) @ '':'' @
     fmt_0d 2 (nat (Minute t)) @ '':'' @ fmt_0d 2 (nat (Second t))"

definition textCellValue ::
  "(any \<Rightarrow> string) \<Rightarrow> (u64 \<Rightarrow> nat \<Rightarrow> string) \<Rightarrow> ResultCell \<Rightarrow> (string, string) res" where
  "textCellValue sprint formatFloat cell =
     (case cell_Kind cell of
        ValueBool \<Rightarrow>
          (case cell_Value cell of
             ABool value \<Rightarrow> Inr (if value then ''1'' else ''0'')
           | v \<Rightarrow> Inl (Err (''mysql text bool cell has '' @ type_name v @ '' value'')))
      | ValueInt \<Rightarrow> integerTextValue (cell_Value cell)
      | ValueFloat \<Rightarrow> floatTextValue formatFloat (cell_Value cell)
      | ValueTime \<Rightarrow> (case cell_Value cell of ATime t \<Rightarrow> Inr (formatDateTime t) | v \<Rightarrow> Inr (sprint v))
      | _ \<Rightarrow> Inr (sprint (cell_Value cell)))"

definition cell_is_null :: "ResultCell \<Rightarrow> bool" where
  "cell_is_null cell \<longleftrightarrow> cell_Kind cell = ValueNull \<or> cell_Value cell = ANil"

fun appendTextCells ::
  "(any \<Rightarrow> string) \<Rightarrow> (u64 \<Rightarrow> nat \<Rightarrow> string) \<Rightarrow> byte list \<Rightarrow> ResultCell list \<Rightarrow> (string, byte list) res" where
  "appendTextCells sprint formatFloat payload [] = Inr payload"
| "appendTextCells sprint formatFloat payload (cell # row) =
     (if cell_is_null cell then appendTextCells sprint formatFloat (payload @ [nullTextValue]) row
      else bindR (textCellValue sprint formatFloat cell) (\<lambda>value.
        appendTextCells sprint formatFloat (appendLengthEncodedString payload value) row))"

definition textRowPayload ::
  "(any \<Rightarrow> string) \<Rightarrow> (u64 \<Rightarrow> nat \<Rightarrow> string) \<Rightarrow> ResultCell list \<Rightarrow> nat \<Rightarrow> (string, byte list) res" where
  "textRowPayload sprint formatFloat row columnCount =
     (if length row \<noteq> columnCount then
        Inl (Err (''mysql text row has '' @ dec_nat (length row) @ '' cells for '' @ dec_nat columnCount @ '' columns''))
      else appendTextCells sprint formatFloat [] row)"

text \<open>The result of an execution: its columns and its chunks of rows.\<close>

record ExecutionResult =
  Columns :: "ResultColumn list"
  Chunks :: "ResultCell list list list"

definition TextResultSetPacketsWithOptions ::
  "(any \<Rightarrow> string) \<Rightarrow> (u64 \<Rightarrow> nat \<Rightarrow> string) \<Rightarrow> ExecutionResult \<Rightarrow> string \<Rightarrow> (string, Packet list) res" where
  "TextResultSetPacketsWithOptions sprint formatFloat result defaultSchema =
     (if length (Columns result) = 0 then Inl (Err ''mysql text resultset requires at least one column'')
      else
        let columns = NewProtocolResultSchema ProtocolMySQL (Columns result) in
        bindR (mapR (\<lambda>row. textRowPayload sprint formatFloat row (length columns)) (concat (Chunks result))) (\<lambda>rows.
          Inr (sequencePackets 1
            ([encodeLengthEncodedInteger (word_of_nat (length columns))] @
             map (\<lambda>column. ColumnDefinition_Payload (NewColumnDefinitionWithOptions column defaultSchema)) columns @
             [eofPayload 0] @ rows @ [eofPayload 0]))))"

section \<open>Field lists\<close>

text \<open>Runes are code points; the four wildcards are the percent sign, the asterisk, the underscore
  and the question mark. The recursion starts at \<open>0\<close> and never passes the end of the pattern.\<close>

function fieldListPatternMatchRunes :: "nat list \<Rightarrow> nat list \<Rightarrow> nat \<Rightarrow> nat \<Rightarrow> bool" where
  "fieldListPatternMatchRunes pattern value p v =
     (if p \<ge> length pattern then v = length value
      else if pattern ! p = 37 \<or> pattern ! p = 42 then
        list_ex (\<lambda>i. fieldListPatternMatchRunes pattern value (p + 1) i) [v ..< length value + 1]
      else if pattern ! p = 95 \<or> pattern ! p = 63 then
        v < length value \<and> fieldListPatternMatchRunes pattern value (p + 1) (v + 1)
      else
        v < length value \<and> pattern ! p = value ! v \<and> fieldListPatternMatchRunes pattern value (p + 1) (v + 1))"
  by pat_completeness auto
termination
  by (relation "measure (\<lambda>(pattern, value, p, v). length pattern - p)") auto

declare fieldListPatternMatchRunes.simps [simp del]

definition fieldListPatternMatches :: "(string \<Rightarrow> nat list) \<Rightarrow> string \<Rightarrow> string \<Rightarrow> bool" where
  "fieldListPatternMatches lowerRunes pattern value =
     (let pattern = trim_space pattern in
      if pattern = [] \<or> pattern = ''%'' \<or> pattern = ''*'' then True
      else fieldListPatternMatchRunes (lowerRunes pattern) (lowerRunes value) 0 0)"

definition FieldListPacketsWithOptions ::
  "(string \<Rightarrow> nat list) \<Rightarrow> ExecutionResult \<Rightarrow> string \<Rightarrow> string \<Rightarrow> (string, Packet list) res" where
  "FieldListPacketsWithOptions lowerRunes result defaultSchema pattern =
     (if length (Columns result) = 0 then Inl (Err ''mysql field list requires at least one column'')
      else
        let columns = NewProtocolResultSchema ProtocolMySQL (Columns result) in
        Inr (sequencePackets 1
          (map (\<lambda>column. FieldListPayload (NewColumnDefinitionWithOptions column defaultSchema))
             (filter (\<lambda>column. fieldListPatternMatches lowerRunes pattern (col_Name column)) columns) @
           [eofPayload 0])))"

section \<open>Binary rows\<close>

definition boolCellValue :: "ResultCell \<Rightarrow> bool option" where
  "boolCellValue cell =
     (case cell_Value cell of
        ABool value \<Rightarrow> Some value
      | AInt v \<Rightarrow> Some (v \<noteq> 0)
      | AInt8 v \<Rightarrow> Some (v \<noteq> 0)
      | AInt16 v \<Rightarrow> Some (v \<noteq> 0)
      | AInt32 v \<Rightarrow> Some (v \<noteq> 0)
      | AInt64 v \<Rightarrow> Some (v \<noteq> 0)
      | AUint v \<Rightarrow> Some (v \<noteq> 0)
      | AUint8 v \<Rightarrow> Some (v \<noteq> 0)
      | AUint16 v \<Rightarrow> Some (v \<noteq> 0)
      | AUint32 v \<Rightarrow> Some (v \<noteq> 0)
      | AUint64 v \<Rightarrow> Some (v \<noteq> 0)
      | _ \<Rightarrow> None)"

text \<open>The \<^verbatim>\<open>int64\<close> of an integer cell, as its 64-bit pattern; a \<^verbatim>\<open>uint64\<close> above the signed range
  wraps.\<close>

definition int64CellValue :: "ResultCell \<Rightarrow> u64 option" where
  "int64CellValue cell =
     (case cell_Value cell of
        AInt v \<Rightarrow> Some v
      | AInt8 v \<Rightarrow> Some (scast v)
      | AInt16 v \<Rightarrow> Some (scast v)
      | AInt32 v \<Rightarrow> Some (scast v)
      | AInt64 v \<Rightarrow> Some v
      | AUint v \<Rightarrow> Some v
      | AUint8 v \<Rightarrow> Some (ucast v)
      | AUint16 v \<Rightarrow> Some (ucast v)
      | AUint32 v \<Rightarrow> Some (ucast v)
      | AUint64 v \<Rightarrow> Some v
      | _ \<Rightarrow> None)"

definition float64CellValue :: "ResultCell \<Rightarrow> u64 option" where
  "float64CellValue cell =
     (case cell_Value cell of
        AFloat32 v \<Rightarrow> Some (float64_of_float32 v)
      | AFloat64 v \<Rightarrow> Some v
      | AInt v \<Rightarrow> Some (float64_of_int (sint v))
      | AInt8 v \<Rightarrow> Some (float64_of_int (sint v))
      | AInt16 v \<Rightarrow> Some (float64_of_int (sint v))
      | AInt32 v \<Rightarrow> Some (float64_of_int (sint v))
      | AInt64 v \<Rightarrow> Some (float64_of_int (sint v))
      | _ \<Rightarrow> None)"

definition timeCellValue :: "ResultCell \<Rightarrow> Time option" where
  "timeCellValue cell = (case cell_Value cell of ATime t \<Rightarrow> Some t | _ \<Rightarrow> None)"

definition appendBinaryDateTime :: "byte list \<Rightarrow> Time \<Rightarrow> byte list" where
  "appendBinaryDateTime out value =
     (if IsZero value then out @ [0]
      else let value = UTC value; out = out @ [7]; out = appendUint16LE out (word_of_int (Year value))
        in out @ [word_of_int (Month value), word_of_int (Day value), word_of_int (Hour value),
                  word_of_int (Minute value), word_of_int (Second value)])"

definition appendBinaryCellValue ::
  "(any \<Rightarrow> string) \<Rightarrow> byte list \<Rightarrow> ResultCell \<Rightarrow> ProtocolColumn \<Rightarrow> (string, byte list) res" where
  "appendBinaryCellValue sprint out cell column =
     (let err = Inl (Err (''cannot encode '' @ valueKindText (cell_Kind cell) @ '' cell '' @
                          type_name (cell_Value cell) @ '' as '' @ dataTypeText (LogicalType column))) in
      case LogicalType column of
        DataTypeBool \<Rightarrow>
          (case boolCellValue cell of Some value \<Rightarrow> Inr (out @ [if value then 1 else 0]) | None \<Rightarrow> err)
      | DataTypeInt \<Rightarrow>
          (case int64CellValue cell of Some value \<Rightarrow> Inr (appendUint64LE out value) | None \<Rightarrow> err)
      | DataTypeFloat \<Rightarrow>
          (case float64CellValue cell of Some value \<Rightarrow> Inr (appendUint64LE out value) | None \<Rightarrow> err)
      | DataTypeTime \<Rightarrow>
          (case timeCellValue cell of Some value \<Rightarrow> Inr (appendBinaryDateTime out value) | None \<Rightarrow> err)
      | DataTypeString \<Rightarrow> Inr (appendLengthEncodedString out (sprint (cell_Value cell)))
      | DataTypeUnknown \<Rightarrow> Inr (appendLengthEncodedString out (sprint (cell_Value cell)))
      | DataTypeOther _ \<Rightarrow> err)"

text \<open>\<^verbatim>\<open>setBinaryResultNullBit(payload[1:], i)\<close> writes through the slice into the payload.\<close>

definition setBinaryResultNullBit :: "byte list \<Rightarrow> nat \<Rightarrow> (string, byte list) res" where
  "setBinaryResultNullBit payload column =
     (let bit = column + 2; i = 1 + bit div 8 in
      bindR (idx payload i) (\<lambda>b. Inr (payload[i := b OR push_bit (bit mod 8) 1])))"

fun appendBinaryCells ::
  "(any \<Rightarrow> string) \<Rightarrow> ProtocolColumn list \<Rightarrow> nat \<Rightarrow> byte list \<Rightarrow> ResultCell list \<Rightarrow> (string, byte list) res" where
  "appendBinaryCells sprint columns i payload [] = Inr payload"
| "appendBinaryCells sprint columns i payload (cell # row) =
     (if cell_is_null cell then
        bindR (setBinaryResultNullBit payload i) (\<lambda>payload. appendBinaryCells sprint columns (i + 1) payload row)
      else
        bindR (idx columns i) (\<lambda>column.
        bindR (wrapErr (\<lambda>e. ''mysql binary column '' @ dec_nat (i + 1) @ '': '' @ e)
                (appendBinaryCellValue sprint payload cell column)) (\<lambda>payload.
          appendBinaryCells sprint columns (i + 1) payload row)))"

definition binaryRowPayload ::
  "(any \<Rightarrow> string) \<Rightarrow> ResultCell list \<Rightarrow> ProtocolColumn list \<Rightarrow> (string, byte list) res" where
  "binaryRowPayload sprint row columns =
     (if length row \<noteq> length columns then
        Inl (Err (''mysql binary row has '' @ dec_nat (length row) @ '' cells for '' @ dec_nat (length columns) @
                  '' columns''))
      else appendBinaryCells sprint columns 0 ([0x00] @ replicate ((length columns + 9) div 8) 0) row)"

definition BinaryResultSetPacketsWithOptions ::
  "(any \<Rightarrow> string) \<Rightarrow> ExecutionResult \<Rightarrow> string \<Rightarrow> (string, Packet list) res" where
  "BinaryResultSetPacketsWithOptions sprint result defaultSchema =
     (if length (Columns result) = 0 then Inl (Err ''mysql binary resultset requires at least one column'')
      else
        let columns = NewProtocolResultSchema ProtocolMySQL (Columns result) in
        bindR (mapR (\<lambda>row. binaryRowPayload sprint row columns) (concat (Chunks result))) (\<lambda>rows.
          Inr (sequencePackets 1
            ([encodeLengthEncodedInteger (word_of_nat (length columns))] @
             map (\<lambda>column. ColumnDefinition_Payload (NewColumnDefinitionWithOptions column defaultSchema)) columns @
             [eofPayload 0] @ rows @ [eofPayload 0]))))"

section \<open>Responses\<close>

definition QueryResponseWithOptions ::
  "(any \<Rightarrow> string) \<Rightarrow> (u64 \<Rightarrow> nat \<Rightarrow> string) \<Rightarrow> ExecutionResult \<Rightarrow> string \<Rightarrow> (string, CommandResponse) res" where
  "QueryResponseWithOptions sprint formatFloat result defaultSchema =
     bindR (TextResultSetPacketsWithOptions sprint formatFloat result defaultSchema) (\<lambda>packets.
       Inr ((new_response CommandResponseQuery)\<lparr>Packets := packets\<rparr>))"

definition FieldListResponseWithOptions ::
  "(string \<Rightarrow> nat list) \<Rightarrow> ExecutionResult \<Rightarrow> string \<Rightarrow> string \<Rightarrow> (string, CommandResponse) res" where
  "FieldListResponseWithOptions lowerRunes result defaultSchema pattern =
     bindR (FieldListPacketsWithOptions lowerRunes result defaultSchema pattern) (\<lambda>packets.
       Inr ((new_response CommandResponseFieldList)\<lparr>Packets := packets\<rparr>))"

definition BinaryQueryResponseWithOptions ::
  "(any \<Rightarrow> string) \<Rightarrow> ExecutionResult \<Rightarrow> string \<Rightarrow> (string, CommandResponse) res" where
  "BinaryQueryResponseWithOptions sprint result defaultSchema =
     bindR (BinaryResultSetPacketsWithOptions sprint result defaultSchema) (\<lambda>packets.
       Inr ((new_response CommandResponseQuery)\<lparr>Packets := packets\<rparr>))"

definition parameterColumnDefinition :: "ParameterRef \<Rightarrow> ColumnDefinition" where
  "parameterColumnDefinition ref =
     (let name = (if ref_Name ref = [] then CHR ''?'' # FormatInt (ref_Index ref) else ref_Name ref);
          definition' = NewColumnDefinition
            \<lparr>col_Name = name, col_Source = [], col_Nullable = ref_Nullable ref, LogicalType = ref_Type ref,
             TypeName = [], WireType = [], col_Flags = []\<rparr>
      in definition'\<lparr>OriginalName := name\<rparr>)"

record PreparedPlanDescription =
  Handle_ID :: u64
  Parameters :: "ParameterRef list"
  ResultColumns :: "ResultColumn list"
  ppd_Statement :: StatementResult

definition PreparedStatementResponse :: "PreparedPlanDescription \<Rightarrow> (string, CommandResponse) res" where
  "PreparedStatementResponse description =
     (if length (Parameters description) > 0xffff then
        Inl (Err (''prepared statement has too many parameters: '' @ dec_nat (length (Parameters description))))
      else if length (ResultColumns description) > 0xffff then
        Inl (Err (''prepared statement has too many result columns: '' @ dec_nat (length (ResultColumns description))))
      else
        let warnings = Warnings (ppd_Statement description);
            payload = [okPacketHeader];
            payload = appendUint32LE payload (ucast (Handle_ID description));
            payload = appendUint16LE payload (word_of_nat (length (ResultColumns description)));
            payload = appendUint16LE payload (word_of_nat (length (Parameters description)));
            payload = payload @ [0x00];
            payload = appendUint16LE payload warnings;
            schema = NewProtocolResultSchema ProtocolMySQL (ResultColumns description)
        in Inr ((new_response CommandResponsePrepared)\<lparr>Packets := sequencePackets 1
             ([payload] @
              (if length (Parameters description) > 0
               then map (\<lambda>p. ColumnDefinition_Payload (parameterColumnDefinition p)) (Parameters description) @
                    [eofPayload warnings]
               else []) @
              (if length (ResultColumns description) > 0
               then map (\<lambda>c. ColumnDefinition_Payload (NewColumnDefinition c)) schema @ [eofPayload warnings]
               else []))\<rparr>))"

section \<open>Sequence ids\<close>

lemma sequencePackets_payloads [simp]: "map Payload (sequencePackets s ps) = ps"
  by (induction ps arbitrary: s) auto

lemma length_sequencePackets [simp]: "length (sequencePackets s ps) = length ps"
  by (metis length_map sequencePackets_payloads)

lemma sequencePackets_ids: "i < length ps \<Longrightarrow> SequenceID (sequencePackets s ps ! i) = s + word_of_nat i"
proof (induction ps arbitrary: s i)
  case (Cons p ps)
  then show ?case by (cases i) (simp_all add: add.commute)
qed simp

section \<open>Reading text rows as a client does\<close>

fun text_bytes :: "string option \<Rightarrow> byte list" where
  "text_bytes None = [nullTextValue]"
| "text_bytes (Some s) = appendLengthEncodedString [] s"

fun parse_text_cells :: "nat \<Rightarrow> byte list \<Rightarrow> nat \<Rightarrow> (string option list \<times> nat) option" where
  "parse_text_cells 0 p off = Some ([], off)"
| "parse_text_cells (Suc n) p off =
     (if off < length p \<and> p ! off = nullTextValue then
        map_option (\<lambda>(ts, off). (None # ts, off)) (parse_text_cells n p (off + 1))
      else case (readLengthEncodedBytes p off :: (unit, (byte list \<times> nat) option) res) of
             Inr (Some (s, next)) \<Rightarrow>
               map_option (\<lambda>(ts, off). (Some (string_of_bytes s) # ts, off)) (parse_text_cells n p next)
           | _ \<Rightarrow> None)"

definition cell_text ::
  "(any \<Rightarrow> string) \<Rightarrow> (u64 \<Rightarrow> nat \<Rightarrow> string) \<Rightarrow> ResultCell \<Rightarrow> string option \<Rightarrow> bool" where
  "cell_text sprint formatFloat cell t \<longleftrightarrow>
     (if cell_is_null cell then t = None
      else \<exists>s. textCellValue sprint formatFloat cell = Inr s \<and> t = Some s)"

lemma cell_text_intros:
  "cell_is_null cell \<Longrightarrow> cell_text sprint formatFloat cell None"
  "\<not> cell_is_null cell \<Longrightarrow> textCellValue sprint formatFloat cell = Inr s \<Longrightarrow> cell_text sprint formatFloat cell (Some s)"
  by (simp_all add: cell_text_def)

lemma hd_encode:
  "\<exists>b bs. encodeLengthEncodedInteger v = b # bs \<and> b \<noteq> 0xfb \<and> b \<noteq> 0xff \<and> (b = 0xfe \<longrightarrow> length bs = 8)"
proof (cases "unat v < 251")
  case True
  let ?b = "word_of_nat (unat v) :: byte"
  have "unat ?b = unat v" using True by (simp only: unat_of_nat) simp
  then have "?b \<noteq> 0xfb" "?b \<noteq> 0xff" "?b \<noteq> 0xfe" using True by (auto simp: word_unat_eq_iff)
  moreover have "encodeLengthEncodedInteger v = [?b]" unfolding encode_cases using True by simp
  ultimately show ?thesis by blast
next
  case False
  then show ?thesis unfolding encode_cases by simp
qed

lemma lenenc_string_bytes:
  "appendLengthEncodedString [] s = encodeLengthEncodedInteger (word_of_nat (length s)) @ bytes_of_string s"
  by (simp add: appendLengthEncodedString_def encodeLengthEncodedInteger_def)

lemma text_bytes_head:
  "text_bytes (Some s) = b # bs \<Longrightarrow> b \<noteq> nullTextValue \<and> b \<noteq> 0xff \<and> (b = 0xfe \<longrightarrow> 8 \<le> length bs)"
  using hd_encode [of "word_of_nat (length s)"] by (auto simp: lenenc_string_bytes nullTextValue_def)

lemma text_bytes_nonempty: "text_bytes t \<noteq> []"
proof (cases t)
  case (Some s)
  then show ?thesis using hd_encode [of "word_of_nat (length s)"] by (auto simp: lenenc_string_bytes)
qed simp

lemma parse_text_cells_concat:
  "length (pre @ concat (map text_bytes ts) @ rest) < 2 ^ 63 \<Longrightarrow>
   parse_text_cells (length ts) (pre @ concat (map text_bytes ts) @ rest) (length pre) =
     Some (ts, length pre + length (concat (map text_bytes ts)))"
proof (induction ts arbitrary: pre)
  case (Cons t ts)
  let ?p = "pre @ concat (map text_bytes (t # ts)) @ rest"
  have ih: "parse_text_cells (length ts) ?p (length pre + length (text_bytes t)) =
      Some (ts, length pre + length (concat (map text_bytes (t # ts))))"
    using Cons.IH [of "pre @ text_bytes t"] Cons.prems by (simp add: add.assoc)
  show ?case
  proof (cases t)
    case None
    then show ?thesis using ih by (simp add: nth_append)
  next
    case (Some s)
    obtain b bs where b: "text_bytes t = b # bs" using text_bytes_nonempty [of t] by (cases "text_bytes t") auto
    then have nn: "\<not> (length pre < length ?p \<and> ?p ! length pre = nullTextValue)"
      using text_bytes_head [of s b bs] Some by (simp add: nth_append)
    have "readLengthEncodedBytes ?p (length pre) = (Inr (Some (bytes_of_string s, length pre + length (text_bytes t))) :: (unit, _) res)"
      using readLengthEncodedBytes_append [of s "concat (map text_bytes ts) @ rest" pre, where 'a = unit] Cons.prems Some
      by (simp add: lenenc_string_bytes)
    then have "parse_text_cells (length (t # ts)) ?p (length pre) =
        map_option (\<lambda>(ts, off). (Some s # ts, off)) (parse_text_cells (length ts) ?p (length pre + length (text_bytes t)))"
      using nn by (simp only: list.size parse_text_cells.simps add_Suc_right add_0_right if_False) simp
    then show ?thesis unfolding ih by (simp add: Some)
  qed
qed simp

lemma appendTextCells_texts:
  "appendTextCells sprint formatFloat pre row = Inr p \<Longrightarrow>
   \<exists>ts. p = pre @ concat (map text_bytes ts) \<and> list_all2 (cell_text sprint formatFloat) row ts"
proof (induction row arbitrary: pre)
  case (Cons cell row)
  show ?case
  proof (cases "cell_is_null cell")
    case True
    then obtain ts where "p = (pre @ [nullTextValue]) @ concat (map text_bytes ts)" "list_all2 (cell_text sprint formatFloat) row ts"
      using Cons.IH [of "pre @ [nullTextValue]"] Cons.prems by auto
    then show ?thesis using True by (intro exI [of _ "None # ts"]) (simp add: cell_text_intros)
  next
    case False
    then obtain s where s: "textCellValue sprint formatFloat cell = Inr s"
        "appendTextCells sprint formatFloat (appendLengthEncodedString pre s) row = Inr p"
      using Cons.prems by (auto simp: bindR_Inr_iff)
    from Cons.IH [OF s(2)] obtain ts where "p = appendLengthEncodedString pre s @ concat (map text_bytes ts)"
        "list_all2 (cell_text sprint formatFloat) row ts" by blast
    then show ?thesis using False s(1) appendLengthEncodedString_append [of pre s]
      by (intro exI [of _ "Some s # ts"]) (simp add: cell_text_intros)
  qed
qed simp

lemma textRowPayload_texts:
  assumes "textRowPayload sprint formatFloat row n = Inr p" "length p < 2 ^ 63"
  shows "\<exists>ts. parse_text_cells n p 0 = Some (ts, length p) \<and> list_all2 (cell_text sprint formatFloat) row ts \<and>
     (0 < n \<longrightarrow> p \<noteq> [] \<and> hd p \<noteq> 0xff \<and> (hd p = 0xfe \<longrightarrow> 9 \<le> length p))"
proof -
  have n: "length row = n" and a: "appendTextCells sprint formatFloat [] row = Inr p"
    using assms(1) by (auto simp: textRowPayload_def split: if_splits)
  obtain ts where ts: "p = concat (map text_bytes ts)" "list_all2 (cell_text sprint formatFloat) row ts"
    using appendTextCells_texts [OF a] by auto
  have "length ts = n" using ts(2) n by (simp add: list_all2_lengthD)
  then have "parse_text_cells n p 0 = Some (ts, length p)"
    using parse_text_cells_concat [of "[]" ts "[]"] assms(2) ts(1) by simp
  moreover have "0 < n \<Longrightarrow> p \<noteq> [] \<and> hd p \<noteq> 0xff \<and> (hd p = 0xfe \<longrightarrow> 9 \<le> length p)"
  proof -
    assume "0 < n"
    then obtain t ts' where t: "ts = t # ts'" using \<open>length ts = n\<close> by (cases ts) auto
    obtain b bs where b: "text_bytes t = b # bs" using text_bytes_nonempty [of t] by (cases "text_bytes t") auto
    show ?thesis
    proof (cases t)
      case None
      then show ?thesis by (simp add: ts(1) t nullTextValue_def)
    next
      case (Some s)
      then have "text_bytes (Some s) = b # bs" using b by simp
      from text_bytes_head [OF this] show ?thesis by (auto simp: ts(1) t b)
    qed
  qed
  ultimately show ?thesis using ts(2) by blast
qed

section \<open>Reading a text result set as a client does\<close>

text \<open>
  A client reads the column count, that many column definitions (six length-encoded texts first,
  the fifth being the name), an EOF packet, and rows up to the next EOF packet. A packet is EOF when
  it starts with \<open>0xfe\<close> and is shorter than nine bytes.
\<close>

fun read_strings :: "nat \<Rightarrow> byte list \<Rightarrow> nat \<Rightarrow> string list option" where
  "read_strings 0 p off = Some []"
| "read_strings (Suc n) p off =
     (case (readLengthEncodedBytes p off :: (unit, (byte list \<times> nat) option) res) of
        Inr (Some (s, next)) \<Rightarrow> map_option (\<lambda>ss. string_of_bytes s # ss) (read_strings n p next)
      | _ \<Rightarrow> None)"

definition is_eof :: "byte list \<Rightarrow> bool" where
  "is_eof p \<longleftrightarrow> p \<noteq> [] \<and> hd p = 0xfe \<and> length p < 9"

definition column_name :: "byte list \<Rightarrow> string option" where
  "column_name p = map_option (\<lambda>ss. ss ! 4) (read_strings 6 p 0)"

fun parse_rows :: "nat \<Rightarrow> byte list list \<Rightarrow> string option list list option" where
  "parse_rows n [] = None"
| "parse_rows n (p # ps) =
     (if is_eof p then (if ps = [] then Some [] else None)
      else case parse_text_cells n p 0 of
             Some (ts, off) \<Rightarrow> if off = length p then map_option (\<lambda>rs. ts # rs) (parse_rows n ps) else None
           | None \<Rightarrow> None)"

definition parse_resultset :: "byte list list \<Rightarrow> (string list \<times> string option list list) option" where
  "parse_resultset ps =
     (case ps of
        [] \<Rightarrow> None
      | p # rest \<Rightarrow>
          (case (readLengthEncodedInteger p 0 :: (unit, (u64 \<times> nat) option) res) of
             Inr (Some (n, off)) \<Rightarrow>
               let n = unat n; names = those (map column_name (take n rest)) in
               (case (names, drop n rest) of
                  (Some names, eof # rows) \<Rightarrow>
                    if is_eof eof \<and> length (take n rest) = n
                    then map_option (\<lambda>rs. (names, rs)) (parse_rows n rows) else None
                | _ \<Rightarrow> None)
           | _ \<Rightarrow> None))"

lemma read_strings_concat:
  "length (pre @ concat (map (appendLengthEncodedString []) ss) @ rest) < 2 ^ 63 \<Longrightarrow>
   read_strings (length ss) (pre @ concat (map (appendLengthEncodedString []) ss) @ rest) (length pre) = Some ss"
proof (induction ss arbitrary: pre)
  case (Cons s ss)
  let ?p = "pre @ concat (map (appendLengthEncodedString []) (s # ss)) @ rest"
  have ih: "read_strings (length ss) ?p (length pre + length (appendLengthEncodedString [] s)) = Some ss"
    using Cons.IH [of "pre @ appendLengthEncodedString [] s"] Cons.prems by simp
  have "readLengthEncodedBytes ?p (length pre) =
      (Inr (Some (bytes_of_string s, length pre + length (appendLengthEncodedString [] s))) :: (unit, _) res)"
    using readLengthEncodedBytes_append [of s "concat (map (appendLengthEncodedString []) ss) @ rest" pre, where 'a = unit] Cons.prems
    by (simp add: lenenc_string_bytes [of s])
  then show ?case using ih by simp
qed simp

lemma ColumnDefinition_Payload_layout:
  "\<exists>rest. ColumnDefinition_Payload c =
     concat (map (appendLengthEncodedString []) [Catalog c, Schema c, cd_Table c, OriginalTable c, cd_Name c, OriginalName c]) @ rest"
proof -
  have a: "appendLengthEncodedString out s = out @ appendLengthEncodedString [] s" for out s
    by (rule appendLengthEncodedString_append)
  show ?thesis
    unfolding ColumnDefinition_Payload_def Let_def appendUint16LE_bytes appendUint32LE_bytes
      a [of "appendLengthEncodedString _ _"] by simp
qed

lemma column_name_payload:
  assumes "length (ColumnDefinition_Payload c) < 2 ^ 63"
  shows "column_name (ColumnDefinition_Payload c) = Some (cd_Name c)"
proof -
  let ?ss = "[Catalog c, Schema c, cd_Table c, OriginalTable c, cd_Name c, OriginalName c]"
  obtain rest where p: "ColumnDefinition_Payload c = concat (map (appendLengthEncodedString []) ?ss) @ rest"
    using ColumnDefinition_Payload_layout by blast
  have "read_strings (length ?ss) (ColumnDefinition_Payload c) 0 = Some ?ss"
    using read_strings_concat [of "[]" ?ss rest] assms unfolding p by simp
  moreover have "length ?ss = 6" by simp
  ultimately show ?thesis by (simp only: column_name_def) simp
qed

lemma is_eof_eofPayload: "is_eof (eofPayload w)"
  by (simp add: is_eof_def eofPayload_def eofPacketHeader_def appendUint16LE_def)

lemma mapR_rows:
  assumes "mapR (\<lambda>row. textRowPayload sprint formatFloat row n) rows = Inr ps" "0 < n" "\<forall>p \<in> set ps. length p < 2 ^ 63"
  shows "\<exists>tss. parse_rows n (ps @ [eofPayload 0]) = Some tss \<and> list_all2 (list_all2 (cell_text sprint formatFloat)) rows tss"
  using assms(1,3)
proof (induction rows arbitrary: ps)
  case Nil
  then show ?case by (simp add: is_eof_eofPayload)
next
  case (Cons row rows)
  then obtain p ps' where ps: "ps = p # ps'" "textRowPayload sprint formatFloat row n = Inr p"
      "mapR (\<lambda>row. textRowPayload sprint formatFloat row n) rows = Inr ps'" by (auto simp: bindR_Inr_iff)
  from Cons.IH [OF ps(3)] Cons.prems(2) ps(1) obtain tss where
    tss: "parse_rows n (ps' @ [eofPayload 0]) = Some tss" "list_all2 (list_all2 (cell_text sprint formatFloat)) rows tss" by auto
  have "length p < 2 ^ 63" using Cons.prems(2) ps(1) by simp
  from textRowPayload_texts [OF ps(2) this] assms(2) obtain ts where
    ts: "parse_text_cells n p 0 = Some (ts, length p)" "list_all2 (cell_text sprint formatFloat) row ts" "\<not> is_eof p"
    by (auto simp: is_eof_def)
  with tss ps(1) show ?case by (intro exI [of _ "ts # tss"]) simp
qed

section \<open>Properties\<close>

lemma those_map_Some: "\<forall>x \<in> set xs. f x = Some (g x) \<Longrightarrow> those (map f xs) = Some (map g xs)"
  by (induction xs) auto

lemma cd_Name_simps [simp]: "cd_Name (NewColumnDefinitionWithOptions c s) = col_Name c"
  by (simp add: NewColumnDefinitionWithOptions_def Let_def split: prod.split)

lemma parse_resultset_layout:
  assumes "those (map column_name defs) = Some names" "parse_rows (length defs) rows = Some cells"
    "length defs < 2 ^ 63"
  shows "parse_resultset (encodeLengthEncodedInteger (word_of_nat (length defs)) # defs @ eofPayload w # rows) =
     Some (names, cells)"
proof -
  let ?n = "word_of_nat (length defs) :: u64"
  have n: "unat ?n = length defs" using assms(3) by (simp add: unat_of_nat)
  have "readLengthEncodedInteger (encodeLengthEncodedInteger ?n) 0 =
      (Inr (Some (?n, length (encodeLengthEncodedInteger ?n))) :: (unit, _) res)"
    using readLengthEncodedInteger_encode [of "[]" ?n "[]", where 'a = unit] by simp
  then show ?thesis using assms(1,2) n
    by (simp add: parse_resultset_def Let_def is_eof_eofPayload)
qed

lemma sequencePackets_1:
  "\<forall>i < length (sequencePackets 1 ps). SequenceID (sequencePackets 1 ps ! i) = word_of_nat (i + 1)"
  by (simp add: sequencePackets_ids)

lemma sequencePackets_small:
  assumes "\<forall>p \<in> set (sequencePackets s ps). length (Payload p) < N"
  shows "\<forall>p \<in> set ps. length p < N"
proof -
  have "set (map Payload (sequencePackets s ps)) = set ps" by simp
  then have "set ps = Payload ` set (sequencePackets s ps)" by (simp only: set_map)
  then show ?thesis using assms by (simp only: ball_simps)
qed

lemma col_Name_toProtocolColumn [simp]: "col_Name (toProtocolColumn p c) = rc_Name c"
  by (simp add: toProtocolColumn_def split: prod.split)

lemma column_names_payloads:
  assumes "\<forall>c \<in> set cols. length (ColumnDefinition_Payload (NewColumnDefinitionWithOptions c s)) < 2 ^ 63"
  shows "those (map column_name (map (\<lambda>c. ColumnDefinition_Payload (NewColumnDefinitionWithOptions c s)) cols)) =
     Some (map col_Name cols)"
  unfolding map_map comp_def by (rule those_map_Some) (use assms in \<open>simp add: column_name_payload\<close>)

lemma TextResultSet_packets:
  assumes "TextResultSetPacketsWithOptions sprint formatFloat result defaultSchema = Inr packets"
  obtains cols ps where "cols = NewProtocolResultSchema ProtocolMySQL (Columns result)"
    "0 < length cols"
    "mapR (\<lambda>row. textRowPayload sprint formatFloat row (length cols)) (concat (Chunks result)) = Inr ps"
    "packets = sequencePackets 1 (encodeLengthEncodedInteger (word_of_nat (length cols)) #
       map (\<lambda>c. ColumnDefinition_Payload (NewColumnDefinitionWithOptions c defaultSchema)) cols @
       eofPayload 0 # ps @ [eofPayload 0])"
proof -
  let ?cols = "NewProtocolResultSchema ProtocolMySQL (Columns result)"
  have "0 < length ?cols"
    using assms by (auto simp: TextResultSetPacketsWithOptions_def NewProtocolResultSchema_def split: if_splits)
  moreover have nz: "length (Columns result) \<noteq> 0"
    using calculation by (simp add: NewProtocolResultSchema_def)
  moreover obtain ps where
    "mapR (\<lambda>row. textRowPayload sprint formatFloat row (length ?cols)) (concat (Chunks result)) = Inr ps"
    "packets = sequencePackets 1 ([encodeLengthEncodedInteger (word_of_nat (length ?cols))] @
       map (\<lambda>c. ColumnDefinition_Payload (NewColumnDefinitionWithOptions c defaultSchema)) ?cols @
       [eofPayload 0] @ ps @ [eofPayload 0])"
    using assms unfolding TextResultSetPacketsWithOptions_def Let_def
    by (simp only: nz if_False bindR_Inr_iff sum.inject) metis
  ultimately show thesis using that [OF refl] by (simp only: append_Cons append_Nil)
qed

text \<open>C29: the packets of a text result set carry consecutive sequence ids from 1 (modulo 256), and a
  client that reads them recovers every column name and every cell: NULL exactly for the NULL
  cells, and the text of the value for the others. No row can be mistaken for the EOF packet that
  ends the rows, whatever texts it holds.\<close>

theorem TextResultSet_reads_back:
  assumes ok: "TextResultSetPacketsWithOptions sprint formatFloat result defaultSchema = Inr packets"
    and size: "\<forall>p \<in> set packets. length (Payload p) < 2 ^ 63" "length (Columns result) < 2 ^ 63"
  shows "(\<exists>rows. parse_resultset (map Payload packets) = Some (map rc_Name (Columns result), rows) \<and>
       list_all2 (list_all2 (cell_text sprint formatFloat)) (concat (Chunks result)) rows) \<and>
     (\<forall>i < length packets. SequenceID (packets ! i) = word_of_nat (i + 1))"
proof -
  obtain cols ps where cols: "cols = NewProtocolResultSchema ProtocolMySQL (Columns result)" "0 < length cols"
    and ps: "mapR (\<lambda>row. textRowPayload sprint formatFloat row (length cols)) (concat (Chunks result)) = Inr ps"
    and packets: "packets = sequencePackets 1 (encodeLengthEncodedInteger (word_of_nat (length cols)) #
       map (\<lambda>c. ColumnDefinition_Payload (NewColumnDefinitionWithOptions c defaultSchema)) cols @
       eofPayload 0 # ps @ [eofPayload 0])" (is "_ = sequencePackets 1 (_ # ?defs @ _)")
    using ok by (rule TextResultSet_packets)
  have names: "map col_Name cols = map rc_Name (Columns result)"
    unfolding cols(1) NewProtocolResultSchema_def by simp
  then have len: "length cols = length (Columns result)" by (metis length_map)
  from sequencePackets_small [OF size(1) [unfolded packets]]
  have small: "\<forall>p \<in> set ps. length p < 2 ^ 63" "\<forall>p \<in> set ?defs. length p < 2 ^ 63"
    by (simp_all only: list.set set_append ball_simps ball_Un, simp_all)
  obtain rows where rows: "parse_rows (length cols) (ps @ [eofPayload 0]) = Some rows"
      "list_all2 (list_all2 (cell_text sprint formatFloat)) (concat (Chunks result)) rows"
    using mapR_rows [OF ps cols(2) small(1)] by blast
  have "those (map column_name ?defs) = Some (map rc_Name (Columns result))"
    unfolding names [symmetric] by (rule column_names_payloads) (use small(2) in simp)
  from parse_resultset_layout [OF this, of "ps @ [eofPayload 0]" rows 0] rows(1) size(2)
  have "parse_resultset (map Payload packets) = Some (map rc_Name (Columns result), rows)"
    unfolding packets sequencePackets_payloads by (simp only: length_map len)
  then show ?thesis using rows(2) sequencePackets_1 unfolding packets by blast
qed

theorem TextResultSet_reads_back_witness:
  "\<exists>packets.
     TextResultSetPacketsWithOptions (\<lambda>_. []) (\<lambda>_ _. [])
       \<lparr>Columns = [\<lparr>rc_Name = ''id'', rc_Type = DataTypeInt, rc_Nullable = True, rc_Source = ''t.id''\<rparr>],
        Chunks = [[[\<lparr>cell_Kind = ValueInt, cell_Value = AInt64 7\<rparr>]],
                  [[\<lparr>cell_Kind = ValueNull, cell_Value = ANil\<rparr>]]]\<rparr> ''db'' = Inr packets \<and>
     (\<exists>rows. parse_resultset (map Payload packets) = Some ([''id''], rows))"
proof -
  let ?r = "\<lparr>Columns = [\<lparr>rc_Name = ''id'', rc_Type = DataTypeInt, rc_Nullable = True, rc_Source = ''t.id''\<rparr>],
        Chunks = [[[\<lparr>cell_Kind = ValueInt, cell_Value = AInt64 7\<rparr>]],
                  [[\<lparr>cell_Kind = ValueNull, cell_Value = ANil\<rparr>]]]\<rparr>"
  let ?t = "TextResultSetPacketsWithOptions (\<lambda>_. []) (\<lambda>_ _. []) ?r ''db''"
  have "case ?t of Inr packets \<Rightarrow> list_all (\<lambda>p. length (Payload p) < 99) packets | _ \<Rightarrow> False"
    by code_simp
  then obtain packets where p: "?t = Inr packets" "\<forall>p \<in> set packets. length (Payload p) < 99"
    unfolding list_all_iff by (cases ?t) (simp_all only: sum.case)
  then have small: "\<forall>p \<in> set packets. length (Payload p) < 2 ^ 63" by fastforce
  show ?thesis
    using p(1) TextResultSet_reads_back [OF p(1) small] by (intro exI [of _ packets]) auto
qed

end
