(* ===== verification/MySQL_Handshake.thy ===== *)
theory MySQL_Handshake
  imports MySQL_Result
begin

text \<open>
  The connection phase (\<^verbatim>\<open>qsmysql/handshake.go\<close>, \<^verbatim>\<open>qsmysql/handshake_response.go\<close> and the server
  version text of \<^verbatim>\<open>version/version.go\<close>): the protocol 10 greeting and the client's response. The
  lemmas read the greeting back as a client does, and show that the decoder of the response
  recovers what a client encoded and never panics.
\<close>

section \<open>Definitions\<close>

definition normalized :: "string \<Rightarrow> string \<Rightarrow> string" where
  "normalized value fallback = (let value = trim_space value in if value = [] then fallback else value)"

text \<open>The build's \<^verbatim>\<open>Version\<close> variable is the argument.\<close>

definition MySQLVersion :: "string \<Rightarrow> string" where
  "MySQLVersion version = ''8.0.0'' @ '' '' @ ''QuantaStream'' @ '' '' @ normalized version ''0.0.0-dev''"

definition defaultAuthPluginName :: string where
  "defaultAuthPluginName = ''caching_sha2_password''"

definition defaultCapabilityFlags :: CapabilityFlag where
  "defaultCapabilityFlags = CapabilityLongPassword OR CapabilityProtocol41 OR CapabilitySecureConnection OR
     CapabilityPluginAuth OR CapabilitySessionTrack"

record HandshakeV10 =
  ServerVersion :: string
  hs_ConnectionID :: u32
  AuthPluginData :: "byte list"
  hs_CapabilityFlags :: CapabilityFlag
  hs_CharacterSet :: byte
  StatusFlags :: u16
  hs_AuthPluginName :: string

definition NewDefaultHandshake :: "string \<Rightarrow> u32 \<Rightarrow> byte list \<Rightarrow> HandshakeV10" where
  "NewDefaultHandshake version connectionID authPluginData =
     \<lparr>ServerVersion = MySQLVersion version, hs_ConnectionID = connectionID, AuthPluginData = authPluginData,
      hs_CapabilityFlags = defaultCapabilityFlags, hs_CharacterSet = CharacterSetUTF8MB4GeneralCI,
      StatusFlags = StatusAutocommit, hs_AuthPluginName = defaultAuthPluginName\<rparr>"

definition authPart2 :: "byte list \<Rightarrow> nat \<Rightarrow> byte list" where
  "authPart2 data len = take len (data @ replicate len 0)"

definition HandshakeV10_Payload :: "HandshakeV10 \<Rightarrow> (string, byte list) res" where
  "HandshakeV10_Payload h =
     (if ServerVersion h = [] then Inl (Err ''mysql handshake requires server version'')
      else if length (AuthPluginData h) < 8 then
        Inl (Err ''mysql handshake auth plugin data must be at least 8 bytes'')
      else
        let authPluginName = (if hs_AuthPluginName h = [] then defaultAuthPluginName else hs_AuthPluginName h);
            capabilities = (if hs_CapabilityFlags h = 0 then defaultCapabilityFlags else hs_CapabilityFlags h);
            charset = (if hs_CharacterSet h = 0 then CharacterSetUTF8MB4GeneralCI else hs_CharacterSet h);
            status = (if StatusFlags h = 0 then StatusAutocommit else StatusFlags h)
        in if length (AuthPluginData h) + 1 > 255 then
             Inl (Err (''mysql handshake auth plugin data length '' @ dec_nat (length (AuthPluginData h)) @
                       '' exceeds max 254''))
           else
             let authLength = (word_of_nat (length (AuthPluginData h) + 1) :: byte);
                 part2Length = max 13 (unat authLength - 8)
             in bindR (slice (AuthPluginData h) 0 8) (\<lambda>part1.
                bindR (slice (AuthPluginData h) 8 (length (AuthPluginData h))) (\<lambda>part2.
                  let payload = [0x0a];
                      payload = payload @ bytes_of_string (ServerVersion h);
                      payload = payload @ [0x00];
                      payload = appendUint32LE payload (hs_ConnectionID h);
                      payload = payload @ part1;
                      payload = payload @ [0x00];
                      payload = appendUint16LE payload (ucast capabilities);
                      payload = payload @ [charset];
                      payload = appendUint16LE payload status;
                      payload = appendUint16LE payload (ucast (drop_bit 16 capabilities));
                      payload = payload @ [authLength];
                      payload = payload @ replicate 10 0;
                      payload = payload @ authPart2 part2 part2Length;
                      payload = payload @ bytes_of_string authPluginName
                  in Inr (payload @ [0x00]))))"

definition HandshakeV10_Packet :: "HandshakeV10 \<Rightarrow> (string + packet_error, byte list) res" where
  "HandshakeV10_Packet h =
     bindR (wrapErr Inl (HandshakeV10_Payload h)) (\<lambda>payload.
       wrapErr Inr (EncodePacket \<lparr>SequenceID = 0, Payload = payload\<rparr>))"

record HandshakeResponse41 =
  hr_CapabilityFlags :: CapabilityFlag
  hr_MaxPacketSize :: u32
  hr_CharacterSet :: byte
  hr_Username :: string
  hr_AuthResponse :: "byte list"
  hr_Database :: string
  hr_AuthPluginName :: string

text \<open>The three optional parts of the response, each returning its value and the next offset.\<close>

definition readAuthResponse :: "CapabilityFlag \<Rightarrow> byte list \<Rightarrow> nat \<Rightarrow> (string, byte list \<times> nat) res" where
  "readAuthResponse flags payload offset =
     (if flags AND CapabilitySecureConnection \<noteq> 0 then
        (if offset \<ge> length payload then Inl (Err ''mysql handshake response missing auth response length'')
         else bindR (idx payload offset) (\<lambda>b.
           let authLength = unat b; offset = offset + 1 in
           if offset + authLength > length payload then
             Inl (Err ''mysql handshake response auth response truncated'')
           else bindR (slice payload offset (offset + authLength)) (\<lambda>auth.
             Inr (auth, offset + authLength))))
      else case readNullTerminatedBytes payload offset of
        None \<Rightarrow> Inl (Err ''mysql handshake response missing auth response terminator'')
      | Some (auth, next) \<Rightarrow> Inr (auth, next))"

definition readDatabase :: "CapabilityFlag \<Rightarrow> byte list \<Rightarrow> nat \<Rightarrow> (string, string \<times> nat) res" where
  "readDatabase flags payload offset =
     (if flags AND CapabilityConnectWithDB \<noteq> 0 then
        (case readNullTerminatedString payload offset of
           None \<Rightarrow> Inl (Err ''mysql handshake response missing database terminator'')
         | Some (database, next) \<Rightarrow> Inr (database, next))
      else Inr ([], offset))"

definition readAuthPlugin :: "CapabilityFlag \<Rightarrow> byte list \<Rightarrow> nat \<Rightarrow> (string, string) res" where
  "readAuthPlugin flags payload offset =
     (if flags AND CapabilityPluginAuth \<noteq> 0 \<and> offset < length payload then
        (case readNullTerminatedString payload offset of
           None \<Rightarrow> Inl (Err ''mysql handshake response missing auth plugin terminator'')
         | Some (plugin, _) \<Rightarrow> Inr plugin)
      else Inr [])"

definition DecodeHandshakeResponse41 :: "byte list \<Rightarrow> (string, HandshakeResponse41) res" where
  "DecodeHandshakeResponse41 payload =
     (if length payload < 36 then
        Inl (Err (''mysql handshake response too short: '' @ dec_nat (length payload) @ '' bytes''))
      else
        bindR (slice payload 0 4) (\<lambda>s0. bindR (readUint32LE s0) (\<lambda>flags.
        bindR (slice payload 4 8) (\<lambda>s4. bindR (readUint32LE s4) (\<lambda>maxPacketSize.
        bindR (idx payload 8) (\<lambda>charset.
          if flags AND CapabilityProtocol41 = 0 then
            Inl (Err ''mysql handshake response requires CLIENT_PROTOCOL_41'')
          else case readNullTerminatedString payload 32 of
            None \<Rightarrow> Inl (Err ''mysql handshake response missing username terminator'')
          | Some (username, offset) \<Rightarrow>
              bindR (readAuthResponse flags payload offset) (\<lambda>(auth, offset).
              bindR (readDatabase flags payload offset) (\<lambda>(database, offset).
              bindR (readAuthPlugin flags payload offset) (\<lambda>plugin.
                Inr \<lparr>hr_CapabilityFlags = flags, hr_MaxPacketSize = maxPacketSize, hr_CharacterSet = charset,
                     hr_Username = username, hr_AuthResponse = auth, hr_Database = database,
                     hr_AuthPluginName = plugin\<rparr>)))))))))"

section \<open>NUL-terminated fields\<close>

lemma find_first: "P y \<Longrightarrow> \<forall>x \<in> set xs. \<not> P x \<Longrightarrow> List.find P (xs @ y # ys) = Some y"
  by (induction xs) auto

lemma readNullTerminatedBytes_drop:
  assumes d: "drop off data = s @ 0 # rest" and s: "0 \<notin> set s"
  shows "readNullTerminatedBytes data off = Some (s, off + length s + 1)"
proof -
  have len: "length data = off + length s + 1 + length rest"
    using arg_cong [OF d, of length] by (cases "off \<le> length data") auto
  have nth: "data ! (off + i) = (s @ 0 # rest) ! i" for i
    using d len by (metis add_leD1 le_add1 add.assoc nth_drop)
  have split: "[off ..< length data] = [off ..< off + length s] @ (off + length s) # [off + length s + 1 ..< length data]"
  proof -
    have "[off ..< length data] = [off ..< off + length s] @ [off + length s ..< off + length s + (1 + length rest)]"
      using upt_add_eq_append [of off "off + length s" "1 + length rest"] len by (simp only: add.assoc)
    then show ?thesis using len by (simp add: upt_conv_Cons del: upt_Suc)
  qed
  have "data ! (off + length s) = 0" by (simp add: nth)
  moreover have "\<forall>x \<in> set [off ..< off + length s]. data ! x \<noteq> 0"
  proof
    fix x assume "x \<in> set [off ..< off + length s]"
    then obtain i where "x = off + i" "i < length s" by (auto simp: nat_le_iff_add)
    then show "data ! x \<noteq> 0" using s by (auto simp: nth nth_append in_set_conv_nth)
  qed
  ultimately have "List.find (\<lambda>i. data ! i = 0) [off ..< length data] = Some (off + length s)"
    unfolding split by (intro find_first) auto
  then show ?thesis using len by (simp add: readNullTerminatedBytes_def d)
qed

lemma readNullTerminatedString_drop:
  assumes "drop off data = bytes_of_string s @ 0 # rest" "0 \<notin> set (bytes_of_string s)"
  shows "readNullTerminatedString data off = Some (s, off + length s + 1)"
  using readNullTerminatedBytes_drop [OF assms] by (simp add: readNullTerminatedString_def)

lemma drop_advance: "drop off p = x @ y \<Longrightarrow> length x = n \<Longrightarrow> drop (off + n) p = y"
  by (metis add.commute append_eq_conv_conj drop_drop)

section \<open>What a client sends and sees\<close>

text \<open>The response a client encodes; the filler bytes \<^term>\<open>pad\<close> and what follows are free.\<close>

definition response41_bytes :: "HandshakeResponse41 \<Rightarrow> byte list \<Rightarrow> byte list" where
  "response41_bytes r pad =
     le_bytes 4 (unat (hr_CapabilityFlags r)) @ le_bytes 4 (unat (hr_MaxPacketSize r)) @ [hr_CharacterSet r] @ pad @
     bytes_of_string (hr_Username r) @ [0] @
     (if hr_CapabilityFlags r AND CapabilitySecureConnection \<noteq> 0
      then word_of_nat (length (hr_AuthResponse r)) # hr_AuthResponse r else hr_AuthResponse r @ [0]) @
     (if hr_CapabilityFlags r AND CapabilityConnectWithDB \<noteq> 0 then bytes_of_string (hr_Database r) @ [0] else []) @
     (if hr_CapabilityFlags r AND CapabilityPluginAuth \<noteq> 0 then bytes_of_string (hr_AuthPluginName r) @ [0] else [])"

definition response41_ok :: "HandshakeResponse41 \<Rightarrow> bool" where
  "response41_ok r \<longleftrightarrow>
     hr_CapabilityFlags r AND CapabilityProtocol41 \<noteq> 0 \<and> 0 \<notin> set (bytes_of_string (hr_Username r)) \<and>
     (if hr_CapabilityFlags r AND CapabilitySecureConnection \<noteq> 0 then length (hr_AuthResponse r) < 256
      else 0 \<notin> set (hr_AuthResponse r)) \<and>
     (if hr_CapabilityFlags r AND CapabilityConnectWithDB \<noteq> 0 then 0 \<notin> set (bytes_of_string (hr_Database r))
      else hr_Database r = []) \<and>
     (if hr_CapabilityFlags r AND CapabilityPluginAuth \<noteq> 0 then 0 \<notin> set (bytes_of_string (hr_AuthPluginName r))
      else hr_AuthPluginName r = [])"

text \<open>How a client takes the greeting apart.\<close>

definition parse_greeting :: "byte list \<Rightarrow> (string \<times> u32 \<times> byte list \<times> u32 \<times> byte \<times> u16 \<times> string) option" where
  "parse_greeting p =
     (case p of
        [] \<Rightarrow> None
      | proto # r \<Rightarrow>
          (case readNullTerminatedString r 0 of
             Some (version, n) \<Rightarrow>
               let r = drop n r; r2 = drop 13 r; authLength = unat (r2 ! 7); part2 = max 13 (authLength - 8);
                   r3 = drop 18 r2
               in (case (readUint32LE (take 4 r) :: (unit, u32) res, readUint16LE (take 2 r2) :: (unit, u16) res,
                         readUint16LE (take 2 (drop 3 r2)) :: (unit, u16) res,
                         readUint16LE (take 2 (drop 5 r2)) :: (unit, u16) res,
                         readNullTerminatedString (drop part2 r3) 0) of
                     (Inr connectionID, Inr low, Inr status, Inr high, Some (plugin, _)) \<Rightarrow>
                       if proto = 10 then
                         Some (version, connectionID, take 8 (drop 4 r) @ take (authLength - 9) r3,
                               ucast low OR push_bit 16 (ucast high), r2 ! 2, status, plugin)
                       else None
                   | _ \<Rightarrow> None)
           | None \<Rightarrow> None))"

lemma halves_u32: "(ucast (ucast c :: u16) OR push_bit 16 (ucast (ucast (drop_bit 16 c) :: u16))) = (c :: u32)"
  by (rule bit_word_eqI) (auto simp: bit_simps)

lemma drop_length: "drop off p = x # y \<Longrightarrow> off < length p"
  by (rule ccontr) simp

lemma readAuthResponse_drop:
  assumes "flags AND CapabilitySecureConnection \<noteq> 0 \<Longrightarrow>
      length auth < 256 \<and> drop off p = word_of_nat (length auth) # auth @ rest"
    and "flags AND CapabilitySecureConnection = 0 \<Longrightarrow> 0 \<notin> set auth \<and> drop off p = auth @ 0 # rest"
  shows "readAuthResponse flags p off = Inr (auth, off + length auth + 1) \<and> drop (off + length auth + 1) p = rest"
proof (cases "flags AND CapabilitySecureConnection = 0")
  case True
  with assms(2) have "0 \<notin> set auth" "drop off p = auth @ 0 # rest" by simp_all
  then show ?thesis
    using readNullTerminatedBytes_drop [of off p auth rest] drop_advance [of off p "auth @ [0]" rest] True
    by (simp add: readAuthResponse_def)
next
  case False
  with assms(1) have d: "length auth < 256" "drop off p = word_of_nat (length auth) # auth @ rest" by simp_all
  have n: "unat (word_of_nat (length auth) :: byte) = length auth" using d(1) by (simp add: unat_of_nat)
  have d1: "drop (Suc off) p = auth @ rest" using d(2) by (metis drop_Suc list.sel(3) tl_drop)
  have "Suc off + length auth \<le> length p"
    using arg_cong [OF d1, of length] drop_length [OF d(2)] by simp
  moreover have "p ! off = word_of_nat (length auth)" using d(2) drop_length [OF d(2)] by (metis hd_drop_conv_nth list.sel(1))
  ultimately show ?thesis
    using False d1 n drop_length [OF d(2)] drop_advance [OF d1 refl]
    by (simp add: readAuthResponse_def idx_in slice_in Let_def)
qed

lemma readDatabase_drop:
  assumes "flags AND CapabilityConnectWithDB \<noteq> 0 \<Longrightarrow>
      0 \<notin> set (bytes_of_string db) \<and> drop off p = bytes_of_string db @ 0 # rest"
    and "flags AND CapabilityConnectWithDB = 0 \<Longrightarrow> db = [] \<and> drop off p = rest"
  shows "\<exists>off'. readDatabase flags p off = Inr (db, off') \<and> drop off' p = rest"
  using assms readNullTerminatedString_drop [of off p db rest]
    drop_advance [of off p "bytes_of_string db @ [0]" rest]
  by (cases "flags AND CapabilityConnectWithDB = 0") (simp_all add: readDatabase_def)

lemma readAuthPlugin_drop:
  assumes "flags AND CapabilityPluginAuth \<noteq> 0 \<Longrightarrow>
      0 \<notin> set (bytes_of_string pl) \<and> drop off p = bytes_of_string pl @ 0 # rest"
    and "flags AND CapabilityPluginAuth = 0 \<Longrightarrow> pl = []"
  shows "readAuthPlugin flags p off = Inr pl"
proof (cases "flags AND CapabilityPluginAuth = 0")
  case False
  with assms(1) have "drop off p \<noteq> []" by simp
  then have "off < length p" by simp
  then show ?thesis using False assms(1) readNullTerminatedString_drop [of off p pl rest]
    by (simp add: readAuthPlugin_def)
qed (use assms(2) in \<open>simp add: readAuthPlugin_def\<close>)

lemma no_panic_readAuthResponse [no_panic_intros]: "no_panic (readAuthResponse flags payload off)"
  unfolding readAuthResponse_def Let_def by (intro no_panic_intros) auto

lemma no_panic_readDatabase [no_panic_intros]: "no_panic (readDatabase flags payload off)"
  unfolding readDatabase_def by (intro no_panic_intros)

lemma no_panic_readAuthPlugin [no_panic_intros]: "no_panic (readAuthPlugin flags payload off)"
  unfolding readAuthPlugin_def by (intro no_panic_intros)

lemma no_panic_DecodeHandshakeResponse41 [no_panic_intros]: "no_panic (DecodeHandshakeResponse41 payload)"
  unfolding DecodeHandshakeResponse41_def by (intro no_panic_intros) (auto dest!: slice_length)

section \<open>Properties\<close>

text \<open>C36: whatever bytes a client sends as its handshake response, decoding it ends with a response or
  an error: no index or slice leaves the payload.\<close>

theorem DecodeHandshakeResponse41_safe: "no_panic (DecodeHandshakeResponse41 payload)"
  by (rule no_panic_DecodeHandshakeResponse41)

text \<open>C34: decoding the response a client encoded gives back exactly its fields, in both encodings of the
  authentication data and with or without the database and plugin fields, whatever the filler
  bytes hold and whatever follows the last field, when the payload has the 36 bytes the code asks for
  (the shortest responses, of 34 and 35 bytes, are refused).\<close>

theorem DecodeHandshakeResponse41_response41_bytes:
  assumes ok: "response41_ok r" and pad: "length pad = 23" and len: "36 \<le> length (response41_bytes r pad @ rest)"
  shows "DecodeHandshakeResponse41 (response41_bytes r pad @ rest) = Inr r"
proof -
  define p where "p = response41_bytes r pad @ rest"
  let ?f = "hr_CapabilityFlags r"
  define plug where
    "plug = (if ?f AND CapabilityPluginAuth \<noteq> 0 then bytes_of_string (hr_AuthPluginName r) @ [0] else []) @ rest"
  define db where
    "db = (if ?f AND CapabilityConnectWithDB \<noteq> 0 then bytes_of_string (hr_Database r) @ [0] else []) @ plug"
  define auth where "auth = (if ?f AND CapabilitySecureConnection \<noteq> 0
      then word_of_nat (length (hr_AuthResponse r)) # hr_AuthResponse r else hr_AuthResponse r @ [0]) @ db"
  have d0: "slice p 0 4 = (Inr (le_bytes 4 (unat ?f)) :: (string, _) res)"
    "slice p 4 8 = (Inr (le_bytes 4 (unat (hr_MaxPacketSize r))) :: (string, _) res)"
    "idx p 8 = (Inr (hr_CharacterSet r) :: (string, _) res)"
    by (simp_all add: p_def response41_bytes_def slice_def idx_def nth_append)
  have d32: "drop 32 p = bytes_of_string (hr_Username r) @ 0 # auth"
    using pad by (simp add: p_def response41_bytes_def auth_def db_def plug_def)
  define o1 where "o1 = 32 + length (hr_Username r) + 1"
  have u: "readNullTerminatedString p 32 = Some (hr_Username r, o1)"
    unfolding o1_def by (rule readNullTerminatedString_drop [OF d32]) (use ok in \<open>simp add: response41_ok_def\<close>)
  have "drop o1 p = auth"
    using drop_advance [of 32 p "bytes_of_string (hr_Username r) @ [0]" auth "length (hr_Username r) + 1"] d32
    by (simp add: o1_def)
  then have "readAuthResponse ?f p o1 = Inr (hr_AuthResponse r, o1 + length (hr_AuthResponse r) + 1) \<and>
      drop (o1 + length (hr_AuthResponse r) + 1) p = db"
    using ok by (intro readAuthResponse_drop) (simp_all add: auth_def response41_ok_def)
  then have a: "readAuthResponse ?f p o1 = Inr (hr_AuthResponse r, o1 + length (hr_AuthResponse r) + 1)"
      and "drop (o1 + length (hr_AuthResponse r) + 1) p = db" by simp_all
  then have "\<exists>o2. readDatabase ?f p (o1 + length (hr_AuthResponse r) + 1) = Inr (hr_Database r, o2) \<and> drop o2 p = plug"
    using ok by (intro readDatabase_drop) (simp_all add: db_def response41_ok_def)
  then obtain o2 where b: "readDatabase ?f p (o1 + length (hr_AuthResponse r) + 1) = Inr (hr_Database r, o2)" "drop o2 p = plug"
    by blast
  have c: "readAuthPlugin ?f p o2 = Inr (hr_AuthPluginName r)"
    using b(2) ok by (intro readAuthPlugin_drop [of _ _ _ _ rest]) (simp_all add: plug_def response41_ok_def)
  show ?thesis
    using len ok u a b(1) c
    unfolding p_def [symmetric] DecodeHandshakeResponse41_def d0 bindR.simps readUint_le_bytes_exact
    by (simp add: response41_ok_def)
qed

theorem DecodeHandshakeResponse41_response41_bytes_witness:
  "DecodeHandshakeResponse41
     (response41_bytes
        \<lparr>hr_CapabilityFlags = 0x00088208, hr_MaxPacketSize = 16777216, hr_CharacterSet = 45, hr_Username = ''app'',
         hr_AuthResponse = [1, 0, 3], hr_Database = ''db'', hr_AuthPluginName = ''mysql_native_password''\<rparr>
        (replicate 23 0) @ []) =
   Inr \<lparr>hr_CapabilityFlags = 0x00088208, hr_MaxPacketSize = 16777216, hr_CharacterSet = 45, hr_Username = ''app'',
        hr_AuthResponse = [1, 0, 3], hr_Database = ''db'', hr_AuthPluginName = ''mysql_native_password''\<rparr>"
  by (rule DecodeHandshakeResponse41_response41_bytes, code_simp, simp, simp add: response41_bytes_def)

text \<open>C35: when the server version is not empty and has no zero byte, the plugin name has none and the
  scramble has 8 to 254 bytes, the greeting is sent, and a client that takes it apart recovers the version, the connection id, the whole
  scramble, all 32 capability bits, the character set, the status and the plugin name (the
  defaults standing in for unset values).\<close>

theorem HandshakeV10_Payload_parses:
  assumes "ServerVersion h \<noteq> []" "0 \<notin> set (bytes_of_string (ServerVersion h))"
    "0 \<notin> set (bytes_of_string (hs_AuthPluginName h))" "8 \<le> length (AuthPluginData h)" "length (AuthPluginData h) \<le> 254"
  shows "\<exists>p. HandshakeV10_Payload h = Inr p \<and>
     parse_greeting p = Some
       (ServerVersion h, hs_ConnectionID h, AuthPluginData h,
        if hs_CapabilityFlags h = 0 then defaultCapabilityFlags else hs_CapabilityFlags h,
        if hs_CharacterSet h = 0 then CharacterSetUTF8MB4GeneralCI else hs_CharacterSet h,
        if StatusFlags h = 0 then StatusAutocommit else StatusFlags h,
        if hs_AuthPluginName h = [] then defaultAuthPluginName else hs_AuthPluginName h)"
proof -
  let ?d = "AuthPluginData h"
  define caps where "caps = (if hs_CapabilityFlags h = 0 then defaultCapabilityFlags else hs_CapabilityFlags h)"
  define charset where "charset = (if hs_CharacterSet h = 0 then CharacterSetUTF8MB4GeneralCI else hs_CharacterSet h)"
  define status where "status = (if StatusFlags h = 0 then StatusAutocommit else StatusFlags h)"
  define plugin where "plugin = (if hs_AuthPluginName h = [] then defaultAuthPluginName else hs_AuthPluginName h)"
  have "0 \<notin> set (bytes_of_string defaultAuthPluginName)" by code_simp
  then have nul: "0 \<notin> set (bytes_of_string plugin)" using assms(3) by (simp add: plugin_def)
  define n where "n = (word_of_nat (length ?d + 1) :: byte)"
  have n: "unat n = length ?d + 1" using assms(5) unfolding n_def by (subst unat_of_nat) simp
  define m where "m = max 13 (length ?d + 1 - 8)"
  have part2: "length (authPart2 (drop 8 ?d) m) = m" "take (length ?d - 8) (authPart2 (drop 8 ?d) m) = drop 8 ?d"
    using assms(4) by (auto simp: authPart2_def m_def)
  let ?tail = "replicate 10 0 @ authPart2 (drop 8 ?d) m @ bytes_of_string plugin @ [0]"
  let ?mid = "le_bytes 2 (unat (ucast caps :: u16)) @ [charset] @ le_bytes 2 (unat status) @
     le_bytes 2 (unat (ucast (drop_bit 16 caps) :: u16)) @ n # ?tail"
  let ?p = "10 # bytes_of_string (ServerVersion h) @ 0 # le_bytes 4 (unat (hs_ConnectionID h)) @ take 8 ?d @ 0 # ?mid"
  have p: "HandshakeV10_Payload h = Inr ?p"
    using assms(1,4,5) unfolding HandshakeV10_Payload_def Let_def caps_def [symmetric] charset_def [symmetric]
      status_def [symmetric] plugin_def [symmetric] n_def [symmetric] n m_def [symmetric]
    by (simp add: slice_def appendUint16LE_bytes appendUint32LE_bytes)
  have v: "readNullTerminatedString (tl ?p) 0 = Some (ServerVersion h, length (ServerVersion h) + 1)"
    using readNullTerminatedString_drop [of 0 "tl ?p" "ServerVersion h"] assms(2) by simp
  have pl: "readNullTerminatedString (bytes_of_string plugin @ [0]) 0 = Some (plugin, length plugin + 1)"
    using readNullTerminatedString_drop [of 0 "bytes_of_string plugin @ [0]" plugin] nul by simp
  have l8: "length (take 8 ?d) = 8" using assms(4) by simp
  have "drop (4 + 8 + 1) (le_bytes 4 (unat (hs_ConnectionID h)) @ take 8 ?d @ 0 # ?mid) = ?mid" using l8 by simp
  then show ?thesis
    using v pl l8 part2 assms(4) unfolding p parse_greeting_def
    by (simp add: Let_def nth_append n m_def readUint_le_bytes_exact readUint16LE_le_bytes readUint32LE_le_bytes halves_u32
      flip: caps_def charset_def status_def plugin_def)
qed

theorem HandshakeV10_Payload_parses_witness:
  "\<exists>p. HandshakeV10_Payload (NewDefaultHandshake ''0.1.3'' 7 (map word_of_nat [1..<21])) = Inr p \<and>
     parse_greeting p = Some (MySQLVersion ''0.1.3'', 7, map word_of_nat [1..<21], defaultCapabilityFlags,
       CharacterSetUTF8MB4GeneralCI, StatusAutocommit, defaultAuthPluginName)"
proof -
  let ?h = "NewDefaultHandshake ''0.1.3'' 7 (map word_of_nat [1..<21])"
  have "ServerVersion ?h \<noteq> []" "0 \<notin> set (bytes_of_string (ServerVersion ?h))"
    "0 \<notin> set (bytes_of_string (hs_AuthPluginName ?h))" by code_simp+
  from HandshakeV10_Payload_parses [OF this] show ?thesis
    by (simp add: NewDefaultHandshake_def defaultAuthPluginName_def split: if_splits)
qed

end
