(* ===== verification/Go_Crypto.thy ===== *)
theory Go_Crypto
  imports QS_Prelude
begin

text \<open>
  The hash functions of Go's \<^verbatim>\<open>crypto/sha1\<close> and \<^verbatim>\<open>crypto/sha256\<close> that the password
  verifiers and the write-ahead log use, as FIPS 180-4 defines them. The only facts the proofs
  need of them are the lengths of the digests.
\<close>

section \<open>Blocks\<close>

definition be_word :: "byte list \<Rightarrow> u32" where
  "be_word bs = foldl (\<lambda>w b. push_bit 8 w OR ucast b) 0 bs"

definition be_bytes32 :: "u32 \<Rightarrow> byte list" where
  "be_bytes32 w = [ucast (drop_bit 24 w), ucast (drop_bit 16 w), ucast (drop_bit 8 w), ucast w]"

definition be_bytes64 :: "u64 \<Rightarrow> byte list" where
  "be_bytes64 w = map (\<lambda>i. ucast (drop_bit (8 * i) w)) [7, 6, 5, 4, 3, 2, 1, 0]"

definition sha_pad :: "byte list \<Rightarrow> byte list" where
  "sha_pad m =
     m @ [0x80] @ replicate ((119 - length m mod 64) mod 64) 0 @ be_bytes64 (word_of_nat (8 * length m))"

fun sha_blocks :: "byte list \<Rightarrow> byte list list" where
  "sha_blocks bs = (if length bs < 64 then [] else take 64 bs # sha_blocks (drop 64 bs))"

declare sha_blocks.simps [simp del]

definition block_words :: "byte list \<Rightarrow> u32 list" where
  "block_words b = map (\<lambda>i. be_word (take 4 (drop (4 * i) b))) [0 ..< 16]"

section \<open>SHA-1\<close>

type_synonym sha1_state = "u32 \<times> u32 \<times> u32 \<times> u32 \<times> u32"

definition sha1_schedule :: "u32 list \<Rightarrow> u32 list" where
  "sha1_schedule ws =
     fold (\<lambda>t w. w @ [word_rotl 1 (w ! (t - 3) XOR w ! (t - 8) XOR w ! (t - 14) XOR w ! (t - 16))]) [16 ..< 80] ws"

definition sha1_round :: "nat \<Rightarrow> u32 \<Rightarrow> sha1_state \<Rightarrow> sha1_state" where
  "sha1_round t w s = (case s of (a, b, c, d, e) \<Rightarrow>
     let (f, k) =
       (if t < 20 then ((b AND c) OR (NOT b AND d), 0x5a827999)
        else if t < 40 then (b XOR c XOR d, 0x6ed9eba1)
        else if t < 60 then ((b AND c) OR (b AND d) OR (c AND d), 0x8f1bbcdc)
        else (b XOR c XOR d, 0xca62c1d6))
     in (word_rotl 5 a + f + e + k + w, a, word_rotl 30 b, c, d))"

definition sha1_block :: "byte list \<Rightarrow> sha1_state \<Rightarrow> sha1_state" where
  "sha1_block blk s =
     (case fold (\<lambda>(t, w) s. sha1_round t w s) (List.enumerate 0 (sha1_schedule (block_words blk))) s of
        (a, b, c, d, e) \<Rightarrow> case s of (a0, b0, c0, d0, e0) \<Rightarrow> (a0 + a, b0 + b, c0 + c, d0 + d, e0 + e))"

definition sha1_Sum :: "byte list \<Rightarrow> byte list" where
  "sha1_Sum m =
     (case fold sha1_block (sha_blocks (sha_pad m)) (0x67452301, 0xefcdab89, 0x98badcfe, 0x10325476, 0xc3d2e1f0) of
        (a, b, c, d, e) \<Rightarrow> be_bytes32 a @ be_bytes32 b @ be_bytes32 c @ be_bytes32 d @ be_bytes32 e)"

section \<open>SHA-256\<close>

type_synonym sha256_state = "u32 \<times> u32 \<times> u32 \<times> u32 \<times> u32 \<times> u32 \<times> u32 \<times> u32"

text \<open>The round constants: the first 32 bits of the fractional parts of the cube roots of the first
  64 primes. \<open>cube_root n\<close> is the integer cube root of a number below \<open>2 ^ 108\<close>, bit by bit.\<close>

definition cube_root :: "nat \<Rightarrow> nat" where
  "cube_root n = fold (\<lambda>b r. if (r + 2 ^ b) ^ 3 \<le> n then r + 2 ^ b else r) (rev [0 ..< 36]) 0"

definition first_primes :: "nat \<Rightarrow> nat list" where
  "first_primes bound = filter (\<lambda>p. list_all (\<lambda>d. p mod d \<noteq> 0) [2 ..< p]) [2 ..< bound]"

definition sha256_k :: "u32 list" where
  "sha256_k = map (\<lambda>p. word_of_nat (cube_root (p * 2 ^ 96))) (first_primes 312)"

definition sha256_schedule :: "u32 list \<Rightarrow> u32 list" where
  "sha256_schedule ws =
     fold (\<lambda>t w.
       let s0 = word_rotr 7 (w ! (t - 15)) XOR word_rotr 18 (w ! (t - 15)) XOR drop_bit 3 (w ! (t - 15));
           s1 = word_rotr 17 (w ! (t - 2)) XOR word_rotr 19 (w ! (t - 2)) XOR drop_bit 10 (w ! (t - 2))
       in w @ [w ! (t - 16) + s0 + w ! (t - 7) + s1]) [16 ..< 64] ws"

definition sha256_round :: "u32 \<Rightarrow> u32 \<Rightarrow> sha256_state \<Rightarrow> sha256_state" where
  "sha256_round k w s = (case s of (a, b, c, d, e, f, g, h) \<Rightarrow>
     let s1 = word_rotr 6 e XOR word_rotr 11 e XOR word_rotr 25 e;
         ch = (e AND f) XOR (NOT e AND g);
         t1 = h + s1 + ch + k + w;
         s0 = word_rotr 2 a XOR word_rotr 13 a XOR word_rotr 22 a;
         maj = (a AND b) XOR (a AND c) XOR (b AND c)
     in (t1 + (s0 + maj), a, b, c, d + t1, e, f, g))"

definition sha256_block :: "byte list \<Rightarrow> sha256_state \<Rightarrow> sha256_state" where
  "sha256_block blk s =
     (case fold (\<lambda>(k, w) s. sha256_round k w s) (zip sha256_k (sha256_schedule (block_words blk))) s of
        (a, b, c, d, e, f, g, h) \<Rightarrow> case s of (a0, b0, c0, d0, e0, f0, g0, h0) \<Rightarrow>
          (a0 + a, b0 + b, c0 + c, d0 + d, e0 + e, f0 + f, g0 + g, h0 + h))"

definition sha256_Sum :: "byte list \<Rightarrow> byte list" where
  "sha256_Sum m =
     (case fold sha256_block (sha_blocks (sha_pad m))
         (0x6a09e667, 0xbb67ae85, 0x3c6ef372, 0xa54ff53a, 0x510e527f, 0x9b05688c, 0x1f83d9ab, 0x5be0cd19) of
        (a, b, c, d, e, f, g, h) \<Rightarrow>
          be_bytes32 a @ be_bytes32 b @ be_bytes32 c @ be_bytes32 d @
          be_bytes32 e @ be_bytes32 f @ be_bytes32 g @ be_bytes32 h)"

section \<open>Digest lengths\<close>

lemma length_sha1 [simp]: "length (sha1_Sum m) = 20"
  by (simp add: sha1_Sum_def be_bytes32_def split: prod.split)

lemma length_sha256 [simp]: "length (sha256_Sum m) = 32"
  by (simp add: sha256_Sum_def be_bytes32_def split: prod.split)

end
