(* ===== verification/MySQL_Auth.thy ===== *)
theory MySQL_Auth
  imports MySQL_Handshake Go_Crypto
begin

text \<open>
  Authentication of a connection attempt (\<^verbatim>\<open>qsmysql/auth.go\<close>, \<^verbatim>\<open>qsmysql/auth_static.go\<close>,
  \<^verbatim>\<open>qsmysql/auth_config.go\<close>, \<^verbatim>\<open>qsmysql/auth_file.go\<close>): the permissive, rejecting and static
  authenticators, the password tokens and verifiers over the modelled SHA-1 and SHA-256, and the
  account file. \<^term>\<open>quote\<close> is the \<^verbatim>\<open>%q\<close> of error texts; the YAML package and the host's
  files are arguments.
\<close>

section \<open>Requests and decisions\<close>

type_synonym RoleName = string

record AuthRequest =
  req_ConnectionID :: u32
  req_Username :: string
  req_Database :: string
  req_AuthPluginName :: string
  req_AuthPluginData :: "byte list"
  req_AuthResponse :: "byte list"
  req_CapabilityFlags :: CapabilityFlag
  req_CharacterSet :: byte
  req_MaxPacketSize :: u32
  req_HandshakeResponse :: HandshakeResponse41

record AuthDecision =
  Accepted :: bool
  dec_Username :: string
  dec_Database :: string
  dec_Roles :: "RoleName list"
  dec_AuthPluginName :: string
  Failure :: ProtocolError

definition no_protocol_error :: ProtocolError where
  "no_protocol_error = \<lparr>SQLState = [], VendorCode = 0, Message = []\<rparr>"

definition cachingSHA2PasswordPluginName :: string where
  "cachingSHA2PasswordPluginName = ''caching_sha2_password''"

definition mysqlNativePasswordPluginName :: string where
  "mysqlNativePasswordPluginName = ''mysql_native_password''"

definition mysqlClearPasswordPluginName :: string where
  "mysqlClearPasswordPluginName = ''mysql_clear_password''"

definition isMySQLAuthPluginName :: "string \<Rightarrow> bool" where
  "isMySQLAuthPluginName value =
     (ToLower (trim_space value) \<in>
        {cachingSHA2PasswordPluginName, mysqlNativePasswordPluginName, mysqlClearPasswordPluginName})"

definition authDefaultDatabase :: "AuthRequest \<Rightarrow> string \<Rightarrow> string" where
  "authDefaultDatabase request defaultDatabase =
     (let database = trim_space (req_Database request);
          defaultDatabase = trim_space defaultDatabase
      in if defaultDatabase = [] then database
         else if database = [] then defaultDatabase
         else if EqualFold database (trim_space (req_AuthPluginName request)) \<or> isMySQLAuthPluginName database
         then defaultDatabase
         else database)"

text \<open>The first argument of an authenticator is the error of the request's context, if it has one.\<close>

type_synonym Authenticator = "string option \<Rightarrow> AuthRequest \<Rightarrow> (string, AuthDecision) res"

definition PermissiveAuthenticator :: "string \<Rightarrow> Authenticator" where
  "PermissiveAuthenticator defaultDatabase ctxErr request =
     (case ctxErr of
        Some err \<Rightarrow> Inl (Err err)
      | None \<Rightarrow>
          Inr \<lparr>Accepted = True, dec_Username = req_Username request,
               dec_Database = authDefaultDatabase request defaultDatabase, dec_Roles = [],
               dec_AuthPluginName = req_AuthPluginName request, Failure = no_protocol_error\<rparr>)"

definition RejectingAuthenticator :: "(string \<Rightarrow> string) \<Rightarrow> string \<Rightarrow> Authenticator" where
  "RejectingAuthenticator quote message ctxErr request =
     (case ctxErr of
        Some err \<Rightarrow> Inl (Err err)
      | None \<Rightarrow>
          let message = (if message = [] then ''access denied for user '' @ quote (req_Username request) else message)
          in Inr \<lparr>Accepted = False, dec_Username = req_Username request, dec_Database = req_Database request,
                  dec_Roles = [], dec_AuthPluginName = [],
                  Failure = \<lparr>SQLState = SQLStateGeneralError, VendorCode = 1045, Message = message\<rparr>\<rparr>)"

definition authRequestFromHandshake :: "u32 \<Rightarrow> HandshakeResponse41 \<Rightarrow> byte list \<Rightarrow> AuthRequest" where
  "authRequestFromHandshake connectionID response authPluginData =
     \<lparr>req_ConnectionID = connectionID, req_Username = hr_Username response, req_Database = hr_Database response,
      req_AuthPluginName = hr_AuthPluginName response, req_AuthPluginData = authPluginData,
      req_AuthResponse = hr_AuthResponse response, req_CapabilityFlags = hr_CapabilityFlags response,
      req_CharacterSet = hr_CharacterSet response, req_MaxPacketSize = hr_MaxPacketSize response,
      req_HandshakeResponse = response\<rparr>"

section \<open>Static accounts\<close>

record StaticAccount =
  acct_Username :: string
  Password :: string
  MySQLNativePasswordVerifier :: string
  CachingSHA2PasswordVerifier :: string
  DefaultDatabase :: string
  acct_Roles :: "RoleName list"

definition constantTimeBytesEqual :: "byte list \<Rightarrow> byte list \<Rightarrow> bool" where
  "constantTimeBytesEqual left right \<longleftrightarrow>
     (if length left \<noteq> length right then False
      else foldl (\<lambda>v (x, y). v OR (x XOR y)) 0 (zip left right) = 0)"

definition constantTimeStringEqual :: "string \<Rightarrow> string \<Rightarrow> bool" where
  "constantTimeStringEqual left right = constantTimeBytesEqual (bytes_of_string left) (bytes_of_string right)"

definition xor_bytes :: "byte list \<Rightarrow> byte list \<Rightarrow> byte list" where
  "xor_bytes xs ys = map2 (\<lambda>x y. x XOR y) xs ys"

definition mysqlNativePasswordToken :: "byte list \<Rightarrow> string \<Rightarrow> byte list" where
  "mysqlNativePasswordToken seed password =
     (if password = [] then []
      else
        let stage1 = sha1_Sum (bytes_of_string password);
            stage2 = sha1_Sum stage1;
            scramble = sha1_Sum (seed @ stage2)
        in xor_bytes stage1 scramble)"

definition mysqlNativeVerifier :: "string \<Rightarrow> string" where
  "mysqlNativeVerifier password =
     (if password = [] then []
      else
        let stage1 = sha1_Sum (bytes_of_string password);
            stage2 = sha1_Sum stage1
        in hex_EncodeToString stage2)"

definition decodeHexVerifier :: "string \<Rightarrow> nat \<Rightarrow> byte list option" where
  "decodeHexVerifier value n =
     (let value = trim_space value in
      if value = [] then None
      else case hex_DecodeString value of
        None \<Rightarrow> None
      | Some decoded \<Rightarrow> if length decoded \<noteq> n then None else Some decoded)"

definition mysqlNativeVerifierMatches :: "string \<Rightarrow> byte list \<Rightarrow> byte list \<Rightarrow> bool" where
  "mysqlNativeVerifierMatches verifier seed token =
     (case decodeHexVerifier verifier 20 of
        None \<Rightarrow> False
      | Some expected \<Rightarrow>
          if length token \<noteq> 20 then False
          else
            let scramble = sha1_Sum (seed @ expected);
                stage1 = xor_bytes token scramble;
                candidate = sha1_Sum stage1
            in constantTimeBytesEqual candidate expected)"

definition cachingSHA2PasswordToken :: "byte list \<Rightarrow> string \<Rightarrow> byte list" where
  "cachingSHA2PasswordToken seed password =
     (if password = [] then []
      else
        let message1 = sha256_Sum (bytes_of_string password);
            message1Hash = sha256_Sum message1;
            message2 = sha256_Sum (message1Hash @ seed)
        in xor_bytes message1 message2)"

definition cachingSHA2Verifier :: "string \<Rightarrow> string" where
  "cachingSHA2Verifier password =
     (if password = [] then []
      else
        let message1 = sha256_Sum (bytes_of_string password);
            message1Hash = sha256_Sum message1
        in hex_EncodeToString message1Hash)"

definition cachingSHA2VerifierMatches :: "string \<Rightarrow> byte list \<Rightarrow> byte list \<Rightarrow> bool" where
  "cachingSHA2VerifierMatches verifier seed token =
     (case decodeHexVerifier verifier 32 of
        None \<Rightarrow> False
      | Some expected \<Rightarrow>
          if length token \<noteq> 32 then False
          else
            let message2 = sha256_Sum (expected @ seed);
                message1 = xor_bytes token message2;
                candidate = sha256_Sum message1
            in constantTimeBytesEqual candidate expected)"

definition StaticAccountWithPasswordVerifiers :: "string \<Rightarrow> string \<Rightarrow> string \<Rightarrow> StaticAccount" where
  "StaticAccountWithPasswordVerifiers username password defaultDatabase =
     \<lparr>acct_Username = trim_space username, Password = [],
      MySQLNativePasswordVerifier = mysqlNativeVerifier password,
      CachingSHA2PasswordVerifier = cachingSHA2Verifier password,
      DefaultDatabase = trim_space defaultDatabase, acct_Roles = []\<rparr>"

definition account :: "StaticAccount list \<Rightarrow> string \<Rightarrow> StaticAccount option" where
  "account accounts username = List.find (\<lambda>a. acct_Username a = username) accounts"

definition staticAuthDenied :: "AuthRequest \<Rightarrow> string \<Rightarrow> AuthDecision" where
  "staticAuthDenied request message =
     \<lparr>Accepted = False, dec_Username = req_Username request, dec_Database = req_Database request,
      dec_Roles = [], dec_AuthPluginName = [],
      Failure = \<lparr>SQLState = SQLStateGeneralError, VendorCode = 1045, Message = message\<rparr>\<rparr>"

definition staticAuthPluginName :: "string \<Rightarrow> string" where
  "staticAuthPluginName plugin = (if plugin = [] then defaultAuthPluginName else plugin)"

text \<open>\<^verbatim>\<open>bytes.TrimSuffix\<close> with a single NUL byte.\<close>

definition trimSuffix0 :: "byte list \<Rightarrow> byte list" where
  "trimSuffix0 bs = (if bs \<noteq> [] \<and> last bs = 0 then butlast bs else bs)"

definition staticAuthPasswordMatches :: "StaticAccount \<Rightarrow> AuthRequest \<Rightarrow> bool" where
  "staticAuthPasswordMatches acct request =
     (if Password acct = [] \<and> MySQLNativePasswordVerifier acct = [] \<and> CachingSHA2PasswordVerifier acct = []
      then length (req_AuthResponse request) = 0
      else
        let plugin = staticAuthPluginName (req_AuthPluginName request) in
        if plugin = cachingSHA2PasswordPluginName then
          (if Password acct \<noteq> [] then
             constantTimeBytesEqual (req_AuthResponse request)
               (cachingSHA2PasswordToken (req_AuthPluginData request) (Password acct))
           else cachingSHA2VerifierMatches (CachingSHA2PasswordVerifier acct) (req_AuthPluginData request)
                  (req_AuthResponse request))
        else if plugin = mysqlNativePasswordPluginName then
          (if Password acct \<noteq> [] then
             constantTimeBytesEqual (req_AuthResponse request)
               (mysqlNativePasswordToken (req_AuthPluginData request) (Password acct))
           else mysqlNativeVerifierMatches (MySQLNativePasswordVerifier acct) (req_AuthPluginData request)
                  (req_AuthResponse request))
        else if plugin = mysqlClearPasswordPluginName then
          Password acct \<noteq> [] \<and>
          constantTimeStringEqual (string_of_bytes (trimSuffix0 (req_AuthResponse request))) (Password acct)
        else False)"

definition StaticAuthenticator :: "(string \<Rightarrow> string) \<Rightarrow> StaticAccount list \<Rightarrow> Authenticator" where
  "StaticAuthenticator quote accounts ctxErr request =
     (case ctxErr of
        Some err \<Rightarrow> Inl (Err err)
      | None \<Rightarrow>
          (case account accounts (req_Username request) of
             None \<Rightarrow> Inr (staticAuthDenied request (''access denied for user '' @ quote (req_Username request)))
           | Some acct \<Rightarrow>
               if \<not> staticAuthPasswordMatches acct request then
                 Inr (staticAuthDenied request (''access denied for user '' @ quote (req_Username request)))
               else
                 Inr \<lparr>Accepted = True, dec_Username = req_Username request,
                      dec_Database = authDefaultDatabase request (DefaultDatabase acct),
                      dec_Roles = acct_Roles acct,
                      dec_AuthPluginName = staticAuthPluginName (req_AuthPluginName request),
                      Failure = no_protocol_error\<rparr>))"

section \<open>Account files\<close>

fun normalizeRolesFrom :: "(string \<Rightarrow> string) \<Rightarrow> RoleName list \<Rightarrow> RoleName list \<Rightarrow> (string, RoleName list) res" where
  "normalizeRolesFrom quote seen [] = Inr []"
| "normalizeRolesFrom quote seen (role # roles) =
     (let role = trim_space role in
      if role = [] then Inl (Err ''role is empty'')
      else if role \<in> set seen then Inl (Err (''role '' @ quote role @ '' is duplicated''))
      else bindR (normalizeRolesFrom quote (role # seen) roles) (\<lambda>rest. Inr (role # rest)))"

definition normalizeStaticAccountRoles :: "(string \<Rightarrow> string) \<Rightarrow> RoleName list \<Rightarrow> (string, RoleName list) res" where
  "normalizeStaticAccountRoles quote roles = normalizeRolesFrom quote [] roles"

fun validateAccountsFrom ::
  "(string \<Rightarrow> string) \<Rightarrow> nat \<Rightarrow> string list \<Rightarrow> StaticAccount list \<Rightarrow> (string, StaticAccount list) res" where
  "validateAccountsFrom quote i seen [] = Inr []"
| "validateAccountsFrom quote i seen (a # accounts) =
     (let a = a\<lparr>acct_Username := trim_space (acct_Username a), DefaultDatabase := trim_space (DefaultDatabase a),
                MySQLNativePasswordVerifier := trim_space (MySQLNativePasswordVerifier a),
                CachingSHA2PasswordVerifier := trim_space (CachingSHA2PasswordVerifier a)\<rparr>;
          named = ''mysql static auth account '' @ quote (acct_Username a)
      in bindR (wrapErr (\<lambda>err. named @ '': '' @ err) (normalizeStaticAccountRoles quote (acct_Roles a))) (\<lambda>roles.
           let a = a\<lparr>acct_Roles := roles\<rparr> in
           if acct_Username a = [] then
             Inl (Err (''mysql static auth account '' @ dec_nat (i + 1) @ '' has empty username''))
           else if acct_Username a \<in> set seen then Inl (Err (named @ '' is duplicated''))
           else if MySQLNativePasswordVerifier a \<noteq> [] \<and> decodeHexVerifier (MySQLNativePasswordVerifier a) 20 = None then
             Inl (Err (named @ '' has invalid mysql_native_password_verifier''))
           else if CachingSHA2PasswordVerifier a \<noteq> [] \<and> decodeHexVerifier (CachingSHA2PasswordVerifier a) 32 = None then
             Inl (Err (named @ '' has invalid caching_sha2_password_verifier''))
           else bindR (validateAccountsFrom quote (i + 1) (acct_Username a # seen) accounts) (\<lambda>rest. Inr (a # rest))))"

definition validateStaticAccounts :: "(string \<Rightarrow> string) \<Rightarrow> StaticAccount list \<Rightarrow> (string, StaticAccount list) res" where
  "validateStaticAccounts quote accounts =
     (if length accounts = 0 then Inl (Err ''mysql static auth account file has no accounts'')
      else validateAccountsFrom quote 0 [] accounts)"

text \<open>
  The files of the host: their contents, the error of an access that is not a missing file, the
  error of creating a file's directory, and the error of a write with the number of bytes that
  reached the file before it.
\<close>

record host =
  files :: "string \<rightharpoonup> byte list"
  accessErr :: "string \<rightharpoonup> string"
  mkdirErr :: "string \<rightharpoonup> string"
  writeErr :: "string \<rightharpoonup> string \<times> nat"

definition os_ReadFile :: "host \<Rightarrow> string \<Rightarrow> (string, byte list) res" where
  "os_ReadFile os path =
     (case accessErr os path of
        Some err \<Rightarrow> Inl (Err err)
      | None \<Rightarrow>
          (case files os path of
             None \<Rightarrow> Inl (Err (''open '' @ path @ '': no such file or directory''))
           | Some data \<Rightarrow> Inr data))"

definition os_WriteFile :: "host \<Rightarrow> string \<Rightarrow> byte list \<Rightarrow> (string, unit) res \<times> host" where
  "os_WriteFile os path data =
     (case writeErr os path of
        Some (err, n) \<Rightarrow> (Inl (Err err), os\<lparr>files := (files os)(path \<mapsto> take n data)\<rparr>)
      | None \<Rightarrow> (Inr (), os\<lparr>files := (files os)(path \<mapsto> data)\<rparr>))"

text \<open>The YAML package, as the two functions the code calls.\<close>

record yaml =
  yaml_UnmarshalStrict :: "byte list \<Rightarrow> (string, StaticAccount list) res"
  yaml_Marshal :: "StaticAccount list \<Rightarrow> (string, byte list) res"

definition DecodeStaticAccountFile :: "(string \<Rightarrow> string) \<Rightarrow> yaml \<Rightarrow> byte list \<Rightarrow> (string, StaticAccount list) res" where
  "DecodeStaticAccountFile quote y data =
     bindR (yaml_UnmarshalStrict y data) (validateStaticAccounts quote)"

definition LoadStaticAccountFile ::
  "(string \<Rightarrow> string) \<Rightarrow> yaml \<Rightarrow> host \<Rightarrow> string \<Rightarrow> (string, StaticAccount list) res" where
  "LoadStaticAccountFile quote y os path =
     (let path = trim_space path in
      if path = [] then Inl (Err ''mysql static auth account file path is empty'')
      else bindR (os_ReadFile os path) (DecodeStaticAccountFile quote y))"

definition SaveStaticAccountFile ::
  "(string \<Rightarrow> string) \<Rightarrow> yaml \<Rightarrow> host \<Rightarrow> string \<Rightarrow> StaticAccount list \<Rightarrow> (string, unit) res \<times> host" where
  "SaveStaticAccountFile quote y os path accounts =
     (let path = trim_space path in
      if path = [] then (Inl (Err ''mysql static auth account file path is empty''), os)
      else
        case bindR (validateStaticAccounts quote accounts) (yaml_Marshal y) of
          Inl err \<Rightarrow> (Inl err, os)
        | Inr data \<Rightarrow>
            (case mkdirErr os path of
               Some err \<Rightarrow> (Inl (Err err), os)
             | None \<Rightarrow> os_WriteFile os path data))"

fun replace_account :: "StaticAccount \<Rightarrow> StaticAccount list \<Rightarrow> StaticAccount list" where
  "replace_account a [] = [a]"
| "replace_account a (b # bs) =
     (if acct_Username b = acct_Username a then a # bs else b # replace_account a bs)"

definition UpsertStaticAccountFile ::
  "(string \<Rightarrow> string) \<Rightarrow> yaml \<Rightarrow> host \<Rightarrow> string \<Rightarrow> StaticAccount \<Rightarrow> (string, StaticAccount list) res \<times> host" where
  "UpsertStaticAccountFile quote y os path a =
     (case (case accessErr os path of
              Some err \<Rightarrow> Inl (Err err)
            | None \<Rightarrow>
                (case files os path of
                   Some _ \<Rightarrow> LoadStaticAccountFile quote y os path
                 | None \<Rightarrow> Inr [])) of
        Inl err \<Rightarrow> (Inl err, os)
      | Inr accounts \<Rightarrow>
          let a = a\<lparr>acct_Username := trim_space (acct_Username a), DefaultDatabase := trim_space (DefaultDatabase a)\<rparr>;
              accounts = replace_account a accounts
          in (case SaveStaticAccountFile quote y os path accounts of
                (Inl err, os') \<Rightarrow> (Inl err, os')
              | (Inr _, os') \<Rightarrow> (Inr accounts, os')))"

definition RemoveStaticAccountFile ::
  "(string \<Rightarrow> string) \<Rightarrow> yaml \<Rightarrow> host \<Rightarrow> string \<Rightarrow> string \<Rightarrow> (string, StaticAccount list \<times> bool) res \<times> host" where
  "RemoveStaticAccountFile quote y os path username =
     (case LoadStaticAccountFile quote y os path of
        Inl err \<Rightarrow> (Inl err, os)
      | Inr accounts \<Rightarrow>
          let username = trim_space username;
              remaining = filter (\<lambda>a. acct_Username a \<noteq> username) accounts;
              removed = list_ex (\<lambda>a. acct_Username a = username) accounts
          in if \<not> removed then (Inr (accounts, False), os)
             else if length remaining = 0 then
               (Inl (Err ''cannot remove the last mysql static auth account''), os)
             else (case SaveStaticAccountFile quote y os path remaining of
                     (Inl err, os') \<Rightarrow> (Inl err, os')
                   | (Inr _, os') \<Rightarrow> (Inr (remaining, True), os')))"

section \<open>Configuration\<close>

record AuthConfig =
  cfg_Mode :: string
  cfg_Username :: string
  cfg_Password :: string
  cfg_Database :: string
  cfg_AccountFile :: string

definition AuthConfig_WithDefaults :: "AuthConfig \<Rightarrow> string \<Rightarrow> AuthConfig" where
  "AuthConfig_WithDefaults c defaultDatabase =
     (let c = c\<lparr>cfg_Mode := ToLower (trim_space (cfg_Mode c))\<rparr>;
          c = (if trim_space (cfg_Username c) = [] then c\<lparr>cfg_Username := ''qstream''\<rparr> else c)
      in if trim_space (cfg_Database c) = [] then c\<lparr>cfg_Database := trim_space defaultDatabase\<rparr> else c)"

definition AuthConfig_Authenticator ::
  "(string \<Rightarrow> string) \<Rightarrow> yaml \<Rightarrow> host \<Rightarrow> AuthConfig \<Rightarrow> string \<Rightarrow> (string, Authenticator) res" where
  "AuthConfig_Authenticator quote y os c defaultDatabase =
     (let c = AuthConfig_WithDefaults c defaultDatabase in
      if cfg_Mode c = [] then
        Inl (Err (''mysql auth mode is required; choose '' @ quote ''permissive'' @
                  '' for isolated local evaluation or '' @ quote ''static'' @ '' with configured credentials''))
      else if cfg_Mode c = ''permissive'' then Inr (PermissiveAuthenticator (cfg_Database c))
      else if cfg_Mode c = ''static'' then
        (if trim_space (cfg_AccountFile c) \<noteq> [] then
           bindR (wrapErr (\<lambda>err. ''load mysql static auth account file: '' @ err)
                    (LoadStaticAccountFile quote y os (cfg_AccountFile c))) (\<lambda>accounts.
             Inr (StaticAuthenticator quote accounts))
         else
           Inr (StaticAuthenticator quote
             [\<lparr>acct_Username = cfg_Username c, Password = cfg_Password c, MySQLNativePasswordVerifier = [],
               CachingSHA2PasswordVerifier = [], DefaultDatabase = cfg_Database c, acct_Roles = []\<rparr>]))
      else Inl (Err (''unsupported mysql auth mode '' @ quote (cfg_Mode c))))"

text \<open>\<^term>\<open>isLoopback\<close> tells whether \<^verbatim>\<open>net.ParseIP\<close> reads a host as a loopback address.\<close>

definition ValidateModeForBind ::
  "(string \<Rightarrow> string) \<Rightarrow> (string \<Rightarrow> bool) \<Rightarrow> string \<Rightarrow> string \<Rightarrow> (string, unit) res" where
  "ValidateModeForBind quote isLoopback mode bindAddress =
     (if ToLower (trim_space mode) \<noteq> ''permissive'' then Inr ()
      else
        let bracket = (\<lambda>c. c \<in> {CHR ''['', CHR '']''});
            host = rev (dropWhile bracket (rev (dropWhile bracket (trim_space bindAddress))))
        in if EqualFold host ''localhost'' then Inr ()
           else if \<not> isLoopback host then
             Inl (Err (''mysql auth mode '' @ quote ''permissive'' @ '' requires a loopback bind; use '' @ quote ''static'' @
                       '' with configured credentials for bind address '' @ quote bindAddress))
           else Inr ())"

definition SummaryMode :: "AuthConfig \<Rightarrow> string \<Rightarrow> string" where
  "SummaryMode c defaultDatabase = cfg_Mode (AuthConfig_WithDefaults c defaultDatabase)"

definition SummaryUser :: "AuthConfig \<Rightarrow> string \<Rightarrow> string" where
  "SummaryUser c defaultDatabase =
     (let c = AuthConfig_WithDefaults c defaultDatabase in
      if cfg_Mode c \<noteq> ''static'' \<or> trim_space (cfg_AccountFile c) \<noteq> [] then [] else cfg_Username c)"

definition SummaryAccountFile :: "AuthConfig \<Rightarrow> string \<Rightarrow> string" where
  "SummaryAccountFile c defaultDatabase =
     (let c = AuthConfig_WithDefaults c defaultDatabase in
      if cfg_Mode c \<noteq> ''static'' then [] else trim_space (cfg_AccountFile c))"

section \<open>Tokens and verifiers\<close>

lemma fold_or_xor: "foldl (\<lambda>v (x, y). v OR (x XOR y)) a zs = (0 :: byte) \<longleftrightarrow> a = 0 \<and> (\<forall>(x, y) \<in> set zs. x = y)"
proof (induction zs arbitrary: a)
  case (Cons z zs)
  obtain x y where z: "z = (x, y)" by fastforce
  have "x XOR y = 0 \<longleftrightarrow> x = y" by (metis bit.xor_self bit.xor_left_self xor.right_neutral)
  then have "a OR (x XOR y) = 0 \<longleftrightarrow> a = 0 \<and> x = y" by (simp add: or_eq_0_iff)
  then show ?case using Cons.IH [of "a OR (x XOR y)"] by (simp add: z)
qed simp

lemma constantTimeBytesEqual_iff [simp]: "constantTimeBytesEqual left right \<longleftrightarrow> left = right"
proof (cases "length left = length right")
  case True
  have "(\<forall>(x, y) \<in> set (zip left right). x = y) \<longleftrightarrow> left = right"
    using True by (induction left right rule: list_induct2) auto
  then show ?thesis using True by (simp add: constantTimeBytesEqual_def fold_or_xor)
qed (auto simp: constantTimeBytesEqual_def)

lemma constantTimeStringEqual_iff [simp]: "constantTimeStringEqual left right \<longleftrightarrow> left = right"
  by (simp add: constantTimeStringEqual_def)

lemma length_xor_bytes [simp]: "length (xor_bytes xs ys) = min (length xs) (length ys)"
  by (simp add: xor_bytes_def)

lemma xor_bytes_cancel [simp]: "length xs = length ys \<Longrightarrow> xor_bytes (xor_bytes xs ys) ys = xs"
  unfolding xor_bytes_def by (induction xs ys rule: list_induct2) (simp_all add: bit.xor_self xor.assoc)

lemma unmask_iff:
  assumes "length k = n"
  shows "(\<exists>s. length s = n \<and> P s \<and> token = xor_bytes s k) \<longleftrightarrow> length token = n \<and> P (xor_bytes token k)"
proof
  assume "length token = n \<and> P (xor_bytes token k)"
  with assms show "\<exists>s. length s = n \<and> P s \<and> token = xor_bytes s k"
    by (intro exI [of _ "xor_bytes token k"]) simp
qed (use assms in auto)

lemma decodeHexVerifier_hex [simp]: "bs \<noteq> [] \<Longrightarrow> decodeHexVerifier (hex_EncodeToString bs) (length bs) = Some bs"
  by (simp add: decodeHexVerifier_def Let_def)

lemma decodeHexVerifier_trim [simp]: "decodeHexVerifier (trim_space v) n = decodeHexVerifier v n"
  by (simp add: decodeHexVerifier_def)

text \<open>What each scheme accepts, without the decoding steps: the token unmasks to a preimage of the stored hash.\<close>

definition native_credential :: "string \<Rightarrow> byte list \<Rightarrow> byte list \<Rightarrow> bool" where
  "native_credential verifier seed token \<longleftrightarrow>
     (\<exists>expected stage1. decodeHexVerifier verifier 20 = Some expected \<and> length stage1 = 20 \<and>
        sha1_Sum stage1 = expected \<and> token = xor_bytes stage1 (sha1_Sum (seed @ expected)))"

definition sha2_credential :: "string \<Rightarrow> byte list \<Rightarrow> byte list \<Rightarrow> bool" where
  "sha2_credential verifier seed token \<longleftrightarrow>
     (\<exists>expected message1. decodeHexVerifier verifier 32 = Some expected \<and> length message1 = 32 \<and>
        sha256_Sum message1 = expected \<and> token = xor_bytes message1 (sha256_Sum (expected @ seed)))"

lemma mysqlNativeVerifierMatches_iff: "mysqlNativeVerifierMatches verifier seed token \<longleftrightarrow> native_credential verifier seed token"
proof (cases "decodeHexVerifier verifier 20")
  case (Some expected)
  let ?s = "sha1_Sum (seed @ expected)"
  have "(\<exists>stage1. length stage1 = 20 \<and> sha1_Sum stage1 = expected \<and> token = xor_bytes stage1 ?s) \<longleftrightarrow>
      length token = 20 \<and> sha1_Sum (xor_bytes token ?s) = expected"
    by (rule unmask_iff) simp
  then show ?thesis using Some by (auto simp: mysqlNativeVerifierMatches_def native_credential_def Let_def)
qed (simp add: mysqlNativeVerifierMatches_def native_credential_def)

lemma cachingSHA2VerifierMatches_iff: "cachingSHA2VerifierMatches verifier seed token \<longleftrightarrow> sha2_credential verifier seed token"
proof (cases "decodeHexVerifier verifier 32")
  case (Some expected)
  let ?s = "sha256_Sum (expected @ seed)"
  have "(\<exists>message1. length message1 = 32 \<and> sha256_Sum message1 = expected \<and> token = xor_bytes message1 ?s) \<longleftrightarrow>
      length token = 32 \<and> sha256_Sum (xor_bytes token ?s) = expected"
    by (rule unmask_iff) simp
  then show ?thesis using Some by (auto simp: cachingSHA2VerifierMatches_def sha2_credential_def Let_def)
qed (simp add: cachingSHA2VerifierMatches_def sha2_credential_def)

lemma native_token_credential:
  assumes "password \<noteq> []"
  shows "native_credential (mysqlNativeVerifier password) seed (mysqlNativePasswordToken seed password)"
proof -
  let ?s1 = "sha1_Sum (bytes_of_string password)"
  have "decodeHexVerifier (hex_EncodeToString (sha1_Sum ?s1)) 20 = Some (sha1_Sum ?s1)"
    using decodeHexVerifier_hex [of "sha1_Sum ?s1"] by (metis length_sha1 length_0_conv zero_neq_numeral)
  then show ?thesis using assms
    unfolding native_credential_def mysqlNativeVerifier_def mysqlNativePasswordToken_def Let_def
    by (intro exI [of _ "sha1_Sum ?s1"] exI [of _ ?s1]) simp
qed

lemma sha2_token_credential:
  assumes "password \<noteq> []"
  shows "sha2_credential (cachingSHA2Verifier password) seed (cachingSHA2PasswordToken seed password)"
proof -
  let ?s1 = "sha256_Sum (bytes_of_string password)"
  have "decodeHexVerifier (hex_EncodeToString (sha256_Sum ?s1)) 32 = Some (sha256_Sum ?s1)"
    using decodeHexVerifier_hex [of "sha256_Sum ?s1"] by (metis length_sha256 length_0_conv zero_neq_numeral)
  then show ?thesis using assms
    unfolding sha2_credential_def cachingSHA2Verifier_def cachingSHA2PasswordToken_def Let_def
    by (intro exI [of _ "sha256_Sum ?s1"] exI [of _ ?s1]) simp
qed

text \<open>The credentials an account takes, by plugin.\<close>

definition credential_ok :: "StaticAccount \<Rightarrow> AuthRequest \<Rightarrow> bool" where
  "credential_ok acct r \<longleftrightarrow>
     (let plugin = staticAuthPluginName (req_AuthPluginName r); seed = req_AuthPluginData r; token = req_AuthResponse r in
      if Password acct = [] \<and> MySQLNativePasswordVerifier acct = [] \<and> CachingSHA2PasswordVerifier acct = [] then token = []
      else if Password acct \<noteq> [] then
        plugin = cachingSHA2PasswordPluginName \<and> token = cachingSHA2PasswordToken seed (Password acct) \<or>
        plugin = mysqlNativePasswordPluginName \<and> token = mysqlNativePasswordToken seed (Password acct) \<or>
        plugin = mysqlClearPasswordPluginName \<and>
          (token = bytes_of_string (Password acct) \<and> last token \<noteq> 0 \<or> token = bytes_of_string (Password acct) @ [0])
      else
        plugin = cachingSHA2PasswordPluginName \<and> sha2_credential (CachingSHA2PasswordVerifier acct) seed token \<or>
        plugin = mysqlNativePasswordPluginName \<and> native_credential (MySQLNativePasswordVerifier acct) seed token)"

lemma plugin_names_distinct [simp]:
  "cachingSHA2PasswordPluginName \<noteq> mysqlNativePasswordPluginName"
  "cachingSHA2PasswordPluginName \<noteq> mysqlClearPasswordPluginName"
  "mysqlNativePasswordPluginName \<noteq> mysqlClearPasswordPluginName"
  by (simp_all add: cachingSHA2PasswordPluginName_def mysqlNativePasswordPluginName_def mysqlClearPasswordPluginName_def)

lemma trimSuffix0_eq_iff:
  assumes "bs \<noteq> []"
  shows "trimSuffix0 token = bs \<longleftrightarrow> token = bs \<and> last token \<noteq> 0 \<or> token = bs @ [0]"
proof (cases token rule: rev_cases)
  case (snoc xs x)
  then show ?thesis using assms by (auto simp: trimSuffix0_def)
qed (use assms in \<open>auto simp: trimSuffix0_def\<close>)

lemma staticAuthPasswordMatches_iff: "staticAuthPasswordMatches acct r \<longleftrightarrow> credential_ok acct r"
proof -
  have "string_of_bytes bs = s \<longleftrightarrow> bs = bytes_of_string s" for bs s
    by (metis bytes_of_string_of_bytes string_of_bytes_of_string)
  moreover have "Password acct \<noteq> [] \<Longrightarrow> bytes_of_string (Password acct) \<noteq> []" by (metis length_0_conv length_bytes_of_string)
  ultimately show ?thesis
    using plugin_names_distinct [symmetric]
    by (auto simp: staticAuthPasswordMatches_def credential_ok_def Let_def cachingSHA2VerifierMatches_iff
        mysqlNativeVerifierMatches_iff trimSuffix0_eq_iff)
qed

section \<open>Account files\<close>

definition normalize_account :: "StaticAccount \<Rightarrow> StaticAccount" where
  "normalize_account a =
     a\<lparr>acct_Username := trim_space (acct_Username a), DefaultDatabase := trim_space (DefaultDatabase a),
       MySQLNativePasswordVerifier := trim_space (MySQLNativePasswordVerifier a),
       CachingSHA2PasswordVerifier := trim_space (CachingSHA2PasswordVerifier a),
       acct_Roles := map trim_space (acct_Roles a)\<rparr>"

definition account_ok :: "StaticAccount \<Rightarrow> bool" where
  "account_ok a \<longleftrightarrow>
     acct_Username a \<noteq> [] \<and> distinct (acct_Roles a) \<and> [] \<notin> set (acct_Roles a) \<and>
     (MySQLNativePasswordVerifier a = [] \<or> decodeHexVerifier (MySQLNativePasswordVerifier a) 20 \<noteq> None) \<and>
     (CachingSHA2PasswordVerifier a = [] \<or> decodeHexVerifier (CachingSHA2PasswordVerifier a) 32 \<noteq> None)"

lemma normalize_account_idem [simp]: "normalize_account (normalize_account a) = normalize_account a"
  by (simp add: normalize_account_def comp_def)

lemma acct_Username_normalize [simp]: "acct_Username (normalize_account a) = trim_space (acct_Username a)"
  by (simp add: normalize_account_def)

lemma normalizeRolesFrom_iff:
  "normalizeRolesFrom quote seen roles = Inr ys \<longleftrightarrow>
     ys = map trim_space roles \<and> distinct ys \<and> [] \<notin> set ys \<and> set ys \<inter> set seen = {}"
proof (induction roles arbitrary: seen ys)
  case (Cons role roles)
  let ?r = "trim_space role"
  have "normalizeRolesFrom quote seen (role # roles) = Inr ys \<longleftrightarrow>
      ?r \<noteq> [] \<and> ?r \<notin> set seen \<and> (\<exists>zs. normalizeRolesFrom quote (?r # seen) roles = Inr zs \<and> ys = ?r # zs)"
    by (auto simp: Let_def bindR_Inr_iff)
  then show ?case unfolding Cons.IH by (auto simp del: set_map)
qed auto

lemma if_Inl_Inr_iff: "(if c then Inl e else x) = Inr y \<longleftrightarrow> \<not> c \<and> x = Inr y"
  by simp

lemma validateAccountsFrom_iff:
  "validateAccountsFrom quote i seen xs = Inr ys \<longleftrightarrow>
     ys = map normalize_account xs \<and> distinct (map acct_Username ys) \<and> list_all account_ok ys \<and>
     acct_Username ` set ys \<inter> set seen = {}"
proof (induction xs arbitrary: i seen ys)
  case (Cons a xs)
  let ?a = "normalize_account a"
  have a: "?a = a\<lparr>acct_Username := trim_space (acct_Username a), DefaultDatabase := trim_space (DefaultDatabase a),
      MySQLNativePasswordVerifier := trim_space (MySQLNativePasswordVerifier a),
      CachingSHA2PasswordVerifier := trim_space (CachingSHA2PasswordVerifier a), acct_Roles := map trim_space (acct_Roles a)\<rparr>"
    by (simp add: normalize_account_def)
  have step: "validateAccountsFrom quote i seen (a # xs) = Inr ys \<longleftrightarrow>
      account_ok ?a \<and> acct_Username ?a \<notin> set seen \<and>
      (\<exists>zs. validateAccountsFrom quote (i + 1) (acct_Username ?a # seen) xs = Inr zs \<and> ?a # zs = ys)"
    unfolding validateAccountsFrom.simps Let_def bindR_Inr_iff wrapErr_Inr_iff normalizeStaticAccountRoles_def
      normalizeRolesFrom_iff if_Inl_Inr_iff account_ok_def
    by (simp add: a) argo
  obtain zs where zs: "map normalize_account xs = zs" by blast
  show ?case
  proof (cases "ys = ?a # zs")
    case True
    show ?thesis unfolding step Cons.IH zs list.map unfolding True
      by (auto simp del: acct_Username_normalize)
  next
    case False
    then show ?thesis unfolding step Cons.IH zs list.map by auto
  qed
qed auto

lemma validateStaticAccounts_iff:
  "validateStaticAccounts quote xs = Inr ys \<longleftrightarrow>
     xs \<noteq> [] \<and> ys = map normalize_account xs \<and> distinct (map acct_Username ys) \<and> list_all account_ok ys"
  by (auto simp: validateStaticAccounts_def validateAccountsFrom_iff)

lemma validateStaticAccounts_idem:
  "validateStaticAccounts quote xs = Inr ys \<Longrightarrow> validateStaticAccounts quote ys = Inr ys"
  by (auto simp: validateStaticAccounts_iff comp_def)

lemma account_replace: "account (replace_account a bs) u = (if u = acct_Username a then Some a else account bs u)"
  by (induction bs) (auto simp: account_def)

lemma map_normalize_replace:
  "\<forall>b \<in> set bs. normalize_account b = b \<Longrightarrow> trim_space (acct_Username a) = acct_Username a \<Longrightarrow>
     map normalize_account (replace_account a bs) = replace_account (normalize_account a) bs"
  by (induction bs) (auto simp: map_idI)

lemma LoadStaticAccountFile_normal:
  "LoadStaticAccountFile quote y os path = Inr xs \<Longrightarrow> \<forall>b \<in> set xs. normalize_account b = b"
  by (auto simp: LoadStaticAccountFile_def DecodeStaticAccountFile_def Let_def bindR_Inr_iff validateStaticAccounts_iff
      split: if_splits)

lemma SaveStaticAccountFile_saves:
  assumes yaml: "\<And>xs d. yaml_Marshal y xs = Inr d \<Longrightarrow> yaml_UnmarshalStrict y d = Inr xs"
    and save: "SaveStaticAccountFile quote y os path xs = (Inr u, os')" and acc: "accessErr os (trim_space path) = None"
  shows "LoadStaticAccountFile quote y os' path = Inr (map normalize_account xs) \<and>
     (\<forall>p. p \<noteq> trim_space path \<longrightarrow> files os' p = files os p)"
proof -
  from save obtain ys d where v: "validateStaticAccounts quote xs = Inr ys" and d: "yaml_Marshal y ys = Inr d"
    and w: "os_WriteFile os (trim_space path) d = (Inr u, os')" and p: "trim_space path \<noteq> []"
    by (auto simp: SaveStaticAccountFile_def Let_def bindR_Inr_iff split: if_splits sum.splits option.splits)
  from w have os': "os' = os\<lparr>files := (files os)(trim_space path \<mapsto> d)\<rparr>"
    by (auto simp: os_WriteFile_def split: option.splits)
  show ?thesis
    using validateStaticAccounts_idem [OF v] v acc p yaml [OF d]
    by (simp add: LoadStaticAccountFile_def DecodeStaticAccountFile_def os_ReadFile_def os' validateStaticAccounts_iff)
qed

section \<open>Properties\<close>

text \<open>C24: the static authenticator accepts a request exactly when the user has an account and the client's
  answer is a credential of it: no answer for an account with no secret; the one token of the
  password, or the password itself, for an account with a password; and for an account with a
  stored verifier only tokens that unmask, under the scramble sent, to a preimage of the stored
  hash. An account without a verifier for the client's plugin takes nothing.\<close>

theorem StaticAuthenticator_accepts_iff:
  "(\<exists>d. StaticAuthenticator quote accounts None r = Inr d \<and> Accepted d) \<longleftrightarrow>
     (\<exists>acct. account accounts (req_Username r) = Some acct \<and> credential_ok acct r)"
  by (auto simp: StaticAuthenticator_def staticAuthPasswordMatches_iff staticAuthDenied_def split: option.splits if_splits)

text \<open>C25: an account made from a password without storing it accepts the token a client computes from
  that password and the scramble, under both password plugins and for every scramble.\<close>

theorem verifiers_accept_password:
  assumes "password \<noteq> []"
    and "account accounts (req_Username r) = Some (StaticAccountWithPasswordVerifiers username password database)"
    and "(req_AuthPluginName r = [] \<or> req_AuthPluginName r = cachingSHA2PasswordPluginName) \<and>
           req_AuthResponse r = cachingSHA2PasswordToken (req_AuthPluginData r) password \<or>
         req_AuthPluginName r = mysqlNativePasswordPluginName \<and>
           req_AuthResponse r = mysqlNativePasswordToken (req_AuthPluginData r) password"
  shows "StaticAuthenticator quote accounts None r =
     Inr \<lparr>Accepted = True, dec_Username = req_Username r, dec_Database = authDefaultDatabase r (trim_space database),
          dec_Roles = [], dec_AuthPluginName = staticAuthPluginName (req_AuthPluginName r), Failure = no_protocol_error\<rparr>"
proof -
  let ?a = "StaticAccountWithPasswordVerifiers username password database"
  have ne: "mysqlNativeVerifier password \<noteq> []"
    using assms(1) by (auto simp: mysqlNativeVerifier_def Let_def dest: arg_cong [of _ _ length])
  have pl: "staticAuthPluginName [] = cachingSHA2PasswordPluginName" "mysqlNativePasswordPluginName \<noteq> []"
    "cachingSHA2PasswordPluginName \<noteq> []"
    by (simp_all add: staticAuthPluginName_def defaultAuthPluginName_def cachingSHA2PasswordPluginName_def
        mysqlNativePasswordPluginName_def)
  have "credential_ok ?a r"
    using assms(3) ne pl sha2_token_credential [OF assms(1)] native_token_credential [OF assms(1)]
    by (auto simp: credential_ok_def Let_def StaticAccountWithPasswordVerifiers_def staticAuthPluginName_def)
  then show ?thesis using assms(2)
    by (simp add: StaticAuthenticator_def staticAuthPasswordMatches_iff StaticAccountWithPasswordVerifiers_def)
qed

theorem verifiers_accept_password_witness:
  "\<exists>d. StaticAuthenticator (\<lambda>s. s) [StaticAccountWithPasswordVerifiers ''ann'' ''secret'' ''db''] None
     (authRequestFromHandshake 1
       \<lparr>hr_CapabilityFlags = 0, hr_MaxPacketSize = 0, hr_CharacterSet = 45, hr_Username = ''ann'',
        hr_AuthResponse = cachingSHA2PasswordToken [1, 2, 3] ''secret'', hr_Database = [], hr_AuthPluginName = []\<rparr>
       [1, 2, 3]) = Inr d \<and> Accepted d \<and> dec_Username d = ''ann''"
  (is "\<exists>d. StaticAuthenticator _ ?as None ?r = Inr d \<and> _")
proof -
  have "trim_space ''ann'' = ''ann''" by code_simp
  then show ?thesis
    using verifiers_accept_password [of "''secret''" ?as ?r "''ann''" "''db''" "\<lambda>s. s"]
    by (simp add: account_def StaticAccountWithPasswordVerifiers_def authRequestFromHandshake_def)
qed

text \<open>C27: validation of an account list accepts exactly the non-empty lists whose trimmed accounts have
  distinct, non-empty names, distinct, non-empty roles and decodable verifiers, and returns them
  trimmed.\<close>

theorem validateStaticAccounts_exact:
  "validateStaticAccounts quote xs = Inr ys \<longleftrightarrow>
     xs \<noteq> [] \<and> ys = map normalize_account xs \<and> distinct (map acct_Username ys) \<and> list_all account_ok ys"
  by (rule validateStaticAccounts_iff)

text \<open>C26: given that the YAML package reads back what it wrote, a successful upsert under a path without
  surrounding blanks leaves a file that loads, in which the account is the one given (trimmed),
  every other account is as it was, and no other file changes.\<close>

theorem UpsertStaticAccountFile_updates:
  assumes yaml: "\<And>xs d. yaml_Marshal y xs = Inr d \<Longrightarrow> yaml_UnmarshalStrict y d = Inr xs"
    and path: "trim_space path = path"
    and old: "case files os path of None \<Rightarrow> old = [] | Some _ \<Rightarrow> LoadStaticAccountFile quote y os path = Inr old"
    and up: "UpsertStaticAccountFile quote y os path a = (Inr accounts, os')"
  shows "\<exists>xs. LoadStaticAccountFile quote y os' path = Inr xs \<and>
     (\<forall>u. account xs u = (if u = trim_space (acct_Username a) then Some (normalize_account a) else account old u)) \<and>
     (\<forall>p. p \<noteq> path \<longrightarrow> files os' p = files os p)"
proof -
  let ?a = "a\<lparr>acct_Username := trim_space (acct_Username a), DefaultDatabase := trim_space (DefaultDatabase a)\<rparr>"
  have acc: "accessErr os path = None"
    using up by (auto simp: UpsertStaticAccountFile_def split: option.splits)
  have save: "SaveStaticAccountFile quote y os path (replace_account ?a old) = (Inr (), os')"
    using up acc old
    by (auto simp: UpsertStaticAccountFile_def Let_def split: option.splits prod.splits sum.splits)
  have "\<forall>b \<in> set old. normalize_account b = b"
    using old LoadStaticAccountFile_normal by (auto split: option.splits)
  then have "map normalize_account (replace_account ?a old) = replace_account (normalize_account ?a) old"
    by (rule map_normalize_replace) simp
  moreover have "normalize_account ?a = normalize_account a" by (simp add: normalize_account_def)
  ultimately show ?thesis
    using SaveStaticAccountFile_saves [OF yaml save] acc path by (simp add: account_replace)
qed

lemma Upsert_example:
  assumes "accessErr os path = None" "files os path = None" "mkdirErr os (trim_space path) = None"
    "writeErr os (trim_space path) = None" "trim_space path \<noteq> []" "normalize_account a = a" "account_ok a"
    "yaml_Marshal y [a] = Inr d"
  shows "UpsertStaticAccountFile quote y os path a = (Inr [a], os\<lparr>files := (files os)(trim_space path \<mapsto> d)\<rparr>)"
proof -
  have n: "a\<lparr>acct_Username := trim_space (acct_Username a), DefaultDatabase := trim_space (DefaultDatabase a)\<rparr> = a"
    using assms(6) by (metis StaticAccount.surjective StaticAccount.update_convs StaticAccount.select_convs normalize_account_def)
  have "validateStaticAccounts quote [a] = Inr [a]" using assms(6,7) by (simp add: validateStaticAccounts_iff)
  then show ?thesis using assms
    by (simp add: UpsertStaticAccountFile_def SaveStaticAccountFile_def os_WriteFile_def n Let_def)
qed

definition example_account :: StaticAccount where
  "example_account = \<lparr>acct_Username = ''ann'', Password = ''pw'', MySQLNativePasswordVerifier = [],
     CachingSHA2PasswordVerifier = [], DefaultDatabase = ''db'', acct_Roles = [''reader'']\<rparr>"

definition example_yaml :: yaml where
  "example_yaml = \<lparr>yaml_UnmarshalStrict = (\<lambda>d. if d = [1] then Inr [example_account] else Inl (Err ''yaml'')),
     yaml_Marshal = (\<lambda>xs. if xs = [example_account] then Inr [1] else Inl (Err ''yaml''))\<rparr>"

definition empty_host :: host where
  "empty_host = \<lparr>files = Map.empty, accessErr = Map.empty, mkdirErr = Map.empty, writeErr = Map.empty\<rparr>"

lemma example_ok: "normalize_account example_account = example_account" "account_ok example_account"
  by code_simp+

lemma example_yaml_law: "yaml_Marshal example_yaml xs = Inr d \<Longrightarrow> yaml_UnmarshalStrict example_yaml d = Inr xs"
  by (simp add: example_yaml_def split: if_splits)

theorem UpsertStaticAccountFile_updates_witness:
  "\<exists>os' xs. UpsertStaticAccountFile (\<lambda>s. s) example_yaml empty_host ''f'' example_account = (Inr [example_account], os') \<and>
     LoadStaticAccountFile (\<lambda>s. s) example_yaml os' ''f'' = Inr xs \<and> account xs ''ann'' = Some example_account"
proof -
  have f: "trim_space ''f'' = ''f''" "trim_space ''ann'' = ''ann''" by code_simp+
  have up: "UpsertStaticAccountFile (\<lambda>s. s) example_yaml empty_host ''f'' example_account =
      (Inr [example_account], empty_host\<lparr>files := (files empty_host)(trim_space ''f'' \<mapsto> [1])\<rparr>)"
    by (rule Upsert_example) (simp_all add: empty_host_def f example_ok example_yaml_def)
  have "case files empty_host ''f'' of None \<Rightarrow> [] = [] |
      Some _ \<Rightarrow> LoadStaticAccountFile (\<lambda>s. s) example_yaml empty_host ''f'' = Inr []" by (simp add: empty_host_def)
  from UpsertStaticAccountFile_updates [OF example_yaml_law f(1) this up]
  obtain xs where "LoadStaticAccountFile (\<lambda>s. s) example_yaml (empty_host\<lparr>files := (files empty_host)(trim_space ''f'' \<mapsto> [1])\<rparr>) ''f'' = Inr xs"
    "account xs ''ann'' = Some example_account"
    using f(2) example_ok(1) by (auto simp: example_account_def)
  with up show ?thesis by blast
qed

text \<open>C28: an upsert whose path carries surrounding blanks looks for the file under the path as given but
  writes it under the trimmed path: when no file has the blank-padded name, the accounts that the
  trimmed path held are all replaced by the one account.\<close>

theorem UpsertStaticAccountFile_blank_path_forgets:
  assumes "files os path = None" and "UpsertStaticAccountFile quote y os path a = (Inr accounts, os')"
  shows "\<exists>d. yaml_Marshal y [normalize_account a] = Inr d \<and> files os' (trim_space path) = Some d"
proof -
  let ?a = "a\<lparr>acct_Username := trim_space (acct_Username a), DefaultDatabase := trim_space (DefaultDatabase a)\<rparr>"
  have save: "SaveStaticAccountFile quote y os path [?a] = (Inr (), os')"
    using assms by (auto simp: UpsertStaticAccountFile_def Let_def split: option.splits prod.splits sum.splits)
  have n: "normalize_account ?a = normalize_account a" by (simp add: normalize_account_def)
  show ?thesis using save
    by (auto simp: SaveStaticAccountFile_def Let_def bindR_Inr_iff validateStaticAccounts_iff n os_WriteFile_def
        split: if_splits sum.splits option.splits)
qed

theorem UpsertStaticAccountFile_blank_path_forgets_witness:
  "\<exists>os'. UpsertStaticAccountFile (\<lambda>s. s) example_yaml (empty_host\<lparr>files := [''f'' \<mapsto> [2]]\<rparr>) '' f'' example_account =
       (Inr [example_account], os') \<and> files os' ''f'' = Some [1]"
proof -
  let ?os = "empty_host\<lparr>files := [''f'' \<mapsto> [2]]\<rparr>"
  have f: "trim_space '' f'' = ''f''" by code_simp
  have up: "UpsertStaticAccountFile (\<lambda>s. s) example_yaml ?os '' f'' example_account =
      (Inr [example_account], ?os\<lparr>files := (files ?os)(trim_space '' f'' \<mapsto> [1])\<rparr>)"
    by (rule Upsert_example) (simp_all add: empty_host_def f example_ok example_yaml_def)
  have "files ?os '' f'' = None" by (simp add: empty_host_def)
  from UpsertStaticAccountFile_blank_path_forgets [OF this up] show ?thesis
    using up f by (simp add: example_ok(1) example_yaml_def)
qed

end
