(* ===== verification/MySQL_Command.thy ===== *)
theory MySQL_Command
  imports MySQL_Prepared
begin

text \<open>
  The command decoder (\<^verbatim>\<open>qsmysql/command.go\<close>). The main lemma is an exact description of what it
  accepts: a payload decodes to a command if and only if it is the encoding of a well-formed
  client command, and then to that command.
\<close>

section \<open>Definitions\<close>

datatype CommandKind =
  CommandKindQuery | CommandKindFieldList | CommandKindStmtPrepare | CommandKindStmtExecute
  | CommandKindStmtSendLongData | CommandKindStmtClose | CommandKindStmtReset | CommandKindPing
  | CommandKindQuit

record Command =
  cmd_Kind :: CommandKind
  SQL :: string
  Table :: string
  FieldPattern :: string
  cmd_StatementID :: u32
  Execute :: PreparedExecuteCommand
  cmd_LongData :: PreparedLongDataCommand
  cmd_ConnectionID :: u32
  cmd_Username :: string
  cmd_Database :: string
  cmd_Roles :: "string list"

text \<open>The zero value of the structure, with the given kind.\<close>

definition new_command :: "CommandKind \<Rightarrow> Command" where
  "new_command k =
     \<lparr>cmd_Kind = k, SQL = [], Table = [], FieldPattern = [], cmd_StatementID = 0,
      Execute = \<lparr>exec_StatementID = 0, exec_Flags = 0, IterationCount = 0, ParameterPayload = []\<rparr>,
      cmd_LongData = \<lparr>ld_StatementID = 0, ParameterID = 0, ld_Data = []\<rparr>,
      cmd_ConnectionID = 0, cmd_Username = [], cmd_Database = [], cmd_Roles = []\<rparr>"

definition commandName :: "CommandByte \<Rightarrow> string" where
  "commandName command =
     (if command = CommandStmtSendLongData then ''COM_STMT_SEND_LONG_DATA''
      else if command = CommandStmtClose then ''COM_STMT_CLOSE''
      else if command = CommandStmtReset then ''COM_STMT_RESET''
      else ''command 0x'' @ fmt_02x command)"

definition decodeFieldListCommand :: "byte list \<Rightarrow> (string, string \<times> string) res" where
  "decodeFieldListCommand payload =
     (if length payload < 3 then Inl (Err ''COM_FIELD_LIST requires table name and terminator'')
      else bindR (slice payload 1 (length payload)) (\<lambda>body.
        case List.find (\<lambda>i. body ! i = 0) [0 ..< length body] of
          None \<Rightarrow> Inl (Err ''COM_FIELD_LIST table name must be null-terminated'')
        | Some terminator \<Rightarrow>
            bindR (slice body 0 terminator) (\<lambda>raw.
              let table = trim_space (string_of_bytes raw) in
              if table = [] then Inl (Err ''COM_FIELD_LIST requires table name'')
              else bindR (slice body (terminator + 1) (length body)) (\<lambda>pattern.
                Inr (table, string_of_bytes pattern)))))"

definition decodeStatementIDCommand :: "CommandByte \<Rightarrow> byte list \<Rightarrow> (string, u32) res" where
  "decodeStatementIDCommand command payload =
     (if length payload \<noteq> 5 then Inl (Err (commandName command @ '' payload must include only a statement id''))
      else bindR (slice payload 1 5) readUint32LE)"

definition DecodeCommand :: "byte list \<Rightarrow> (string, Command) res" where
  "DecodeCommand payload =
     (if length payload = 0 then Inl (Err ''mysql command payload is empty'')
      else bindR (idx payload 0) (\<lambda>command.
        if command = CommandQuery then
          bindR (slice payload 1 (length payload)) (\<lambda>body.
            let sql = string_of_bytes body in
            if trim_space sql = [] then Inl (Err ''COM_QUERY requires SQL text'')
            else Inr ((new_command CommandKindQuery)\<lparr>SQL := sql\<rparr>))
        else if command = CommandFieldList then
          bindR (decodeFieldListCommand payload) (\<lambda>(table, pattern).
            Inr ((new_command CommandKindFieldList)\<lparr>Table := table, FieldPattern := pattern\<rparr>))
        else if command = CommandStmtPrepare then
          bindR (slice payload 1 (length payload)) (\<lambda>body.
            let sql = string_of_bytes body in
            if trim_space sql = [] then Inl (Err ''COM_STMT_PREPARE requires SQL text'')
            else Inr ((new_command CommandKindStmtPrepare)\<lparr>SQL := sql\<rparr>))
        else if command = CommandStmtExecute then
          bindR (DecodePreparedExecuteCommand payload) (\<lambda>execute.
            Inr ((new_command CommandKindStmtExecute)
                   \<lparr>cmd_StatementID := exec_StatementID execute, Execute := execute\<rparr>))
        else if command = CommandStmtSendLongData then
          bindR (DecodePreparedLongDataCommand payload) (\<lambda>longData.
            Inr ((new_command CommandKindStmtSendLongData)
                   \<lparr>cmd_StatementID := ld_StatementID longData, cmd_LongData := longData\<rparr>))
        else if command = CommandStmtClose then
          bindR (decodeStatementIDCommand CommandStmtClose payload) (\<lambda>statementID.
            Inr ((new_command CommandKindStmtClose)\<lparr>cmd_StatementID := statementID\<rparr>))
        else if command = CommandStmtReset then
          bindR (decodeStatementIDCommand CommandStmtReset payload) (\<lambda>statementID.
            Inr ((new_command CommandKindStmtReset)\<lparr>cmd_StatementID := statementID\<rparr>))
        else if command = CommandPing then
          (if length payload \<noteq> 1 then Inl (Err ''COM_PING payload must not include arguments'')
           else Inr (new_command CommandKindPing))
        else if command = CommandQuit then
          (if length payload \<noteq> 1 then Inl (Err ''COM_QUIT payload must not include arguments'')
           else Inr (new_command CommandKindQuit))
        else Inl (Err (''unsupported mysql command byte 0x'' @ fmt_02x command))))"

section \<open>Client commands\<close>

text \<open>
  The commands a client can send, with their encoding and the command they stand for. The table
  name of \<open>QFieldList\<close> is as sent, before the decoder trims it.
\<close>

datatype client_command =
    QQuery string
  | QFieldList "byte list" string
  | QPrepare string
  | QExecute u32 byte u32 "byte list"
  | QLongData u32 u16 "byte list"
  | QClose u32
  | QReset u32
  | QPing
  | QQuit

fun valid_command :: "client_command \<Rightarrow> bool" where
  "valid_command (QQuery sql) \<longleftrightarrow> trim_space sql \<noteq> []"
| "valid_command (QFieldList raw pattern) \<longleftrightarrow> 0 \<notin> set raw \<and> trim_space (string_of_bytes raw) \<noteq> []"
| "valid_command (QPrepare sql) \<longleftrightarrow> trim_space sql \<noteq> []"
| "valid_command _ \<longleftrightarrow> True"

fun command_bytes :: "client_command \<Rightarrow> byte list" where
  "command_bytes (QQuery sql) = CommandQuery # bytes_of_string sql"
| "command_bytes (QFieldList raw pattern) = CommandFieldList # raw @ 0 # bytes_of_string pattern"
| "command_bytes (QPrepare sql) = CommandStmtPrepare # bytes_of_string sql"
| "command_bytes (QExecute sid flags iter params) =
     CommandStmtExecute # le_bytes 4 (unat sid) @ flags # le_bytes 4 (unat iter) @ params"
| "command_bytes (QLongData sid pid data) =
     CommandStmtSendLongData # le_bytes 4 (unat sid) @ le_bytes 2 (unat pid) @ data"
| "command_bytes (QClose sid) = CommandStmtClose # le_bytes 4 (unat sid)"
| "command_bytes (QReset sid) = CommandStmtReset # le_bytes 4 (unat sid)"
| "command_bytes QPing = [CommandPing]"
| "command_bytes QQuit = [CommandQuit]"

fun command_of :: "client_command \<Rightarrow> Command" where
  "command_of (QQuery sql) = (new_command CommandKindQuery)\<lparr>SQL := sql\<rparr>"
| "command_of (QFieldList raw pattern) =
     (new_command CommandKindFieldList)\<lparr>Table := trim_space (string_of_bytes raw), FieldPattern := pattern\<rparr>"
| "command_of (QPrepare sql) = (new_command CommandKindStmtPrepare)\<lparr>SQL := sql\<rparr>"
| "command_of (QExecute sid flags iter params) =
     (new_command CommandKindStmtExecute)\<lparr>cmd_StatementID := sid,
        Execute := \<lparr>exec_StatementID = sid, exec_Flags = flags, IterationCount = iter, ParameterPayload = params\<rparr>\<rparr>"
| "command_of (QLongData sid pid data) =
     (new_command CommandKindStmtSendLongData)\<lparr>cmd_StatementID := sid,
        cmd_LongData := \<lparr>ld_StatementID = sid, ParameterID = pid, ld_Data = data\<rparr>\<rparr>"
| "command_of (QClose sid) = (new_command CommandKindStmtClose)\<lparr>cmd_StatementID := sid\<rparr>"
| "command_of (QReset sid) = (new_command CommandKindStmtReset)\<lparr>cmd_StatementID := sid\<rparr>"
| "command_of QPing = new_command CommandKindPing"
| "command_of QQuit = new_command CommandKindQuit"

section \<open>What the decoder accepts\<close>

lemma slice_tail: "slice (b # body) 1 (length (b # body)) = Inr body"
  by (simp add: slice_def)

lemma takeWhile_append_0: "0 \<notin> set raw \<Longrightarrow> takeWhile (\<lambda>b. b \<noteq> (0 :: byte)) (raw @ 0 # rest) = raw"
  by (induction raw) auto

lemma split_at_0: "0 \<in> set body \<Longrightarrow> \<exists>raw rest. body = raw @ 0 # rest \<and> (0 :: byte) \<notin> set raw"
  by (metis split_list_first)

lemma find_terminator:
  "List.find (\<lambda>i. body ! i = (0 :: byte)) [0 ..< length body] =
     (if 0 \<in> set body then Some (length (takeWhile (\<lambda>b. b \<noteq> 0) body)) else None)"
proof (cases "0 \<in> set body")
  case True
  then obtain raw rest where body: "body = raw @ 0 # rest" "0 \<notin> set raw" using split_at_0 by blast
  have "\<forall>j < length raw. raw ! j \<noteq> 0" using body(2) by (metis nth_mem)
  then have "List.find (\<lambda>i. body ! i = 0) [0 ..< length body] = Some (length raw)"
    unfolding find_Some_iff
    by (intro exI [of _ "length raw"]) (auto simp: body(1) nth_append)
  with True body show ?thesis by (simp add: takeWhile_append_0)
next
  case False
  then have "List.find (\<lambda>i. body ! i = 0) [0 ..< length body] = None"
    unfolding find_None_iff by (auto simp: in_set_conv_nth)
  with False show ?thesis by simp
qed

lemma decodeFieldList_iff:
  "decodeFieldListCommand (b # body) = Inr (table, pattern) \<longleftrightarrow>
   (\<exists>raw. body = raw @ 0 # bytes_of_string pattern \<and> 0 \<notin> set raw \<and>
      table = trim_space (string_of_bytes raw) \<and> table \<noteq> [])"
proof (cases "0 \<in> set body")
  case True
  then obtain raw rest where body: "body = raw @ 0 # rest" and raw: "0 \<notin> set raw"
    using split_at_0 by blast
  have t: "length (takeWhile (\<lambda>b. b \<noteq> 0) body) = length raw" unfolding body takeWhile_append_0 [OF raw] ..
  have uniq: "raw' @ 0 # rest' = raw @ 0 # rest \<Longrightarrow> 0 \<notin> set raw' \<Longrightarrow> raw' = raw \<and> rest' = rest" for raw' rest'
    using takeWhile_append_0 [of raw' rest'] takeWhile_append_0 [OF raw, of rest] by simp
  have ne: "trim_space (string_of_bytes raw) \<noteq> [] \<Longrightarrow> raw \<noteq> []"
    by (auto simp: string_of_bytes_def)
  have "decodeFieldListCommand (b # body) =
      (if length body < 2 then Inl (Err ''COM_FIELD_LIST requires table name and terminator'')
       else if trim_space (string_of_bytes raw) = [] then Inl (Err ''COM_FIELD_LIST requires table name'')
       else Inr (trim_space (string_of_bytes raw), string_of_bytes rest))"
    unfolding decodeFieldListCommand_def slice_tail bindR.simps find_terminator t using True
    by (simp add: body slice_def)
  moreover have "trim_space (string_of_bytes raw) \<noteq> [] \<Longrightarrow> \<not> length body < 2"
    using ne by (cases raw) (simp_all add: body)
  moreover have "(\<exists>raw'. body = raw' @ 0 # bytes_of_string pattern \<and> 0 \<notin> set raw' \<and>
        table = trim_space (string_of_bytes raw') \<and> table \<noteq> []) \<longleftrightarrow>
      rest = bytes_of_string pattern \<and> table = trim_space (string_of_bytes raw) \<and> table \<noteq> []"
    using uniq raw body by metis
  moreover have "string_of_bytes rest = pattern \<longleftrightarrow> rest = bytes_of_string pattern" by auto
  ultimately show ?thesis by (cases "trim_space (string_of_bytes raw) = []") auto
next
  case False
  then show ?thesis
    unfolding decodeFieldListCommand_def slice_tail bindR.simps find_terminator by auto
qed

lemma execute_eval:
  "DecodePreparedExecuteCommand (CommandStmtExecute # le_bytes 4 (unat sid) @ flags # le_bytes 4 (unat iter) @ params) =
     Inr \<lparr>exec_StatementID = sid, exec_Flags = flags, IterationCount = iter, ParameterPayload = params\<rparr>"
  by (simp add: DecodePreparedExecuteCommand_def idx_def slice_def readUint_le_bytes_exact nth_append nth_Cons')

lemma execute_iff:
  "DecodePreparedExecuteCommand (CommandStmtExecute # body) = Inr e \<longleftrightarrow>
   (\<exists>sid flags iter params. body = le_bytes 4 (unat sid) @ flags # le_bytes 4 (unat iter) @ params \<and>
      e = \<lparr>exec_StatementID = sid, exec_Flags = flags, IterationCount = iter, ParameterPayload = params\<rparr>)"
proof (cases "length body < 9")
  case True
  then show ?thesis by (auto simp: DecodePreparedExecuteCommand_def)
next
  case False
  then obtain sid :: u32 and ys where 1: "body = le_bytes 4 (unat sid) @ ys" using split4 [of body] by auto
  then obtain flags zs where 2: "ys = flags # zs" using False by (cases ys) auto
  then obtain iter :: u32 and params where 3: "zs = le_bytes 4 (unat iter) @ params"
    using split4 [of zs] False 1 by auto
  show ?thesis unfolding 1 2 3 execute_eval by auto
qed

lemma longdata_eval:
  "DecodePreparedLongDataCommand (CommandStmtSendLongData # le_bytes 4 (unat sid) @ le_bytes 2 (unat pid) @ data) =
     Inr \<lparr>ld_StatementID = sid, ParameterID = pid, ld_Data = data\<rparr>"
  by (simp add: DecodePreparedLongDataCommand_def idx_def slice_def readUint_le_bytes_exact nth_append nth_Cons')

lemma longdata_iff:
  "DecodePreparedLongDataCommand (CommandStmtSendLongData # body) = Inr l \<longleftrightarrow>
   (\<exists>sid pid data. body = le_bytes 4 (unat sid) @ le_bytes 2 (unat pid) @ data \<and>
      l = \<lparr>ld_StatementID = sid, ParameterID = pid, ld_Data = data\<rparr>)"
proof (cases "length body < 6")
  case True
  then show ?thesis by (auto simp: DecodePreparedLongDataCommand_def)
next
  case False
  then obtain sid :: u32 and ys where 1: "body = le_bytes 4 (unat sid) @ ys" using split4 [of body] by auto
  then obtain pid :: u16 and data where 2: "ys = le_bytes 2 (unat pid) @ data"
    using split2 [of ys] False by auto
  show ?thesis unfolding 1 2 longdata_eval by auto
qed

lemma statement_id_iff:
  "decodeStatementIDCommand c (b # body) = Inr sid \<longleftrightarrow> body = le_bytes 4 (unat sid)"
proof (cases "length body = 4")
  case True
  then show ?thesis using readUint32LE_iff [OF True, of sid] by (simp add: decodeStatementIDCommand_def slice_def)
next
  case False
  then show ?thesis by (auto simp: decodeStatementIDCommand_def)
qed

lemma DecodeCommand_bytes:
  assumes "valid_command c"
  shows "DecodeCommand (command_bytes c) = Inr (command_of c)"
proof (cases c)
  case (QFieldList raw pattern)
  then have "decodeFieldListCommand (CommandFieldList # raw @ 0 # bytes_of_string pattern) =
      Inr (trim_space (string_of_bytes raw), pattern)"
    using assms decodeFieldList_iff [of CommandFieldList "raw @ 0 # bytes_of_string pattern"] by auto
  with QFieldList show ?thesis by (simp add: DecodeCommand_def idx_def command_byte_defs)
next
  case (QExecute sid flags iter params)
  then show ?thesis using execute_eval [of sid flags iter params]
    by (simp add: DecodeCommand_def idx_def command_byte_defs)
next
  case (QLongData sid pid data)
  then show ?thesis using longdata_eval [of sid pid data]
    by (simp add: DecodeCommand_def idx_def command_byte_defs)
qed (use assms in \<open>simp_all add: DecodeCommand_def idx_def slice_def Let_def command_byte_defs
       decodeStatementIDCommand_def readUint_le_bytes_exact\<close>)

text \<open>The converse, one command byte at a time.\<close>

lemma DecodeCommand_cases:
  assumes "DecodeCommand payload = Inr cmd"
  obtains b body where "payload = b # body"
    "b \<in> {CommandQuery, CommandFieldList, CommandStmtPrepare, CommandStmtExecute, CommandStmtSendLongData,
          CommandStmtClose, CommandStmtReset, CommandPing, CommandQuit}"
proof (cases payload)
  case Nil
  then show ?thesis using assms by (simp add: DecodeCommand_def)
next
  case (Cons b body)
  then show ?thesis using assms that by (auto simp: DecodeCommand_def idx_def split: if_splits)
qed

lemma DecodeCommand_sound:
  assumes d: "DecodeCommand payload = Inr cmd"
  shows "\<exists>c. valid_command c \<and> payload = command_bytes c \<and> cmd = command_of c"
proof -
  obtain b body where p: "payload = b # body" and b: "b \<in> {CommandQuery, CommandFieldList, CommandStmtPrepare,
      CommandStmtExecute, CommandStmtSendLongData, CommandStmtClose, CommandStmtReset, CommandPing, CommandQuit}"
    using DecodeCommand_cases [OF d] .
  note d' = d [unfolded p DecodeCommand_def slice_tail]
  from b consider "b = CommandQuery" | "b = CommandFieldList" | "b = CommandStmtPrepare" | "b = CommandStmtExecute"
    | "b = CommandStmtSendLongData" | "b = CommandStmtClose" | "b = CommandStmtReset" | "b = CommandPing"
    | "b = CommandQuit" by blast
  then show ?thesis
  proof cases
    case 1
    with d' show ?thesis unfolding p
      by (intro exI [of _ "QQuery (string_of_bytes body)"]) (auto simp: idx_def Let_def split: if_splits)
  next
    case 2
    with d' obtain table pattern where "decodeFieldListCommand (CommandFieldList # body) = Inr (table, pattern)"
      "cmd = (new_command CommandKindFieldList)\<lparr>Table := table, FieldPattern := pattern\<rparr>"
      by (auto simp: idx_def bindR_Inr_iff command_byte_defs)
    then show ?thesis unfolding p 2 decodeFieldList_iff by (metis command_bytes.simps(2) command_of.simps(2) valid_command.simps(2))
  next
    case 3
    with d' show ?thesis unfolding p
      by (intro exI [of _ "QPrepare (string_of_bytes body)"]) (auto simp: idx_def Let_def command_byte_defs split: if_splits)
  next
    case 4
    with d' obtain e where "DecodePreparedExecuteCommand (CommandStmtExecute # body) = Inr e"
      "cmd = (new_command CommandKindStmtExecute)\<lparr>cmd_StatementID := exec_StatementID e, Execute := e\<rparr>"
      by (auto simp: idx_def bindR_Inr_iff command_byte_defs)
    then obtain sid flags iter params where "payload = command_bytes (QExecute sid flags iter params)"
        "cmd = command_of (QExecute sid flags iter params)"
      unfolding p 4 execute_iff by auto
    then show ?thesis by (metis valid_command.simps(4))
  next
    case 5
    with d' obtain l where "DecodePreparedLongDataCommand (CommandStmtSendLongData # body) = Inr l"
      "cmd = (new_command CommandKindStmtSendLongData)\<lparr>cmd_StatementID := ld_StatementID l, cmd_LongData := l\<rparr>"
      by (auto simp: idx_def bindR_Inr_iff command_byte_defs)
    then obtain sid pid data where "payload = command_bytes (QLongData sid pid data)"
        "cmd = command_of (QLongData sid pid data)"
      unfolding p 5 longdata_iff by auto
    then show ?thesis by (metis valid_command.simps(5))
  next
    case 6
    with d' obtain sid where "decodeStatementIDCommand CommandStmtClose (CommandStmtClose # body) = Inr sid"
      "cmd = (new_command CommandKindStmtClose)\<lparr>cmd_StatementID := sid\<rparr>"
      by (auto simp: idx_def bindR_Inr_iff command_byte_defs)
    then show ?thesis unfolding p 6 statement_id_iff by (intro exI [of _ "QClose sid"]) simp
  next
    case 7
    with d' obtain sid where "decodeStatementIDCommand CommandStmtReset (CommandStmtReset # body) = Inr sid"
      "cmd = (new_command CommandKindStmtReset)\<lparr>cmd_StatementID := sid\<rparr>"
      by (auto simp: idx_def bindR_Inr_iff command_byte_defs)
    then show ?thesis unfolding p 7 statement_id_iff by (intro exI [of _ "QReset sid"]) simp
  next
    case 8
    with d' show ?thesis unfolding p
      by (intro exI [of _ QPing]) (auto simp: idx_def command_byte_defs split: if_splits)
  next
    case 9
    with d' show ?thesis unfolding p
      by (intro exI [of _ QQuit]) (auto simp: idx_def command_byte_defs split: if_splits)
  qed
qed

section \<open>The decoder does not panic\<close>

lemma no_panic_decodeFieldListCommand [no_panic_intros]: "no_panic (decodeFieldListCommand payload)"
proof -
  have "List.find (\<lambda>i. body ! i = 0) [0 ..< length body] = Some t \<Longrightarrow> t < length body" for body :: "byte list" and t
    by (auto simp: find_Some_iff)
  then show ?thesis unfolding decodeFieldListCommand_def Let_def
    by (intro no_panic_intros) (fastforce dest: slice_length)+
qed

lemma no_panic_decodeStatementIDCommand [no_panic_intros]: "no_panic (decodeStatementIDCommand c payload)"
  unfolding decodeStatementIDCommand_def by (intro no_panic_intros) (auto dest: slice_length)

lemma no_panic_DecodeCommand [no_panic_intros]: "no_panic (DecodeCommand payload)"
  unfolding DecodeCommand_def Let_def by (intro no_panic_intros) (auto simp: Suc_le_eq)

section \<open>Properties\<close>

text \<open>C31: \<^verbatim>\<open>DecodeCommand\<close> accepts a payload exactly when it is the encoding of a well-formed client
  command, and returns that command: SQL texts that are not blank, field lists with a terminated
  table name that is not blank, complete execute and long-data headers, statement ids with nothing
  after them, and pings and quits without arguments. Everything else is an error.\<close>

theorem DecodeCommand_exact:
  "DecodeCommand payload = Inr cmd \<longleftrightarrow>
   (\<exists>c. valid_command c \<and> payload = command_bytes c \<and> cmd = command_of c)"
  using DecodeCommand_sound DecodeCommand_bytes by metis

end
