(* ===== verification/MySQL_Session.thy ===== *)
theory MySQL_Session
  imports MySQL_Auth MySQL_Command
begin

text \<open>
  One client session (\<^verbatim>\<open>qsmysql/connection.go\<close>, \<^verbatim>\<open>qsmysql/packetio.go\<close>,
  \<^verbatim>\<open>qsmysql/session.go\<close>): the connection's state machine, the command loop and the runner that
  greets, authenticates and serves. The command handler and the authenticator are arguments, the
  first with a state of its own; the stream is the bytes the client still sends and a writer. The
  lemmas show that no client input makes the server panic, that the handler only ever sees
  commands of an authenticated session, and what a rejected client gets.
\<close>

section \<open>Connections\<close>

datatype ConnectionState =
  ConnectionStateNew | ConnectionStateHandshakeSent | ConnectionStateAuthPending
  | ConnectionStateReady | ConnectionStateClosing

fun state_name :: "ConnectionState \<Rightarrow> string" where
  "state_name ConnectionStateNew = ''new''"
| "state_name ConnectionStateHandshakeSent = ''handshake_sent''"
| "state_name ConnectionStateAuthPending = ''auth_pending''"
| "state_name ConnectionStateReady = ''ready''"
| "state_name ConnectionStateClosing = ''closing''"

record Connection =
  conn_ID :: u32
  State :: ConnectionState
  conn_Username :: string
  conn_Database :: string
  conn_Roles :: "RoleName list"
  conn_AuthPluginName :: string
  conn_CapabilityFlags :: CapabilityFlag

definition NewConnection :: "u32 \<Rightarrow> Connection" where
  "NewConnection i = \<lparr>conn_ID = i, State = ConnectionStateNew, conn_Username = [], conn_Database = [], conn_Roles = [],
     conn_AuthPluginName = [], conn_CapabilityFlags = 0\<rparr>"

definition WithHandshakeSent :: "Connection \<Rightarrow> (string, Connection) res" where
  "WithHandshakeSent c =
     (if State c \<noteq> ConnectionStateNew then Inl (Err (''cannot send handshake from state '' @ state_name (State c)))
      else Inr (c\<lparr>State := ConnectionStateHandshakeSent\<rparr>))"

definition WithAuthPending :: "Connection \<Rightarrow> (string, Connection) res" where
  "WithAuthPending c =
     (if State c \<noteq> ConnectionStateHandshakeSent then
        Inl (Err (''cannot mark auth pending from state '' @ state_name (State c)))
      else Inr (c\<lparr>State := ConnectionStateAuthPending\<rparr>))"

definition WithReady :: "Connection \<Rightarrow> (string, Connection) res" where
  "WithReady c =
     (case State c of
        ConnectionStateHandshakeSent \<Rightarrow> Inr (c\<lparr>State := ConnectionStateReady\<rparr>)
      | ConnectionStateAuthPending \<Rightarrow> Inr (c\<lparr>State := ConnectionStateReady\<rparr>)
      | _ \<Rightarrow> Inl (Err (''cannot mark ready from state '' @ state_name (State c))))"

definition Connection_AcceptHandshakeResponse :: "Connection \<Rightarrow> HandshakeResponse41 \<Rightarrow> (string, Connection) res" where
  "Connection_AcceptHandshakeResponse c response =
     (if State c \<noteq> ConnectionStateHandshakeSent then
        Inl (Err (''cannot accept handshake response from state '' @ state_name (State c)))
      else Inr (c\<lparr>conn_Username := hr_Username response, conn_Database := hr_Database response,
                  conn_AuthPluginName := hr_AuthPluginName response,
                  conn_CapabilityFlags := hr_CapabilityFlags response, State := ConnectionStateAuthPending\<rparr>))"

definition AcceptPermissiveAuth :: "Connection \<Rightarrow> (string, Connection \<times> CommandResponse) res" where
  "AcceptPermissiveAuth c =
     (if State c \<noteq> ConnectionStateAuthPending then
        Inl (Err (''cannot accept auth from state '' @ state_name (State c)))
      else Inr (c\<lparr>State := ConnectionStateReady\<rparr>,
                AuthSuccessResponse (conn_AuthPluginName c) (conn_CapabilityFlags c)))"

definition WithClosing :: "Connection \<Rightarrow> Connection" where
  "WithClosing c = c\<lparr>State := ConnectionStateClosing\<rparr>"

definition CanAcceptCommand :: "Connection \<Rightarrow> bool" where
  "CanAcceptCommand c \<longleftrightarrow> State c = ConnectionStateReady"

section \<open>The command loop\<close>

datatype session_error = PacketError packet_error | ErrorText string

text \<open>The reader is the bytes the client has yet to send; the writer's state is of any type.\<close>

record 'w Stream =
  Reader :: "byte list option"
  Writer :: "'w option"

type_synonym 'w put = "'w \<Rightarrow> byte list \<Rightarrow> nat \<times> bool \<times> 'w"
type_synonym 'h handler = "'h \<Rightarrow> Command \<Rightarrow> (string, CommandResponse) res \<times> 'h"

definition write_response ::
  "'w put \<Rightarrow> bool \<Rightarrow> 'w Stream \<Rightarrow> CommandResponse \<Rightarrow> (session_error, CommandResponse) res \<times> 'w Stream" where
  "write_response put ctxErr stream response =
     (case writeResponsePackets put ctxErr (Writer stream) (Packets response) of
        (Inl e, w) \<Rightarrow> (wrapErr PacketError (Inl e), stream\<lparr>Writer := w\<rparr>)
      | (Inr _, w) \<Rightarrow> (Inr response, stream\<lparr>Writer := w\<rparr>))"

text \<open>
  \<^verbatim>\<open>CommandLoop.ServeNext\<close>; the loop's identity fields are those of the connection. A
  response that comes with a write error is dropped by every caller, so the error is the result.
\<close>

definition ServeNext ::
  "'w put \<Rightarrow> 'h handler \<Rightarrow> bool \<Rightarrow> Connection \<Rightarrow> 'w Stream \<Rightarrow> 'h \<Rightarrow>
     (session_error, CommandResponse) res \<times> 'w Stream \<times> 'h" where
  "ServeNext put handler ctxErr c stream h =
     (case ReadPacket ctxErr (Reader stream) of
        Inl e \<Rightarrow> (wrapErr PacketError (Inl e), stream, h)
      | Inr (packet, rd) \<Rightarrow>
          let stream = stream\<lparr>Reader := Some rd\<rparr> in
          (case DecodeCommand (Payload packet) of
             Inl Panic \<Rightarrow> (Inl Panic, stream, h)
           | Inl (Err err) \<Rightarrow>
               (case write_response put ctxErr stream (ErrorResponseFromError err) of (r, stream) \<Rightarrow> (r, stream, h))
           | Inr command \<Rightarrow>
               let command = command\<lparr>cmd_ConnectionID := conn_ID c, cmd_Username := conn_Username c,
                                     cmd_Database := conn_Database c, cmd_Roles := conn_Roles c\<rparr> in
               (case handler h command of
                  (Inl Panic, h) \<Rightarrow> (Inl Panic, stream, h)
                | (result, h) \<Rightarrow>
                    let response = (case result of Inr response \<Rightarrow> response
                                                 | Inl (Err err) \<Rightarrow> ErrorResponseFromError err
                                                 | Inl Panic \<Rightarrow> NoResponse);
                        response = WithCapabilities response (conn_CapabilityFlags c)
                    in (case write_response put ctxErr stream response of (r, stream) \<Rightarrow> (r, stream, h)))))"

section \<open>The session runner\<close>

record ('w, 'h) SessionRunner =
  sr_Connection :: Connection
  sr_Handshake :: HandshakeV10
  sr_Stream :: "'w Stream option"
  sr_Handler :: 'h

text \<open>
  \<^verbatim>\<open>NewSessionRunner\<close>: an unset connection id is 1, an unset greeting is the default one with the
  given scramble, or with a fixed one when none is given.
\<close>

definition NewSessionRunner ::
  "string \<Rightarrow> u32 \<Rightarrow> byte list \<Rightarrow> HandshakeV10 \<Rightarrow> 'w Stream option \<Rightarrow> 'h \<Rightarrow> ('w, 'h) SessionRunner" where
  "NewSessionRunner version connectionID authPluginData handshake stream h =
     (let connectionID = (if connectionID = 0 then 1 else connectionID);
          handshake =
            (if ServerVersion handshake = [] then
               let authPluginData = (if length authPluginData = 0 then bytes_of_string ''quantastream-auth-v1''
                                     else authPluginData)
               in NewDefaultHandshake version connectionID authPluginData
             else handshake)
      in \<lparr>sr_Connection = NewConnection connectionID, sr_Handshake = handshake, sr_Stream = stream, sr_Handler = h\<rparr>)"

definition clonePacketsWithSequence :: "Packet list \<Rightarrow> byte \<Rightarrow> Packet list" where
  "clonePacketsWithSequence packets sequenceID =
     map (\<lambda>(i, p). \<lparr>SequenceID = sequenceID + word_of_nat i, Payload = Payload p\<rparr>) (enumerate 0 packets)"

definition SendHandshake ::
  "'w put \<Rightarrow> bool \<Rightarrow> ('w, 'h) SessionRunner \<Rightarrow> (session_error, unit) res \<times> ('w, 'h) SessionRunner" where
  "SendHandshake put ctxErr r =
     (case sr_Stream r of
        None \<Rightarrow> (Inl (Err (ErrorText ''mysql session runner stream is nil'')), r)
      | Some stream \<Rightarrow>
          (case bindR (HandshakeV10_Payload (sr_Handshake r)) (\<lambda>payload.
                bindR (WithHandshakeSent (sr_Connection r)) (\<lambda>c. Inr (payload, c))) of
             Inl e \<Rightarrow> (wrapErr ErrorText (Inl e), r)
           | Inr (payload, connection) \<Rightarrow>
               (case WritePacket put ctxErr (Writer stream) \<lparr>SequenceID = 0, Payload = payload\<rparr> of
                  (Inl e, w) \<Rightarrow> (wrapErr PacketError (Inl e), r\<lparr>sr_Stream := Some (stream\<lparr>Writer := w\<rparr>)\<rparr>)
                | (Inr _, w) \<Rightarrow>
                    (Inr (), r\<lparr>sr_Stream := Some (stream\<lparr>Writer := w\<rparr>), sr_Connection := connection\<rparr>))))"

text \<open>The client's response with the plugin name the server assumes when it names none.\<close>

definition with_plugin :: "HandshakeV10 \<Rightarrow> HandshakeResponse41 \<Rightarrow> HandshakeResponse41" where
  "with_plugin handshake response =
     (if hr_AuthPluginName response = [] then
        response\<lparr>hr_AuthPluginName :=
          (if hs_AuthPluginName handshake = [] then defaultAuthPluginName else hs_AuthPluginName handshake)\<rparr>
      else response)"

definition AcceptHandshakeResponse ::
  "'w put \<Rightarrow> Authenticator \<Rightarrow> string option \<Rightarrow> ('w, 'h) SessionRunner \<Rightarrow>
     (session_error, CommandResponse) res \<times> ('w, 'h) SessionRunner" where
  "AcceptHandshakeResponse put authenticator ctx r =
     (case sr_Stream r of
        None \<Rightarrow> (Inl (Err (ErrorText ''mysql session runner stream is nil'')), r)
      | Some stream \<Rightarrow>
          (case ReadPacket (ctx \<noteq> None) (Reader stream) of
             Inl e \<Rightarrow> (wrapErr PacketError (Inl e), r)
           | Inr (packet, rd) \<Rightarrow>
               let stream = stream\<lparr>Reader := Some rd\<rparr>; r = r\<lparr>sr_Stream := Some stream\<rparr> in
               (case bindR (DecodeHandshakeResponse41 (Payload packet)) (\<lambda>response.
                     let response = with_plugin (sr_Handshake r) response in
                     bindR (Connection_AcceptHandshakeResponse (sr_Connection r) response) (\<lambda>connection.
                     bindR (authenticator ctx (authRequestFromHandshake (conn_ID connection) response
                                                 (AuthPluginData (sr_Handshake r)))) (\<lambda>decision.
                       Inr (connection, decision)))) of
                  Inl e \<Rightarrow> (wrapErr ErrorText (Inl e), r)
                | Inr (connection, decision) \<Rightarrow>
                    if \<not> Accepted decision then
                      let failure = ErrorResponse (Failure decision);
                          failure = failure\<lparr>Packets := clonePacketsWithSequence (Packets failure) (SequenceID packet + 1)\<rparr>
                      in (case write_response put (ctx \<noteq> None) stream failure of
                            (Inl e, stream) \<Rightarrow> (Inl e, r\<lparr>sr_Stream := Some stream\<rparr>)
                          | (Inr failure, stream) \<Rightarrow>
                              (Inr failure, r\<lparr>sr_Stream := Some stream, sr_Connection := connection\<rparr>))
                    else
                      let connection = connection\<lparr>conn_Username := dec_Username decision,
                            conn_Database := dec_Database decision, conn_Roles := dec_Roles decision,
                            conn_AuthPluginName := dec_AuthPluginName decision\<rparr> in
                      (case AcceptPermissiveAuth connection of
                         Inl e \<Rightarrow> (wrapErr ErrorText (Inl e), r)
                       | Inr (connection, authOK) \<Rightarrow>
                           let authOK = authOK\<lparr>Packets := clonePacketsWithSequence (Packets authOK) (SequenceID packet + 1)\<rparr>
                           in (case write_response put (ctx \<noteq> None) stream authOK of
                                 (Inl e, stream) \<Rightarrow> (Inl e, r\<lparr>sr_Stream := Some stream\<rparr>)
                               | (Inr authOK, stream) \<Rightarrow>
                                   (Inr authOK, r\<lparr>sr_Stream := Some stream, sr_Connection := connection\<rparr>))))))"

text \<open>\<^verbatim>\<open>ServeNextCommand\<close>; the handler argument is absent when the configuration sets none.\<close>

definition ServeNextCommand ::
  "'w put \<Rightarrow> 'h handler option \<Rightarrow> bool \<Rightarrow> ('w, 'h) SessionRunner \<Rightarrow>
     (session_error, CommandResponse) res \<times> ('w, 'h) SessionRunner" where
  "ServeNextCommand put handler ctxErr r =
     (case sr_Stream r of
        None \<Rightarrow> (Inl (Err (ErrorText ''mysql session runner stream is nil'')), r)
      | Some stream \<Rightarrow>
          (case handler of
             None \<Rightarrow> (Inl (Err (ErrorText ''mysql session runner handler is nil'')), r)
           | Some handle \<Rightarrow>
               if \<not> CanAcceptCommand (sr_Connection r) then
                 (Inl (Err (ErrorText (''mysql connection is not ready for commands: '' @
                                       state_name (State (sr_Connection r))))), r)
               else
                 (case ServeNext put handle ctxErr (sr_Connection r) stream (sr_Handler r) of
                    (Inl e, stream, h) \<Rightarrow> (Inl e, r\<lparr>sr_Stream := Some stream, sr_Handler := h\<rparr>)
                  | (Inr response, stream, h) \<Rightarrow>
                      let r = r\<lparr>sr_Stream := Some stream, sr_Handler := h\<rparr> in
                      (Inr response,
                       if resp_Close response then r\<lparr>sr_Connection := WithClosing (sr_Connection r)\<rparr> else r))))"

definition unread :: "('w, 'h) SessionRunner \<Rightarrow> nat" where
  "unread r = (case sr_Stream r of Some stream \<Rightarrow> (case Reader stream of Some rd \<Rightarrow> length rd | None \<Rightarrow> 0) | None \<Rightarrow> 0)"

lemma ReadPacket_shorter: "ReadPacket ctxErr (Some rd) = Inr (p, rd') \<Longrightarrow> length rd' < length rd"
  by (auto simp: ReadPacket_def ReadFull_def PacketHeaderLength_def bindR_Inr_iff Let_def split: if_splits)

lemma ReadPacket_Some: "ReadPacket ctxErr rd = Inr (p, rd') \<Longrightarrow> \<exists>bs. rd = Some bs \<and> length rd' < length bs"
  using ReadPacket_shorter by (cases rd) (auto simp: ReadPacket_def split: if_splits)

lemma write_response_Reader: "write_response put ctxErr s resp = (x, s') \<Longrightarrow> Reader s' = Reader s"
  by (auto simp: write_response_def split: prod.splits sum.splits)

lemma ServeNext_Reader:
  assumes "ServeNext put handler ctxErr c s h = (Inr response, s', h')"
  shows "\<exists>bs bs'. Reader s = Some bs \<and> Reader s' = Some bs' \<and> length bs' < length bs"
proof -
  from assms obtain p rd where r: "ReadPacket ctxErr (Reader s) = Inr (p, rd)"
    by (cases "ReadPacket ctxErr (Reader s)") (auto simp: ServeNext_def wrapErr_Inr_iff)
  with assms have "Reader s' = Some rd"
    by (auto simp: ServeNext_def Let_def dest!: write_response_Reader split: sum.splits fault.splits prod.splits)
  with ReadPacket_Some [OF r] show ?thesis by blast
qed

lemma ServeNextCommand_unread:
  assumes "ServeNextCommand put handler ctxErr r = (Inr response, r')"
  shows "unread r' < unread r"
proof -
  from assms obtain s handle s' h' where s: "sr_Stream r = Some s"
    and "ServeNext put handle ctxErr (sr_Connection r) s (sr_Handler r) = (Inr response, s', h')"
    and "sr_Stream r' = Some s'"
    by (auto simp: ServeNextCommand_def Let_def split: option.splits if_splits prod.splits sum.splits)
  with ServeNext_Reader show ?thesis by (fastforce simp: unread_def)
qed

text \<open>
  The loop of \<^verbatim>\<open>Serve\<close>. The context may be cancelled at any time: \<^term>\<open>ctx n\<close> is its error, if
  any, from the \<open>n\<close>-th round on.
\<close>

function serveLoop ::
  "'w put \<Rightarrow> 'h handler option \<Rightarrow> (nat \<Rightarrow> string option) \<Rightarrow> nat \<Rightarrow> ('w, 'h) SessionRunner \<Rightarrow>
     (session_error, unit) res \<times> ('w, 'h) SessionRunner" where
  "serveLoop put handler ctx n r =
     (case ctx n of
        Some err \<Rightarrow> (Inl (Err (ErrorText err)), r)
      | None \<Rightarrow>
          (case ServeNextCommand put handler False r of
             (Inl e, r') \<Rightarrow> (Inl e, r')
           | (Inr response, r') \<Rightarrow>
               if resp_Close response \<or> State (sr_Connection r') = ConnectionStateClosing then (Inr (), r')
               else serveLoop put handler ctx (n + 1) r'))"
  by pat_completeness auto
termination
  by (relation "measure (\<lambda>(put, handler, ctx, n, r). unread r)") (auto dest: ServeNextCommand_unread [OF sym])

declare serveLoop.simps [simp del]

definition Serve ::
  "'w put \<Rightarrow> 'h handler option \<Rightarrow> Authenticator \<Rightarrow> (nat \<Rightarrow> string option) \<Rightarrow> ('w, 'h) SessionRunner \<Rightarrow>
     (session_error, unit) res \<times> ('w, 'h) SessionRunner" where
  "Serve put handler authenticator ctx r =
     (case SendHandshake put (ctx 0 \<noteq> None) r of
        (Inl e, r) \<Rightarrow> (Inl e, r)
      | (Inr _, r) \<Rightarrow>
          (case AcceptHandshakeResponse put authenticator (ctx 1) r of
             (Inl e, r) \<Rightarrow> (Inl e, r)
           | (Inr authResponse, r) \<Rightarrow>
               if resp_Kind authResponse = CommandResponseError then
                 (Inr (), r\<lparr>sr_Connection := WithClosing (sr_Connection r)\<rparr>)
               else serveLoop put handler ctx 2 r))"

section \<open>No panics\<close>

lemma no_panic_Inl [simp]: "no_panic (Inl e) \<longleftrightarrow> e \<noteq> Panic"
  by (cases e) (auto simp: no_panic_def)

lemma wrapErr_Panic [simp]: "wrapErr h (Inl e) = Inl Panic \<longleftrightarrow> e = Panic"
  by (cases e) auto

lemma no_panic_wrapErr_iff [simp]: "no_panic (wrapErr h r) \<longleftrightarrow> no_panic r"
  by (cases r) (auto simp: no_panic_def)

lemma no_panic_HandshakeV10_Payload: "no_panic (HandshakeV10_Payload h)"
  unfolding HandshakeV10_Payload_def Let_def by (intro no_panic_intros) (auto dest!: slice_length)

lemma no_panic_EncodePacket: "no_panic (EncodePacket p)"
  by (simp add: EncodePacket_def Let_def)

lemma no_panic_ReadPacket: "no_panic (ReadPacket ctxErr rd)"
proof -
  have r: "no_panic (ReadFull bs n)" for bs n by (simp add: ReadFull_def)
  have l: "ReadFull bs n = Inr (x, y) \<Longrightarrow> length x = n" for bs n x y by (auto simp: ReadFull_def split: if_splits)
  show ?thesis unfolding ReadPacket_def Let_def
    by (intro no_panic_intros r) (auto simp: PacketHeaderLength_def dest: l)
qed

lemma no_panic_WritePacket: "no_panic (fst (WritePacket put ctxErr w p))"
  using no_panic_EncodePacket [of p] by (auto simp: WritePacket_def split: option.split sum.split prod.split)

lemma no_panic_writeResponsePackets: "no_panic (fst (writeResponsePackets put ctxErr w ps))"
proof (induction ps arbitrary: w)
  case (Cons p ps)
  then show ?case using no_panic_WritePacket [of put ctxErr w p] by (auto split: prod.split sum.split)
qed simp

lemma no_panic_write_response: "no_panic (fst (write_response put ctxErr s resp))"
  using no_panic_writeResponsePackets [of put ctxErr "Writer s" "Packets resp"]
  by (auto simp: write_response_def split: prod.split sum.split)

lemma no_panic_ServeNext:
  assumes "\<And>h c. no_panic (fst (handler h c))"
  shows "no_panic (fst (ServeNext put handler ctxErr c s h))"
proof -
  have "x \<noteq> Inl Panic" if "handler h c = (x, h')" for h c x h'
    using assms [of h c] that by auto
  moreover have "DecodeCommand p \<noteq> Inl Panic" for p using no_panic_DecodeCommand [of p] by auto
  moreover have "no_panic x" if "write_response put ctxErr s resp = (x, s')" for s resp x s'
    using no_panic_write_response [of put ctxErr s resp] that by simp
  ultimately show ?thesis using no_panic_ReadPacket [of ctxErr "Reader s"]
    by (fastforce simp: ServeNext_def Let_def split: sum.split fault.split prod.split)
qed

lemma no_panic_SendHandshake: "no_panic (fst (SendHandshake put ctxErr r))"
proof -
  have "no_panic (bindR (HandshakeV10_Payload (sr_Handshake r)) (\<lambda>payload.
      bindR (WithHandshakeSent (sr_Connection r)) (\<lambda>c. Inr (payload, c))))"
    by (intro no_panic_bindR no_panic_HandshakeV10_Payload) (simp_all add: WithHandshakeSent_def)
  moreover have "no_panic x" if "WritePacket put ctxErr w p = (x, w')" for w p x w'
    using no_panic_WritePacket [of put ctxErr w p] that by simp
  ultimately show ?thesis
    by (fastforce simp: SendHandshake_def split: option.split sum.split prod.split)
qed

section \<open>The outcome of authentication\<close>

text \<open>The decision on the client's first packet, if the client sent one that decodes.\<close>

definition client_decision ::
  "Authenticator \<Rightarrow> string option \<Rightarrow> ('w, 'h) SessionRunner \<Rightarrow> (Packet \<times> byte list \<times> HandshakeResponse41 \<times> AuthDecision) option" where
  "client_decision authenticator ctx r =
     (case sr_Stream r of
        None \<Rightarrow> None
      | Some stream \<Rightarrow>
          (case ReadPacket (ctx \<noteq> None) (Reader stream) of
             Inl _ \<Rightarrow> None
           | Inr (packet, rd) \<Rightarrow>
               (case DecodeHandshakeResponse41 (Payload packet) of
                  Inl _ \<Rightarrow> None
                | Inr response \<Rightarrow>
                    (case authenticator ctx (authRequestFromHandshake (conn_ID (sr_Connection r))
                            (with_plugin (sr_Handshake r) response) (AuthPluginData (sr_Handshake r))) of
                       Inl _ \<Rightarrow> None
                     | Inr d \<Rightarrow> Some (packet, rd, response, d)))))"

lemma conn_ID_Accept: "Connection_AcceptHandshakeResponse c resp = Inr c' \<Longrightarrow> conn_ID c' = conn_ID c"
  by (auto simp: Connection_AcceptHandshakeResponse_def split: if_splits)

lemma State_Accept: "Connection_AcceptHandshakeResponse c resp = Inr c' \<Longrightarrow>
    State c = ConnectionStateHandshakeSent \<and> State c' = ConnectionStateAuthPending"
  by (auto simp: Connection_AcceptHandshakeResponse_def split: if_splits)

lemma write_response_Inr: "write_response put ctxErr s resp = (Inr x, s') \<Longrightarrow> x = resp"
  by (auto simp: write_response_def wrapErr_Inr_iff split: prod.splits sum.splits)

lemma resp_Kind_AuthSuccess [simp]: "resp_Kind (AuthSuccessResponse pl caps) = CommandResponseOK"
  by (simp add: AuthSuccessResponse_def WithCapabilities_def StatementOKResponse_def new_response_def Let_def)

lemma resp_Kind_Error [simp]: "resp_Kind (ErrorResponse e) = CommandResponseError"
  by (simp add: ErrorResponse_def new_response_def)

lemma AcceptHandshakeResponse_Inl:
  "AcceptHandshakeResponse put authenticator ctx r = (Inl e, r') \<Longrightarrow>
     sr_Connection r' = sr_Connection r \<and> sr_Handler r' = sr_Handler r \<and> sr_Handshake r' = sr_Handshake r"
  by (auto simp: AcceptHandshakeResponse_def Let_def split: option.splits sum.splits prod.splits if_splits)

lemma AcceptHandshakeResponse_Inr:
  assumes acc: "AcceptHandshakeResponse put authenticator ctx r = (Inr resp, r')"
  obtains stream packet rd response d c stream'
  where "sr_Stream r = Some stream" "client_decision authenticator ctx r = Some (packet, rd, response, d)"
    "Connection_AcceptHandshakeResponse (sr_Connection r) (with_plugin (sr_Handshake r) response) = Inr c"
    "write_response put (ctx \<noteq> None) (stream\<lparr>Reader := Some rd\<rparr>) resp = (Inr resp, stream')"
    "sr_Stream r' = Some stream'" "sr_Handler r' = sr_Handler r" "sr_Handshake r' = sr_Handshake r"
    "if Accepted d
     then resp_Kind resp = CommandResponseOK \<and>
       sr_Connection r' = c\<lparr>conn_Username := dec_Username d, conn_Database := dec_Database d, conn_Roles := dec_Roles d,
         conn_AuthPluginName := dec_AuthPluginName d, State := ConnectionStateReady\<rparr>
     else resp = (ErrorResponse (Failure d))\<lparr>Packets := clonePacketsWithSequence [ERRPacket 1 (Failure d)] (SequenceID packet + 1)\<rparr> \<and>
       sr_Connection r' = c"
proof -
  from acc obtain stream where s: "sr_Stream r = Some stream"
    by (auto simp: AcceptHandshakeResponse_def split: option.splits)
  from acc s obtain packet rd where p: "ReadPacket (ctx \<noteq> None) (Reader stream) = Inr (packet, rd)"
    by (cases "ReadPacket (ctx \<noteq> None) (Reader stream)") (auto simp: AcceptHandshakeResponse_def wrapErr_Inr_iff)
  let ?b = "bindR (DecodeHandshakeResponse41 (Payload packet)) (\<lambda>response.
      bindR (Connection_AcceptHandshakeResponse (sr_Connection r) (with_plugin (sr_Handshake r) response)) (\<lambda>connection.
      bindR (authenticator ctx (authRequestFromHandshake (conn_ID connection) (with_plugin (sr_Handshake r) response)
        (AuthPluginData (sr_Handshake r)))) (\<lambda>decision. Inr (connection, decision))))"
  from acc s p obtain c d where b: "?b = Inr (c, d)"
    by (cases ?b) (auto simp: AcceptHandshakeResponse_def wrapErr_Inr_iff Let_def)
  then obtain response where resp: "DecodeHandshakeResponse41 (Payload packet) = Inr response"
    and c: "Connection_AcceptHandshakeResponse (sr_Connection r) (with_plugin (sr_Handshake r) response) = Inr c"
    and d: "authenticator ctx (authRequestFromHandshake (conn_ID c) (with_plugin (sr_Handshake r) response)
        (AuthPluginData (sr_Handshake r))) = Inr d"
    by (auto simp: bindR_Inr_iff)
  have cd: "client_decision authenticator ctx r = Some (packet, rd, response, d)"
    using s p resp d conn_ID_Accept [OF c] by (simp add: client_decision_def)
  show thesis
  proof (cases "Accepted d")
    case True
    let ?c = "c\<lparr>conn_Username := dec_Username d, conn_Database := dec_Database d, conn_Roles := dec_Roles d,
         conn_AuthPluginName := dec_AuthPluginName d\<rparr>"
    let ?a = "AuthSuccessResponse (conn_AuthPluginName ?c) (conn_CapabilityFlags ?c)"
    let ?r = "?a\<lparr>Packets := clonePacketsWithSequence (Packets ?a) (SequenceID packet + 1)\<rparr>"
    from True acc s p b State_Accept [OF c] obtain stream' where
      w: "write_response put (ctx \<noteq> None) (stream\<lparr>Reader := Some rd\<rparr>) ?r = (Inr resp, stream')"
      and r': "r' = r\<lparr>sr_Stream := Some stream', sr_Connection := ?c\<lparr>State := ConnectionStateReady\<rparr>\<rparr>"
      by (auto simp: AcceptHandshakeResponse_def AcceptPermissiveAuth_def Let_def split: prod.splits sum.splits)
    from write_response_Inr [OF w] have "resp = ?r" .
    with w r' True show thesis by (intro that [OF s cd c]) simp_all
  next
    case False
    let ?e = "ErrorResponse (Failure d)"
    let ?r = "?e\<lparr>Packets := clonePacketsWithSequence (Packets ?e) (SequenceID packet + 1)\<rparr>"
    from False acc s p b obtain stream' where
      w: "write_response put (ctx \<noteq> None) (stream\<lparr>Reader := Some rd\<rparr>) ?r = (Inr resp, stream')"
      and r': "r' = r\<lparr>sr_Stream := Some stream', sr_Connection := c\<rparr>"
      by (auto simp: AcceptHandshakeResponse_def Let_def split: prod.splits sum.splits)
    from write_response_Inr [OF w] have "resp = ?r" .
    with w r' False show thesis by (intro that [OF s cd c]) (simp_all add: ErrorResponse_def)
  qed
qed

lemma no_panic_AcceptHandshakeResponse:
  assumes auth: "\<And>ctx q. no_panic (authenticator ctx q)"
  shows "no_panic (fst (AcceptHandshakeResponse put authenticator ctx r))"
proof -
  have b: "no_panic (bindR (DecodeHandshakeResponse41 p) (\<lambda>response.
      let response = with_plugin hs response in
      bindR (Connection_AcceptHandshakeResponse c response) (\<lambda>connection.
      bindR (authenticator ctx (authRequestFromHandshake (conn_ID connection) response data)) (\<lambda>decision.
        Inr (connection, decision)))))" for p hs c data
    unfolding Let_def
    by (intro no_panic_bindR auth no_panic_Inr no_panic_DecodeHandshakeResponse41)
      (simp add: Connection_AcceptHandshakeResponse_def)
  have w: "e \<noteq> Panic" if "write_response put ctxErr s resp = (Inl e, s')" for ctxErr s resp e s'
    using no_panic_write_response [of put ctxErr s resp] that by simp
  have a: "e \<noteq> Panic" if "AcceptPermissiveAuth c = Inl e" for c e
    using that by (auto simp: AcceptPermissiveAuth_def split: if_splits)
  show ?thesis
  proof (cases "sr_Stream r")
    case s: (Some stream)
    show ?thesis
    proof (cases "ReadPacket (ctx \<noteq> None) (Reader stream)")
      case (Inl e)
      then show ?thesis using no_panic_ReadPacket [of "ctx \<noteq> None" "Reader stream"] s
        by (simp add: AcceptHandshakeResponse_def)
    next
      case (Inr pr)
      then obtain packet rd where p: "ReadPacket (ctx \<noteq> None) (Reader stream) = Inr (packet, rd)" by (cases pr) simp
      let ?b = "bindR (DecodeHandshakeResponse41 (Payload packet)) (\<lambda>response.
        let response = with_plugin (sr_Handshake r) response in
        bindR (Connection_AcceptHandshakeResponse (sr_Connection r) response) (\<lambda>connection.
        bindR (authenticator ctx (authRequestFromHandshake (conn_ID connection) response (AuthPluginData (sr_Handshake r))))
          (\<lambda>decision. Inr (connection, decision))))"
      show ?thesis
      proof (cases ?b)
        case (Inl e)
        with b [of "Payload packet" "sr_Handshake r" "sr_Connection r" "AuthPluginData (sr_Handshake r)"]
        have "no_panic (Inl e :: (string, Connection \<times> AuthDecision) res)" by (simp only:)
        then have "e \<noteq> Panic" by simp
        then show ?thesis using s p Inl by (simp add: AcceptHandshakeResponse_def Let_def)
      next
        case (Inr cd)
        then show ?thesis using s p w a
          by (cases cd) (simp add: AcceptHandshakeResponse_def Let_def split: prod.split sum.split)
      qed
    qed
  qed (simp add: AcceptHandshakeResponse_def)
qed

lemma no_panic_ServeNextCommand:
  assumes "\<And>h c. no_panic (fst (handler h c))"
  shows "no_panic (fst (ServeNextCommand put (Some handler) ctxErr r))"
proof -
  have "x \<noteq> Inl Panic" if "ServeNext put handler ctxErr c s h = (x, y)" for c s h x y
    using no_panic_ServeNext [of handler put ctxErr c s h, OF assms] that by auto
  then show ?thesis
    by (fastforce simp: ServeNextCommand_def Let_def split: option.split prod.split sum.split)
qed

lemma no_panic_serveLoop:
  assumes "\<And>h c. no_panic (fst (handler h c))"
  shows "no_panic (fst (serveLoop put (Some handler) ctx n r))"
proof (induction put "Some handler" ctx n r rule: serveLoop.induct)
  case (1 put ctx n r)
  show ?case
  proof (cases "ctx n")
    case None
    obtain x r' where s: "ServeNextCommand put (Some handler) False r = (x, r')" by fastforce
    have "no_panic x" using no_panic_ServeNextCommand [of handler put False r, OF assms] s by simp
    then show ?thesis
      using None s "1.hyps" [OF None s [symmetric]] by (subst serveLoop.simps) (auto split: sum.split)
  qed (subst serveLoop.simps, simp)
qed

section \<open>The handler's view\<close>

text \<open>A command carries the identity of the connection it arrived on.\<close>

definition carries :: "Connection \<Rightarrow> Command \<Rightarrow> bool" where
  "carries c cmd \<longleftrightarrow> cmd_ConnectionID cmd = conn_ID c \<and> cmd_Username cmd = conn_Username c \<and>
     cmd_Database cmd = conn_Database c \<and> cmd_Roles cmd = conn_Roles c"

lemma ServeNext_cong:
  assumes "\<And>h cmd. carries c cmd \<Longrightarrow> f h cmd = g h cmd"
  shows "ServeNext put f ctxErr c s h = ServeNext put g ctxErr c s h"
proof -
  have "f h (cmd\<lparr>cmd_ConnectionID := conn_ID c, cmd_Username := conn_Username c,
      cmd_Database := conn_Database c, cmd_Roles := conn_Roles c\<rparr>) =
    g h (cmd\<lparr>cmd_ConnectionID := conn_ID c, cmd_Username := conn_Username c,
      cmd_Database := conn_Database c, cmd_Roles := conn_Roles c\<rparr>)" for h cmd
    by (rule assms) (simp add: carries_def)
  then show ?thesis unfolding ServeNext_def Let_def by (simp only:)
qed

lemma ServeNextCommand_Connection:
  "ServeNextCommand put handler ctxErr r = (x, r') \<Longrightarrow>
     sr_Handshake r' = sr_Handshake r \<and>
     (sr_Connection r' = sr_Connection r \<or>
      State (sr_Connection r) = ConnectionStateReady \<and> sr_Connection r' = WithClosing (sr_Connection r))"
  by (auto simp: ServeNextCommand_def CanAcceptCommand_def Let_def split: option.splits prod.splits sum.splits if_splits)

lemma carries_WithClosing [simp]: "carries (WithClosing c) cmd = carries c cmd"
  by (simp add: carries_def WithClosing_def)

lemma serveLoop_cong:
  assumes "\<And>h cmd. carries (sr_Connection r) cmd \<Longrightarrow> f h cmd = g h cmd"
  shows "serveLoop put (Some f) ctx n r = serveLoop put (Some g) ctx n r"
  using assms
proof (induction put "Some f" ctx n r rule: serveLoop.induct)
  case (1 put ctx n r)
  have eq: "ServeNextCommand put (Some f) False r = ServeNextCommand put (Some g) False r"
    using ServeNext_cong [of "sr_Connection r" f g put False] "1.prems"
    by (simp add: ServeNextCommand_def split: option.split)
  show ?case
  proof (cases "ctx n")
    case None
    obtain x r' where s: "ServeNextCommand put (Some f) False r = (x, r')" by fastforce
    have "carries (sr_Connection r') cmd = carries (sr_Connection r) cmd" for cmd
      using ServeNextCommand_Connection [OF s] by auto
    then show ?thesis
      using None s eq "1.hyps" [OF None s [symmetric]] "1.prems"
      by (subst (1 2) serveLoop.simps) (auto split: sum.split)
  qed (subst (1 2) serveLoop.simps, simp)
qed

lemma SendHandshake_state:
  assumes "SendHandshake put ctxErr r = (x, r')"
  shows "sr_Handshake r' = sr_Handshake r \<and> sr_Handler r' = sr_Handler r \<and> conn_ID (sr_Connection r') = conn_ID (sr_Connection r) \<and>
     (sr_Connection r' = sr_Connection r \<or>
      State (sr_Connection r) = ConnectionStateNew \<and>
      sr_Connection r' = (sr_Connection r)\<lparr>State := ConnectionStateHandshakeSent\<rparr>) \<and>
     map_option Reader (sr_Stream r') = map_option Reader (sr_Stream r)"
proof (cases "sr_Stream r")
  case (Some s)
  show ?thesis
    using assms Some
    by (auto simp: SendHandshake_def bindR_Inr_iff WithHandshakeSent_def split: sum.splits prod.splits if_splits)
qed (use assms in \<open>simp add: SendHandshake_def\<close>)

lemma client_decision_SendHandshake:
  assumes "SendHandshake put ctxErr r = (x, r')"
  shows "client_decision authenticator ctx r' = client_decision authenticator ctx r"
proof -
  have eqs: "conn_ID (sr_Connection r') = conn_ID (sr_Connection r)" "sr_Handshake r' = sr_Handshake r"
    and "map_option Reader (sr_Stream r') = map_option Reader (sr_Stream r)"
    using SendHandshake_state [OF assms] by simp_all
  then show ?thesis unfolding client_decision_def eqs by (auto split: option.split)
qed

section \<open>Every order of calls\<close>

text \<open>The methods of a runner in any order, with any outcome of the writes and any state of the context.\<close>

inductive runner_step :: "'w put \<Rightarrow> 'h handler option \<Rightarrow> Authenticator \<Rightarrow> ('w, 'h) SessionRunner \<Rightarrow> ('w, 'h) SessionRunner \<Rightarrow> bool"
  for put handler authenticator where
  send: "SendHandshake put ctxErr r = (x, r') \<Longrightarrow> runner_step put handler authenticator r r'"
| accept: "AcceptHandshakeResponse put authenticator ctx r = (y, r') \<Longrightarrow> runner_step put handler authenticator r r'"
| serve: "ServeNextCommand put handler ctxErr r = (y, r') \<Longrightarrow> runner_step put handler authenticator r r'"
| close: "runner_step put handler authenticator r (r\<lparr>sr_Connection := WithClosing (sr_Connection r)\<rparr>)"

inductive reachable :: "'w put \<Rightarrow> 'h handler option \<Rightarrow> Authenticator \<Rightarrow> ('w, 'h) SessionRunner \<Rightarrow> ('w, 'h) SessionRunner \<Rightarrow> bool"
  for put handler authenticator r0 where
  start: "reachable put handler authenticator r0 r0"
| step: "reachable put handler authenticator r0 r \<Longrightarrow> runner_step put handler authenticator r r' \<Longrightarrow>
    reachable put handler authenticator r0 r'"

fun rank :: "ConnectionState \<Rightarrow> nat" where
  "rank ConnectionStateNew = 0"
| "rank ConnectionStateHandshakeSent = 1"
| "rank ConnectionStateAuthPending = 2"
| "rank ConnectionStateReady = 3"
| "rank ConnectionStateClosing = 4"

text \<open>The connection's identity is one the authenticator granted for this connection and this scramble.\<close>

definition granted :: "Authenticator \<Rightarrow> ('w, 'h) SessionRunner \<Rightarrow> bool" where
  "granted authenticator r \<longleftrightarrow>
     (\<exists>ctx q d. authenticator ctx q = Inr d \<and> Accepted d \<and>
        req_ConnectionID q = conn_ID (sr_Connection r) \<and> req_AuthPluginData q = AuthPluginData (sr_Handshake r) \<and>
        conn_Username (sr_Connection r) = dec_Username d \<and> conn_Database (sr_Connection r) = dec_Database d \<and>
        conn_Roles (sr_Connection r) = dec_Roles d)"

lemma client_decision_Some:
  assumes "client_decision authenticator ctx r = Some (packet, rd, response, d)"
  shows "authenticator ctx (authRequestFromHandshake (conn_ID (sr_Connection r)) (with_plugin (sr_Handshake r) response)
      (AuthPluginData (sr_Handshake r))) = Inr d"
  using assms by (auto simp: client_decision_def split: option.splits sum.splits prod.splits)

lemma accept_granted:
  assumes "AcceptHandshakeResponse put authenticator ctx r = (y, r')"
  shows "sr_Connection r' = sr_Connection r \<and> sr_Handshake r' = sr_Handshake r \<or>
     State (sr_Connection r) = ConnectionStateHandshakeSent \<and>
     (State (sr_Connection r') = ConnectionStateAuthPending \<or>
      State (sr_Connection r') = ConnectionStateReady \<and> granted authenticator r')"
proof (cases y)
  case (Inl e)
  with assms AcceptHandshakeResponse_Inl show ?thesis by blast
next
  case (Inr resp)
  with assms have "AcceptHandshakeResponse put authenticator ctx r = (Inr resp, r')" by simp
  then show ?thesis
  proof (rule AcceptHandshakeResponse_Inr)
    fix stream packet rd response d c stream'
    assume cd: "client_decision authenticator ctx r = Some (packet, rd, response, d)"
      and c: "Connection_AcceptHandshakeResponse (sr_Connection r) (with_plugin (sr_Handshake r) response) = Inr c"
      and h: "sr_Handshake r' = sr_Handshake r"
      and k: "if Accepted d
         then resp_Kind resp = CommandResponseOK \<and>
           sr_Connection r' = c\<lparr>conn_Username := dec_Username d, conn_Database := dec_Database d, conn_Roles := dec_Roles d,
             conn_AuthPluginName := dec_AuthPluginName d, State := ConnectionStateReady\<rparr>
         else resp = (ErrorResponse (Failure d))\<lparr>Packets := clonePacketsWithSequence [ERRPacket 1 (Failure d)] (SequenceID packet + 1)\<rparr> \<and>
           sr_Connection r' = c"
    show ?thesis
    proof (cases "Accepted d")
      case True
      with k client_decision_Some [OF cd] h have "granted authenticator r'"
        using conn_ID_Accept [OF c]
        unfolding granted_def
        by (intro exI [of _ ctx] exI [of _ "authRequestFromHandshake (conn_ID (sr_Connection r))
              (with_plugin (sr_Handshake r) response) (AuthPluginData (sr_Handshake r))"] exI [of _ d])
          (simp add: authRequestFromHandshake_def)
      with True k State_Accept [OF c] show ?thesis by simp
    next
      case False
      with k State_Accept [OF c] show ?thesis by simp
    qed
  qed
qed

lemma runner_step_rank:
  assumes "runner_step put handler authenticator r r'"
  shows "rank (State (sr_Connection r)) \<le> rank (State (sr_Connection r'))"
  using assms
proof cases
  case (send ctxErr x)
  from SendHandshake_state [OF send] show ?thesis by auto
next
  case (accept ctx y)
  from accept_granted [OF accept] show ?thesis by auto
next
  case (serve ctxErr y)
  from ServeNextCommand_Connection [OF serve] show ?thesis by (auto simp: WithClosing_def)
next
  case close
  then show ?thesis by (cases "State (sr_Connection r)") (simp_all add: WithClosing_def)
qed

lemma runner_step_granted:
  assumes step: "runner_step put handler authenticator r r'"
    and inv: "State (sr_Connection r) = ConnectionStateReady \<longrightarrow> granted authenticator r"
  shows "State (sr_Connection r') = ConnectionStateReady \<longrightarrow> granted authenticator r'"
proof -
  have same: ?thesis if "sr_Connection r' = sr_Connection r" "sr_Handshake r' = sr_Handshake r"
    using inv that by (simp add: granted_def)
  from step show ?thesis
  proof cases
    case (send ctxErr x)
    from SendHandshake_state [OF send] consider "sr_Connection r' = sr_Connection r" "sr_Handshake r' = sr_Handshake r" |
      "State (sr_Connection r') = ConnectionStateHandshakeSent" by auto
    then show ?thesis using same by cases simp_all
  next
    case (accept ctx y)
    from accept_granted [OF accept] show ?thesis using same by auto
  next
    case (serve ctxErr y)
    from ServeNextCommand_Connection [OF serve] consider "sr_Connection r' = sr_Connection r" "sr_Handshake r' = sr_Handshake r" |
      "sr_Connection r' = WithClosing (sr_Connection r)" by auto
    then show ?thesis using same by cases (simp_all add: WithClosing_def)
  next
    case close
    then show ?thesis by (simp add: WithClosing_def)
  qed
qed

lemma reachable_granted:
  assumes "reachable put handler authenticator r0 r" "State (sr_Connection r0) = ConnectionStateNew"
  shows "State (sr_Connection r) = ConnectionStateReady \<longrightarrow> granted authenticator r"
  using assms(1)
proof induction
  case start
  then show ?case using assms(2) by simp
next
  case (step r r')
  then show ?case using runner_step_granted by blast
qed

lemma State_NewSessionRunner [simp]:
  "State (sr_Connection (NewSessionRunner version i data hs stream h)) = ConnectionStateNew"
  by (simp add: NewSessionRunner_def NewConnection_def Let_def)

section \<open>Accepted and rejected clients\<close>

lemma AuthSuccess_packets:
  "Packets (AuthSuccessResponse pl caps) =
     [\<lparr>SequenceID = 1, Payload = OKPayloadWithCapabilities empty_statement caps\<rparr>]"
  by (simp add: AuthSuccessResponse_def WithCapabilities_def StatementOKResponse_def new_response_def Let_def
      OKPacket_def OKPacketWithCapabilities_def)

lemma length_OKPayload_empty: "length (OKPayloadWithCapabilities empty_statement caps) \<le> 8"
  by (simp add: OKPayloadWithCapabilities_def empty_statement_def Let_def appendLengthEncodedInteger_def
      encodeLengthEncodedInteger_def appendUint16LE_def appendLengthEncodedString_def bytes_of_string_def)

definition auth_ok_packet :: "Packet \<Rightarrow> CapabilityFlag \<Rightarrow> Packet" where
  "auth_ok_packet packet caps =
     \<lparr>SequenceID = SequenceID packet + 1, Payload = OKPayloadWithCapabilities empty_statement caps\<rparr>"

lemma SendHandshake_greets:
  assumes r: "sr_Stream r = Some \<lparr>Reader = rd, Writer = Some c\<rparr>" "State (sr_Connection r) = ConnectionStateNew"
    and p: "HandshakeV10_Payload (sr_Handshake r) = Inr p" "length p \<le> MaxPayloadLength" "length p + 4 \<le> room c"
  obtains c1 enc r1 where "EncodePacket \<lparr>SequenceID = 0, Payload = p\<rparr> = Inr enc" "sent c1 = sent c @ enc"
    "room c1 = room c - (length p + 4)" "SendHandshake conn_write False r = (Inr (), r1)"
    "sr_Stream r1 = Some \<lparr>Reader = rd, Writer = Some c1\<rparr>" "State (sr_Connection r1) = ConnectionStateHandshakeSent"
    "sr_Handler r1 = sr_Handler r"
proof -
  obtain c1 where c1: "WritePacket conn_write False (Some c) \<lparr>SequenceID = 0, Payload = p\<rparr> = (Inr (), Some c1)"
      "room c1 = room c - (length p + 4)"
    using conn_write_fits [of "\<lparr>SequenceID = 0, Payload = p\<rparr>" c] p(2,3)
    by (auto simp: packet_size_def PacketHeaderLength_def add.commute)
  from conn_sink.WritePacket_Inr [OF c1(1)] obtain enc
    where "EncodePacket \<lparr>SequenceID = 0, Payload = p\<rparr> = Inr enc" "sent c1 = sent c @ enc" by auto
  with c1 r p(1) show thesis
    by (intro that [of enc c1 "r\<lparr>sr_Stream := Some \<lparr>Reader = rd, Writer = Some c1\<rparr>,
          sr_Connection := (sr_Connection r)\<lparr>State := ConnectionStateHandshakeSent\<rparr>\<rparr>"])
      (simp_all add: SendHandshake_def WithHandshakeSent_def)
qed

lemma AcceptHandshakeResponse_accepts:
  assumes r: "sr_Stream r = Some \<lparr>Reader = Some bs, Writer = Some c\<rparr>"
      "State (sr_Connection r) = ConnectionStateHandshakeSent" "12 \<le> room c"
    and cd: "client_decision authenticator None r = Some (packet, rd, response, d)" "Accepted d"
  obtains c2 enc r2 where "EncodePacket (auth_ok_packet packet (hr_CapabilityFlags response)) = Inr enc"
    "sent c2 = sent c @ enc" "sr_Stream r2 = Some \<lparr>Reader = Some rd, Writer = Some c2\<rparr>"
    "State (sr_Connection r2) = ConnectionStateReady" "conn_Username (sr_Connection r2) = dec_Username d"
    "conn_Database (sr_Connection r2) = dec_Database d" "conn_Roles (sr_Connection r2) = dec_Roles d"
    "conn_ID (sr_Connection r2) = conn_ID (sr_Connection r)" "sr_Handler r2 = sr_Handler r"
    "\<exists>resp. AcceptHandshakeResponse conn_write authenticator None r = (Inr resp, r2) \<and> resp_Kind resp = CommandResponseOK"
proof -
  let ?resp = "with_plugin (sr_Handshake r) response"
  let ?ok = "auth_ok_packet packet (hr_CapabilityFlags response)"
  from cd(1) r(1) have rp: "ReadPacket False (Some bs) = Inr (packet, rd)" "DecodeHandshakeResponse41 (Payload packet) = Inr response"
    "authenticator None (authRequestFromHandshake (conn_ID (sr_Connection r)) ?resp (AuthPluginData (sr_Handshake r))) = Inr d"
    by (auto simp: client_decision_def split: sum.splits prod.splits)
  have caps: "hr_CapabilityFlags ?resp = hr_CapabilityFlags response" by (simp add: with_plugin_def)
  have l: "length (Payload ?ok) \<le> 8" by (simp add: auth_ok_packet_def length_OKPayload_empty)
  obtain c2 where c2: "WritePacket conn_write False (Some c) ?ok = (Inr (), Some c2)"
    using conn_write_fits [of ?ok c] l r(3) by (force simp: packet_size_def PacketHeaderLength_def MaxPayloadLength_def)
  from conn_sink.WritePacket_Inr [OF c2] obtain enc where enc: "EncodePacket ?ok = Inr enc" "sent c2 = sent c @ enc" by auto
  show thesis
    by (rule that [OF enc]) (insert r rp cd(2) c2 caps,
      auto simp: AcceptHandshakeResponse_def Connection_AcceptHandshakeResponse_def AcceptPermissiveAuth_def Let_def
        write_response_def AuthSuccess_packets clonePacketsWithSequence_def auth_ok_packet_def)
qed

definition rejection_packet :: "Packet \<Rightarrow> AuthDecision \<Rightarrow> Packet" where
  "rejection_packet packet d = \<lparr>SequenceID = SequenceID packet + 1, Payload = ERRPayload (Failure d)\<rparr>"

lemma AcceptHandshakeResponse_rejects:
  assumes r: "sr_Stream r = Some \<lparr>Reader = Some bs, Writer = Some c\<rparr>"
      "State (sr_Connection r) = ConnectionStateHandshakeSent"
    and fits: "length (ERRPayload (Failure d)) \<le> MaxPayloadLength" "length (ERRPayload (Failure d)) + 4 \<le> room c"
    and cd: "client_decision authenticator None r = Some (packet, rd, response, d)" "\<not> Accepted d"
  obtains c2 enc r2 where "EncodePacket (rejection_packet packet d) = Inr enc"
    "sent c2 = sent c @ enc" "sr_Stream r2 = Some \<lparr>Reader = Some rd, Writer = Some c2\<rparr>" "sr_Handler r2 = sr_Handler r"
    "\<exists>resp. AcceptHandshakeResponse conn_write authenticator None r = (Inr resp, r2) \<and> resp_Kind resp = CommandResponseError"
proof -
  let ?resp = "with_plugin (sr_Handshake r) response"
  from cd(1) r(1) have rp: "ReadPacket False (Some bs) = Inr (packet, rd)" "DecodeHandshakeResponse41 (Payload packet) = Inr response"
    "authenticator None (authRequestFromHandshake (conn_ID (sr_Connection r)) ?resp (AuthPluginData (sr_Handshake r))) = Inr d"
    by (auto simp: client_decision_def split: sum.splits prod.splits)
  obtain c2 where c2: "WritePacket conn_write False (Some c) (rejection_packet packet d) = (Inr (), Some c2)"
    using conn_write_fits [of "rejection_packet packet d" c] fits
    by (force simp: packet_size_def PacketHeaderLength_def rejection_packet_def)
  from conn_sink.WritePacket_Inr [OF c2] obtain enc
    where enc: "EncodePacket (rejection_packet packet d) = Inr enc" "sent c2 = sent c @ enc" by auto
  show thesis
    by (rule that [OF enc]) (insert r rp cd(2) c2,
      auto simp: AcceptHandshakeResponse_def Connection_AcceptHandshakeResponse_def Let_def write_response_def
        ErrorResponse_def new_response_def clonePacketsWithSequence_def rejection_packet_def ERRPacket_def)
qed

subsection \<open>An example client\<close>

definition example_client :: "byte list" where
  "example_client = [37, 0, 0, 1] @ [0, 0x82, 0, 0, 0, 0, 0, 1, 45] @ replicate 23 0 @ bytes_of_string ''ann'' @ [0, 0]"

definition example_runner :: "(conn, unit) SessionRunner" where
  "example_runner =
     NewSessionRunner ''0.1.3'' 7 []
       \<lparr>ServerVersion = [], hs_ConnectionID = 0, AuthPluginData = [], hs_CapabilityFlags = 0, hs_CharacterSet = 0,
        StatusFlags = 0, hs_AuthPluginName = []\<rparr>
       (Some \<lparr>Reader = Some example_client, Writer = Some \<lparr>sent = [], room = 500\<rparr>\<rparr>) ()"

definition example_handler :: "unit handler" where
  "example_handler h c = (Inr (if cmd_Kind c = CommandKindQuit then QuitResponse else PingResponse), h)"

lemma example_greeting:
  "\<exists>p. HandshakeV10_Payload (sr_Handshake example_runner) = Inr p \<and> length p \<le> MaxPayloadLength \<and> length p + 4 \<le> 400"
proof -
  have "case HandshakeV10_Payload (sr_Handshake example_runner) of Inr p \<Rightarrow> length p \<le> 300 | _ \<Rightarrow> False" by code_simp
  then show ?thesis
    by (cases "HandshakeV10_Payload (sr_Handshake example_runner)") (simp_all add: MaxPayloadLength_def)
qed

lemma example_stream: "sr_Stream example_runner = Some \<lparr>Reader = Some example_client, Writer = Some \<lparr>sent = [], room = 500\<rparr>\<rparr>"
  by (simp add: example_runner_def NewSessionRunner_def)

lemma example_read: "ReadPacket False (Some example_client) = Inr (\<lparr>SequenceID = 1, Payload = drop 4 example_client\<rparr>, [])"
proof -
  have "le_bytes 3 37 = [37, 0, 0]" by code_simp
  then have "EncodePacket \<lparr>SequenceID = 1, Payload = drop 4 example_client\<rparr> = Inr example_client"
    by (simp add: EncodePacket_Inr_iff MaxPayloadLength_def example_client_def)
  from ReadPacket_encoded [OF this, of "[]"] show ?thesis by simp
qed

definition example_response :: HandshakeResponse41 where
  "example_response = \<lparr>hr_CapabilityFlags = 0x8200, hr_MaxPacketSize = 0x1000000, hr_CharacterSet = 45,
     hr_Username = ''ann'', hr_AuthResponse = [], hr_Database = [], hr_AuthPluginName = []\<rparr>"

lemma example_decode: "DecodeHandshakeResponse41 (drop 4 example_client) = Inr example_response"
  by code_simp

lemma example_decision:
  assumes "authenticator None (authRequestFromHandshake (conn_ID (sr_Connection example_runner))
      (with_plugin (sr_Handshake example_runner) example_response) (AuthPluginData (sr_Handshake example_runner))) = Inr d"
  shows "client_decision authenticator None example_runner =
    Some (\<lparr>SequenceID = 1, Payload = drop 4 example_client\<rparr>, [], example_response, d)"
  using assms by (simp add: client_decision_def example_stream example_read example_decode)

lemma example_accepted:
  "\<exists>d. client_decision (PermissiveAuthenticator []) None example_runner =
      Some (\<lparr>SequenceID = 1, Payload = drop 4 example_client\<rparr>, [], example_response, d) \<and> Accepted d \<and> dec_Username d = ''ann''"
  using example_decision [of "PermissiveAuthenticator []"]
  by (simp add: PermissiveAuthenticator_def authRequestFromHandshake_def with_plugin_def example_response_def)

lemma example_rejected:
  "\<exists>d. client_decision (RejectingAuthenticator (\<lambda>s. s) []) None example_runner =
      Some (\<lparr>SequenceID = 1, Payload = drop 4 example_client\<rparr>, [], example_response, d) \<and> \<not> Accepted d \<and> length (ERRPayload (Failure d)) \<le> 60"
  using example_decision [of "RejectingAuthenticator (\<lambda>s. s) []"]
  by (simp add: RejectingAuthenticator_def authRequestFromHandshake_def with_plugin_def example_response_def
      ERRPayload_def Let_def appendUint16LE_def length_normalizedSQLState)

section \<open>Properties\<close>

text \<open>C21: as long as the command handler and the authenticator do not panic, no sequence of bytes from a
  client and no failure of the writes makes the session panic, and the session ends once the
  client stops sending.\<close>

theorem Serve_no_panic:
  assumes "\<And>h c. no_panic (fst (handler h c))" and "\<And>ctx q. no_panic (authenticator ctx q)"
  shows "no_panic (fst (Serve put (Some handler) authenticator ctx r))"
proof -
  obtain x r1 where s: "SendHandshake put (ctx 0 \<noteq> None) r = (x, r1)" by fastforce
  have "no_panic x" using no_panic_SendHandshake [of put "ctx 0 \<noteq> None" r] s by simp
  moreover obtain y r2 where a: "AcceptHandshakeResponse put authenticator (ctx 1) r1 = (y, r2)" by fastforce
  moreover have "no_panic y"
    using no_panic_AcceptHandshakeResponse [of authenticator put "ctx 1" r1, OF assms(2)] a by simp
  ultimately show ?thesis
    using s no_panic_serveLoop [of handler put ctx 2 r2, OF assms(1)]
    by (auto simp: Serve_def split: sum.split)
qed

theorem Serve_no_panic_witness:
  "no_panic (fst (Serve conn_write (Some example_handler) (PermissiveAuthenticator []) (\<lambda>_. None) example_runner))"
  by (rule Serve_no_panic) (simp_all add: example_handler_def PermissiveAuthenticator_def split: option.split)

text \<open>C19: the handler is consulted only after the authenticator accepted the client's response, and only
  with commands that carry this connection's id and the user, database and roles of that decision:
  two handlers that agree on such commands cannot be told apart, whatever else they do. In
  particular, when the response is rejected or does not decode, the handler has no influence.\<close>

theorem Serve_handler_gate:
  assumes agree: "\<And>packet rd response d h cmd.
      client_decision authenticator (ctx 1) r = Some (packet, rd, response, d) \<Longrightarrow> Accepted d \<Longrightarrow>
      cmd_ConnectionID cmd = conn_ID (sr_Connection r) \<Longrightarrow> cmd_Username cmd = dec_Username d \<Longrightarrow>
      cmd_Database cmd = dec_Database d \<Longrightarrow> cmd_Roles cmd = dec_Roles d \<Longrightarrow> f h cmd = g h cmd"
  shows "Serve put (Some f) authenticator ctx r = Serve put (Some g) authenticator ctx r"
proof -
  obtain x r1 where s: "SendHandshake put (ctx 0 \<noteq> None) r = (x, r1)" by fastforce
  obtain y r2 where a: "AcceptHandshakeResponse put authenticator (ctx 1) r1 = (y, r2)" by fastforce
  show ?thesis
  proof (cases "\<exists>resp. y = Inr resp \<and> resp_Kind resp \<noteq> CommandResponseError")
    case True
    then obtain resp where resp: "AcceptHandshakeResponse put authenticator (ctx 1) r1 = (Inr resp, r2)"
      and kind: "resp_Kind resp \<noteq> CommandResponseError" using a by auto
    from resp have "serveLoop put (Some f) ctx 2 r2 = serveLoop put (Some g) ctx 2 r2"
    proof (rule AcceptHandshakeResponse_Inr)
      fix stream packet rd response d c stream'
      assume cd: "client_decision authenticator (ctx 1) r1 = Some (packet, rd, response, d)"
        and c: "Connection_AcceptHandshakeResponse (sr_Connection r1) (with_plugin (sr_Handshake r1) response) = Inr c"
        and k: "if Accepted d then resp_Kind resp = CommandResponseOK \<and>
             sr_Connection r2 = c\<lparr>conn_Username := dec_Username d, conn_Database := dec_Database d, conn_Roles := dec_Roles d,
               conn_AuthPluginName := dec_AuthPluginName d, State := ConnectionStateReady\<rparr>
           else resp = (ErrorResponse (Failure d))\<lparr>Packets := clonePacketsWithSequence [ERRPacket 1 (Failure d)] (SequenceID packet + 1)\<rparr> \<and>
             sr_Connection r2 = c"
      have acc: "Accepted d" using k kind by (auto split: if_splits)
      have "conn_ID (sr_Connection r2) = conn_ID (sr_Connection r)"
        using acc k conn_ID_Accept [OF c] SendHandshake_state [OF s] by simp
      moreover have "client_decision authenticator (ctx 1) r = Some (packet, rd, response, d)"
        using cd client_decision_SendHandshake [OF s, of authenticator "ctx 1"] by simp
      ultimately show ?thesis using acc k by (intro serveLoop_cong agree) (simp_all add: carries_def)
    qed
    with s resp kind show ?thesis by (simp add: Serve_def split: sum.split)
  next
    case False
    then show ?thesis using s a by (auto simp: Serve_def split: sum.split)
  qed
qed

theorem Serve_handler_gate_witness:
  "Serve conn_write (Some example_handler) (RejectingAuthenticator (\<lambda>s. s) []) (\<lambda>_. None) example_runner =
   Serve conn_write (Some (\<lambda>h c. (Inl Panic, h))) (RejectingAuthenticator (\<lambda>s. s) []) (\<lambda>_. None) example_runner"
proof -
  have "\<not> Accepted d"
    if "client_decision (RejectingAuthenticator (\<lambda>s. s) []) ctx example_runner = Some (packet, rd, response, d)" for ctx packet rd response d
    using client_decision_Some [OF that] by (auto simp: RejectingAuthenticator_def Let_def split: option.splits)
  then show ?thesis by (intro Serve_handler_gate) blast
qed

text \<open>C23: a client whose credentials are rejected is answered with one ERR packet that carries the next
  sequence id and the failure, after which the session ends in the closing state: nothing more is
  read from the client and the handler is untouched.\<close>

theorem Serve_rejects:
  assumes "sr_Stream r = Some \<lparr>Reader = Some bs, Writer = Some c\<rparr>" "State (sr_Connection r) = ConnectionStateNew"
    and "HandshakeV10_Payload (sr_Handshake r) = Inr p" "length p \<le> MaxPayloadLength"
    and "length (ERRPayload (Failure d)) \<le> MaxPayloadLength" "length p + length (ERRPayload (Failure d)) + 8 \<le> room c"
    and "ctx 0 = None" "ctx 1 = None"
    and "client_decision authenticator None r = Some (packet, rd, response, d)" "\<not> Accepted d"
  shows "\<exists>r' c'. Serve conn_write handler authenticator ctx r = (Inr (), r') \<and>
     State (sr_Connection r') = ConnectionStateClosing \<and> sr_Handler r' = sr_Handler r \<and>
     sr_Stream r' = Some \<lparr>Reader = Some rd, Writer = Some c'\<rparr> \<and>
     read_packets 2 (drop (length (sent c)) (sent c')) =
       Inr ([\<lparr>SequenceID = 0, Payload = p\<rparr>, rejection_packet packet d], [])"
proof -
  have "length p + 4 \<le> room c" using assms(6) by simp
  with assms(1-4) obtain c1 enc r1
    where e1: "EncodePacket \<lparr>SequenceID = 0, Payload = p\<rparr> = Inr enc" "sent c1 = sent c @ enc"
      "room c1 = room c - (length p + 4)"
      and send: "SendHandshake conn_write False r = (Inr (), r1)"
      and r1: "sr_Stream r1 = Some \<lparr>Reader = Some bs, Writer = Some c1\<rparr>"
        "State (sr_Connection r1) = ConnectionStateHandshakeSent" "sr_Handler r1 = sr_Handler r"
    by (rule SendHandshake_greets)
  have cd: "client_decision authenticator None r1 = Some (packet, rd, response, d)"
    using client_decision_SendHandshake [OF send] assms(9) by simp
  have "length (ERRPayload (Failure d)) + 4 \<le> room c1" using e1(3) assms(6) by simp
  with r1(1,2) assms(5) obtain c2 enc2 r2
    where e2: "EncodePacket (rejection_packet packet d) = Inr enc2" "sent c2 = sent c1 @ enc2"
      and r2: "sr_Stream r2 = Some \<lparr>Reader = Some rd, Writer = Some c2\<rparr>" "sr_Handler r2 = sr_Handler r1"
      and "\<exists>resp. AcceptHandshakeResponse conn_write authenticator None r1 = (Inr resp, r2) \<and> resp_Kind resp = CommandResponseError"
    using cd assms(10) by (rule AcceptHandshakeResponse_rejects)
  then obtain resp where acc: "AcceptHandshakeResponse conn_write authenticator None r1 = (Inr resp, r2)"
    "resp_Kind resp = CommandResponseError" by blast
  have "read_packets 2 (enc @ enc2) = Inr ([\<lparr>SequenceID = 0, Payload = p\<rparr>, rejection_packet packet d], [])"
    using read_packets_encoded [of "[\<lparr>SequenceID = 0, Payload = p\<rparr>, rejection_packet packet d]" "[enc, enc2]" "[]"]
      e1(1) e2(1) by (simp add: numeral_2_eq_2)
  then show ?thesis using send acc r1(3) r2 e1(2) e2(2) assms(7,8)
    by (intro exI [of _ "r2\<lparr>sr_Connection := WithClosing (sr_Connection r2)\<rparr>"] exI [of _ c2])
      (simp add: Serve_def WithClosing_def)
qed

theorem Serve_rejects_witness:
  "\<exists>r'. Serve conn_write (Some example_handler) (RejectingAuthenticator (\<lambda>s. s) []) (\<lambda>_. None) example_runner = (Inr (), r') \<and>
     State (sr_Connection r') = ConnectionStateClosing"
proof -
  obtain p where p: "HandshakeV10_Payload (sr_Handshake example_runner) = Inr p" "length p \<le> MaxPayloadLength" "length p + 4 \<le> 400"
    using example_greeting by blast
  obtain d where d: "client_decision (RejectingAuthenticator (\<lambda>s. s) []) None example_runner =
      Some (\<lparr>SequenceID = 1, Payload = drop 4 example_client\<rparr>, [], example_response, d)" "\<not> Accepted d"
      "length (ERRPayload (Failure d)) \<le> 60"
    using example_rejected by blast
  have s: "State (sr_Connection example_runner) = ConnectionStateNew" by (simp add: example_runner_def)
  have "length (ERRPayload (Failure d)) \<le> MaxPayloadLength"
    "length p + length (ERRPayload (Failure d)) + 8 \<le> room \<lparr>sent = [], room = 500\<rparr>"
    using p(3) d(3) by (simp_all add: MaxPayloadLength_def)
  from Serve_rejects [OF example_stream s p(1,2) this _ _ d(1,2), of "\<lambda>_. None" "Some example_handler"]
  show ?thesis by auto
qed

text \<open>C20: whatever order the runner's methods are called in, a connection is ready for commands only with
  an identity that the authenticator granted for this connection id and this scramble, and its
  state never moves backwards.\<close>

theorem runner_ready_granted:
  assumes "reachable put handler authenticator (NewSessionRunner version i data hs stream h) r"
  shows "(State (sr_Connection r) = ConnectionStateReady \<longrightarrow> granted authenticator r) \<and>
     (\<forall>r'. runner_step put handler authenticator r r' \<longrightarrow>
        rank (State (sr_Connection r)) \<le> rank (State (sr_Connection r')))"
proof (intro conjI allI impI)
  assume "State (sr_Connection r) = ConnectionStateReady"
  then show "granted authenticator r" using reachable_granted [OF assms] by simp
qed (rule runner_step_rank)

theorem runner_ready_granted_witness:
  "\<exists>r. reachable conn_write (Some example_handler) (PermissiveAuthenticator []) example_runner r \<and>
     State (sr_Connection r) = ConnectionStateReady \<and> granted (PermissiveAuthenticator []) r"
proof -
  let ?s = "\<lparr>sent = [], room = 500\<rparr>"
  obtain p where p: "HandshakeV10_Payload (sr_Handshake example_runner) = Inr p" "length p \<le> MaxPayloadLength" "length p + 4 \<le> 400"
    using example_greeting by blast
  obtain d where d: "client_decision (PermissiveAuthenticator []) None example_runner =
      Some (\<lparr>SequenceID = 1, Payload = drop 4 example_client\<rparr>, [], example_response, d)" "Accepted d"
    using example_accepted by blast
  have s: "State (sr_Connection example_runner) = ConnectionStateNew" by (simp add: example_runner_def)
  have "length p + 4 \<le> room ?s" using p(3) by simp
  with example_stream s p(1,2) obtain c1 enc r1
    where "EncodePacket \<lparr>SequenceID = 0, Payload = p\<rparr> = Inr enc" "sent c1 = sent ?s @ enc" and e1: "room c1 = room ?s - (length p + 4)"
      and send: "SendHandshake conn_write False example_runner = (Inr (), r1)"
      and r1: "sr_Stream r1 = Some \<lparr>Reader = Some example_client, Writer = Some c1\<rparr>"
        "State (sr_Connection r1) = ConnectionStateHandshakeSent" "sr_Handler r1 = sr_Handler example_runner"
    by (rule SendHandshake_greets)
  have cd: "client_decision (PermissiveAuthenticator []) None r1 =
      Some (\<lparr>SequenceID = 1, Payload = drop 4 example_client\<rparr>, [], example_response, d)"
    using client_decision_SendHandshake [OF send] d(1) by simp
  have "12 \<le> room c1" using e1 p(3) by simp
  with r1(1,2) obtain r2 resp where acc: "AcceptHandshakeResponse conn_write (PermissiveAuthenticator []) None r1 = (Inr resp, r2)"
    and ready: "State (sr_Connection r2) = ConnectionStateReady"
    by (rule AcceptHandshakeResponse_accepts [OF _ _ _ cd d(2)]) blast
  have reach: "reachable conn_write (Some example_handler) (PermissiveAuthenticator []) example_runner r2"
    by (rule reachable.step [OF reachable.step [OF reachable.start runner_step.send [OF send]] runner_step.accept [OF acc]])
  then show ?thesis using runner_ready_granted [OF reach [unfolded example_runner_def]] ready by blast
qed

text \<open>C22: a client that the authenticator accepts, on a connection that takes the bytes, gets the greeting
  and then an OK packet with the next sequence id, and nothing else before its first command; the
  session then serves commands in the ready state under the identity of the decision.\<close>

theorem Serve_accepts:
  assumes "sr_Stream r = Some \<lparr>Reader = Some bs, Writer = Some c\<rparr>" "State (sr_Connection r) = ConnectionStateNew"
    and "HandshakeV10_Payload (sr_Handshake r) = Inr p" "length p \<le> MaxPayloadLength" "length p + 16 \<le> room c"
    and "ctx 0 = None" "ctx 1 = None"
    and "client_decision authenticator None r = Some (packet, rd, response, d)" "Accepted d"
  shows "\<exists>r2 c2. Serve conn_write handler authenticator ctx r = serveLoop conn_write handler ctx 2 r2 \<and>
     State (sr_Connection r2) = ConnectionStateReady \<and> sr_Handler r2 = sr_Handler r \<and>
     conn_Username (sr_Connection r2) = dec_Username d \<and> conn_Database (sr_Connection r2) = dec_Database d \<and>
     conn_Roles (sr_Connection r2) = dec_Roles d \<and>
     sr_Stream r2 = Some \<lparr>Reader = Some rd, Writer = Some c2\<rparr> \<and>
     read_packets 2 (drop (length (sent c)) (sent c2)) =
       Inr ([\<lparr>SequenceID = 0, Payload = p\<rparr>, auth_ok_packet packet (hr_CapabilityFlags response)], [])"
proof -
  have "length p + 4 \<le> room c" using assms(5) by simp
  with assms(1-4) obtain c1 enc r1
    where e1: "EncodePacket \<lparr>SequenceID = 0, Payload = p\<rparr> = Inr enc" "sent c1 = sent c @ enc"
      "room c1 = room c - (length p + 4)"
      and send: "SendHandshake conn_write False r = (Inr (), r1)"
      and r1: "sr_Stream r1 = Some \<lparr>Reader = Some bs, Writer = Some c1\<rparr>"
        "State (sr_Connection r1) = ConnectionStateHandshakeSent" "sr_Handler r1 = sr_Handler r"
    by (rule SendHandshake_greets)
  have cd: "client_decision authenticator None r1 = Some (packet, rd, response, d)"
    using client_decision_SendHandshake [OF send] assms(8) by simp
  have "12 \<le> room c1" using e1(3) assms(5) by simp
  with r1(1,2) obtain c2 enc2 r2
    where e2: "EncodePacket (auth_ok_packet packet (hr_CapabilityFlags response)) = Inr enc2" "sent c2 = sent c1 @ enc2"
      and r2: "sr_Stream r2 = Some \<lparr>Reader = Some rd, Writer = Some c2\<rparr>" "State (sr_Connection r2) = ConnectionStateReady"
        "conn_Username (sr_Connection r2) = dec_Username d" "conn_Database (sr_Connection r2) = dec_Database d"
        "conn_Roles (sr_Connection r2) = dec_Roles d" "sr_Handler r2 = sr_Handler r1"
      and "\<exists>resp. AcceptHandshakeResponse conn_write authenticator None r1 = (Inr resp, r2) \<and> resp_Kind resp = CommandResponseOK"
    using cd assms(9) by (rule AcceptHandshakeResponse_accepts)
  then obtain resp where acc: "AcceptHandshakeResponse conn_write authenticator None r1 = (Inr resp, r2)"
    "resp_Kind resp = CommandResponseOK" by blast
  have "read_packets 2 (enc @ enc2) =
      Inr ([\<lparr>SequenceID = 0, Payload = p\<rparr>, auth_ok_packet packet (hr_CapabilityFlags response)], [])"
    using read_packets_encoded [of "[\<lparr>SequenceID = 0, Payload = p\<rparr>, auth_ok_packet packet (hr_CapabilityFlags response)]"
        "[enc, enc2]" "[]"] e1(1) e2(1) by (simp add: numeral_2_eq_2)
  then show ?thesis using send acc r1(3) r2 e1(2) e2(2) assms(6,7)
    by (intro exI [of _ r2] exI [of _ c2]) (simp add: Serve_def)
qed

theorem Serve_accepts_witness:
  "\<exists>r2. Serve conn_write (Some example_handler) (PermissiveAuthenticator []) (\<lambda>_. None) example_runner =
       serveLoop conn_write (Some example_handler) (\<lambda>_. None) 2 r2 \<and>
     State (sr_Connection r2) = ConnectionStateReady \<and> conn_Username (sr_Connection r2) = ''ann''"
proof -
  obtain p where p: "HandshakeV10_Payload (sr_Handshake example_runner) = Inr p" "length p \<le> MaxPayloadLength" "length p + 4 \<le> 400"
    using example_greeting by blast
  obtain d where d: "client_decision (PermissiveAuthenticator []) None example_runner =
      Some (\<lparr>SequenceID = 1, Payload = drop 4 example_client\<rparr>, [], example_response, d)" "Accepted d" "dec_Username d = ''ann''"
    using example_accepted by blast
  have s: "State (sr_Connection example_runner) = ConnectionStateNew" by (simp add: example_runner_def)
  have "length p + 16 \<le> room \<lparr>sent = [], room = 500\<rparr>" using p(3) by simp
  from Serve_accepts [OF example_stream s p(1,2) this _ _ d(1,2), of "\<lambda>_. None" "Some example_handler"] d(3)
  show ?thesis by auto
qed

end
