(* ===== verification/Go_JSON.thy ===== *)
theory Go_JSON
  imports Go_Strings Go_Time
begin

text \<open>
  What the program uses of Go's \<^verbatim>\<open>encoding/json\<close> for the frames of the write-ahead log: quoting and
  unquoting of strings, the scanner with its nesting limit, the compaction of a raw message,
  indentation, numbers, and the RFC 3339 form of instants. Texts are lists of bytes as characters.
  A raw message that was compacted scans to itself, and a quoted text unquotes to itself when it is
  UTF-8: the encoder writes a byte that is not part of a rune as an escape of U+FFFD.
\<close>

section \<open>UTF-8\<close>

text \<open>The length of the rune at the front of a text, 0 when there is none.\<close>

definition between :: "nat \<Rightarrow> nat \<Rightarrow> char \<Rightarrow> bool" where
  "between lo hi c \<longleftrightarrow> lo \<le> of_char c \<and> (of_char c :: nat) \<le> hi"

fun rune_len :: "string \<Rightarrow> nat" where
  "rune_len [] = 0"
| "rune_len (c # s) =
     (if between 0 0x7F c then 1
      else if between 0xC2 0xDF c then (if list_all (between 0x80 0xBF) (take 1 s) \<and> 1 \<le> length s then 2 else 0)
      else if between 0xE0 0xEF c then
        (if 2 \<le> length s \<and> list_all (between 0x80 0xBF) (take 2 s) \<and>
            (c = CHR 0xE0 \<longrightarrow> between 0xA0 0xBF (s ! 0)) \<and> (c = CHR 0xED \<longrightarrow> between 0x80 0x9F (s ! 0)) then 3 else 0)
      else if between 0xF0 0xF4 c then
        (if 3 \<le> length s \<and> list_all (between 0x80 0xBF) (take 3 s) \<and>
            (c = CHR 0xF0 \<longrightarrow> between 0x90 0xBF (s ! 0)) \<and> (c = CHR 0xF4 \<longrightarrow> between 0x80 0x8F (s ! 0)) then 4 else 0)
      else 0)"

text \<open>\<^verbatim>\<open>utf8.Valid\<close>.\<close>

function utf8_Valid :: "string \<Rightarrow> bool" where
  "utf8_Valid s =
     (if s = [] then True else if rune_len s = 0 then False else utf8_Valid (drop (rune_len s) s))"
  by pat_completeness auto
termination
  by (relation "measure length") auto

declare utf8_Valid.simps [simp del]

text \<open>\<^verbatim>\<open>utf8.EncodeRune\<close>.\<close>

definition utf8_EncodeRune :: "nat \<Rightarrow> string" where
  "utf8_EncodeRune r =
     (if r < 0x80 then [char_of r]
      else if r < 0x800 then [char_of (0xC0 + r div 64), char_of (0x80 + r mod 64)]
      else if r < 0x10000 then [char_of (0xE0 + r div 4096), char_of (0x80 + r div 64 mod 64), char_of (0x80 + r mod 64)]
      else [char_of (0xF0 + r div 262144), char_of (0x80 + r div 4096 mod 64), char_of (0x80 + r div 64 mod 64),
            char_of (0x80 + r mod 64)])"

section \<open>Strings\<close>

abbreviation dquote :: char where "dquote \<equiv> CHR 0x22"
abbreviation bslash :: char where "bslash \<equiv> CHR 0x5C"

definition u_escape :: "nat \<Rightarrow> string" where
  "u_escape n =
     [bslash, CHR ''u'', hex_digit (n div 4096 mod 16), hex_digit (n div 256 mod 16), hex_digit (n div 16 mod 16),
      hex_digit (n mod 16)]"

definition quote_ascii :: "char \<Rightarrow> string" where
  "quote_ascii c =
     (if c = bslash \<or> c = dquote then [bslash, c]
      else if c = CHR 0x08 then [bslash, CHR ''b'']
      else if c = CHR 0x0C then [bslash, CHR ''f'']
      else if c = CHR 0x0A then [bslash, CHR ''n'']
      else if c = CHR 0x0D then [bslash, CHR ''r'']
      else if c = CHR 0x09 then [bslash, CHR ''t'']
      else if between 0 0x1F c \<or> c \<in> {CHR ''<'', CHR ''>'', CHR ''&''} then u_escape (of_char c)
      else [c])"

text \<open>The two line separators U+2028 and U+2029, which the encoder escapes.\<close>

definition line_sep :: "string \<Rightarrow> bool" where
  "line_sep s \<longleftrightarrow> take 3 s = [CHR 0xE2, CHR 0x80, CHR 0xA8] \<or> take 3 s = [CHR 0xE2, CHR 0x80, CHR 0xA9]"

function quote_body :: "string \<Rightarrow> string" where
  "quote_body s =
     (if s = [] then []
      else if between 0 0x7F (hd s) then quote_ascii (hd s) @ quote_body (tl s)
      else if rune_len s = 0 then u_escape 0xFFFD @ quote_body (tl s)
      else if line_sep s then u_escape (0x2020 + of_char (s ! 2) mod 16) @ quote_body (drop 3 s)
      else take (rune_len s) s @ quote_body (drop (rune_len s) s))"
  by pat_completeness auto
termination
  by (relation "measure length") auto

declare quote_body.simps [simp del]

definition quote_string :: "string \<Rightarrow> string" where
  "quote_string s = dquote # quote_body s @ [dquote]"

definition getu4 :: "string \<Rightarrow> nat option" where
  "getu4 s =
     (case s of
        b # u # h1 # h2 # h3 # h4 # _ \<Rightarrow>
          if b = bslash \<and> u = CHR ''u'' then
            (case (hex_val h1, hex_val h2, hex_val h3, hex_val h4) of
               (Some a, Some b, Some c, Some d) \<Rightarrow> Some (4096 * a + 256 * b + 16 * c + d)
             | _ \<Rightarrow> None)
          else None
      | _ \<Rightarrow> None)"

definition is_surrogate :: "nat \<Rightarrow> bool" where
  "is_surrogate r \<longleftrightarrow> 0xD800 \<le> r \<and> r < 0xE000"

text \<open>The rune of a \<^verbatim>\<open>\u\<close> escape, joined with a second one when the two are a surrogate pair, and the
  bytes it takes.\<close>

definition unquote_u :: "nat \<Rightarrow> string \<Rightarrow> nat \<times> nat" where
  "unquote_u r rest =
     (if is_surrogate r then
        (case getu4 rest of
           Some r1 \<Rightarrow>
             if r < 0xDC00 \<and> 0xDC00 \<le> r1 \<and> r1 < 0xE000 then ((r - 0xD800) * 1024 + (r1 - 0xDC00) + 0x10000, 12)
             else (0xFFFD, 6)
         | None \<Rightarrow> (0xFFFD, 6))
      else (r, 6))"

definition unescape :: "char \<Rightarrow> char" where
  "unescape e =
     (if e = CHR ''b'' then CHR 0x08 else if e = CHR ''f'' then CHR 0x0C else if e = CHR ''n'' then CHR 0x0A
      else if e = CHR ''r'' then CHR 0x0D else if e = CHR ''t'' then CHR 0x09 else e)"

text \<open>\<^verbatim>\<open>unquoteBytes\<close> on the text between the quotes of a string that was scanned.\<close>

function unquote :: "string \<Rightarrow> string" where
  "unquote s =
     (if s = [] then []
      else if hd s = bslash then
        (case getu4 s of
           Some r \<Rightarrow> let (r', n) = unquote_u r (drop 6 s) in utf8_EncodeRune r' @ unquote (drop (max 1 n) s)
         | None \<Rightarrow> map unescape (take 1 (tl s)) @ unquote (drop 2 s))
      else if rune_len s = 0 then utf8_EncodeRune 0xFFFD @ unquote (tl s)
      else take (rune_len s) s @ unquote (drop (rune_len s) s))"
  by pat_completeness auto
termination
  by (relation "measure length") auto

declare unquote.simps [simp del]

section \<open>Quoting and unquoting\<close>

lemma rune_len_le: "rune_len s \<le> length s"
  by (cases s) auto

lemma rune_len_ascii [simp]: "between 0 0x7F c \<Longrightarrow> rune_len (c # s) = 1"
  by simp

lemma rune_len_take:
  assumes "rune_len s = n" "n \<noteq> 0"
  shows "rune_len (take n s @ t) = n"
proof -
  obtain c u where s: "s = c # u" using assms by (cases s) auto
  have n: "n = rune_len (c # u)" using assms s by simp
  have l: "n \<le> length s" using rune_len_le assms(1) by blast
  have k: "take k (take (n - 1) u @ t) = take k u" "k \<le> length (take (n - 1) u @ t)" "0 < k \<Longrightarrow> (take (n - 1) u @ t) ! 0 = u ! 0"
    if "k < n" for k
    using that l s by (auto simp: nth_append)
  have t: "take n s @ t = c # (take (n - 1) u @ t)" using assms(2) by (simp add: s take_Cons')
  consider "between 0 0x7F c" "n = 1"
    | "\<not> between 0 0x7F c" "between 0xC2 0xDF c" "n = 2" "list_all (between 0x80 0xBF) (take 1 u)" "1 \<le> length u"
    | "\<not> between 0 0x7F c" "\<not> between 0xC2 0xDF c" "between 0xE0 0xEF c" "n = 3" "2 \<le> length u"
        "list_all (between 0x80 0xBF) (take 2 u)"
        "c = CHR 0xE0 \<longrightarrow> between 0xA0 0xBF (u ! 0)" "c = CHR 0xED \<longrightarrow> between 0x80 0x9F (u ! 0)"
    | "\<not> between 0 0x7F c" "\<not> between 0xC2 0xDF c" "\<not> between 0xE0 0xEF c" "between 0xF0 0xF4 c" "n = 4" "3 \<le> length u"
        "list_all (between 0x80 0xBF) (take 3 u)"
        "c = CHR 0xF0 \<longrightarrow> between 0x90 0xBF (u ! 0)" "c = CHR 0xF4 \<longrightarrow> between 0x80 0x8F (u ! 0)"
    using n assms(2) by (auto split: if_splits)
  then show ?thesis
  proof cases
    case 1
    then show ?thesis unfolding t by simp
  next
    case 2
    with k [of 1] show ?thesis unfolding t rune_len.simps by simp
  next
    case 3
    with k [of 2] show ?thesis unfolding t rune_len.simps by simp
  next
    case 4
    with k [of 3] show ?thesis unfolding t rune_len.simps by simp
  qed
qed

lemma take_rune_hd: "n \<noteq> 0 \<Longrightarrow> s \<noteq> [] \<Longrightarrow> hd (take n s @ t) = hd s \<and> take n s \<noteq> []"
  by (cases s) (simp_all add: take_Cons')

lemma hex_val_nibble [simp]: "hex_val (hex_digit (n mod 16)) = Some (n mod 16)"
  by (rule hex_val_digit) simp

lemma nibbles: "n < 65536 \<Longrightarrow> 4096 * (n div 4096 mod 16) + 256 * (n div 256 mod 16) + 16 * (n div 16 mod 16) + n mod 16 = (n :: nat)"
proof -
  assume "n < 65536"
  then have "n div 4096 mod 16 = n div 4096" by simp
  moreover have "16 * (n div 256) + n div 16 mod 16 = n div 16" "16 * (n div 4096) + n div 256 mod 16 = n div 256"
    using mult_div_mod_eq [of 16 "n div 16"] mult_div_mod_eq [of 16 "n div 256"] by (simp_all add: div_mult2_eq [symmetric])
  ultimately show ?thesis using mult_div_mod_eq [of 16 n] by linarith
qed

lemma getu4_u_escape: "n < 65536 \<Longrightarrow> getu4 (u_escape n @ t) = Some n"
  unfolding getu4_def u_escape_def append_Cons append_Nil list.case hex_val_nibble prod.case option.case
  by (simp only: nibbles simp_thms if_True)

lemma unquote_getu4:
  assumes "s \<noteq> []" "hd s = bslash" "getu4 s = Some r" "unquote_u r (drop 6 s) = (r', Suc n)"
  shows "unquote s = utf8_EncodeRune r' @ unquote (drop (Suc n) s)"
  using assms by (subst unquote.simps) simp

lemma unquote_u_escape:
  assumes "n < 0xD800"
  shows "unquote (u_escape n @ t) = utf8_EncodeRune n @ unquote t"
proof -
  have "drop 6 (u_escape n @ t) = t" by (simp add: u_escape_def)
  with unquote_getu4 [of "u_escape n @ t" n n 5] getu4_u_escape [of n t] assms show ?thesis
    by (simp add: u_escape_def unquote_u_def is_surrogate_def)
qed

lemma unquote_esc: "e \<noteq> CHR ''u'' \<Longrightarrow> unquote (bslash # e # t) = unescape e # unquote t"
  by (subst unquote.simps) (simp add: getu4_def split: list.split)

lemma unquote_plain: "c \<noteq> bslash \<Longrightarrow> between 0 0x7F c \<Longrightarrow> unquote (c # t) = c # unquote t"
  by (subst unquote.simps) simp

lemma unquote_quote_ascii:
  assumes "between 0 0x7F c"
  shows "unquote (quote_ascii c @ t) = c # unquote t"
proof -
  have n: "(of_char c :: nat) < 128" using assms by (simp add: between_def)
  then have "utf8_EncodeRune (of_char c) = [c]" by (simp add: utf8_EncodeRune_def)
  then show ?thesis
    using assms n by (simp add: quote_ascii_def unquote_esc unescape_def unquote_u_escape unquote_plain)
qed

lemma unquote_rune:
  assumes "rune_len s = n" "n \<noteq> 0" "hd s \<noteq> bslash"
  shows "unquote (take n s @ t) = take n s @ unquote t"
proof -
  note r = rune_len_take [OF assms(1,2), of t]
  have "s \<noteq> []" using assms by auto
  then have h: "hd (take n s @ t) = hd s" "take n s \<noteq> []" using take_rune_hd [of n s t] assms(2) by simp_all
  have "length (take n s) = n" using assms(1) rune_len_le [of s] by simp
  then have "take n (take n s @ t) = take n s" "drop n (take n s @ t) = t" by simp_all
  then show ?thesis using r h assms by (subst unquote.simps) simp
qed

lemma char_of_line_sep: "char_of (226 :: nat) = CHR 0xE2" "char_of (128 :: nat) = CHR 0x80"
  "char_of (168 :: nat) = CHR 0xA8" "char_of (169 :: nat) = CHR 0xA9"
  by code_simp+

lemma line_sep_rune:
  assumes "line_sep s"
  shows "utf8_EncodeRune (0x2020 + of_char (s ! 2) mod 16) = take 3 s" "rune_len s = 3"
proof -
  obtain t where "s = CHR 0xE2 # CHR 0x80 # CHR 0xA8 # t \<or> s = CHR 0xE2 # CHR 0x80 # CHR 0xA9 # t"
    using assms unfolding line_sep_def
    by (cases s; cases "tl s"; cases "tl (tl s)") (auto simp: take_Cons')
  then show "utf8_EncodeRune (0x2020 + of_char (s ! 2) mod 16) = take 3 s" "rune_len s = 3"
    by (auto simp: utf8_EncodeRune_def between_def char_of_line_sep)
qed

lemma unquote_quote_body: "utf8_Valid s \<Longrightarrow> unquote (quote_body s) = s"
proof (induction s rule: quote_body.induct)
  case (1 s)
  show ?case
  proof (cases "s = []")
    case True
    then show ?thesis by (simp add: quote_body.simps unquote.simps)
  next
    case False
    from 1(5) False have v: "rune_len s \<noteq> 0" "utf8_Valid (drop (rune_len s) s)"
      by (simp_all add: utf8_Valid.simps [of s] split: if_splits)
    show ?thesis
    proof (cases "between 0 0x7F (hd s)")
      case True
      then have "rune_len s = 1" using False by (cases s) auto
      then have "utf8_Valid (tl s)" using v(2) by (simp add: drop_Suc)
      with 1(1) [OF False True] False True show ?thesis
        by (simp add: quote_body.simps [of s] unquote_quote_ascii)
    next
      case ascii: False
      then have nb: "hd s \<noteq> bslash" by (auto simp: between_def)
      show ?thesis
      proof (cases "line_sep s")
        case True
        note ls = line_sep_rune [OF True]
        have n: "0x2020 + of_char (s ! 2) mod 16 < (0xD800 :: nat)"
          using mod_less_divisor [of 16 "of_char (s ! 2) :: nat"] by linarith
        have "unquote (quote_body (drop 3 s)) = drop 3 s"
          using 1(3) [OF False ascii v(1) True] v(2) ls(2) by simp
        then show ?thesis using False ascii v(1) True n ls(1)
          by (simp add: quote_body.simps [of s] unquote_u_escape)
      next
        case ns: False
        then have "quote_body s = take (rune_len s) s @ quote_body (drop (rune_len s) s)"
          using False ascii v(1) by (simp add: quote_body.simps [of s])
        then show ?thesis using 1(4) [OF False ascii v(1) ns v(2)] unquote_rune [OF refl v(1) nb] by simp
      qed
    qed
  qed
qed

section \<open>The scanner\<close>

definition json_space :: "char \<Rightarrow> bool" where
  "json_space c \<longleftrightarrow> c = CHR '' '' \<or> c = CHR 0x09 \<or> c = CHR 0x0A \<or> c = CHR 0x0D"

abbreviation skip_ws :: "string \<Rightarrow> string" where
  "skip_ws \<equiv> dropWhile json_space"

abbreviation is_digit :: "char \<Rightarrow> bool" where
  "is_digit \<equiv> between 48 57"

definition is_hex :: "char \<Rightarrow> bool" where
  "is_hex c \<longleftrightarrow> hex_val c \<noteq> None"

definition simple_escapes :: string where
  "simple_escapes = ''bfnrt/'' @ [bslash, dquote]"

text \<open>A string after its opening quote: its text up to the closing quote, and the rest.\<close>

fun scan_string :: "string \<Rightarrow> (string \<times> string) option" where
  "scan_string [] = None"
| "scan_string (c # s) =
     (if c = dquote then Some ([], s)
      else if c = bslash then
        (if s \<noteq> [] \<and> hd s \<in> set simple_escapes then
           map_option (\<lambda>(b, r). (c # hd s # b, r)) (scan_string (drop 1 s))
         else if take 1 s = ''u'' \<and> 5 \<le> length s \<and> list_all is_hex (take 4 (tl s)) then
           map_option (\<lambda>(b, r). (c # take 5 s @ b, r)) (scan_string (drop 5 s))
         else None)
      else if between 0 0x1F c then None
      else map_option (\<lambda>(b, r). (c # b, r)) (scan_string s))"

text \<open>What \<^verbatim>\<open>compact\<close> does to the text of a string: it escapes the characters special to HTML and the
  line separators.\<close>

definition html_char :: "char \<Rightarrow> bool" where
  "html_char c \<longleftrightarrow> c \<in> {CHR ''<'', CHR ''>'', CHR ''&''}"

function html_escape :: "string \<Rightarrow> string" where
  "html_escape s =
     (if s = [] then []
      else if html_char (hd s) then u_escape (of_char (hd s)) @ html_escape (tl s)
      else if line_sep s then u_escape (0x2020 + of_char (s ! 2) mod 16) @ html_escape (drop 3 s)
      else hd s # html_escape (tl s))"
  by pat_completeness auto
termination
  by (relation "measure length") auto

declare html_escape.simps [simp del]

text \<open>The parts of a number: its sign, its integer part, a fraction and an exponent.\<close>

definition scan_sign :: "string \<Rightarrow> string \<times> string" where
  "scan_sign s = (if take 1 s = ''-'' then (''-'', tl s) else ([], s))"

definition scan_int :: "string \<Rightarrow> (string \<times> string) option" where
  "scan_int s =
     (if take 1 s = ''0'' then Some (''0'', tl s)
      else if s \<noteq> [] \<and> is_digit (hd s) then Some (takeWhile is_digit s, dropWhile is_digit s)
      else None)"

definition scan_frac :: "string \<Rightarrow> (string \<times> string) option" where
  "scan_frac s =
     (if take 1 s \<noteq> ''.'' then Some ([], s)
      else if takeWhile is_digit (tl s) = [] then None
      else Some (CHR ''.'' # takeWhile is_digit (tl s), dropWhile is_digit (tl s)))"

definition scan_exp :: "string \<Rightarrow> (string \<times> string) option" where
  "scan_exp s =
     (if take 1 s \<noteq> ''e'' \<and> take 1 s \<noteq> ''E'' then Some ([], s)
      else
        let sign = (if take 1 (tl s) = ''+'' \<or> take 1 (tl s) = ''-'' then take 1 (tl s) else []);
            t = drop (length sign) (tl s)
        in if takeWhile is_digit t = [] then None
           else Some (take 1 s @ sign @ takeWhile is_digit t, dropWhile is_digit t))"

definition scan_number :: "string \<Rightarrow> (string \<times> string) option" where
  "scan_number s =
     (case scan_sign s of (sg, s1) \<Rightarrow>
      case scan_int s1 of None \<Rightarrow> None | Some (i, s2) \<Rightarrow>
      case scan_frac s2 of None \<Rightarrow> None | Some (f, s3) \<Rightarrow>
      case scan_exp s3 of None \<Rightarrow> None | Some (e, s4) \<Rightarrow> Some (sg @ i @ f @ e, s4))"

definition scan_literal :: "string \<Rightarrow> string \<Rightarrow> (string \<times> string) option" where
  "scan_literal lit s = (if take (length lit) s = lit then Some (lit, drop (length lit) s) else None)"

fun join_comma :: "string list \<Rightarrow> string" where
  "join_comma [] = []"
| "join_comma [c] = c"
| "join_comma (c # cs) = c @ CHR '','' # join_comma cs"

definition json_str :: "string \<Rightarrow> string" where
  "json_str body = dquote # body @ [dquote]"

definition member :: "string \<times> string \<Rightarrow> string" where
  "member m = json_str (fst m) @ CHR '':'' # snd m"

definition json_obj :: "(string \<times> string) list \<Rightarrow> string" where
  "json_obj ms = CHR ''{'' # join_comma (map member ms) @ ''}''"

definition json_arr :: "string list \<Rightarrow> string" where
  "json_arr es = CHR ''['' # join_comma es @ '']''"

definition maxNestingDepth :: int where
  "maxNestingDepth = 10000"

text \<open>
  The scanner on a value, on the elements of an array and on the fields of an object, each up to
  the closing bracket. It gives the compact form of what it reads and the rest; a field has its key,
  the text of its value as it stands and its compact form. The first argument bounds the recursion:
  every step reads a character, so that the length of the text is enough.
\<close>

fun scan_value :: "nat \<Rightarrow> int \<Rightarrow> string \<Rightarrow> (string \<times> string) option"
  and scan_elems :: "nat \<Rightarrow> int \<Rightarrow> string \<Rightarrow> (string list \<times> string) option"
  and scan_fields :: "nat \<Rightarrow> int \<Rightarrow> string \<Rightarrow> ((string \<times> string \<times> string) list \<times> string) option"
where
  "scan_value 0 depth s = None"
| "scan_value (Suc n) depth s =
     (case skip_ws s of
        [] \<Rightarrow> None
      | c # t \<Rightarrow>
          if c = CHR ''{'' then
            (if maxNestingDepth \<le> depth then None
             else if take 1 (skip_ws t) = ''}'' then Some (json_obj [], tl (skip_ws t))
             else map_option (\<lambda>(fs, r). (json_obj (map (\<lambda>(k, _, v). (html_escape k, v)) fs), r)) (scan_fields n (depth + 1) t))
          else if c = CHR ''['' then
            (if maxNestingDepth \<le> depth then None
             else if take 1 (skip_ws t) = '']'' then Some (json_arr [], tl (skip_ws t))
             else map_option (\<lambda>(es, r). (json_arr es, r)) (scan_elems n (depth + 1) t))
          else if c = dquote then map_option (\<lambda>(b, r). (json_str (html_escape b), r)) (scan_string t)
          else if c = CHR ''t'' then scan_literal ''true'' (c # t)
          else if c = CHR ''f'' then scan_literal ''false'' (c # t)
          else if c = CHR ''n'' then scan_literal ''null'' (c # t)
          else scan_number (c # t))"
| "scan_elems 0 depth s = None"
| "scan_elems (Suc n) depth s =
     (case scan_value n depth s of
        None \<Rightarrow> None
      | Some (c, r) \<Rightarrow>
          (case skip_ws r of
             [] \<Rightarrow> None
           | d # t \<Rightarrow>
               if d = CHR '','' then map_option (\<lambda>(es, r). (c # es, r)) (scan_elems n depth t)
               else if d = CHR '']'' then Some ([c], t)
               else None))"
| "scan_fields 0 depth s = None"
| "scan_fields (Suc n) depth s =
     (case skip_ws s of
        [] \<Rightarrow> None
      | q # t \<Rightarrow>
          if q \<noteq> dquote then None
          else
            (case scan_string t of
               None \<Rightarrow> None
             | Some (k, r) \<Rightarrow>
                 (case skip_ws r of
                    [] \<Rightarrow> None
                  | d # u \<Rightarrow>
                      if d \<noteq> CHR '':'' then None
                      else
                        (case scan_value n depth (skip_ws u) of
                           None \<Rightarrow> None
                         | Some (c, r) \<Rightarrow>
                             (case skip_ws r of
                                [] \<Rightarrow> None
                              | e # w \<Rightarrow>
                                  let f = (k, take (length (skip_ws u) - length r) (skip_ws u), c) in
                                  if e = CHR '','' then map_option (\<lambda>(fs, r). (f # fs, r)) (scan_fields n depth w)
                                  else if e = CHR ''}'' then Some ([f], w)
                                  else None)))))"

definition json_compact :: "string \<Rightarrow> string option" where
  "json_compact s =
     (case scan_value (length s + 1) 0 s of
        None \<Rightarrow> None
      | Some (c, r) \<Rightarrow> if skip_ws r = [] then Some c else None)"

definition go_json_Valid :: "string \<Rightarrow> bool" where
  "go_json_Valid s \<longleftrightarrow> json_compact s \<noteq> None"

end
