(* ===== verification/JSON_Scan.thy ===== *)
theory JSON_Scan
  imports Go_JSON
begin

text \<open>
  Facts about the JSON scanner: what it reads of strings and numbers, that the text it gives for a
  value scans to itself wherever it is put, and that the bound on its recursion is enough.
\<close>

section \<open>Strings\<close>

definition plain_char :: "char \<Rightarrow> bool" where
  "plain_char c \<longleftrightarrow> c \<noteq> dquote \<and> c \<noteq> bslash \<and> \<not> between 0 0x1F c"

inductive str_body :: "string \<Rightarrow> bool" where
  empty: "str_body []"
| plain: "plain_char c \<Longrightarrow> str_body b \<Longrightarrow> str_body (c # b)"
| esc: "e \<in> set simple_escapes \<Longrightarrow> str_body b \<Longrightarrow> str_body (bslash # e # b)"
| u_esc: "length h = 4 \<Longrightarrow> list_all is_hex h \<Longrightarrow> str_body b \<Longrightarrow> str_body (bslash # CHR ''u'' # h @ b)"

lemma plain_bslash [simp]: "\<not> plain_char bslash" "\<not> plain_char dquote"
  by (simp_all add: plain_char_def)

inductive_cases str_body_ConsE: "str_body (c # b)"

lemma str_body_plain_iff: "plain_char c \<Longrightarrow> str_body (c # b) \<longleftrightarrow> str_body b"
  by (auto elim: str_body_ConsE intro: str_body.plain)

lemma u_not_simple [simp]: "CHR ''u'' \<notin> set simple_escapes"
  by (simp add: simple_escapes_def)

lemma scan_string_body: "str_body b \<Longrightarrow> scan_string (b @ dquote # r) = Some (b, r)"
proof (induction rule: str_body.induct)
  case (u_esc h b)
  have "take 5 (CHR ''u'' # h @ b @ dquote # r) = CHR ''u'' # h" "drop 5 (CHR ''u'' # h @ b @ dquote # r) = b @ dquote # r"
    "take 4 (h @ b @ dquote # r) = h" "take 1 (CHR ''u'' # h @ b @ dquote # r) = ''u''"
    using u_esc.hyps(1) by (simp_all add: take_Cons' drop_Cons')
  with u_esc show ?case by (simp del: take_Suc_Cons One_nat_def)
qed (auto simp: plain_char_def)

lemma scan_string_Some: "scan_string s = Some (b, r) \<Longrightarrow> s = b @ dquote # r \<and> str_body b"
proof (induction s arbitrary: b r rule: scan_string.induct)
  case (2 c s)
  consider "c = dquote" | "c = bslash" "s \<noteq> []" "hd s \<in> set simple_escapes"
    | "c = bslash" "\<not> (s \<noteq> [] \<and> hd s \<in> set simple_escapes)" | "plain_char c" | "c \<noteq> dquote" "c \<noteq> bslash" "between 0 0x1F c"
    unfolding plain_char_def by blast
  then show ?case
  proof cases
    case 1
    with 2(4) show ?thesis by (auto intro: str_body.empty)
  next
    case h: 2
    with 2(4) obtain b' where "scan_string (drop 1 s) = Some (b', r)" "b = c # hd s # b'" by auto
    with 2(1) h show ?thesis by (cases s) (auto intro: str_body.esc)
  next
    case h: 3
    with 2(4) obtain b' where u: "take 1 s = ''u''" "5 \<le> length s" "list_all is_hex (take 4 (tl s))"
      "scan_string (drop 5 s) = Some (b', r)" "b = c # take 5 s @ b'" by (auto split: if_splits)
    with 2(2) h have ih: "drop 5 s = b' @ dquote # r" "str_body b'" by auto
    obtain s' where s: "s = CHR ''u'' # s'" using u(1) by (cases s) auto
    have "s = take 5 s @ drop 5 s" by simp
    with ih u(5) have "c # s = b @ dquote # r" by simp
    moreover have "str_body b"
      using str_body.u_esc [of "take 4 s'" b'] u(2,3,5) ih(2) h(1) by (simp add: s take_Cons')
    ultimately show ?thesis by simp
  next
    case 4
    then have "c \<noteq> dquote" "c \<noteq> bslash" "\<not> between 0 0x1F c" by (simp_all add: plain_char_def)
    with 2(3,4) 4 show ?thesis by (auto intro: str_body.plain)
  next
    case 5
    with 2(4) show ?thesis by simp
  qed
qed simp

section \<open>Escaping for HTML\<close>

lemma of_hex_digit: "d < 16 \<Longrightarrow> of_char (hex_digit d) = (if d < 10 then 48 + d else 87 + d)"
  by (auto simp: hex_digit_def)

lemma hex_digit_plain:
  assumes "d < 16"
  shows "is_hex (hex_digit d)" "plain_char (hex_digit d)" "\<not> html_char (hex_digit d)" "hex_digit d \<noteq> CHR 0xE2"
proof -
  have c: "hex_digit d \<noteq> c" if "\<not> between 48 102 c" for c
    using of_hex_digit [OF assms] that assms by (auto simp: between_def split: if_splits)
  show "is_hex (hex_digit d)" using assms by (simp add: is_hex_def hex_val_digit)
  show "plain_char (hex_digit d)"
    using c [of dquote] of_hex_digit [OF assms] assms
    by (auto simp: plain_char_def between_def split: if_splits)
  show "\<not> html_char (hex_digit d)" "hex_digit d \<noteq> CHR 0xE2"
    using of_hex_digit [OF assms] assms c [of "CHR 0xE2"] by (auto simp: html_char_def between_def split: if_splits)
qed

lemma str_body_u_escape: "str_body b \<Longrightarrow> str_body (u_escape n @ b)"
  using str_body.u_esc [of "[hex_digit (n div 4096 mod 16), hex_digit (n div 256 mod 16), hex_digit (n div 16 mod 16), hex_digit (n mod 16)]" b]
  by (simp add: u_escape_def hex_digit_plain)

lemma html_escape_plain: "\<not> html_char c \<Longrightarrow> c \<noteq> CHR 0xE2 \<Longrightarrow> html_escape (c # s) = c # html_escape s"
  by (simp add: html_escape.simps [of "c # s"] line_sep_def)

lemma html_escape_Nil [simp]: "html_escape [] = []"
  by (simp add: html_escape.simps)

lemma not_html_char [simp]: "\<not> html_char bslash" "\<not> html_char (CHR ''u'')"
  by (simp_all add: html_char_def)

lemma html_escape_u_escape [simp]: "html_escape (u_escape n @ s) = u_escape n @ html_escape s"
  by (simp add: u_escape_def html_escape_plain hex_digit_plain)

lemma html_escape_hd: "html_escape s = c # t \<Longrightarrow> c \<noteq> bslash \<Longrightarrow> s \<noteq> [] \<and> hd s = c \<and> t = html_escape (tl s)"
  by (auto simp: html_escape.simps [of s] u_escape_def split: if_splits)

lemma line_sep_html_escape:
  assumes "line_sep (c # html_escape s)"
  shows "line_sep (c # s)"
proof -
  from assms obtain d t where d: "c = CHR 0xE2" "html_escape s = CHR 0x80 # d # t" "d = CHR 0xA8 \<or> d = CHR 0xA9"
    unfolding line_sep_def by (cases "html_escape s"; cases "tl (html_escape s)") (auto simp: take_Cons')
  from html_escape_hd [OF d(2)] obtain s' where s: "s = CHR 0x80 # s'" "html_escape s' = d # t" by (cases s) auto
  from html_escape_hd [OF s(2)] d(3) obtain s'' where "s' = d # s''" by (cases s') auto
  with d s show ?thesis by (auto simp: line_sep_def)
qed

lemma html_escape_idem [simp]: "html_escape (html_escape s) = html_escape s"
proof (induction s rule: html_escape.induct)
  case (1 s)
  show ?case
  proof (cases "s = [] \<or> html_char (hd s) \<or> line_sep s")
    case True
    with 1 show ?thesis by (auto simp: html_escape.simps [of s])
  next
    case False
    then obtain c t where s: "s = c # t" by (cases s) auto
    have h: "html_escape s = c # html_escape t" using False by (simp add: s html_escape.simps [of "c # t"])
    have "\<not> line_sep (c # html_escape t)" using line_sep_html_escape False s by blast
    with 1(3) False show ?thesis unfolding h by (simp add: s html_escape.simps [of "c # html_escape t"])
  qed
qed

lemma str_body_html_escape: "str_body b \<Longrightarrow> str_body (html_escape b)"
proof (induction rule: str_body.induct)
  case (plain c b)
  show ?case
  proof (cases "html_char c")
    case True
    then show ?thesis using plain str_body_u_escape by (simp add: html_escape.simps [of "c # b"])
  next
    case nh: False
    show ?thesis
    proof (cases "line_sep (c # b)")
      case True
      then obtain d b' where b: "c = CHR 0xE2" "b = CHR 0x80 # d # b'" "d = CHR 0xA8 \<or> d = CHR 0xA9"
        unfolding line_sep_def by (cases b; cases "tl b") (auto simp: take_Cons')
      have nd: "\<not> html_char d" "d \<noteq> CHR 0xE2" "plain_char d" using b(3) by (auto simp: html_char_def plain_char_def between_def)
      have "html_escape b = CHR 0x80 # d # html_escape b'" using nd by (simp add: b(2) html_escape_plain html_char_def)
      moreover have "plain_char (CHR 0x80)" by (simp add: plain_char_def between_def)
      ultimately have "str_body (html_escape b')" using plain.IH nd by (simp add: str_body_plain_iff)
      moreover have "html_escape (c # b) = u_escape (0x2020 + of_char ((c # b) ! 2) mod 16) @ html_escape (drop 3 (c # b))"
        using nh True by (subst html_escape.simps) simp
      ultimately show ?thesis by (simp add: str_body_u_escape b(2))
    next
      case False
      with nh plain show ?thesis by (simp add: html_escape.simps [of "c # b"] str_body.plain)
    qed
  qed
next
  case (esc e b)
  have "\<not> html_char e \<and> e \<noteq> CHR 0xE2" using esc.hyps(1) by (auto simp: simple_escapes_def html_char_def)
  with esc show ?case by (simp add: html_escape_plain html_char_def str_body.esc)
next
  case (u_esc h b)
  have h: "\<forall>c \<in> set h. \<not> html_char c \<and> c \<noteq> CHR 0xE2"
    using u_esc.hyps(2) by (auto simp: list_all_iff is_hex_def hex_val_def html_char_def Let_def split: if_splits)
  have "html_escape (h @ b) = h @ html_escape b" using h by (induction h) (auto simp: html_escape_plain)
  with u_esc show ?case by (simp add: html_escape_plain html_char_def str_body.u_esc)
qed (simp_all add: str_body.empty)

section \<open>Numbers\<close>

definition number_char :: "char \<Rightarrow> bool" where
  "number_char c \<longleftrightarrow> is_digit c \<or> c \<in> {CHR ''.'', CHR ''e'', CHR ''E'', CHR ''+'', CHR ''-''}"

definition delim :: "string \<Rightarrow> bool" where
  "delim r \<longleftrightarrow> (r \<noteq> [] \<longrightarrow> \<not> number_char (hd r))"

lemma take1D: "take (Suc 0) s = [c] \<Longrightarrow> \<exists>u. s = c # u"
  by (cases s) auto

lemma span_digits:
  assumes "list_all P ds" "r \<noteq> [] \<longrightarrow> \<not> P (hd r)"
  shows "takeWhile P (ds @ r) = ds" "dropWhile P (ds @ r) = r"
proof -
  have "takeWhile P r = []" "dropWhile P r = r" using assms(2) by (cases r; simp)+
  with assms(1) show "takeWhile P (ds @ r) = ds" "dropWhile P (ds @ r) = r" by (induction ds) simp_all
qed

lemma scan_sign_app:
  assumes "scan_sign s = (sg, t)"
  shows "s = sg @ t" "take 1 t' \<noteq> ''-'' \<Longrightarrow> scan_sign (sg @ t') = (sg, t')"
  using assms by (cases s; auto simp: scan_sign_def split: if_splits)+

lemma scan_int_app:
  assumes "scan_int s = Some (i, t)"
  shows "s = i @ t \<and> i \<noteq> [] \<and> list_all is_digit i" "t' \<noteq> [] \<longrightarrow> \<not> is_digit (hd t') \<Longrightarrow> scan_int (i @ t') = Some (i, t')"
proof -
  have z: "is_digit (CHR ''0'')" by (simp add: between_def)
  consider "i = ''0''" "take 1 s = ''0''" "t = tl s" | "take 1 s \<noteq> ''0''" "s \<noteq> []" "is_digit (hd s)" "i = takeWhile is_digit s" "t = dropWhile is_digit s"
    using assms by (auto simp: scan_int_def split: if_splits)
  note c = this
  then show "s = i @ t \<and> i \<noteq> [] \<and> list_all is_digit i"
    by cases (use z in \<open>auto simp: list_all_iff takeWhile_eq_Nil_iff dest: set_takeWhileD dest!: take1D\<close>)
  show "scan_int (i @ t') = Some (i, t')" if t': "t' \<noteq> [] \<longrightarrow> \<not> is_digit (hd t')"
    using c
  proof cases
    case 2
    obtain a u where s: "s = a # u" using 2(2) by (cases s) auto
    then have i: "i = a # takeWhile is_digit u" using 2 by simp
    have d: "list_all is_digit i" using 2(4) by (auto simp: list_all_iff dest: set_takeWhileD)
    have "a \<noteq> CHR ''0''" "is_digit a" using 2(1,3) s by auto
    with span_digits [OF d t'] show ?thesis by (simp add: scan_int_def i)
  qed (simp add: scan_int_def)
qed

lemma scan_frac_app:
  assumes "scan_frac s = Some (f, t)"
  shows "s = f @ t" "t' \<noteq> [] \<longrightarrow> \<not> is_digit (hd t') \<and> hd t' \<noteq> CHR ''.'' \<Longrightarrow> scan_frac (f @ t') = Some (f, t')"
    "f \<noteq> [] \<longrightarrow> hd f = CHR ''.''"
proof -
  consider "f = []" "take 1 s \<noteq> ''.''" "t = s"
    | "take 1 s = ''.''" "takeWhile is_digit (tl s) \<noteq> []" "f = CHR ''.'' # takeWhile is_digit (tl s)" "t = dropWhile is_digit (tl s)"
    using assms by (auto simp: scan_frac_def split: if_splits)
  note c = this
  then show "s = f @ t" by cases (auto dest!: take1D)
  from c show "f \<noteq> [] \<longrightarrow> hd f = CHR ''.''" by cases auto
  show "scan_frac (f @ t') = Some (f, t')" if t': "t' \<noteq> [] \<longrightarrow> \<not> is_digit (hd t') \<and> hd t' \<noteq> CHR ''.''"
    using c
  proof cases
    case 1
    then show ?thesis using t' by (cases t') (auto simp: scan_frac_def)
  next
    case 2
    have "list_all is_digit (takeWhile is_digit (tl s))" by (auto simp: list_all_iff dest: set_takeWhileD)
    from span_digits [OF this, of t'] t' 2 show ?thesis by (simp add: scan_frac_def)
  qed
qed

lemma scan_exp_app:
  assumes "scan_exp s = Some (e, t)"
  shows "s = e @ t" "delim t' \<Longrightarrow> scan_exp (e @ t') = Some (e, t')" "e \<noteq> [] \<longrightarrow> hd e = CHR ''e'' \<or> hd e = CHR ''E''"
proof -
  define sign where "sign = (if take 1 (tl s) = ''+'' \<or> take 1 (tl s) = ''-'' then take 1 (tl s) else [])"
  define u where "u = drop (length sign) (tl s)"
  consider "e = []" "take 1 s \<noteq> ''e''" "take 1 s \<noteq> ''E''" "t = s"
    | "take 1 s = ''e'' \<or> take 1 s = ''E''" "takeWhile is_digit u \<noteq> []" "e = take 1 s @ sign @ takeWhile is_digit u" "t = dropWhile is_digit u"
    using assms unfolding scan_exp_def sign_def [symmetric] Let_def u_def [symmetric] by (auto split: if_splits)
  note c = this
  have su: "tl s = sign @ u" by (cases "tl s") (auto simp: u_def sign_def)
  from c show "e \<noteq> [] \<longrightarrow> hd e = CHR ''e'' \<or> hd e = CHR ''E''" by cases auto
  from c show "s = e @ t"
    by cases (use su in \<open>auto dest!: take1D\<close>)
  show "scan_exp (e @ t') = Some (e, t')" if t': "delim t'"
    using c
  proof cases
    case 1
    then show ?thesis using t' by (cases t') (auto simp: scan_exp_def delim_def number_char_def)
  next
    case 2
    have d: "list_all is_digit (takeWhile is_digit u)" by (auto simp: list_all_iff dest: set_takeWhileD)
    obtain a ds where ds: "takeWhile is_digit u = a # ds" using 2(2) by (cases "takeWhile is_digit u") auto
    have a: "a \<noteq> CHR ''+''" "a \<noteq> CHR ''-''" using d by (auto simp: ds between_def)
    have sg: "sign = [] \<or> sign = ''+'' \<or> sign = ''-''" by (auto simp: sign_def)
    have "t' \<noteq> [] \<longrightarrow> \<not> is_digit (hd t')" using t' by (auto simp: delim_def number_char_def)
    note sp = span_digits [OF d this, unfolded ds]
    from 2(1) sg a sp show ?thesis unfolding 2(3) ds by (auto simp: scan_exp_def dest!: take1D)
  qed
qed

lemma scan_number_Some:
  assumes "scan_number s = Some (x, r)"
  shows "s = x @ r" "delim r' \<Longrightarrow> scan_number (x @ r') = Some (x, r')" "x \<noteq> [] \<and> (is_digit (hd x) \<or> hd x = CHR ''-'')"
proof -
  obtain sg s1 where sg: "scan_sign s = (sg, s1)" by fastforce
  obtain i s2 where i: "scan_int s1 = Some (i, s2)" using assms sg by (auto simp: scan_number_def split: option.splits)
  obtain f s3 where f: "scan_frac s2 = Some (f, s3)" using assms sg i by (auto simp: scan_number_def split: option.splits)
  obtain e where e: "scan_exp s3 = Some (e, r)" "x = sg @ i @ f @ e"
    using assms sg i f by (auto simp: scan_number_def split: option.splits)
  note i1 = scan_int_app(1) [OF i]
  have i2: "i \<noteq> []" "is_digit (hd i)" using i1 by (cases i; auto)+
  then have i3: "take 1 (i @ t) \<noteq> ''-''" for t by (cases i) (auto simp: between_def)
  show "s = x @ r" using scan_sign_app(1) [OF sg] i1 scan_frac_app(1) [OF f] scan_exp_app(1) [OF e(1)] e(2) by simp
  show "x \<noteq> [] \<and> (is_digit (hd x) \<or> hd x = CHR ''-'')"
  proof (cases "sg = []")
    case False
    then have "sg = ''-''" using sg by (auto simp: scan_sign_def split: if_splits)
    then show ?thesis by (simp add: e(2))
  qed (use i2 e(2) in simp)
  show "scan_number (x @ r') = Some (x, r')" if r': "delim r'"
  proof -
    have e3: "scan_exp (e @ r') = Some (e, r')" by (rule scan_exp_app(2) [OF e(1) r'])
    have eh: "e @ r' \<noteq> [] \<longrightarrow> \<not> is_digit (hd (e @ r')) \<and> hd (e @ r') \<noteq> CHR ''.''"
      using scan_exp_app(3) [OF e(1)] r' by (cases e) (auto simp: between_def delim_def number_char_def)
    then have f3: "scan_frac (f @ e @ r') = Some (f, e @ r')" by (rule scan_frac_app(2) [OF f])
    have "f @ e @ r' \<noteq> [] \<longrightarrow> \<not> is_digit (hd (f @ e @ r'))"
      using scan_frac_app(3) [OF f] eh by (cases f) (auto simp: between_def)
    then have "scan_int (i @ f @ e @ r') = Some (i, f @ e @ r')" by (rule scan_int_app(2) [OF i])
    moreover have "scan_sign (sg @ i @ f @ e @ r') = (sg, i @ f @ e @ r')" by (rule scan_sign_app(2) [OF sg i3])
    ultimately show ?thesis using e3 f3 by (simp add: scan_number_def e(2))
  qed
qed

section \<open>Values\<close>

lemma skip_ws_fixed: "s \<noteq> [] \<Longrightarrow> \<not> json_space (hd s) \<Longrightarrow> skip_ws s = s"
  by (cases s) auto

lemma skip_ws_app: "c \<noteq> [] \<Longrightarrow> \<not> json_space (hd c) \<Longrightarrow> skip_ws (c @ r) = c @ r"
  by (cases c) auto

lemma length_skip_ws: "length (skip_ws s) \<le> length s"
  by (simp add: length_dropWhile_le)

text \<open>A text that scans to itself in front of anything that does not continue a number.\<close>

definition value_text :: "nat \<Rightarrow> int \<Rightarrow> string \<Rightarrow> bool" where
  "value_text n depth c \<longleftrightarrow>
     c \<noteq> [] \<and> \<not> json_space (hd c) \<and> hd c \<notin> {CHR ''}'', CHR '']'', CHR '',''} \<and>
     (\<forall>r. delim r \<longrightarrow> scan_value n depth (c @ r) = Some (c, r))"

lemma value_textD: "value_text n depth c \<Longrightarrow> delim r \<Longrightarrow> scan_value n depth (c @ r) = Some (c, r)"
  by (simp add: value_text_def)

lemma delim_punct [simp]: "delim []" "delim (CHR '','' # r)" "delim (CHR ''}'' # r)" "delim (CHR '']'' # r)" "delim (CHR 0x0A # r)"
  by (simp_all add: delim_def number_char_def between_def)

lemma punct_not_space [simp]:
  "\<not> json_space (CHR ''{'')" "\<not> json_space (CHR ''}'')" "\<not> json_space (CHR ''['')" "\<not> json_space (CHR '']'')"
  "\<not> json_space (CHR '','')" "\<not> json_space (CHR '':'')" "\<not> json_space dquote" "\<not> json_space (CHR ''t'')"
  "\<not> json_space (CHR ''f'')" "\<not> json_space (CHR ''n'')" "\<not> json_space (CHR ''-'')"
  by (simp_all add: json_space_def)

lemma digit_not_space: "is_digit c \<Longrightarrow> \<not> json_space c \<and> c \<noteq> CHR ''{'' \<and> c \<noteq> CHR ''['' \<and> c \<noteq> dquote \<and>
   c \<noteq> CHR ''t'' \<and> c \<noteq> CHR ''f'' \<and> c \<noteq> CHR ''n'' \<and> c \<noteq> CHR ''}'' \<and> c \<noteq> CHR '']'' \<and> c \<noteq> CHR '',''"
  by (auto simp: between_def json_space_def)

lemma value_text_number:
  assumes "scan_number s = Some (x, r)"
  shows "value_text (Suc n) depth x"
proof -
  note x = scan_number_Some [OF assms]
  obtain c t where c: "x = c # t" using x(3) by (cases x) auto
  have h: "is_digit c \<or> c = CHR ''-''" using x(3) c by simp
  have f: "\<not> json_space c \<and> c \<noteq> CHR ''{'' \<and> c \<noteq> CHR ''['' \<and> c \<noteq> dquote \<and>
      c \<noteq> CHR ''t'' \<and> c \<noteq> CHR ''f'' \<and> c \<noteq> CHR ''n'' \<and> c \<noteq> CHR ''}'' \<and> c \<noteq> CHR '']'' \<and> c \<noteq> CHR '',''"
    using h digit_not_space [of c] by auto
  have "scan_value (Suc n) depth (x @ r') = Some (x, r')" if "delim r'" for r'
    using x(2) [OF that] f by (simp add: c)
  then show ?thesis using f by (simp add: value_text_def c)
qed

lemma value_text_str:
  assumes "str_body b" "html_escape b = b"
  shows "value_text (Suc n) depth (json_str b)"
  unfolding value_text_def json_str_def using scan_string_body [OF assms(1)] assms(2)
  by (simp add: json_str_def)

lemma value_text_literal:
  "value_text (Suc n) depth ''true''" "value_text (Suc n) depth ''false''" "value_text (Suc n) depth ''null''"
  by (simp_all add: value_text_def scan_literal_def)

lemma join_comma_Cons: "cs \<noteq> [] \<Longrightarrow> join_comma (c # cs) = c @ CHR '','' # join_comma cs"
  by (cases cs) simp_all

declare scan_value.simps(2) [simp del] scan_elems.simps(2) [simp del] scan_fields.simps(2) [simp del]

lemma value_text_skip: "value_text n d c \<Longrightarrow> skip_ws (c @ r) = c @ r"
  by (simp add: value_text_def skip_ws_app)

lemma scan_elems_step:
  assumes "value_text n d c"
  shows "scan_elems (Suc n) d (c @ CHR '','' # w) = map_option (\<lambda>(es, r). (c # es, r)) (scan_elems n d w)"
    "scan_elems (Suc n) d (c @ CHR '']'' # w) = Some ([c], w)"
  using value_textD [OF assms, of "CHR '','' # w"] value_textD [OF assms, of "CHR '']'' # w"]
  by (simp_all add: scan_elems.simps(2))

lemma scan_fields_step:
  assumes "str_body k" "value_text n d c"
  shows "scan_fields (Suc n) d (member (k, c) @ CHR '','' # w) = map_option (\<lambda>(fs, r). ((k, c, c) # fs, r)) (scan_fields n d w)"
    "scan_fields (Suc n) d (member (k, c) @ CHR ''}'' # w) = Some ([(k, c, c)], w)"
  using value_textD [OF assms(2), of "CHR '','' # w"] value_textD [OF assms(2), of "CHR ''}'' # w"]
    value_text_skip [OF assms(2)] scan_string_body [OF assms(1)]
  by (simp_all add: scan_fields.simps(2) member_def json_str_def)

lemma value_text_arr:
  assumes "es \<noteq> []" "\<forall>r. scan_elems n (d + 1) (join_comma es @ CHR '']'' # r) = Some (es, r)"
    "value_text m d' (hd es)" "d < maxNestingDepth"
  shows "value_text (Suc n) d (json_arr es)"
proof -
  have h: "skip_ws (join_comma es @ r) = join_comma es @ r" "take 1 (join_comma es @ r) \<noteq> '']''" for r
  proof -
    obtain e es' where es: "es = e # es'" using assms(1) by (cases es) auto
    obtain c e' where e: "e = c # e'" "\<not> json_space c" "c \<noteq> CHR '']''"
      using assms(3) unfolding es value_text_def by (cases e) auto
    obtain y where "join_comma es = c # y" by (cases es') (simp_all add: es e)
    with e show "skip_ws (join_comma es @ r) = join_comma es @ r" "take 1 (join_comma es @ r) \<noteq> '']''" by simp_all
  qed
  show ?thesis
    using assms(2,4) h [of "CHR '']'' # _"]
    by (simp add: value_text_def json_arr_def scan_value.simps(2))
qed

lemma value_text_obj:
  assumes "ms \<noteq> []" "\<forall>r. scan_fields n (d + 1) (join_comma (map member ms) @ CHR ''}'' # r) = Some (map (\<lambda>(k, c). (k, c, c)) ms, r)"
    "\<forall>(k, c) \<in> set ms. html_escape k = k" "d < maxNestingDepth"
  shows "value_text (Suc n) d (json_obj ms)"
proof -
  obtain m ms' where ms: "ms = m # ms'" using assms(1) by (cases ms) auto
  obtain y where j: "join_comma (map member ms) = dquote # y"
    by (cases ms') (simp_all add: ms member_def json_str_def)
  have h: "skip_ws (join_comma (map member ms) @ r) = join_comma (map member ms) @ r"
    "take 1 (join_comma (map member ms) @ r) \<noteq> ''}''" for r
    by (simp_all add: j)
  have k: "map (\<lambda>(k, _, v). (html_escape k, v)) (map (\<lambda>(k, c). (k, c, c)) ms) = ms"
    using assms(3) by (induction ms) auto
  have "scan_value (Suc n) d (json_obj ms @ r) = Some (json_obj ms, r)" for r
    using assms(2,4) h [of "CHR ''}'' # r"] k by (simp add: json_obj_def scan_value.simps(2) del: map_map)
  then show ?thesis by (simp add: value_text_def json_obj_def)
qed

definition esc_field :: "string \<times> string \<times> string \<Rightarrow> string \<times> string" where
  "esc_field f = (html_escape (fst f), snd (snd f))"

lemma esc_field_eq: "(\<lambda>(k, _, v). (html_escape k, v)) = esc_field"
  by (auto simp: esc_field_def fun_eq_iff)

definition elems_text :: "nat \<Rightarrow> int \<Rightarrow> string list \<Rightarrow> bool" where
  "elems_text n d es \<longleftrightarrow> es \<noteq> [] \<and> (\<exists>m d'. value_text m d' (hd es)) \<and>
     (\<forall>r. scan_elems n d (join_comma es @ CHR '']'' # r) = Some (es, r))"

definition fields_text :: "nat \<Rightarrow> int \<Rightarrow> (string \<times> string) list \<Rightarrow> bool" where
  "fields_text n d ms \<longleftrightarrow> ms \<noteq> [] \<and>
     (\<forall>r. scan_fields n d (join_comma (map member ms) @ CHR ''}'' # r) = Some (map (\<lambda>(k, c). (k, c, c)) ms, r))"

lemma fields_text_one: "str_body k \<Longrightarrow> value_text n d c \<Longrightarrow> fields_text (Suc n) d [(k, c)]"
  by (simp add: fields_text_def scan_fields_step)

lemma fields_text_Cons: "str_body k \<Longrightarrow> value_text n d c \<Longrightarrow> fields_text n d ms \<Longrightarrow> fields_text (Suc n) d ((k, c) # ms)"
  by (simp add: fields_text_def join_comma_Cons scan_fields_step)

lemma scan_literal_Some: "scan_literal l s = Some (c, r) \<longleftrightarrow> c = l \<and> s = l @ r"
  by (auto simp: scan_literal_def) (metis append_take_drop_id)

lemma scan_fields_Some:
  assumes "scan_fields (Suc n) d s = Some (fs, r)"
  obtains k u v c r1 where "str_body k" "skip_ws s = dquote # k @ dquote # u" "skip_ws u = CHR '':'' # v"
    "scan_value n d (skip_ws v) = Some (c, r1)"
    "(\<exists>w fs'. skip_ws r1 = CHR '','' # w \<and> scan_fields n d w = Some (fs', r) \<and>
        fs = (k, take (length (skip_ws v) - length r1) (skip_ws v), c) # fs') \<or>
     skip_ws r1 = CHR ''}'' # r \<and> fs = [(k, take (length (skip_ws v) - length r1) (skip_ws v), c)]"
  using assms unfolding scan_fields.simps
  by (auto simp: Let_def split: list.splits option.splits if_splits dest!: scan_string_Some)

lemma scan_elems_Some:
  assumes "scan_elems (Suc n) d s = Some (es, r)"
  obtains c r1 where "scan_value n d s = Some (c, r1)"
    "(\<exists>w es'. skip_ws r1 = CHR '','' # w \<and> scan_elems n d w = Some (es', r) \<and> es = c # es') \<or>
     skip_ws r1 = CHR '']'' # r \<and> es = [c]"
  using assms unfolding scan_elems.simps
  by (auto split: list.splits option.splits if_splits)

lemma scan_value_Some:
  assumes "scan_value (Suc n) d s = Some (c, r)"
  obtains (obj) t fs where "skip_ws s = CHR ''{'' # t" "d < maxNestingDepth" "scan_fields n (d + 1) t = Some (fs, r)"
      "c = json_obj (map esc_field fs)"
    | (obj0) t where "skip_ws s = CHR ''{'' # t" "d < maxNestingDepth" "skip_ws t = CHR ''}'' # r" "c = json_obj []"
    | (arr) t es where "skip_ws s = CHR ''['' # t" "d < maxNestingDepth" "scan_elems n (d + 1) t = Some (es, r)" "c = json_arr es"
    | (arr0) t where "skip_ws s = CHR ''['' # t" "d < maxNestingDepth" "skip_ws t = CHR '']'' # r" "c = json_arr []"
    | (str) b where "skip_ws s = dquote # b @ dquote # r" "str_body b" "c = json_str (html_escape b)"
    | (lit) "c = ''true'' \<or> c = ''false'' \<or> c = ''null''" "skip_ws s = c @ r"
    | (num) "scan_number (skip_ws s) = Some (c, r)"
proof -
  obtain x t where s: "skip_ws s = x # t" using assms by (auto simp: scan_value.simps(2) split: list.splits)
  consider "x = CHR ''{''" | "x = CHR ''[''" | "x = dquote" | "x = CHR ''t'' \<or> x = CHR ''f'' \<or> x = CHR ''n''"
    | "x \<notin> {CHR ''{'', CHR ''['', dquote, CHR ''t'', CHR ''f'', CHR ''n''}" by auto
  then show thesis
  proof cases
    case 1
    with assms s obj obj0 show thesis
      by (auto simp: scan_value.simps(2) esc_field_eq split: if_splits dest!: take1D)
  next
    case 2
    with assms s arr arr0 show thesis
      by (auto simp: scan_value.simps(2) split: if_splits dest!: take1D)
  next
    case 3
    with assms s str show thesis
      by (auto simp: scan_value.simps(2) dest!: scan_string_Some)
  next
    case 4
    with assms s lit show thesis
      by (auto simp: scan_value.simps(2) scan_literal_Some)
  next
    case 5
    with assms s num show thesis by (simp add: scan_value.simps(2))
  qed
qed

lemma scan_stable:
  "(\<forall>d s c r. scan_value n d s = Some (c, r) \<longrightarrow> value_text n d c) \<and>
   (\<forall>d s es r. scan_elems n d s = Some (es, r) \<longrightarrow> elems_text n d es) \<and>
   (\<forall>d s fs r. scan_fields n d s = Some (fs, r) \<longrightarrow> fields_text n d (map esc_field fs))"
proof (induction n)
  case 0
  then show ?case by simp
next
  case (Suc n)
  then have iv: "\<And>d s c r. scan_value n d s = Some (c, r) \<Longrightarrow> value_text n d c"
    and ie: "\<And>d s es r. scan_elems n d s = Some (es, r) \<Longrightarrow> elems_text n d es"
    and jf: "\<And>d s fs r. scan_fields n d s = Some (fs, r) \<Longrightarrow> fields_text n d (map esc_field fs)" by blast+
  have v: "value_text (Suc n) d c" if "scan_value (Suc n) d s = Some (c, r)" for d s c r
    using that
  proof (cases rule: scan_value_Some)
    case (obj t fs)
    have "\<forall>(k, c) \<in> set (map esc_field fs). html_escape k = k" by (auto simp: esc_field_def)
    with jf [OF obj(3)] value_text_obj [of "map esc_field fs" n d] obj show ?thesis by (simp add: fields_text_def)
  next
    case (arr t es)
    with ie [OF arr(3)] value_text_arr [of es n d] show ?thesis by (auto simp: elems_text_def)
  next
    case str
    then show ?thesis by (simp add: value_text_str str_body_html_escape)
  next
    case num
    then show ?thesis by (rule value_text_number)
  next
    case (obj0 t)
    then show ?thesis by (simp add: value_text_def json_obj_def scan_value.simps(2))
  next
    case (arr0 t)
    then show ?thesis by (simp add: value_text_def json_arr_def scan_value.simps(2))
  next
    case lit
    then show ?thesis using value_text_literal by blast
  qed
  have e: "elems_text (Suc n) d es" if "scan_elems (Suc n) d s = Some (es, r)" for d s es r
    using that
  proof (cases rule: scan_elems_Some)
    case (1 c r1)
    note c = iv [OF 1(1)]
    show ?thesis using 1(2)
    proof (elim disjE exE conjE)
      fix w es' assume w: "scan_elems n d w = Some (es', r)" "es = c # es'"
      from ie [OF w(1)] c w(2) show ?thesis by (auto simp: elems_text_def join_comma_Cons scan_elems_step [OF c])
    next
      assume "es = [c]"
      with c show ?thesis by (auto simp: elems_text_def scan_elems_step [OF c])
    qed
  qed
  have f: "fields_text (Suc n) d (map esc_field fs)" if "scan_fields (Suc n) d s = Some (fs, r)" for d s fs r
    using that
  proof (cases rule: scan_fields_Some)
    case (1 k u v c r1)
    note c = iv [OF 1(4)] str_body_html_escape [OF 1(1)]
    show ?thesis using 1(5)
    proof (elim disjE exE conjE)
      fix w fs' assume w: "scan_fields n d w = Some (fs', r)"
        "fs = (k, take (length (skip_ws v) - length r1) (skip_ws v), c) # fs'"
      from fields_text_Cons [OF c(2,1) jf [OF w(1)]] show ?thesis by (simp add: w(2) esc_field_def)
    next
      assume "fs = [(k, take (length (skip_ws v) - length r1) (skip_ws v), c)]"
      with fields_text_one [OF c(2,1)] show ?thesis by (simp add: esc_field_def)
    qed
  qed
  from v e f show ?case by blast
qed

lemmas scan_value_stable = scan_stable [THEN conjunct1, rule_format]

section \<open>The bound on the recursion\<close>

lemma length_skip_ws_eq: "skip_ws s = t \<Longrightarrow> length t \<le> length s"
  using length_skip_ws by blast

lemma scan_rest:
  "(\<forall>d s c r. scan_value n d s = Some (c, r) \<longrightarrow> length r < length s) \<and>
   (\<forall>d s es r. scan_elems n d s = Some (es, r) \<longrightarrow> length r < length s) \<and>
   (\<forall>d s fs r. scan_fields n d s = Some (fs, r) \<longrightarrow> length r < length s)"
proof (induction n)
  case (Suc n)
  then have iv: "\<And>d s c r. scan_value n d s = Some (c, r) \<Longrightarrow> length r < length s"
    and ie: "\<And>d s es r. scan_elems n d s = Some (es, r) \<Longrightarrow> length r < length s"
    and jf: "\<And>d s fs r. scan_fields n d s = Some (fs, r) \<Longrightarrow> length r < length s" by blast+
  have v: "length r < length s" if "scan_value (Suc n) d s = Some (c, r)" for d s c r
    using that
  proof (cases rule: scan_value_Some)
    case (obj t fs)
    from jf [OF obj(3)] length_skip_ws_eq [OF obj(1)] show ?thesis by simp
  next
    case (arr t es)
    from ie [OF arr(3)] length_skip_ws_eq [OF arr(1)] show ?thesis by simp
  next
    case (obj0 t)
    from length_skip_ws_eq [OF obj0(1)] length_skip_ws_eq [OF obj0(3)] show ?thesis by simp
  next
    case (arr0 t)
    from length_skip_ws_eq [OF arr0(1)] length_skip_ws_eq [OF arr0(3)] show ?thesis by simp
  next
    case (str b)
    from length_skip_ws_eq [OF str(1)] show ?thesis by simp
  next
    case lit
    from length_skip_ws_eq [OF lit(2)] lit(1) show ?thesis by auto
  next
    case num
    from scan_number_Some(1,3) [OF num] length_skip_ws_eq [of s] show ?thesis by (cases c) auto
  qed
  have e: "length r < length s" if "scan_elems (Suc n) d s = Some (es, r)" for d s es r
    using that
  proof (cases rule: scan_elems_Some)
    case (1 c r1)
    from 1(2) iv [OF 1(1)] ie length_skip_ws [of r1] show ?thesis by fastforce
  qed
  have f: "length r < length s" if "scan_fields (Suc n) d s = Some (fs, r)" for d s fs r
    using that
  proof (cases rule: scan_fields_Some)
    case (1 k u v c r1)
    have "length r1 < length s"
      using iv [OF 1(4)] length_skip_ws_eq [OF 1(2)] length_skip_ws_eq [OF 1(3)] length_skip_ws [of v] by simp
    with 1(5) jf length_skip_ws [of r1] show ?thesis by fastforce
  qed
  from v e f show ?case by blast
qed simp

lemmas scan_value_rest = scan_rest [THEN conjunct1, rule_format]

text \<open>A call reads more characters than the calls it makes: a bound that is at least the length of the
  text finds what any bound finds, and a text that scans at one depth scans at a smaller one.\<close>

lemma scan_bound:
  "(\<forall>d d' s c r m. scan_value n d s = Some (c, r) \<longrightarrow> d' \<le> d \<longrightarrow> length s \<le> m + length r \<longrightarrow> scan_value m d' s = Some (c, r)) \<and>
   (\<forall>d d' s es r m. scan_elems n d s = Some (es, r) \<longrightarrow> d' \<le> d \<longrightarrow> length s \<le> m + length r \<longrightarrow> scan_elems m d' s = Some (es, r)) \<and>
   (\<forall>d d' s fs r m. scan_fields n d s = Some (fs, r) \<longrightarrow> d' \<le> d \<longrightarrow> length s \<le> m + length r \<longrightarrow> scan_fields m d' s = Some (fs, r))"
proof (induction n)
  case (Suc n)
  then have iv: "\<And>d d' s c r m. scan_value n d s = Some (c, r) \<Longrightarrow> d' \<le> d \<Longrightarrow> length s \<le> m + length r \<Longrightarrow> scan_value m d' s = Some (c, r)"
    and ie: "\<And>d d' s es r m. scan_elems n d s = Some (es, r) \<Longrightarrow> d' \<le> d \<Longrightarrow> length s \<le> m + length r \<Longrightarrow> scan_elems m d' s = Some (es, r)"
    and jf: "\<And>d d' s fs r m. scan_fields n d s = Some (fs, r) \<Longrightarrow> d' \<le> d \<Longrightarrow> length s \<le> m + length r \<Longrightarrow> scan_fields m d' s = Some (fs, r)"
    by blast+
  note rests = scan_rest [of n, THEN conjunct1, rule_format] scan_rest [of n, THEN conjunct2, THEN conjunct1, rule_format]
    scan_rest [of n, THEN conjunct2, THEN conjunct2, rule_format]
  note rest = scan_rest [of "Suc n", THEN conjunct1, rule_format] scan_rest [of "Suc n", THEN conjunct2, THEN conjunct1, rule_format]
    scan_rest [of "Suc n", THEN conjunct2, THEN conjunct2, rule_format]
  have v: "scan_value m d' s = Some (c, r)"
    if c: "scan_value (Suc n) d s = Some (c, r)" and d: "d' \<le> d" "length s \<le> m + length r" for d d' s c r m
  proof -
    obtain m' where m: "m = Suc m'" using d(2) rest(1) [OF c] by (cases m) auto
    show ?thesis using c
    proof (cases rule: scan_value_Some)
      case (obj t fs)
      have "scan_fields m' (d' + 1) t = Some (fs, r)"
        using jf [OF obj(3), of "d' + 1" m'] length_skip_ws_eq [OF obj(1)] d m by simp
      moreover have "take 1 (skip_ws t) \<noteq> ''}''"
        using obj(3) by (cases n) (auto simp: scan_fields.simps(2) dest!: take1D split: list.splits)
      ultimately show ?thesis using obj d by (simp add: m scan_value.simps(2) esc_field_eq)
    next
      case (arr t es)
      have "scan_elems m' (d' + 1) t = Some (es, r)"
        using ie [OF arr(3), of "d' + 1" m'] length_skip_ws_eq [OF arr(1)] d m by simp
      moreover have "take 1 (skip_ws t) \<noteq> '']''"
      proof
        assume "take 1 (skip_ws t) = '']''"
        then obtain u where u: "skip_ws t = CHR '']'' # u" by (auto dest: take1D)
        then show False using arr(3) by (cases n; cases "n - 1")
            (auto simp: scan_elems.simps(2) scan_value.simps(2) scan_number_def scan_sign_def scan_int_def between_def)
      qed
      ultimately show ?thesis using arr d by (simp add: m scan_value.simps(2))
    next
      case (lit)
      then show ?thesis by (auto simp: m scan_value.simps(2) scan_literal_def)
    next
      case num
      from scan_number_Some(1,3) [OF num] obtain x t where x: "skip_ws s = x # t" "is_digit x \<or> x = CHR ''-''" by (cases c) auto
      then have "x \<notin> {CHR ''{'', CHR ''['', dquote, CHR ''t'', CHR ''f'', CHR ''n''}" using digit_not_space [of x] by auto
      with x num show ?thesis by (simp add: m scan_value.simps(2))
    qed (use d in \<open>simp_all add: m scan_value.simps(2) scan_string_body\<close>)
  qed
  have e: "scan_elems m d' s = Some (es, r)"
    if c: "scan_elems (Suc n) d s = Some (es, r)" and d: "d' \<le> d" "length s \<le> m + length r" for d d' s es r m
  proof -
    obtain m' where m: "m = Suc m'" using d(2) rest(2) [OF c] by (cases m) auto
    show ?thesis using c
    proof (cases rule: scan_elems_Some)
      case (1 c r1)
      note l = length_skip_ws [of r1] rests(1) [OF 1(1)]
      from 1(2) show ?thesis
      proof (elim disjE exE conjE)
        fix w es' assume w: "skip_ws r1 = CHR '','' # w" "scan_elems n d w = Some (es', r)" "es = c # es'"
        have "scan_value m' d' s = Some (c, r1)" using iv [OF 1(1), of d' m'] l w(1) rests(2) [OF w(2)] d m by simp
        moreover have "scan_elems m' d' w = Some (es', r)" using ie [OF w(2), of d' m'] l w(1) d m by simp
        ultimately show ?thesis by (simp add: m scan_elems.simps(2) w)
      next
        assume w: "skip_ws r1 = CHR '']'' # r" "es = [c]"
        have "scan_value m' d' s = Some (c, r1)" using iv [OF 1(1), of d' m'] l w(1) d m by simp
        then show ?thesis by (simp add: m scan_elems.simps(2) w)
      qed
    qed
  qed
  have f: "scan_fields m d' s = Some (fs, r)"
    if c: "scan_fields (Suc n) d s = Some (fs, r)" and d: "d' \<le> d" "length s \<le> m + length r" for d d' s fs r m
  proof -
    obtain m' where m: "m = Suc m'" using d(2) rest(3) [OF c] by (cases m) auto
    show ?thesis using c
    proof (cases rule: scan_fields_Some)
      case (1 k u v c r1)
      note l = length_skip_ws [of r1] length_skip_ws [of v] length_skip_ws_eq [OF 1(2)] length_skip_ws_eq [OF 1(3)]
        rests(1) [OF 1(4)]
      from 1(5) show ?thesis
      proof (elim disjE exE conjE)
        fix w fs' assume w: "skip_ws r1 = CHR '','' # w" "scan_fields n d w = Some (fs', r)"
          "fs = (k, take (length (skip_ws v) - length r1) (skip_ws v), c) # fs'"
        have "scan_value m' d' (skip_ws v) = Some (c, r1)"
          using iv [OF 1(4), of d' m'] l w(1) rests(3) [OF w(2)] d m by simp
        moreover have "scan_fields m' d' w = Some (fs', r)" using jf [OF w(2), of d' m'] l w(1) d m by simp
        ultimately show ?thesis using 1(1-3) by (simp add: m scan_fields.simps(2) w scan_string_body)
      next
        assume w: "skip_ws r1 = CHR ''}'' # r" "fs = [(k, take (length (skip_ws v) - length r1) (skip_ws v), c)]"
        have "scan_value m' d' (skip_ws v) = Some (c, r1)" using iv [OF 1(4), of d' m'] l w(1) d m by simp
        then show ?thesis using 1(1-3) by (simp add: m scan_fields.simps(2) w scan_string_body)
      qed
    qed
  qed
  from v e f show ?case by blast
qed simp

lemmas scan_value_bound = scan_bound [THEN conjunct1, rule_format]
  and scan_fields_bound = scan_bound [THEN conjunct2, THEN conjunct2, rule_format]

lemma json_compact_iff:
  "json_compact s = Some c \<longleftrightarrow> (\<exists>n r. scan_value n 0 s = Some (c, r) \<and> skip_ws r = [])"
proof
  assume "json_compact s = Some c"
  then obtain r where "scan_value (length s + 1) 0 s = Some (c, r)" "skip_ws r = []"
    unfolding json_compact_def by (auto split: option.splits if_splits)
  then show "\<exists>n r. scan_value n 0 s = Some (c, r) \<and> skip_ws r = []" by blast
next
  assume "\<exists>n r. scan_value n 0 s = Some (c, r) \<and> skip_ws r = []"
  then obtain n r where r: "scan_value n 0 s = Some (c, r)" "skip_ws r = []" by blast
  from scan_value_bound [OF r(1), of 0 "length s + 1"] r(2) show "json_compact s = Some c"
    by (simp add: json_compact_def)
qed

lemma json_compact_text:
  assumes "json_compact s = Some c"
  shows "json_compact c = Some c" "c \<noteq> []"
proof -
  from assms obtain n r where "scan_value n 0 s = Some (c, r)" by (auto simp: json_compact_iff)
  from scan_value_stable [OF this] have v: "value_text n 0 c" .
  from value_textD [OF v, of "[]"] have "scan_value n 0 c = Some (c, [])" by simp
  then show "json_compact c = Some c" unfolding json_compact_iff by (metis dropWhile.simps(1))
  from v show "c \<noteq> []" by (simp add: value_text_def)
qed

end
