(* ===== verification/Go_RFC3339.thy ===== *)
theory Go_RFC3339
  imports Go_Strings Go_Time "HOL-Library.Monad_Syntax"
begin

text \<open>
  Instants as RFC 3339 texts: the format \<^verbatim>\<open>time.Time.MarshalJSON\<close> writes and the parser
  \<^verbatim>\<open>UnmarshalJSON\<close> uses (\<^verbatim>\<open>time.Parse\<close> with the layout \<^verbatim>\<open>time.RFC3339\<close>, which takes
  a fraction of any length after the seconds). A UTC instant with a four-digit year reads back.
\<close>

section \<open>Format\<close>

definition fmt_nano :: "nat \<Rightarrow> string" where
  "fmt_nano ns = (if ns = 0 then [] else CHR ''.'' # rev (dropWhile (\<lambda>c. c = CHR ''0'') (rev (fmt_0d 9 ns))))"

definition fmt_zone :: "int \<Rightarrow> string" where
  "fmt_zone off =
     (if off = 0 then ''Z''
      else (if off \<le> -60 then ''-'' else ''+'') @ fmt_0d 2 (nat (\<bar>off\<bar> div 60 div 60)) @ '':'' @ fmt_0d 2 (nat (\<bar>off\<bar> div 60 mod 60)))"

definition FormatRFC3339Nano :: "Time \<Rightarrow> string" where
  "FormatRFC3339Nano t =
     (if Year t < 0 then CHR ''-'' # fmt_0d 4 (nat (- Year t)) else fmt_0d 4 (nat (Year t))) @ ''-'' @
     fmt_0d 2 (nat (Month t)) @ ''-'' @ fmt_0d 2 (nat (Day t)) @ ''T'' @ fmt_0d 2 (nat (Hour t)) @ '':'' @
     fmt_0d 2 (nat (Minute t)) @ '':'' @ fmt_0d 2 (nat (Second t)) @ fmt_nano (nat (Nanosecond t)) @ fmt_zone (tzoff t)"

section \<open>Parse\<close>

definition digit :: "char \<Rightarrow> bool" where
  "digit c \<longleftrightarrow> 48 \<le> (of_char c :: nat) \<and> (of_char c :: nat) \<le> 57"

definition getnum :: "bool \<Rightarrow> string \<Rightarrow> (nat \<times> string) option" where
  "getnum fixed s =
     (if s = [] \<or> \<not> digit (hd s) then None
      else if 2 \<le> length s \<and> digit (s ! 1) then Some (val_dec (take 2 s) 0, drop 2 s)
      else if fixed then None
      else Some (val_dec (take 1 s) 0, tl s))"

definition skip_char :: "char \<Rightarrow> string \<Rightarrow> string option" where
  "skip_char c s = (if take 1 s = [c] then Some (tl s) else None)"

definition parse_year :: "string \<Rightarrow> (nat \<times> string) option" where
  "parse_year s =
     (if 4 \<le> length s \<and> list_all digit (take 4 s) then Some (val_dec (take 4 s) 0, drop 4 s) else None)"

definition parse_nanos :: "string \<Rightarrow> nat \<times> string" where
  "parse_nanos s =
     (if 2 \<le> length s \<and> (hd s = CHR ''.'' \<or> hd s = CHR '','') \<and> digit (s ! 1) then
        let ds = takeWhile digit (tl s); d9 = take 9 ds in (val_dec d9 0 * 10 ^ (9 - length d9), drop (1 + length ds) s)
      else (0, s))"

definition parse_zone :: "string \<Rightarrow> (int \<times> string) option" where
  "parse_zone s =
     (if take 1 s = ''Z'' then Some (0, tl s)
      else if length s < 6 \<or> s ! 3 \<noteq> CHR '':'' then None
      else do {
        (hr, _) \<leftarrow> getnum True (take 2 (drop 1 s));
        (mm, _) \<leftarrow> getnum True (take 2 (drop 4 s));
        if 24 < hr \<or> 60 < mm then None
        else if hd s = CHR ''+'' then Some (int ((hr * 60 + mm) * 60), drop 6 s)
        else if hd s = CHR ''-'' then Some (- int ((hr * 60 + mm) * 60), drop 6 s)
        else None
      })"

definition ParseRFC3339 :: "string \<Rightarrow> Time option" where
  "ParseRFC3339 s =
     do {
       (year, s) \<leftarrow> parse_year s;
       s \<leftarrow> skip_char (CHR ''-'') s;
       (month, s) \<leftarrow> getnum True s;
       s \<leftarrow> skip_char (CHR ''-'') s;
       (day, s) \<leftarrow> getnum True s;
       s \<leftarrow> skip_char (CHR ''T'') s;
       (hour, s) \<leftarrow> getnum False s;
       s \<leftarrow> skip_char (CHR '':'') s;
       (minute, s) \<leftarrow> getnum True s;
       s \<leftarrow> skip_char (CHR '':'') s;
       (second, s) \<leftarrow> getnum True s;
       (offset, s') \<leftarrow> parse_zone (snd (parse_nanos s));
       if s' = [] \<and> valid_date (int year) (int month) (int day) \<and> hour < 24 \<and> minute < 60 \<and> second < 60 then
         let t = time_Date (int year) (int month) (int day) (int hour) (int minute) (int second) (int (fst (parse_nanos s)))
         in Some (t\<lparr>tsec := tsec t - offset, tzoff := offset\<rparr>)
       else None
     }"

section \<open>Round trip\<close>

lemma digit_digit_char: "d < 10 \<Longrightarrow> digit (digit_char d)"
  by (simp add: digit_def of_digit_char)

lemma dec_nat_all_digits: "list_all digit (dec_nat n)"
  using dec_nat_digits by (auto simp: list_all_iff digit_def)

lemma length_dec_nat: "n < 10 ^ w \<Longrightarrow> 0 < w \<Longrightarrow> length (dec_nat n) \<le> w"
proof (induction n arbitrary: w rule: dec_nat.induct)
  case (1 n)
  show ?case
  proof (cases "n < 10")
    case True
    then show ?thesis using 1(3) by (simp add: dec_nat.simps [of n])
  next
    case False
    then obtain w' where w: "w = Suc w'" "0 < w'" using 1(2,3) by (cases w; cases "w - 1") auto
    have "n div 10 < 10 ^ w'" using 1(2) by (simp add: w(1) less_mult_imp_div_less)
    from 1(1) [OF False this w(2)] False show ?thesis by (simp add: dec_nat.simps [of n] w(1))
  qed
qed

lemma val_dec_zeros: "val_dec (replicate k (CHR ''0'') @ s) 0 = val_dec s 0"
  by (induction k) simp_all

lemma fmt_0d_props:
  assumes "n < 10 ^ w" "0 < w"
  shows "length (fmt_0d w n) = w" "val_dec (fmt_0d w n) 0 = n" "list_all digit (fmt_0d w n)"
  using length_dec_nat [OF assms] dec_nat_all_digits [of n]
  by (simp_all add: fmt_0d_def Let_def val_dec_zeros val_dec_dec_nat list_all_iff) (auto simp: digit_def)

lemma getnum_fmt: "n < 100 \<Longrightarrow> getnum fixed (fmt_0d 2 n @ r) = Some (n, r)"
proof -
  assume n: "n < 100"
  note p = fmt_0d_props [of n 2]
  obtain a b where ab: "fmt_0d 2 n = [a, b]" using p(1) n by (auto simp: numeral_2_eq_2 length_Suc_conv)
  have "digit a" "digit b" "val_dec [a, b] 0 = n" using p(2,3) n by (simp_all add: ab)
  then show ?thesis by (simp add: getnum_def ab)
qed

lemma parse_year_fmt: "n < 10000 \<Longrightarrow> parse_year (fmt_0d 4 n @ r) = Some (n, r)"
  using fmt_0d_props [of n 4] by (simp add: parse_year_def)

lemma skip_char_Cons [simp]: "skip_char c (c # s) = Some s"
  by (simp add: skip_char_def)

lemma val_dec_strip:
  assumes "list_all digit s" "t = rev (dropWhile (\<lambda>c. c = CHR ''0'') (rev s))"
  shows "val_dec t a * 10 ^ (length s - length t) = val_dec s a" "length t \<le> length s" "list_all digit t" "val_dec s 0 \<noteq> 0 \<longrightarrow> t \<noteq> []"
proof -
  define k where "k = length s - length t"
  obtain z where z: "s = t @ z" "\<forall>c \<in> set z. c = CHR ''0''"
  proof
    show "s = t @ rev (takeWhile (\<lambda>c. c = CHR ''0'') (rev s))"
      unfolding assms(2) by (metis rev_append rev_rev_ident takeWhile_dropWhile_id)
    show "\<forall>c \<in> set (rev (takeWhile (\<lambda>c. c = CHR ''0'') (rev s))). c = CHR ''0''" by (auto dest: set_takeWhileD)
  qed
  have "val_dec z b = b * 10 ^ length z" for b
    using z(2) by (induction z arbitrary: b) simp_all
  then show v: "val_dec t a * 10 ^ (length s - length t) = val_dec s a" by (simp add: z(1) val_dec_append)
  show "length t \<le> length s" "list_all digit t" using assms(1) by (simp_all add: z(1))
  show "val_dec s 0 \<noteq> 0 \<longrightarrow> t \<noteq> []"
  proof (intro impI notI)
    assume "val_dec s 0 \<noteq> 0" "t = []"
    moreover have "val_dec z 0 = 0" using z(2) by (induction z) simp_all
    ultimately show False by (simp add: z(1))
  qed
qed

lemma parse_nanos_fmt:
  assumes "ns < 1000000000" "r \<noteq> []" "hd r \<noteq> CHR ''.''" "hd r \<noteq> CHR '',''" "\<not> digit (hd r)"
  shows "parse_nanos (fmt_nano ns @ r) = (ns, r)"
proof (cases "ns = 0")
  case True
  then show ?thesis using assms by (cases r) (auto simp: parse_nanos_def fmt_nano_def)
next
  case False
  define t where "t = rev (dropWhile (\<lambda>c. c = CHR ''0'') (rev (fmt_0d 9 ns)))"
  have n9: "ns < 10 ^ 9" using assms(1) by simp
  note p = fmt_0d_props [OF n9]
  note s = val_dec_strip(1) [OF p(3) t_def, of 0] val_dec_strip(2-) [OF p(3) t_def]
  have t: "t \<noteq> []" "list_all digit t" "length t \<le> 9" "val_dec t 0 * 10 ^ (9 - length t) = ns"
    using s p False by simp_all
  have tw: "takeWhile digit (t @ r) = t"
  proof -
    have "takeWhile digit r = []" using assms(2,5) by (cases r) auto
    with t(2) show ?thesis by (induction t) simp_all
  qed
  obtain c t' where c: "t = c # t'" "digit c" using t(1,2) by (cases t) auto
  have f: "fmt_nano ns @ r = CHR ''.'' # t @ r" using False by (simp add: fmt_nano_def t_def)
  have "take 9 t = t" using t(3) by simp
  with t(4) tw c show ?thesis unfolding f parse_nanos_def by (simp add: Let_def)
qed

lemma ParseRFC3339_Format:
  assumes "tzoff t = 0" "0 \<le> tnsec t" "tnsec t < 1000000000" "0 \<le> Year t" "Year t < 10000"
  shows "ParseRFC3339 (FormatRFC3339Nano t) = Some t"
proof -
  note v = time_fields_valid [of t]
  have m: "1 \<le> Month t" "Month t \<le> 12" "1 \<le> Day t" "Day t \<le> 31"
    using v(1) unfolding valid_date_def by (auto simp: days_in_month_def split: if_splits)
  have d: "\<not> digit (CHR ''Z'')" by (simp add: digit_def)
  have n: "parse_nanos (fmt_nano (nat (Nanosecond t)) @ ''Z'') = (nat (Nanosecond t), ''Z'')"
    using assms d by (intro parse_nanos_fmt) (simp_all add: Nanosecond_def nat_less_iff)
  have "ParseRFC3339 (FormatRFC3339Nano t) =
      (let t' = time_Date (Year t) (Month t) (Day t) (Hour t) (Minute t) (Second t) (Nanosecond t)
       in Some (t'\<lparr>tsec := tsec t' - 0, tzoff := 0\<rparr>))"
    using assms v m n unfolding ParseRFC3339_def FormatRFC3339Nano_def
    by (simp add: parse_year_fmt getnum_fmt fmt_zone_def parse_zone_def Nanosecond_def nat_less_iff)
  also have "\<dots> = Some t" using time_Date_of_fields [OF assms(1-3)] assms(1) by (simp add: Let_def)
  finally show ?thesis .
qed

end
