(* ===== verification/JSON_Struct.thy ===== *)
theory JSON_Struct
  imports JSON_Scan Go_RFC3339
begin

text \<open>
  Marshalling and unmarshalling of structs with \<^verbatim>\<open>encoding/json\<close>: integers, strings, instants and
  raw messages as field values, the order and the omission of fields, and the decoder that looks
  every key of an object up without regard to case and keeps the value of a field that is null.
\<close>

section \<open>Encoding\<close>

datatype json_error = SyntaxError | UnmarshalTypeError | TimeError | RawMessageError

definition omitempty :: "string \<Rightarrow> string \<Rightarrow> (string \<times> string) list" where
  "omitempty k s = (if s = [] then [] else [(k, quote_string s)])"

definition enc_uint :: "u64 \<Rightarrow> string" where
  "enc_uint n = dec_nat (unat n)"

definition enc_time :: "Time \<Rightarrow> (json_error, string) res" where
  "enc_time t =
     (if 0 \<le> Year t \<and> Year t < 10000 \<and> \<bar>tzoff t\<bar> div 3600 < 24 then Inr (json_str (FormatRFC3339Nano t))
      else Inl (Err TimeError))"

definition enc_raw :: "string \<Rightarrow> (json_error, string) res" where
  "enc_raw p =
     (if p = [] then Inr ''null''
      else case json_compact p of Some c \<Rightarrow> Inr c | None \<Rightarrow> Inl (Err RawMessageError))"

text \<open>
  \<^verbatim>\<open>json.Indent\<close> with an empty prefix and two blanks: the flags are whether the text is inside a
  string, whether its next character is escaped, and whether a bracket was just opened.
\<close>

definition indent_newline :: "nat \<Rightarrow> string" where
  "indent_newline depth = CHR 0x0A # concat (replicate depth ''  '')"

fun json_indent :: "nat \<Rightarrow> bool \<Rightarrow> string \<Rightarrow> string" and json_indent_str :: "nat \<Rightarrow> string \<Rightarrow> string" where
  "json_indent depth opened [] = []"
| "json_indent depth opened (c # s) =
     (if json_space c then json_indent depth opened s
      else if opened \<and> c \<noteq> CHR ''}'' \<and> c \<noteq> CHR '']'' then
        indent_newline (depth + 1) @
        (if c = CHR ''{'' \<or> c = CHR ''['' then c # json_indent (depth + 1) True s
         else if c = dquote then c # json_indent_str (depth + 1) s
         else c # json_indent (depth + 1) False s)
      else if c = CHR ''{'' \<or> c = CHR ''['' then c # json_indent depth True s
      else if c = CHR '','' then c # indent_newline depth @ json_indent depth False s
      else if c = CHR '':'' then c # CHR '' '' # json_indent depth False s
      else if c = CHR ''}'' \<or> c = CHR '']'' then
        (if opened then c # json_indent depth False s
         else indent_newline (depth - 1) @ c # json_indent (depth - 1) False s)
      else if c = dquote then c # json_indent_str depth s
      else c # json_indent depth False s)"
| "json_indent_str depth [] = []"
| "json_indent_str depth (c # s) =
     (if c = dquote then c # json_indent depth False s
      else if c = bslash then c # take 1 s @ json_indent_str depth (drop 1 s)
      else c # json_indent_str depth s)"

section \<open>Decoding\<close>

definition is_null :: "string \<Rightarrow> bool" where
  "is_null raw \<longleftrightarrow> take 1 raw = ''n''"

definition dec_string :: "string \<Rightarrow> string \<Rightarrow> (json_error, string) res" where
  "dec_string old raw =
     (if is_null raw then Inr old
      else if take 1 raw = [dquote] then Inr (unquote (butlast (tl raw)))
      else Inl (Err UnmarshalTypeError))"

text \<open>\<^verbatim>\<open>strconv.ParseInt\<close> and \<^verbatim>\<open>strconv.ParseUint\<close> in base 10, for 64 bits, on the text of a number.\<close>

definition dec_int :: "int \<Rightarrow> string \<Rightarrow> (json_error, int) res" where
  "dec_int old raw =
     (if is_null raw then Inr old
      else
        let neg = (take 1 raw = ''-''); ds = (if neg then tl raw else raw);
            v = (if neg then - int (val_dec ds 0) else int (val_dec ds 0))
        in if ds \<noteq> [] \<and> list_all is_digit ds \<and> - (2 ^ 63) \<le> v \<and> v < 2 ^ 63 then Inr v
           else Inl (Err UnmarshalTypeError))"

definition dec_uint :: "u64 \<Rightarrow> string \<Rightarrow> (json_error, u64) res" where
  "dec_uint old raw =
     (if is_null raw then Inr old
      else if raw \<noteq> [] \<and> list_all is_digit raw \<and> val_dec raw 0 < 2 ^ 64 then Inr (word_of_nat (val_dec raw 0))
      else Inl (Err UnmarshalTypeError))"

definition dec_time :: "Time \<Rightarrow> string \<Rightarrow> (json_error, Time) res" where
  "dec_time old raw =
     (if is_null raw then Inr old
      else if take 1 raw = [dquote] then
        (case ParseRFC3339 (butlast (tl raw)) of Some t \<Rightarrow> Inr t | None \<Rightarrow> Inl (Err TimeError))
      else Inl (Err TimeError))"

fun dec_fields :: "('a \<Rightarrow> string \<Rightarrow> string \<Rightarrow> (json_error, 'a) res) \<Rightarrow> 'a \<Rightarrow> (string \<times> string \<times> string) list \<Rightarrow> (json_error, 'a) res" where
  "dec_fields f x [] = Inr x"
| "dec_fields f x ((k, raw, c) # fs) = bindR (f x (unquote k) raw) (\<lambda>x. dec_fields f x fs)"

definition json_fields :: "string \<Rightarrow> (string \<times> string \<times> string) list option" where
  "json_fields s =
     (if take 1 s \<noteq> ''{'' then None
      else if take 1 (skip_ws (tl s)) = ''}'' then Some []
      else map_option fst (scan_fields (length s) 1 (tl s)))"

definition dec_struct :: "('a \<Rightarrow> string \<Rightarrow> string \<Rightarrow> (json_error, 'a) res) \<Rightarrow> 'a \<Rightarrow> string \<Rightarrow> (json_error, 'a) res" where
  "dec_struct f x raw =
     (if is_null raw then Inr x
      else case json_fields raw of
        None \<Rightarrow> Inl (Err UnmarshalTypeError)
      | Some fs \<Rightarrow> dec_fields f x fs)"

definition json_Unmarshal :: "('a \<Rightarrow> string \<Rightarrow> string \<Rightarrow> (json_error, 'a) res) \<Rightarrow> 'a \<Rightarrow> string \<Rightarrow> (json_error, 'a) res" where
  "json_Unmarshal f x data =
     (if go_json_Valid data then dec_struct f x (skip_ws data) else Inl (Err SyntaxError))"

section \<open>Texts the encoder writes\<close>

lemma str_body_printable: "str_body b \<Longrightarrow> c \<in> set b \<Longrightarrow> \<not> between 0 0x1F c"
proof (induction rule: str_body.induct)
  case (u_esc h b)
  have "\<not> between 0 0x1F x" if "is_hex x" for x
    using that by (auto simp: is_hex_def hex_val_def between_def Let_def split: if_splits)
  then show ?case using u_esc by (auto simp: list_all_iff between_def)
qed (auto simp: plain_char_def simple_escapes_def between_def)

lemma str_body_plain_append: "list_all plain_char s \<Longrightarrow> str_body (s @ t) \<longleftrightarrow> str_body t"
  by (induction s) (auto simp: str_body_plain_iff)

lemma str_body_quote_ascii: "between 0 0x7F c \<Longrightarrow> str_body t \<Longrightarrow> str_body (quote_ascii c @ t)"
  using str_body.esc [of _ t]
  by (auto simp: quote_ascii_def str_body_u_escape simple_escapes_def plain_char_def str_body_plain_iff)

lemma html_escape_quote_ascii: "between 0 0x7F c \<Longrightarrow> html_escape (quote_ascii c @ t) = quote_ascii c @ html_escape t"
proof -
  assume "between 0 0x7F c"
  then have e: "c \<noteq> CHR 0xE2" by (auto simp: between_def)
  from html_escape_plain [OF _ e, of t] show ?thesis
    by (auto simp: quote_ascii_def html_escape_plain html_char_def)
qed

lemma rune_bytes:
  assumes "rune_len s = n" "n \<noteq> 0" "\<not> between 0 0x7F (hd s)"
  shows "list_all plain_char (take n s)" "\<forall>c \<in> set (take n s). \<not> html_char c" "CHR 0xE2 \<notin> set (tl (take n s))"
proof -
  obtain c u where s: "s = c # u" using assms by (cases s) auto
  have t: "take n s = c # take (n - 1) u" using assms(2) by (simp add: s take_Cons')
  have "list_all (between 0x80 0xBF) (take (n - 1) u)" using assms unfolding s by (auto split: if_splits)
  then have u: "x \<in> set (take (n - 1) u) \<Longrightarrow> between 0x80 0xBF x" for x by (simp add: list_all_iff)
  have hi: "128 \<le> (of_char x :: nat)" if "x \<in> set (take n s)" for x
  proof -
    have "x = c \<or> x \<in> set (take (n - 1) u)" using that by (simp add: t)
    then show ?thesis using u [of x] assms(3) by (auto simp: s between_def)
  qed
  show "list_all plain_char (take n s)" "\<forall>c \<in> set (take n s). \<not> html_char c"
    using hi by (fastforce simp: list_all_iff plain_char_def between_def html_char_def)+
  show "CHR 0xE2 \<notin> set (tl (take n s))" using u [of "CHR 0xE2"] by (auto simp: t between_def)
qed

lemma html_escape_rune:
  assumes "rune_len s = n" "n \<noteq> 0" "\<not> between 0 0x7F (hd s)" "\<not> line_sep s"
  shows "html_escape (take n s @ t) = take n s @ html_escape t"
proof -
  note b = rune_bytes [OF assms(1-3)]
  obtain c u where s: "s = c # u" using assms by (cases s) auto
  have tk: "take n s = c # take (n - 1) u" using assms(2) by (simp add: s take_Cons')
  have "html_escape (v @ t) = v @ html_escape t" if "\<forall>x \<in> set v. \<not> html_char x" "CHR 0xE2 \<notin> set v" for v
    using that by (induction v) (auto simp: html_escape_plain)
  then have v: "html_escape (take (n - 1) u @ t) = take (n - 1) u @ html_escape t" using b(2,3) by (simp add: tk)
  have "\<not> line_sep (c # take (n - 1) u @ t)"
  proof
    assume l: "line_sep (c # take (n - 1) u @ t)"
    then have c: "c = CHR 0xE2" by (auto simp: line_sep_def)
    then have "n = 3" using assms(1,2) unfolding s by (auto simp: between_def split: if_splits)
    moreover have "3 \<le> length s" using rune_len_le [of s] assms(1) calculation by simp
    ultimately have "take 3 s = take 3 (c # take (n - 1) u @ t)" by (simp add: s take_Cons')
    with l assms(4) show False by (simp add: line_sep_def)
  qed
  moreover have "\<not> html_char c" using b(2) by (simp add: tk)
  ultimately have "html_escape (c # take (n - 1) u @ t) = c # html_escape (take (n - 1) u @ t)"
    by (subst html_escape.simps) simp
  then show ?thesis using v by (simp add: tk)
qed

lemma quote_body_text: "str_body (quote_body s) \<and> html_escape (quote_body s) = quote_body s"
proof (induction s rule: quote_body.induct)
  case (1 s)
  have nil: "quote_body [] = []" by (simp add: quote_body.simps)
  show ?case
  proof (cases "s = [] \<or> between 0 0x7F (hd s) \<or> rune_len s = 0 \<or> line_sep s")
    case True
    with 1(1-3) nil show ?thesis
      by (cases "s = []"; cases "between 0 0x7F (hd s)"; cases "rune_len s = 0")
        (simp_all add: quote_body.simps [of s] str_body.empty str_body_quote_ascii html_escape_quote_ascii str_body_u_escape)
  next
    case False
    then have q: "quote_body s = take (rune_len s) s @ quote_body (drop (rune_len s) s)"
      by (simp add: quote_body.simps [of s])
    with False 1(4) rune_bytes(1) [of s] html_escape_rune [of s] show ?thesis
      by (simp add: str_body_plain_append)
  qed
qed

lemma value_text_quote: "value_text (Suc n) d (quote_string s)"
  using value_text_str [of "quote_body s"] quote_body_text [of s] by (simp add: quote_string_def json_str_def)

lemma dec_nat_hd: "dec_nat n \<noteq> [] \<and> (0 < n \<longrightarrow> hd (dec_nat n) \<noteq> CHR ''0'')"
proof (induction n rule: dec_nat.induct)
  case (1 n)
  show ?case
  proof (cases "n < 10")
    case True
    have "digit_char n \<noteq> CHR ''0''" if "0 < n" using of_digit_char [OF True] that by auto
    with True show ?thesis by (simp add: dec_nat.simps [of n])
  next
    case False
    with 1 [OF False] show ?thesis by (simp add: dec_nat.simps [of n])
  qed
qed

lemma scan_int_dec_nat: "scan_int (dec_nat n) = Some (dec_nat n, [])"
proof (cases "n = 0")
  case True
  have "dec_nat 0 = ''0''" by code_simp
  then show ?thesis by (simp add: True scan_int_def)
next
  case False
  obtain c t where c: "dec_nat n = c # t" using dec_nat_hd [of n] by (cases "dec_nat n") auto
  have d: "list_all is_digit (dec_nat n)" using dec_nat_digits by (auto simp: list_all_iff between_def)
  have "c \<noteq> CHR ''0''" using dec_nat_hd [of n] False c by simp
  moreover have "takeWhile is_digit (dec_nat n) = dec_nat n" "dropWhile is_digit (dec_nat n) = []"
    using span_digits [OF d, of "[]"] by simp_all
  ultimately show ?thesis using d by (simp add: scan_int_def c)
qed

lemma scan_number_dec: "scan_number (dec_nat n) = Some (dec_nat n, [])" "scan_number (CHR ''-'' # dec_nat n) = Some (CHR ''-'' # dec_nat n, [])"
proof -
  obtain c t where c: "dec_nat n = c # t" "is_digit c"
    using dec_nat_hd [of n] dec_nat_digits [of "hd (dec_nat n)" n] by (cases "dec_nat n") (auto simp: between_def)
  then have "c \<noteq> CHR ''-''" by (auto simp: between_def)
  then have "scan_sign (dec_nat n) = ([], dec_nat n)" by (simp add: scan_sign_def c)
  then show "scan_number (dec_nat n) = Some (dec_nat n, [])" "scan_number (CHR ''-'' # dec_nat n) = Some (CHR ''-'' # dec_nat n, [])"
    by (simp_all add: scan_number_def scan_int_dec_nat scan_frac_def scan_exp_def) (simp add: scan_sign_def scan_int_dec_nat scan_frac_def scan_exp_def)
qed

lemma value_text_FormatInt: "value_text (Suc n) d (FormatInt i)"
  using value_text_number [OF scan_number_dec(1)] value_text_number [OF scan_number_dec(2)] by (simp add: FormatInt_def)

lemma value_text_uint: "value_text (Suc n) d (enc_uint i)"
  using value_text_number [OF scan_number_dec(1)] by (simp add: enc_uint_def)

definition time_char :: "char \<Rightarrow> bool" where
  "time_char c \<longleftrightarrow> is_digit c \<or> c \<in> {CHR ''-'', CHR '':'', CHR ''T'', CHR ''Z'', CHR ''.'', CHR ''+''}"

lemma time_chars: "list_all time_char (FormatRFC3339Nano t)"
proof -
  have d: "list_all time_char (dec_nat n)" for n
    using dec_nat_digits [of _ n] by (auto simp: list_all_iff time_char_def between_def)
  then have f: "list_all time_char (fmt_0d w n)" for w n
    by (auto simp: fmt_0d_def Let_def list_all_iff time_char_def between_def)
  moreover have "list_all time_char (fmt_nano n)" for n
    using f [of 9 n] by (auto simp: fmt_nano_def list_all_iff time_char_def dest!: set_dropWhileD)
  moreover have "list_all time_char (fmt_zone z)" for z
    using f by (auto simp: fmt_zone_def time_char_def)
  ultimately show ?thesis by (simp add: FormatRFC3339Nano_def time_char_def)
qed

lemma time_char_plain: "time_char c \<Longrightarrow> plain_char c \<and> \<not> html_char c \<and> c \<noteq> CHR 0xE2"
  by (auto simp: time_char_def plain_char_def html_char_def between_def)

lemma html_escape_id: "\<forall>c \<in> set s. \<not> html_char c \<and> c \<noteq> CHR 0xE2 \<Longrightarrow> html_escape s = s"
  by (induction s) (simp_all add: html_escape_plain)

lemma value_text_time: "value_text (Suc n) d (json_str (FormatRFC3339Nano t))"
proof (rule value_text_str)
  have p: "\<forall>c \<in> set (FormatRFC3339Nano t). plain_char c \<and> \<not> html_char c \<and> c \<noteq> CHR 0xE2"
    using time_chars [of t] time_char_plain by (auto simp: list_all_iff)
  then show "str_body (FormatRFC3339Nano t)"
    using str_body_plain_append [of "FormatRFC3339Nano t" "[]"] by (simp add: list_all_iff str_body.empty)
  show "html_escape (FormatRFC3339Nano t) = FormatRFC3339Nano t" using p by (intro html_escape_id) auto
qed

section \<open>Decoding what was encoded\<close>

lemma dec_string_quote: "utf8_Valid s \<Longrightarrow> dec_string old (quote_string s) = Inr s"
  by (simp add: dec_string_def quote_string_def is_null_def unquote_quote_body)

lemma dec_digits:
  "list_all is_digit (dec_nat n)" "dec_nat n \<noteq> []" "take (Suc 0) (dec_nat n) \<noteq> ''n''" "take (Suc 0) (dec_nat n) \<noteq> ''-''"
proof -
  show d: "list_all is_digit (dec_nat n)" using dec_nat_digits by (auto simp: list_all_iff between_def)
  show "dec_nat n \<noteq> []" by (rule dec_nat_nonempty)
  show "take (Suc 0) (dec_nat n) \<noteq> ''n''" "take (Suc 0) (dec_nat n) \<noteq> ''-''"
    using d by (cases "dec_nat n"; auto simp: between_def)+
qed

lemma dec_int_Format: "- (2 ^ 63) \<le> i \<Longrightarrow> i < 2 ^ 63 \<Longrightarrow> dec_int old (FormatInt i) = Inr i"
proof -
  assume i: "- (2 ^ 63) \<le> i" "i < 2 ^ 63"
  show ?thesis
  proof (cases "i < 0")
    case True
    then have "int (nat (- i)) = - i" by simp
    with True i show ?thesis
      by (simp add: dec_int_def FormatInt_def is_null_def Let_def dec_digits val_dec_dec_nat del: int_nat_eq)
  next
    case False
    then have "int (nat i) = i" by simp
    with False i show ?thesis
      by (simp add: dec_int_def FormatInt_def is_null_def Let_def dec_digits val_dec_dec_nat del: int_nat_eq)
  qed
qed

lemma dec_uint_enc: "dec_uint old (enc_uint i) = Inr i"
  using unsigned_less [of i] by (simp add: dec_uint_def enc_uint_def is_null_def dec_digits val_dec_dec_nat)

lemma dec_time_enc:
  assumes "enc_time t = Inr c" "tzoff t = 0" "0 \<le> tnsec t" "tnsec t < 1000000000"
  shows "dec_time old c = Inr t"
  using assms ParseRFC3339_Format [of t]
  by (auto simp: enc_time_def dec_time_def json_str_def is_null_def split: if_splits)

text \<open>The names of fields are plain texts.\<close>

definition plain_key :: "string \<Rightarrow> bool" where
  "plain_key k \<longleftrightarrow> list_all (\<lambda>c. plain_char c \<and> \<not> html_char c \<and> between 0 0x7F c) k"

lemma plain_key_props:
  assumes "plain_key k"
  shows "str_body k" "html_escape k = k" "unquote k = k"
proof -
  show "str_body k" using str_body_plain_append [of k "[]"] assms by (simp add: plain_key_def list_all_iff str_body.empty)
  show "html_escape k = k" using assms by (intro html_escape_id) (auto simp: plain_key_def list_all_iff between_def)
  show "unquote k = k" using assms unfolding plain_key_def
    by (induction k) (auto simp: unquote_plain plain_char_def unquote.simps [of "[]"])
qed

text \<open>A value text needs no larger bound than its length.\<close>

definition text_at :: "int \<Rightarrow> string \<Rightarrow> bool" where
  "text_at d c \<longleftrightarrow> (\<exists>n. value_text n d c)"

lemma text_at_bound: "text_at d c \<Longrightarrow> length c \<le> m \<Longrightarrow> value_text m d c"
  unfolding text_at_def value_text_def using scan_value_bound [of _ d "c @ _" c _ d m] by fastforce

lemma text_atI [intro]: "value_text (Suc 0) d c \<Longrightarrow> text_at d c"
  by (auto simp: text_at_def)

definition members_at :: "int \<Rightarrow> (string \<times> string) list \<Rightarrow> bool" where
  "members_at d ms \<longleftrightarrow> ms \<noteq> [] \<and> list_all (\<lambda>m. plain_key (fst m) \<and> text_at d (snd m)) ms"

lemma fields_text_members:
  "members_at d ms \<Longrightarrow> length ms + sum_list (map (length \<circ> snd) ms) \<le> m \<Longrightarrow> fields_text m d ms"
proof (induction ms arbitrary: m)
  case (Cons a ms)
  obtain k c where a: "a = (k, c)" by fastforce
  obtain m' where m: "m = Suc m'" using Cons.prems(2) by (cases m) auto
  have k: "str_body k" and c: "value_text m' d c"
    using Cons.prems text_at_bound [of d c m'] plain_key_props(1) [of k] by (auto simp: members_at_def a m)
  show ?case
  proof (cases "ms = []")
    case True
    then show ?thesis using fields_text_one [OF k c] by (simp add: a m)
  next
    case False
    then have "fields_text m' d ms" using Cons.prems by (intro Cons.IH) (auto simp: members_at_def m)
    from fields_text_Cons [OF k c this] show ?thesis by (simp add: a m)
  qed
qed (simp add: members_at_def)

lemma text_at_obj:
  assumes "members_at (d + 1) ms" "d < maxNestingDepth"
  shows "text_at d (json_obj ms)"
proof -
  from fields_text_members [OF assms(1) order_refl]
  have "fields_text (length ms + sum_list (map (length \<circ> snd) ms)) (d + 1) ms" .
  moreover have "\<forall>(k, c) \<in> set ms. html_escape k = k"
    using assms(1) plain_key_props(2) by (auto simp: members_at_def list_all_iff)
  ultimately show ?thesis
    using value_text_obj assms(2) unfolding text_at_def fields_text_def by blast
qed

lemma json_fields_obj:
  assumes "members_at 1 ms"
  shows "json_fields (json_obj ms) = Some (map (\<lambda>(k, c). (k, c, c)) ms)"
proof -
  obtain k c ms' where ms: "ms = (k, c) # ms'" using assms by (cases ms) (auto simp: members_at_def)
  obtain y where y: "join_comma (map member ms) = dquote # y"
    by (cases ms') (simp_all add: ms member_def json_str_def)
  from fields_text_members [OF assms order_refl]
  have "scan_fields (length ms + sum_list (map (length \<circ> snd) ms)) 1 (join_comma (map member ms) @ ''}'') =
      Some (map (\<lambda>(k, c). (k, c, c)) ms, [])" by (simp add: fields_text_def)
  from scan_fields_bound [OF this, of 1 "length (json_obj ms)"]
  have "scan_fields (length (json_obj ms)) 1 (join_comma (map member ms) @ ''}'') = Some (map (\<lambda>(k, c). (k, c, c)) ms, [])"
    by (simp add: json_obj_def)
  then show ?thesis using y by (simp add: json_fields_def json_obj_def)
qed

lemma dec_struct_obj:
  assumes "members_at 1 ms"
  shows "dec_struct f x (json_obj ms) = dec_fields f x (map (\<lambda>(k, c). (k, c, c)) ms)"
  using json_fields_obj [OF assms] by (simp add: dec_struct_def is_null_def json_obj_def)

lemma json_compact_obj:
  assumes "members_at 1 ms"
  shows "json_compact (json_obj ms) = Some (json_obj ms)"
proof -
  from text_at_obj [of 0 ms] assms obtain n where "value_text n 0 (json_obj ms)"
    by (auto simp: maxNestingDepth_def text_at_def)
  from value_textD [OF this, of "[]"] have "scan_value n 0 (json_obj ms) = Some (json_obj ms, [])" by simp
  then show ?thesis unfolding json_compact_iff by (metis dropWhile.simps(1))
qed

lemma json_Unmarshal_obj:
  assumes "members_at 1 ms"
  shows "json_Unmarshal f x (json_obj ms) = dec_fields f x (map (\<lambda>(k, c). (k, c, c)) ms)"
proof -
  have "skip_ws (json_obj ms) = json_obj ms" by (simp add: json_obj_def)
  with json_compact_obj [OF assms] dec_struct_obj [OF assms] show ?thesis
    by (simp add: json_Unmarshal_def go_json_Valid_def)
qed

lemma text_at_mono:
  assumes "text_at d c" "d' \<le> d"
  shows "text_at d' c"
proof -
  from text_at_bound [OF assms(1) order_refl] have v: "value_text (length c) d c" .
  have "scan_value (length c) d' (c @ r) = Some (c, r)" if "delim r" for r
    using scan_value_bound [OF value_textD [OF v that] assms(2)] by simp
  with v show ?thesis unfolding text_at_def value_text_def by blast
qed

section \<open>Indented objects\<close>

lemma json_indent_str_body: "str_body b \<Longrightarrow> json_indent_str d (b @ dquote # t) = b @ dquote # json_indent d False t"
proof (induction rule: str_body.induct)
  case (u_esc h b)
  have "x \<noteq> dquote \<and> x \<noteq> bslash" if "is_hex x" for x
    using that by (auto simp: is_hex_def hex_val_def Let_def split: if_splits)
  then have "json_indent_str d (h @ u) = h @ json_indent_str d u" for u
    using u_esc.hyps(2) by (induction h) auto
  with u_esc show ?case by simp
qed (auto simp: plain_char_def)

definition indents :: "nat \<Rightarrow> string \<Rightarrow> string \<Rightarrow> bool" where
  "indents D c c' \<longleftrightarrow> (\<forall>t. json_indent D False (c @ t) = c' @ json_indent D False t)"

lemma json_indent_json_str:
  "str_body b \<Longrightarrow> json_indent D False (json_str b @ t) = json_str b @ json_indent D False t"
  "str_body b \<Longrightarrow> json_indent D True (json_str b @ t) = indent_newline (D + 1) @ json_str b @ json_indent (D + 1) False t"
  by (simp_all add: json_str_def json_indent_str_body)

lemma indents_quote: "indents D (quote_string s) (quote_string s)"
  using json_indent_json_str(1) [of "quote_body s"] quote_body_text [of s]
  by (simp add: indents_def quote_string_def json_str_def)

lemma indents_time: "indents D (json_str (FormatRFC3339Nano t)) (json_str (FormatRFC3339Nano t))"
  unfolding indents_def
proof (intro allI json_indent_json_str(1))
  show "str_body (FormatRFC3339Nano t)"
    using str_body_plain_append [of "FormatRFC3339Nano t" "[]"] time_chars [of t] time_char_plain
    by (auto simp: list_all_iff str_body.empty)
qed

lemma indents_digits:
  assumes "list_all (\<lambda>c. is_digit c \<or> c = CHR ''-'') s"
  shows "indents D s s"
proof -
  have c: "is_digit c \<or> c = CHR ''-'' \<Longrightarrow> \<not> json_space c \<and> c \<notin> {CHR ''{'', CHR ''['', CHR '','', CHR '':'', CHR ''}'', CHR '']'', dquote}" for c
    by (auto simp: between_def json_space_def)
  have "json_indent D False (s @ t) = s @ json_indent D False t" for t
    using assms
  proof (induction s)
    case (Cons a s)
    with c [of a] show ?case by simp
  qed simp
  then show ?thesis by (simp add: indents_def)
qed

lemma indents_int: "indents D (FormatInt i) (FormatInt i)"
  using dec_digits(1) by (intro indents_digits) (auto simp: FormatInt_def list_all_iff)

lemma indents_uint: "indents D (enc_uint i) (enc_uint i)"
  using dec_digits(1) by (intro indents_digits) (auto simp: enc_uint_def list_all_iff)

text \<open>The fields of an indented object: each has its key, the indented text of its value and the compact text.\<close>

fun ind_join :: "string \<Rightarrow> (string \<times> string \<times> string) list \<Rightarrow> string" where
  "ind_join nl [] = []"
| "ind_join nl [(k, c', c)] = nl @ json_str k @ '': '' @ c'"
| "ind_join nl ((k, c', c) # ms) = nl @ json_str k @ '': '' @ c' @ CHR '','' # ind_join nl ms"

definition ind_obj :: "nat \<Rightarrow> (string \<times> string \<times> string) list \<Rightarrow> string" where
  "ind_obj D fs = CHR ''{'' # ind_join (indent_newline (D + 1)) fs @ indent_newline D @ ''}''"

definition plain_fields :: "(string \<times> string \<times> string) list \<Rightarrow> (string \<times> string) list" where
  "plain_fields fs = map (\<lambda>(k, c', c). (k, c)) fs"

lemma ind_join_Cons: "fs \<noteq> [] \<Longrightarrow> ind_join nl ((k, c', c) # fs) = nl @ json_str k @ '': '' @ c' @ CHR '','' # ind_join nl fs"
  by (cases fs) simp_all

lemma indents_members:
  assumes "fs \<noteq> []" "\<forall>(k, c', c) \<in> set fs. plain_key k \<and> indents (Suc D) c c'"
  shows "indent_newline (Suc D) @ json_indent (Suc D) False (join_comma (map member (plain_fields fs)) @ CHR ''}'' # t) =
     ind_join (indent_newline (Suc D)) fs @ indent_newline D @ CHR ''}'' # json_indent D False t"
  using assms
proof (induction fs)
  case (Cons f fs)
  obtain k c' c where f: "f = (k, c', c)" by (cases f)
  have k: "str_body k" and c: "\<And>t. json_indent (Suc D) False (c @ t) = c' @ json_indent (Suc D) False t"
    using Cons.prems(2) plain_key_props(1) by (auto simp: f indents_def)
  show ?case
  proof (cases "fs = []")
    case True
    then show ?thesis by (simp add: f plain_fields_def member_def json_indent_json_str(1) [OF k] c)
  next
    case False
    then have ne: "plain_fields fs \<noteq> []" by (simp add: plain_fields_def)
    have pf: "plain_fields (f # fs) = (k, c) # plain_fields fs" by (simp add: f plain_fields_def)
    have "json_indent (Suc D) False (join_comma (map member (plain_fields (f # fs))) @ CHR ''}'' # t) =
        json_str k @ '': '' @ c' @ CHR '','' # indent_newline (Suc D) @
          json_indent (Suc D) False (join_comma (map member (plain_fields fs)) @ CHR ''}'' # t)"
      using ne by (simp add: pf join_comma_Cons member_def json_indent_json_str(1) [OF k] c)
    also have "indent_newline (Suc D) @ json_indent (Suc D) False (join_comma (map member (plain_fields fs)) @ CHR ''}'' # t) =
        ind_join (indent_newline (Suc D)) fs @ indent_newline D @ CHR ''}'' # json_indent D False t"
      using Cons.IH [OF False] Cons.prems(2) by simp
    finally show ?thesis using False by (simp add: f ind_join_Cons)
  qed
qed simp

lemma indents_obj:
  assumes "fs \<noteq> []" "\<forall>(k, c', c) \<in> set fs. plain_key k \<and> indents (Suc D) c c'"
  shows "indents D (json_obj (plain_fields fs)) (ind_obj D fs)"
proof -
  obtain k c' c fs' where fs: "fs = (k, c', c) # fs'" using assms(1) by (cases fs) auto
  have k: "str_body k" using assms(2) plain_key_props(1) by (auto simp: fs)
  obtain y where y: "join_comma (map member (plain_fields fs)) = json_str k @ y"
    by (cases fs') (auto simp: fs plain_fields_def member_def)
  have "json_indent D True (join_comma (map member (plain_fields fs)) @ CHR ''}'' # t) =
      indent_newline (Suc D) @ json_indent (Suc D) False (join_comma (map member (plain_fields fs)) @ CHR ''}'' # t)" for t
    unfolding y by (simp add: json_indent_json_str [OF k])
  with indents_members [OF assms] show ?thesis by (simp add: indents_def json_obj_def ind_obj_def)
qed

definition spaced_at :: "int \<Rightarrow> string \<Rightarrow> string \<Rightarrow> bool" where
  "spaced_at d c' c \<longleftrightarrow> c' \<noteq> [] \<and> \<not> json_space (hd c') \<and> (\<exists>n. \<forall>m \<ge> n. \<forall>r. delim r \<longrightarrow> scan_value m d (c' @ r) = Some (c, r))"

lemma spaced_at_text: "text_at d c \<Longrightarrow> spaced_at d c c"
  unfolding spaced_at_def using text_at_bound [of d c] by (fastforce simp: value_text_def)

lemma newline_spaces: "skip_ws (indent_newline D @ s) = skip_ws s"
proof -
  have "dropWhile json_space (concat (replicate D ''  '') @ s) = skip_ws s"
    by (induction D) (simp_all add: json_space_def)
  then show ?thesis by (simp add: indent_newline_def json_space_def)
qed

lemma delim_newline: "delim (indent_newline D @ r)"
  by (simp add: indent_newline_def)

lemma scan_fields_spaced_step:
  assumes "str_body k" "c' \<noteq> []" "\<not> json_space (hd c')" "\<forall>r. delim r \<longrightarrow> scan_value n d (c' @ r) = Some (c, r)"
  shows "scan_fields (Suc n) d (indent_newline D @ json_str k @ CHR '':'' # CHR '' '' # c' @ CHR '','' # w) =
      map_option (\<lambda>(fs, r). ((k, c', c) # fs, r)) (scan_fields n d w)"
    "scan_fields (Suc n) d (indent_newline D @ json_str k @ CHR '':'' # CHR '' '' # c' @ indent_newline E @ CHR ''}'' # w) =
      Some ([(k, c', c)], w)"
proof -
  have s: "skip_ws (c' @ t) = c' @ t" for t using skip_ws_app [OF assms(2,3)] by simp
  have sp: "json_space (CHR '' '')" by (simp add: json_space_def)
  have v: "scan_value n d (c' @ CHR '','' # w) = Some (c, CHR '','' # w)"
    "scan_value n d (c' @ indent_newline E @ CHR ''}'' # w) = Some (c, indent_newline E @ CHR ''}'' # w)"
    using assms(4) delim_newline by simp_all
  show "scan_fields (Suc n) d (indent_newline D @ json_str k @ CHR '':'' # CHR '' '' # c' @ CHR '','' # w) =
      map_option (\<lambda>(fs, r). ((k, c', c) # fs, r)) (scan_fields n d w)"
    "scan_fields (Suc n) d (indent_newline D @ json_str k @ CHR '':'' # CHR '' '' # c' @ indent_newline E @ CHR ''}'' # w) =
      Some ([(k, c', c)], w)"
    using scan_string_body [OF assms(1)] v
    by (simp_all add: scan_fields.simps(2) newline_spaces json_str_def s sp)
qed

lemma scan_fields_spaced:
  assumes "fs \<noteq> []" "\<forall>(k, c', c) \<in> set fs. plain_key k \<and> spaced_at d c' c"
  shows "\<exists>n. \<forall>m \<ge> n. \<forall>r. scan_fields m d (ind_join (indent_newline D) fs @ indent_newline E @ CHR ''}'' # r) = Some (fs, r)"
  using assms
proof (induction fs)
  case (Cons f fs)
  obtain k c' c where f: "f = (k, c', c)" by (cases f)
  have k: "str_body k" using Cons.prems(2) plain_key_props(1) by (auto simp: f)
  have "spaced_at d c' c" using Cons.prems(2) by (auto simp: f)
  then obtain n1 where c: "c' \<noteq> []" "\<not> json_space (hd c')" "\<And>m r. n1 \<le> m \<Longrightarrow> delim r \<Longrightarrow> scan_value m d (c' @ r) = Some (c, r)"
    unfolding spaced_at_def by blast
  note step = scan_fields_spaced_step [OF k c(1,2)]
  show ?case
  proof (cases "fs = []")
    case True
    have "\<forall>m \<ge> Suc n1. \<forall>r. scan_fields m d (ind_join (indent_newline D) (f # fs) @ indent_newline E @ CHR ''}'' # r) = Some (f # fs, r)"
    proof (intro allI impI)
      fix m r assume "Suc n1 \<le> m"
      then obtain m' where m: "m = Suc m'" "n1 \<le> m'" by (cases m) auto
      with c(3) show "scan_fields m d (ind_join (indent_newline D) (f # fs) @ indent_newline E @ CHR ''}'' # r) = Some (f # fs, r)"
        using step(2) [of m' d c D E r] True by (simp add: f)
    qed
    then show ?thesis by blast
  next
    case False
    then obtain n2 where ih: "\<And>m r. n2 \<le> m \<Longrightarrow> scan_fields m d (ind_join (indent_newline D) fs @ indent_newline E @ CHR ''}'' # r) = Some (fs, r)"
      using Cons by auto
    have "\<forall>m \<ge> Suc (max n1 n2). \<forall>r. scan_fields m d (ind_join (indent_newline D) (f # fs) @ indent_newline E @ CHR ''}'' # r) = Some (f # fs, r)"
    proof (intro allI impI)
      fix m r assume "Suc (max n1 n2) \<le> m"
      then obtain m' where m: "m = Suc m'" "n1 \<le> m'" "n2 \<le> m'" by (cases m) auto
      with c(3) ih show "scan_fields m d (ind_join (indent_newline D) (f # fs) @ indent_newline E @ CHR ''}'' # r) = Some (f # fs, r)"
        using step(1) [of m' d c D "ind_join (indent_newline D) fs @ indent_newline E @ CHR ''}'' # r"] False
        by (simp add: f ind_join_Cons)
    qed
    then show ?thesis by blast
  qed
qed simp

lemma ind_join_hd:
  assumes "fs \<noteq> []"
  obtains y where "skip_ws (ind_join (indent_newline D) fs @ t) = dquote # y"
proof -
  obtain k c' c fs' where "fs = (k, c', c) # fs'" using assms by (cases fs) auto
  then have "\<exists>y. skip_ws (ind_join (indent_newline D) fs @ t) = dquote # y"
    by (cases fs') (simp_all add: newline_spaces json_str_def)
  then show thesis using that by blast
qed

lemma spaced_at_obj:
  assumes "fs \<noteq> []" "\<forall>(k, c', c) \<in> set fs. plain_key k \<and> spaced_at (d + 1) c' c" "d < maxNestingDepth"
  shows "spaced_at d (ind_obj D fs) (json_obj (plain_fields fs))"
proof -
  obtain n where n: "\<And>m r. n \<le> m \<Longrightarrow> scan_fields m (d + 1) (ind_join (indent_newline (D + 1)) fs @ indent_newline D @ CHR ''}'' # r) = Some (fs, r)"
    using scan_fields_spaced [OF assms(1,2)] by blast
  have esc: "map esc_field fs = plain_fields fs"
    using assms(2) plain_key_props(2) by (auto simp: esc_field_def plain_fields_def)
  have "scan_value m d (ind_obj D fs @ r) = Some (json_obj (plain_fields fs), r)" if mn: "Suc n \<le> m" for m r
  proof -
    obtain m' where m: "m = Suc m'" "n \<le> m'" using mn by (cases m) auto
    obtain y where "skip_ws (ind_join (indent_newline (D + 1)) fs @ indent_newline D @ CHR ''}'' # r) = dquote # y"
      using ind_join_hd [OF assms(1)] .
    with n [OF m(2), of r] assms(3) show ?thesis
      by (simp add: m(1) ind_obj_def scan_value.simps(2) esc_field_eq esc)
  qed
  then show ?thesis by (auto simp: spaced_at_def ind_obj_def)
qed

lemma json_fields_ind_obj:
  assumes "fs \<noteq> []" "\<forall>(k, c', c) \<in> set fs. plain_key k \<and> spaced_at 1 c' c"
  shows "json_fields (ind_obj D fs) = Some fs"
proof -
  obtain n where n: "scan_fields n 1 (ind_join (indent_newline (D + 1)) fs @ indent_newline D @ ''}'') = Some (fs, [])"
    using scan_fields_spaced [OF assms, of "D + 1" D] by blast
  from scan_fields_bound [OF n, of 1 "length (ind_obj D fs)"]
  have s: "scan_fields (length (ind_obj D fs)) 1 (ind_join (indent_newline (D + 1)) fs @ indent_newline D @ ''}'') = Some (fs, [])"
    by (simp add: ind_obj_def)
  obtain y where "skip_ws (ind_join (indent_newline (D + 1)) fs @ indent_newline D @ ''}'') = dquote # y"
    using ind_join_hd [OF assms(1)] .
  with s show ?thesis by (simp add: json_fields_def ind_obj_def)
qed

lemma dec_struct_ind_obj:
  assumes "fs \<noteq> []" "\<forall>(k, c', c) \<in> set fs. plain_key k \<and> spaced_at 1 c' c"
  shows "dec_struct f x (ind_obj D fs) = dec_fields f x fs"
  using json_fields_ind_obj [OF assms] by (simp add: dec_struct_def is_null_def ind_obj_def)

lemma json_Unmarshal_ind_obj:
  assumes "fs \<noteq> []" "\<forall>(k, c', c) \<in> set fs. plain_key k \<and> spaced_at 1 c' c"
  shows "json_Unmarshal f x (ind_obj D fs) = dec_fields f x fs"
proof -
  from spaced_at_obj [of fs 0 D] assms obtain n where "scan_value n 0 (ind_obj D fs) = Some (json_obj (plain_fields fs), [])"
    by (auto simp: spaced_at_def maxNestingDepth_def) (metis append.right_neutral delim_punct(1) order_refl)
  then have "json_compact (ind_obj D fs) = Some (json_obj (plain_fields fs))"
    unfolding json_compact_iff by (metis dropWhile.simps(1))
  moreover have "skip_ws (ind_obj D fs) = ind_obj D fs" by (simp add: ind_obj_def)
  ultimately show ?thesis using dec_struct_ind_obj [OF assms] by (simp add: json_Unmarshal_def go_json_Valid_def)
qed

section \<open>No control characters\<close>

definition printable :: "string \<Rightarrow> bool" where
  "printable s \<longleftrightarrow> (\<forall>c \<in> set s. \<not> between 0 0x1F c)"

lemma printable_simps [simp]: "printable []" "printable (c # s) \<longleftrightarrow> \<not> between 0 0x1F c \<and> printable s"
  "printable (s @ t) \<longleftrightarrow> printable s \<and> printable t"
  by (auto simp: printable_def)

lemma between_ctrl [simp]: "\<not> between 0 31 dquote" "\<not> between 0 31 bslash" "\<not> between 0 31 (CHR ''{'')" "\<not> between 0 31 (CHR ''}'')"
  "\<not> between 0 31 (CHR ''['')" "\<not> between 0 31 (CHR '']'')" "\<not> between 0 31 (CHR '','')" "\<not> between 0 31 (CHR '':'')"
  by (simp_all add: between_def)

lemma printable_digits: "printable (takeWhile is_digit s)"
  by (auto simp: printable_def between_def dest!: set_takeWhileD)

lemma printable_number:
  assumes "scan_number s = Some (x, r)"
  shows "printable x"
proof -
  obtain sg s1 where sg: "scan_sign s = (sg, s1)" by fastforce
  obtain i s2 where i: "scan_int s1 = Some (i, s2)" using assms sg by (auto simp: scan_number_def split: option.splits)
  obtain f s3 where f: "scan_frac s2 = Some (f, s3)" using assms sg i by (auto simp: scan_number_def split: option.splits)
  obtain e where e: "scan_exp s3 = Some (e, r)" "x = sg @ i @ f @ e"
    using assms sg i f by (auto simp: scan_number_def split: option.splits)
  have "sg = [] \<or> sg = ''-''" using sg by (auto simp: scan_sign_def split: if_splits)
  then have "printable sg" by (auto simp: between_def)
  moreover have "printable i" using scan_int_app(1) [OF i] by (auto simp: printable_def list_all_iff between_def)
  moreover have "printable f" using f printable_digits by (auto simp: scan_frac_def between_def split: if_splits)
  moreover have "printable e"
  proof (cases "e = []")
    case False
    define sign where "sign = (if take 1 (tl s3) = ''+'' \<or> take 1 (tl s3) = ''-'' then take 1 (tl s3) else [])"
    have "printable sign" by (auto simp: sign_def between_def)
    moreover have "e = take 1 s3 @ sign @ takeWhile is_digit (drop (length sign) (tl s3))" "take 1 s3 = ''e'' \<or> take 1 s3 = ''E''"
      using False e(1) unfolding scan_exp_def sign_def [symmetric] Let_def by (auto split: if_splits)
    ultimately show ?thesis using printable_digits by (auto simp: between_def)
  qed simp
  ultimately show ?thesis by (simp add: e(2))
qed

lemma printable_join: "\<forall>s \<in> set ss. printable s \<Longrightarrow> printable (join_comma ss)"
  by (induction ss rule: join_comma.induct) simp_all

lemma printable_body: "str_body b \<Longrightarrow> printable b"
  using str_body_printable by (auto simp: printable_def)

lemma scan_printable:
  "(\<forall>d s c r. scan_value n d s = Some (c, r) \<longrightarrow> printable c) \<and>
   (\<forall>d s es r. scan_elems n d s = Some (es, r) \<longrightarrow> (\<forall>e \<in> set es. printable e)) \<and>
   (\<forall>d s fs r. scan_fields n d s = Some (fs, r) \<longrightarrow> (\<forall>f \<in> set fs. str_body (fst f) \<and> printable (snd (snd f))))"
proof (induction n)
  case (Suc n)
  then have iv: "\<And>d s c r. scan_value n d s = Some (c, r) \<Longrightarrow> printable c"
    and ie: "\<And>d s es r. scan_elems n d s = Some (es, r) \<Longrightarrow> (\<forall>e \<in> set es. printable e)"
    and jf: "\<And>d s fs r. scan_fields n d s = Some (fs, r) \<Longrightarrow> (\<forall>f \<in> set fs. str_body (fst f) \<and> printable (snd (snd f)))"
    by blast+
  have v: "printable c" if "scan_value (Suc n) d s = Some (c, r)" for d s c r
    using that
  proof (cases rule: scan_value_Some)
    case (obj t fs)
    have "\<forall>m \<in> set (map member (map esc_field fs)). printable m"
      using jf [OF obj(3)] printable_body str_body_html_escape by (auto simp: member_def esc_field_def json_str_def)
    then show ?thesis using printable_join by (simp add: obj(4) json_obj_def)
  next
    case (arr t es)
    then show ?thesis using ie [OF arr(3)] printable_join by (simp add: json_arr_def)
  next
    case (str b)
    then show ?thesis using printable_body str_body_html_escape by (simp add: json_str_def)
  next
    case num
    then show ?thesis by (rule printable_number)
  qed (auto simp: json_obj_def json_arr_def between_def)
  have e: "\<forall>e \<in> set es. printable e" if "scan_elems (Suc n) d s = Some (es, r)" for d s es r
    using that
  proof (cases rule: scan_elems_Some)
    case (1 c r1)
    from 1(2) iv [OF 1(1)] ie show ?thesis by auto
  qed
  have f: "\<forall>f \<in> set fs. str_body (fst f) \<and> printable (snd (snd f))" if "scan_fields (Suc n) d s = Some (fs, r)" for d s fs r
    using that
  proof (cases rule: scan_fields_Some)
    case (1 k u v c r1)
    from 1(1,5) iv [OF 1(4)] jf show ?thesis by fastforce
  qed
  from v e f show ?case by blast
qed simp

lemma text_at_printable: "text_at d c \<Longrightarrow> printable c"
proof -
  assume "text_at d c"
  then obtain n where "value_text n d c" by (auto simp: text_at_def)
  from value_textD [OF this, of "[]"] have "scan_value n d c = Some (c, [])" by simp
  then show ?thesis using scan_printable by blast
qed

end
