(* ===== verification/Local_WAL.thy ===== *)
theory Local_WAL
  imports Go_Crypto JSON_Struct
begin

text \<open>
  The local write-ahead log (\<^verbatim>\<open>core/local_wal.go\<close>): frames with checksums on lines of a file,
  appends, commit boundaries, the checkpoint file, opening with the repair of a torn tail, the
  recovery plan and replay. The two files are byte lists with the part that is known to be on
  disk; every write and sync has an explicit outcome, so that crashes can happen between any two
  of them. The uses of \<^verbatim>\<open>encoding/json\<close> are the fields of a record of functions, which
  \<^verbatim>\<open>WAL_JSON\<close> gives for the structs of this file. Errors are constructors, one per place the
  code returns one. Paths are resolved before an operation starts, and a path that does not resolve
  ends it at once. An error in the middle of reading the log is the error of the whole read, and the
  replacement of the checkpoint and the existence of a file are durable at once.
\<close>

section \<open>Records and frames\<close>

record LocalWALRecord =
  rec_Version :: int
  LSN :: u64
  Timestamp :: Time
  Transaction :: string
  rec_Statement :: string
  OperationID :: string
  Kind :: string
  rec_Table :: string
  rec_Payload :: "byte list"

record LocalWALFrame =
  frame_Format :: string
  Record :: LocalWALRecord
  frame_SHA256 :: string

record LocalWALCheckpoint =
  cp_Version :: int
  cp_Format :: string
  cp_WALPath :: string
  LastCommittedLSN :: u64
  cp_OperationID :: string
  UpdatedAt :: Time

record LocalWALCheckpointFrame =
  cpf_Format :: string
  Checkpoint :: LocalWALCheckpoint
  cpf_SHA256 :: string

definition zero_checkpoint :: LocalWALCheckpoint where
  "zero_checkpoint = \<lparr>cp_Version = 0, cp_Format = [], cp_WALPath = [], LastCommittedLSN = 0, cp_OperationID = [],
     UpdatedAt = zero_time\<rparr>"

definition LocalWALFormat :: string where
  "LocalWALFormat = ''quantastream-local-wal''"

definition LocalWALCheckpointFormat :: string where
  "LocalWALCheckpointFormat = ''quantastream-local-wal-checkpoint''"

definition LocalWALVersion :: int where
  "LocalWALVersion = 1"

definition LocalWALRecordKindPutRow :: string where
  "LocalWALRecordKindPutRow = ''put_row''"

definition LocalWALRecordKindUpdateRow :: string where
  "LocalWALRecordKindUpdateRow = ''update_row''"

definition LocalWALRecordKindCommit :: string where
  "LocalWALRecordKindCommit = ''commit''"

datatype wal_error =
    WALNotOpen | CommitFunctionRequired | ContextErr string | CommitError string
  | NotCommitRecord string | CheckpointLSNRequired
  | RecordVersion int | LSNRequired | KindRequired | OperationIDRequired | PayloadRequired | PayloadNotJSON
  | MarshalRecordErr json_error | MarshalFrameErr json_error | AppendFrameErr string | SyncFrameErr string
  | FrameFormat string | ChecksumMismatch u64
  | ParseFrame nat json_error | ValidateFrame nat wal_error | LSNNotIncreasingAtLine nat u64 u64
  | LSNNotIncreasing u64 u64 | CheckpointAhead u64 u64
  | MarshalCheckpointErr json_error | ParseCheckpoint json_error
  | CheckpointFrameFormat string | CheckpointVersion int | CheckpointInnerFormat string | CheckpointChecksumMismatch
  | MkdirErr string | OpenErr string | WriteCheckpointErr string | SyncCheckpointErr string | CloseCheckpointErr string
  | RenameCheckpointErr string | ReadCheckpointErr string
  | TruncateOpenErr string | TruncateErr string | TruncateSyncErr string | TruncateCloseErr string | ReplayFunctionRequired | ReplayErr u64 string string

text \<open>The uses of \<^verbatim>\<open>encoding/json\<close>.\<close>

record json =
  marshalRecord :: "LocalWALRecord \<Rightarrow> (json_error, byte list) res"
  marshalFrame :: "LocalWALFrame \<Rightarrow> (json_error, byte list) res"
  unmarshalFrame :: "byte list \<Rightarrow> (json_error, LocalWALFrame) res"
  json_Valid :: "byte list \<Rightarrow> bool"
  marshalCheckpoint :: "LocalWALCheckpoint \<Rightarrow> (json_error, byte list) res"
  marshalIndentCheckpointFrame :: "LocalWALCheckpointFrame \<Rightarrow> (json_error, byte list) res"
  unmarshalCheckpointFrame :: "byte list \<Rightarrow> (json_error, LocalWALCheckpointFrame) res"

definition validateLocalWALRecord :: "json \<Rightarrow> LocalWALRecord \<Rightarrow> (wal_error, unit) res" where
  "validateLocalWALRecord j record =
     (if rec_Version record \<noteq> LocalWALVersion then Inl (Err (RecordVersion (rec_Version record)))
      else if LSN record = 0 then Inl (Err LSNRequired)
      else if trim_space (Kind record) = [] then Inl (Err KindRequired)
      else if trim_space (OperationID record) = [] then Inl (Err OperationIDRequired)
      else if length (rec_Payload record) = 0 then Inl (Err PayloadRequired)
      else if \<not> json_Valid j (rec_Payload record) then Inl (Err PayloadNotJSON)
      else Inr ())"

definition localWALRecordChecksum :: "json \<Rightarrow> LocalWALRecord \<Rightarrow> (wal_error, string) res" where
  "localWALRecordChecksum j record =
     bindR (wrapErr MarshalRecordErr (marshalRecord j record)) (\<lambda>data. Inr (hex_EncodeToString (sha256_Sum data)))"

definition localWALCheckpointChecksum :: "json \<Rightarrow> LocalWALCheckpoint \<Rightarrow> (wal_error, string) res" where
  "localWALCheckpointChecksum j checkpoint =
     bindR (wrapErr MarshalCheckpointErr (marshalCheckpoint j checkpoint)) (\<lambda>data.
       Inr (hex_EncodeToString (sha256_Sum data)))"

definition newLocalWALFrame :: "json \<Rightarrow> LocalWALRecord \<Rightarrow> (wal_error, LocalWALFrame) res" where
  "newLocalWALFrame j record =
     bindR (localWALRecordChecksum j record) (\<lambda>checksum.
       Inr \<lparr>frame_Format = LocalWALFormat, Record = record, frame_SHA256 = checksum\<rparr>)"

definition validateLocalWALFrame :: "json \<Rightarrow> LocalWALFrame \<Rightarrow> (wal_error, unit) res" where
  "validateLocalWALFrame j frame =
     (if frame_Format frame \<noteq> LocalWALFormat then Inl (Err (FrameFormat (frame_Format frame)))
      else bindR (validateLocalWALRecord j (Record frame)) (\<lambda>_.
           bindR (localWALRecordChecksum j (Record frame)) (\<lambda>checksum.
             if checksum \<noteq> frame_SHA256 frame then Inl (Err (ChecksumMismatch (LSN (Record frame))))
             else Inr ())))"

definition newLocalWALCheckpointFrame :: "json \<Rightarrow> LocalWALCheckpoint \<Rightarrow> (wal_error, LocalWALCheckpointFrame) res" where
  "newLocalWALCheckpointFrame j checkpoint =
     bindR (localWALCheckpointChecksum j checkpoint) (\<lambda>checksum.
       Inr \<lparr>cpf_Format = LocalWALCheckpointFormat, Checkpoint = checkpoint, cpf_SHA256 = checksum\<rparr>)"

definition validateLocalWALCheckpointFrame :: "json \<Rightarrow> LocalWALCheckpointFrame \<Rightarrow> (wal_error, unit) res" where
  "validateLocalWALCheckpointFrame j frame =
     (if cpf_Format frame \<noteq> LocalWALCheckpointFormat then Inl (Err (CheckpointFrameFormat (cpf_Format frame)))
      else if cp_Version (Checkpoint frame) \<noteq> LocalWALVersion then
        Inl (Err (CheckpointVersion (cp_Version (Checkpoint frame))))
      else if cp_Format (Checkpoint frame) \<noteq> LocalWALCheckpointFormat then
        Inl (Err (CheckpointInnerFormat (cp_Format (Checkpoint frame))))
      else bindR (localWALCheckpointChecksum j (Checkpoint frame)) (\<lambda>checksum.
        if checksum \<noteq> cpf_SHA256 frame then Inl (Err CheckpointChecksumMismatch) else Inr ()))"

section \<open>Reading\<close>

record localWALReadResult =
  Records :: "LocalWALRecord list"
  ByteCount :: nat
  ValidByteCount :: nat
  TornTailBytes :: nat
  TornTailLine :: nat

definition empty_read :: localWALReadResult where
  "empty_read = \<lparr>Records = [], ByteCount = 0, ValidByteCount = 0, TornTailBytes = 0, TornTailLine = 0\<rparr>"

definition newline :: byte where
  "newline = 10"

text \<open>The loop of \<^verbatim>\<open>readLocalWAL\<close> on the bytes that are left to read.\<close>

function readLines ::
  "json \<Rightarrow> byte list \<Rightarrow> localWALReadResult \<Rightarrow> u64 \<Rightarrow> nat \<Rightarrow> (wal_error, localWALReadResult) res" where
  "readLines j rest result lastLSN lineNumber =
     (if rest = [] then Inr result
      else
        let line = takeWhile (\<lambda>b. b \<noteq> newline) rest in
        if length line = length rest then
          let result = result\<lparr>ByteCount := ByteCount result + length line\<rparr> in
          Inr (result\<lparr>TornTailBytes := ByteCount result - ValidByteCount result, TornTailLine := lineNumber + 1\<rparr>)
        else
          let rest = drop (length line + 1) rest;
              result = result\<lparr>ByteCount := ByteCount result + (length line + 1)\<rparr>;
              lineNumber = lineNumber + 1;
              line = bytes_of_string (trim_space (string_of_bytes (line @ [newline])))
          in if length line = 0 then
               readLines j rest (result\<lparr>ValidByteCount := ByteCount result\<rparr>) lastLSN lineNumber
             else
               case unmarshalFrame j line of
                 Inl e \<Rightarrow> wrapErr (ParseFrame lineNumber) (Inl e)
               | Inr frame \<Rightarrow>
                   (case validateLocalWALFrame j frame of
                      Inl e \<Rightarrow> wrapErr (ValidateFrame lineNumber) (Inl e)
                    | Inr _ \<Rightarrow>
                        if LSN (Record frame) \<le> lastLSN then
                          Inl (Err (LSNNotIncreasingAtLine lineNumber (LSN (Record frame)) lastLSN))
                        else
                          readLines j rest
                            (result\<lparr>Records := Records result @ [Record frame], ValidByteCount := ByteCount result\<rparr>)
                            (LSN (Record frame)) lineNumber))"
  by pat_completeness auto
termination
  by (relation "measure (\<lambda>(j, rest, result, lastLSN, lineNumber). length rest)") auto

declare readLines.simps [simp del]

definition readLocalWAL :: "json \<Rightarrow> byte list \<Rightarrow> (wal_error, localWALReadResult) res" where
  "readLocalWAL j bs = readLines j bs empty_read 0 0"

section \<open>The files\<close>

text \<open>
  The contents of the log file as the process sees them, and how many of its bytes a sync has
  forced to disk; the checkpoint file is written through a temporary file and a rename.
\<close>

record disk =
  contents :: "byte list option"
  durable :: nat
  checkpointFile :: "byte list option"
  tmpFile :: "byte list option"

definition empty_disk :: disk where
  "empty_disk = \<lparr>contents = None, durable = 0, checkpointFile = None, tmpFile = None\<rparr>"

datatype checkpoint_fault =
    MkdirFails string | OpenFails string | WriteFails string nat | SyncFails string | CloseFails string
  | RenameFails string

datatype truncate_fault = TruncOpenFails string | TruncFails string | TruncSyncFails string | TruncCloseFails string

text \<open>What the host does during one operation: the clock, the context's error, a failed write (with
  the bytes that reached the file) or sync, and the faults of the other file operations.\<close>

record io =
  io_now :: Time
  io_ctx :: "string option"
  io_write :: "(string \<times> nat) option"
  io_sync :: "string option"
  io_checkpoint :: "checkpoint_fault option"
  io_mkdir :: "string option"
  io_read :: "string option"
  io_readCheckpoint :: "string option"
  io_truncate :: "truncate_fault option"
  io_open :: "string option"

definition readLocalWALPath :: "json \<Rightarrow> io \<Rightarrow> disk \<Rightarrow> (wal_error, localWALReadResult) res" where
  "readLocalWALPath j io d =
     (case contents d of
        None \<Rightarrow> Inr empty_read
      | Some bs \<Rightarrow> (case io_read io of Some e \<Rightarrow> Inl (Err (OpenErr e)) | None \<Rightarrow> readLocalWAL j bs))"

definition ReadLocalWAL :: "json \<Rightarrow> io \<Rightarrow> disk \<Rightarrow> (wal_error, LocalWALRecord list) res" where
  "ReadLocalWAL j io d = bindR (readLocalWALPath j io d) (\<lambda>read. Inr (Records read))"

definition LoadLocalWALCheckpoint :: "json \<Rightarrow> io \<Rightarrow> disk \<Rightarrow> (wal_error, LocalWALCheckpoint \<times> bool) res" where
  "LoadLocalWALCheckpoint j io d =
     (case checkpointFile d of
        None \<Rightarrow> Inr (zero_checkpoint, False)
      | Some data \<Rightarrow>
          (case io_readCheckpoint io of
             Some e \<Rightarrow> Inl (Err (ReadCheckpointErr e))
           | None \<Rightarrow>
               bindR (wrapErr ParseCheckpoint (unmarshalCheckpointFrame j data)) (\<lambda>frame.
               bindR (validateLocalWALCheckpointFrame j frame) (\<lambda>_. Inr (Checkpoint frame, True)))))"

definition checkpoint_data :: "json \<Rightarrow> Time \<Rightarrow> LocalWALCheckpoint \<Rightarrow> (wal_error, byte list) res" where
  "checkpoint_data j now checkpoint =
     (let checkpoint = checkpoint\<lparr>cp_Version := LocalWALVersion, cp_Format := LocalWALCheckpointFormat,
            UpdatedAt := (if IsZero (UpdatedAt checkpoint) then UTC now else UTC (UpdatedAt checkpoint))\<rparr>
      in bindR (newLocalWALCheckpointFrame j checkpoint) (\<lambda>frame.
         wrapErr MarshalCheckpointErr (marshalIndentCheckpointFrame j frame)))"

definition WriteLocalWALCheckpoint ::
  "json \<Rightarrow> io \<Rightarrow> disk \<Rightarrow> LocalWALCheckpoint \<Rightarrow> (wal_error, unit) res \<times> disk" where
  "WriteLocalWALCheckpoint j io d checkpoint =
     (case io_checkpoint io of
        Some (MkdirFails e) \<Rightarrow> (Inl (Err (MkdirErr e)), d)
      | fault \<Rightarrow>
          (case checkpoint_data j (io_now io) checkpoint of
             Inl e \<Rightarrow> (Inl e, d)
           | Inr data \<Rightarrow>
               (case fault of
                  None \<Rightarrow> (Inr (), d\<lparr>checkpointFile := Some data, tmpFile := None\<rparr>)
                | Some (OpenFails e) \<Rightarrow> (Inl (Err (OpenErr e)), d)
                | Some (WriteFails e n) \<Rightarrow> (Inl (Err (WriteCheckpointErr e)), d\<lparr>tmpFile := None\<rparr>)
                | Some (SyncFails e) \<Rightarrow> (Inl (Err (SyncCheckpointErr e)), d\<lparr>tmpFile := None\<rparr>)
                | Some (CloseFails e) \<Rightarrow> (Inl (Err (CloseCheckpointErr e)), d\<lparr>tmpFile := None\<rparr>)
                | Some (RenameFails e) \<Rightarrow> (Inl (Err (RenameCheckpointErr e)), d\<lparr>tmpFile := None\<rparr>)
                | Some (MkdirFails e) \<Rightarrow> (Inl (Err (MkdirErr e)), d))))"

section \<open>The log\<close>

record LocalWAL =
  wal_path :: string
  wal_open :: bool
  nextLSN :: u64
  checkpointLSN :: u64
  syncOnAppend :: bool

text \<open>The check that the sequence numbers increase, shared by opening, validating and planning.\<close>

fun lastLSN_of :: "u64 \<Rightarrow> LocalWALRecord list \<Rightarrow> (wal_error, u64) res" where
  "lastLSN_of lastLSN [] = Inr lastLSN"
| "lastLSN_of lastLSN (record # records) =
     (if LSN record \<le> lastLSN then Inl (Err (LSNNotIncreasing (LSN record) lastLSN))
      else lastLSN_of (LSN record) records)"

definition truncateLocalWALTail :: "io \<Rightarrow> disk \<Rightarrow> nat \<Rightarrow> (wal_error, unit) res \<times> disk" where
  "truncateLocalWALTail io d n =
     (let d' = d\<lparr>contents := map_option (take n) (contents d), durable := min n (durable d)\<rparr> in
      case io_truncate io of
        Some (TruncOpenFails e) \<Rightarrow> (Inl (Err (TruncateOpenErr e)), d)
      | Some (TruncFails e) \<Rightarrow> (Inl (Err (TruncateErr e)), d)
      | Some (TruncSyncFails e) \<Rightarrow> (Inl (Err (TruncateSyncErr e)), d')
      | Some (TruncCloseFails e) \<Rightarrow> (Inl (Err (TruncateCloseErr e)), d'\<lparr>durable := n\<rparr>)
      | None \<Rightarrow> (Inr (), d'\<lparr>durable := n\<rparr>))"

definition OpenLocalWALWithOptions ::
  "json \<Rightarrow> string \<Rightarrow> bool \<Rightarrow> io \<Rightarrow> disk \<Rightarrow> (wal_error, LocalWAL) res \<times> disk" where
  "OpenLocalWALWithOptions j path sync io d =
     (case io_mkdir io of
        Some e \<Rightarrow> (Inl (Err (MkdirErr e)), d)
      | None \<Rightarrow>
     (case readLocalWALPath j io d of
        Inl e \<Rightarrow> (Inl e, d)
      | Inr read \<Rightarrow>
          (case (if TornTailBytes read \<noteq> 0 then
                   truncateLocalWALTail io d (ValidByteCount read)
                 else (Inr (), d)) of
             (Inl e, d) \<Rightarrow> (Inl e, d)
           | (Inr _, d) \<Rightarrow>
               (case bindR (lastLSN_of 0 (Records read)) (\<lambda>lastLSN.
                     bindR (LoadLocalWALCheckpoint j io d) (\<lambda>(checkpoint, checkpointExists).
                       if checkpointExists \<and> LastCommittedLSN checkpoint > lastLSN
                       then Inl (Err (CheckpointAhead (LastCommittedLSN checkpoint) lastLSN))
                       else Inr (lastLSN, checkpoint))) of
                  Inl e \<Rightarrow> (Inl e, d)
                | Inr (lastLSN, checkpoint) \<Rightarrow>
                    (case io_open io of
                       Some e \<Rightarrow> (Inl (Err (OpenErr e)), d)
                     | None \<Rightarrow>
                         (Inr \<lparr>wal_path = path, wal_open = True, nextLSN = lastLSN + 1,
                               checkpointLSN = LastCommittedLSN checkpoint, syncOnAppend = sync\<rparr>,
                          d\<lparr>contents := Some (case contents d of None \<Rightarrow> [] | Some bs \<Rightarrow> bs)\<rparr>))))))"

definition OpenLocalWAL :: "json \<Rightarrow> string \<Rightarrow> io \<Rightarrow> disk \<Rightarrow> (wal_error, LocalWAL) res \<times> disk" where
  "OpenLocalWAL j path io d = OpenLocalWALWithOptions j path True io d"

text \<open>The record as it is written, and the line of the file that holds it.\<close>

definition stamped :: "Time \<Rightarrow> u64 \<Rightarrow> LocalWALRecord \<Rightarrow> LocalWALRecord" where
  "stamped now lsn record =
     record\<lparr>rec_Version := LocalWALVersion, LSN := lsn,
       Timestamp := (if IsZero (Timestamp record) then UTC now else UTC (Timestamp record)),
       rec_Payload := (if length (rec_Payload record) = 0 then bytes_of_string ''{}'' else rec_Payload record)\<rparr>"

definition frame_line :: "json \<Rightarrow> LocalWALRecord \<Rightarrow> (wal_error, byte list) res" where
  "frame_line j record =
     bindR (validateLocalWALRecord j record) (\<lambda>_.
     bindR (newLocalWALFrame j record) (\<lambda>frame.
     bindR (wrapErr MarshalFrameErr (marshalFrame j frame)) (\<lambda>data. Inr (data @ [newline]))))"

definition appendLocked ::
  "json \<Rightarrow> io \<Rightarrow> LocalWAL \<Rightarrow> disk \<Rightarrow> LocalWALRecord \<Rightarrow> (wal_error, LocalWALRecord) res \<times> LocalWAL \<times> disk" where
  "appendLocked j io w d record =
     (let record = stamped (io_now io) (nextLSN w) record in
      case frame_line j record of
        Inl e \<Rightarrow> (Inl e, w, d)
      | Inr data \<Rightarrow>
          let bs = (case contents d of None \<Rightarrow> [] | Some bs \<Rightarrow> bs) in
          (case io_write io of
             Some (e, n) \<Rightarrow> (Inl (Err (AppendFrameErr e)), w, d\<lparr>contents := Some (bs @ take n data)\<rparr>)
           | None \<Rightarrow>
               let d = d\<lparr>contents := Some (bs @ data)\<rparr> in
               if syncOnAppend w then
                 (case io_sync io of
                    Some e \<Rightarrow> (Inl (Err (SyncFrameErr e)), w, d)
                  | None \<Rightarrow> (Inr record, w\<lparr>nextLSN := nextLSN w + 1\<rparr>, d\<lparr>durable := length (bs @ data)\<rparr>))
               else (Inr record, w\<lparr>nextLSN := nextLSN w + 1\<rparr>, d)))"

definition Append ::
  "json \<Rightarrow> io \<Rightarrow> LocalWAL \<Rightarrow> disk \<Rightarrow> LocalWALRecord \<Rightarrow> (wal_error, LocalWALRecord) res \<times> LocalWAL \<times> disk" where
  "Append j io w d record =
     (if \<not> wal_open w then (Inl (Err WALNotOpen), w, d)
      else case io_ctx io of
        Some e \<Rightarrow> (Inl (Err (ContextErr e)), w, d)
      | None \<Rightarrow> appendLocked j io w d record)"

definition advanceCheckpointLocked ::
  "json \<Rightarrow> io \<Rightarrow> LocalWAL \<Rightarrow> disk \<Rightarrow> LocalWALRecord \<Rightarrow> (wal_error, LocalWALCheckpoint) res \<times> LocalWAL \<times> disk" where
  "advanceCheckpointLocked j io w d record =
     (let checkpoint = \<lparr>cp_Version = LocalWALVersion, cp_Format = LocalWALCheckpointFormat, cp_WALPath = wal_path w,
            LastCommittedLSN = LSN record, cp_OperationID = OperationID record, UpdatedAt = UTC (io_now io)\<rparr>
      in if LastCommittedLSN checkpoint \<le> checkpointLSN w then (Inr checkpoint, w, d)
         else case WriteLocalWALCheckpoint j io d checkpoint of
           (Inl e, d) \<Rightarrow> (Inl e, w, d)
         | (Inr _, d) \<Rightarrow> (Inr checkpoint, w\<lparr>checkpointLSN := LastCommittedLSN checkpoint\<rparr>, d))"

text \<open>
  \<^verbatim>\<open>CommitBoundary\<close> returns the record it appended also when the commit or the checkpoint fails;
  \<^term>\<open>commit\<close> is absent when no function is given, and otherwise the error it ends with, if any.
\<close>

definition CommitBoundary ::
  "json \<Rightarrow> io \<Rightarrow> string option option \<Rightarrow> LocalWAL \<Rightarrow> disk \<Rightarrow> LocalWALRecord \<Rightarrow>
     (LocalWALRecord option \<times> (wal_error, LocalWALCheckpoint) res) \<times> LocalWAL \<times> disk" where
  "CommitBoundary j io commit w d record =
     (if \<not> wal_open w then ((None, Inl (Err WALNotOpen)), w, d)
      else case commit of
        None \<Rightarrow> ((None, Inl (Err CommitFunctionRequired)), w, d)
      | Some commitErr \<Rightarrow>
          (case io_ctx io of
             Some e \<Rightarrow> ((None, Inl (Err (ContextErr e))), w, d)
           | None \<Rightarrow>
               (case appendLocked j io w d record of
                  (Inl e, w, d) \<Rightarrow> ((None, Inl e), w, d)
                | (Inr committedRecord, w, d) \<Rightarrow>
                    (case commitErr of
                       Some e \<Rightarrow> ((Some committedRecord, Inl (Err (CommitError e))), w, d)
                     | None \<Rightarrow>
                         (case advanceCheckpointLocked j io w d committedRecord of
                            (r, w, d) \<Rightarrow> ((Some committedRecord, r), w, d))))))"

definition CheckpointCommittedRecord ::
  "json \<Rightarrow> io \<Rightarrow> LocalWAL \<Rightarrow> disk \<Rightarrow> LocalWALRecord \<Rightarrow> (wal_error, LocalWALCheckpoint) res \<times> LocalWAL \<times> disk" where
  "CheckpointCommittedRecord j io w d record =
     (if \<not> wal_open w then (Inl (Err WALNotOpen), w, d)
      else if Kind record \<noteq> LocalWALRecordKindCommit then (Inl (Err (NotCommitRecord (Kind record))), w, d)
      else case io_ctx io of
        Some e \<Rightarrow> (Inl (Err (ContextErr e)), w, d)
      | None \<Rightarrow>
          if LSN record = 0 then (Inl (Err CheckpointLSNRequired), w, d)
          else advanceCheckpointLocked j io w d record)"

definition LocalWAL_Close :: "LocalWAL \<Rightarrow> LocalWAL" where
  "LocalWAL_Close w = w\<lparr>wal_open := False\<rparr>"

section \<open>Validation and recovery\<close>

record LocalWALSummary =
  sum_RecordCount :: nat
  sum_LastLSN :: u64
  sum_CheckpointLSN :: u64
  sum_CheckpointExists :: bool
  sum_ByteCount :: nat
  sum_TornTailBytes :: nat
  sum_TornTailLine :: nat

definition ValidateLocalWAL :: "json \<Rightarrow> io \<Rightarrow> disk \<Rightarrow> (wal_error, LocalWALSummary) res" where
  "ValidateLocalWAL j io d =
     bindR (readLocalWALPath j io d) (\<lambda>read.
       case contents d of
         None \<Rightarrow> Inr \<lparr>sum_RecordCount = 0, sum_LastLSN = 0, sum_CheckpointLSN = 0, sum_CheckpointExists = False,
                      sum_ByteCount = 0, sum_TornTailBytes = 0, sum_TornTailLine = 0\<rparr>
       | Some bs \<Rightarrow>
           bindR (lastLSN_of 0 (Records read)) (\<lambda>lastLSN.
           bindR (LoadLocalWALCheckpoint j io d) (\<lambda>(checkpoint, checkpointExists).
             if checkpointExists \<and> LastCommittedLSN checkpoint > lastLSN
             then Inl (Err (CheckpointAhead (LastCommittedLSN checkpoint) lastLSN))
             else Inr \<lparr>sum_RecordCount = length (Records read), sum_LastLSN = lastLSN,
                       sum_CheckpointLSN = LastCommittedLSN checkpoint, sum_CheckpointExists = checkpointExists,
                       sum_ByteCount = length bs, sum_TornTailBytes = TornTailBytes read,
                       sum_TornTailLine = TornTailLine read\<rparr>)))"

record LocalWALRecoveryPlan =
  plan_CheckpointExists :: bool
  plan_CheckpointLSN :: u64
  plan_LastLSN :: u64
  plan_RecordCount :: nat
  plan_TornTailBytes :: nat
  plan_TornTailLine :: nat
  CheckpointedRecordCount :: nat
  ReplayRecords :: "LocalWALRecord list"
  PendingRecords :: "LocalWALRecord list"
  ReplayCommitBoundaryCount :: nat

definition is_commit :: "LocalWALRecord \<Rightarrow> bool" where
  "is_commit record \<longleftrightarrow> Kind record = LocalWALRecordKindCommit"

text \<open>The loop that keeps the index of the last commit of the tail.\<close>

definition lastCommitIndex :: "LocalWALRecord list \<Rightarrow> nat option" where
  "lastCommitIndex tail =
     foldl (\<lambda>last (i, record). if is_commit record then Some i else last) None (enumerate 0 tail)"

definition plan_tail :: "LocalWALRecord list \<Rightarrow> LocalWALRecord list \<times> LocalWALRecord list" where
  "plan_tail tail =
     (case lastCommitIndex tail of
        Some i \<Rightarrow> (take (i + 1) tail, drop (i + 1) tail)
      | None \<Rightarrow> ([], tail))"

definition PlanLocalWALRecoveryWithOptions :: "json \<Rightarrow> io \<Rightarrow> disk \<Rightarrow> (wal_error, LocalWALRecoveryPlan) res" where
  "PlanLocalWALRecoveryWithOptions j io d =
     bindR (readLocalWALPath j io d) (\<lambda>read.
     bindR (lastLSN_of 0 (Records read)) (\<lambda>lastLSN.
     bindR (LoadLocalWALCheckpoint j io d) (\<lambda>(checkpoint, checkpointExists).
       if checkpointExists \<and> LastCommittedLSN checkpoint > lastLSN
       then Inl (Err (CheckpointAhead (LastCommittedLSN checkpoint) lastLSN))
       else
         let tail = filter (\<lambda>record. \<not> LSN record \<le> LastCommittedLSN checkpoint) (Records read);
             (replay, pending) = plan_tail tail
         in Inr \<lparr>plan_CheckpointExists = checkpointExists, plan_CheckpointLSN = LastCommittedLSN checkpoint,
                 plan_LastLSN = lastLSN, plan_RecordCount = length (Records read),
                 plan_TornTailBytes = TornTailBytes read, plan_TornTailLine = TornTailLine read,
                 CheckpointedRecordCount =
                   length (filter (\<lambda>record. LSN record \<le> LastCommittedLSN checkpoint) (Records read)),
                 ReplayRecords = replay, PendingRecords = pending,
                 ReplayCommitBoundaryCount = length (filter is_commit replay)\<rparr>)))"

definition NeedsReplay :: "LocalWALRecoveryPlan \<Rightarrow> bool" where
  "NeedsReplay p \<longleftrightarrow> length (ReplayRecords p) \<noteq> 0"

definition HasPendingTail :: "LocalWALRecoveryPlan \<Rightarrow> bool" where
  "HasPendingTail p \<longleftrightarrow> length (PendingRecords p) \<noteq> 0"

text \<open>Replay calls a function on a state of its own; it stops at the first error.\<close>

type_synonym 's applier = "'s \<Rightarrow> LocalWALRecord \<Rightarrow> string option \<times> 's"

fun replay_records :: "'s applier \<Rightarrow> 's \<Rightarrow> LocalWALRecord list \<Rightarrow> (wal_error, unit) res \<times> 's" where
  "replay_records f s [] = (Inr (), s)"
| "replay_records f s (record # records) =
     (case f s record of
        (Some e, s) \<Rightarrow> (Inl (Err (ReplayErr (LSN record) (OperationID record) e)), s)
      | (None, s) \<Rightarrow> replay_records f s records)"

definition ReplayLocalWALRecoveryPlan ::
  "'s applier option \<Rightarrow> 's \<Rightarrow> LocalWALRecoveryPlan \<Rightarrow> (wal_error, unit) res \<times> 's" where
  "ReplayLocalWALRecoveryPlan f s p =
     (case f of
        None \<Rightarrow> (Inl (Err ReplayFunctionRequired), s)
      | Some g \<Rightarrow> replay_records g s (ReplayRecords p))"

fun replay_checked :: "'s applier \<Rightarrow> 's \<Rightarrow> u64 \<Rightarrow> LocalWALRecord list \<Rightarrow> (wal_error, unit) res \<times> 's" where
  "replay_checked f s lastLSN [] = (Inr (), s)"
| "replay_checked f s lastLSN (record # records) =
     (if LSN record \<le> lastLSN then (Inl (Err (LSNNotIncreasing (LSN record) lastLSN)), s)
      else case f s record of
        (Some e, s) \<Rightarrow> (Inl (Err (ReplayErr (LSN record) (OperationID record) e)), s)
      | (None, s) \<Rightarrow> replay_checked f s (LSN record) records)"

definition ReplayLocalWAL :: "json \<Rightarrow> io \<Rightarrow> disk \<Rightarrow> 's applier option \<Rightarrow> 's \<Rightarrow> (wal_error, unit) res \<times> 's" where
  "ReplayLocalWAL j io d f s =
     (case f of
        None \<Rightarrow> (Inl (Err ReplayFunctionRequired), s)
      | Some g \<Rightarrow>
          (case readLocalWALPath j io d of
             Inl e \<Rightarrow> (Inl e, s)
           | Inr read \<Rightarrow> replay_checked g s 0 (Records read)))"

end
