(* ===== verification/WAL_JSON.thy ===== *)
theory WAL_JSON
  imports Local_WAL
begin

text \<open>
  The JSON of the structs of \<^verbatim>\<open>core/local_wal.go\<close>, from their field tags: what \<^verbatim>\<open>json.Marshal\<close> and
  \<^verbatim>\<open>json.MarshalIndent\<close> write for records, frames and checkpoints and what
  \<^verbatim>\<open>json.Unmarshal\<close> reads back. A frame reads back with its payload compacted when its texts are
  UTF-8 and its instant is in UTC.
\<close>

section \<open>Marshalling\<close>

definition record_members :: "LocalWALRecord \<Rightarrow> string \<Rightarrow> string \<Rightarrow> (string \<times> string) list" where
  "record_members r timestamp payload =
     [(''version'', FormatInt (rec_Version r)), (''lsn'', enc_uint (LSN r)), (''timestamp'', timestamp)] @
     omitempty ''transaction'' (Transaction r) @ omitempty ''statement'' (rec_Statement r) @
     [(''operation_id'', quote_string (OperationID r)), (''kind'', quote_string (Kind r))] @
     omitempty ''table'' (rec_Table r) @ [(''payload'', payload)]"

definition record_text :: "LocalWALRecord \<Rightarrow> (json_error, string) res" where
  "record_text r =
     bindR (enc_time (Timestamp r)) (\<lambda>timestamp.
     bindR (enc_raw (string_of_bytes (rec_Payload r))) (\<lambda>payload.
       Inr (json_obj (record_members r timestamp payload))))"

definition frame_text :: "LocalWALFrame \<Rightarrow> (json_error, string) res" where
  "frame_text f =
     bindR (record_text (Record f)) (\<lambda>record.
       Inr (json_obj [(''format'', quote_string (frame_Format f)), (''record'', record),
                      (''sha256'', quote_string (frame_SHA256 f))]))"

definition checkpoint_members :: "LocalWALCheckpoint \<Rightarrow> string \<Rightarrow> (string \<times> string) list" where
  "checkpoint_members c updated =
     [(''version'', FormatInt (cp_Version c)), (''format'', quote_string (cp_Format c)),
      (''wal_path'', quote_string (cp_WALPath c)), (''last_committed_lsn'', enc_uint (LastCommittedLSN c))] @
     omitempty ''operation_id'' (cp_OperationID c) @ [(''updated_at'', updated)]"

definition checkpoint_text :: "LocalWALCheckpoint \<Rightarrow> (json_error, string) res" where
  "checkpoint_text c = bindR (enc_time (UpdatedAt c)) (\<lambda>updated. Inr (json_obj (checkpoint_members c updated)))"

definition checkpoint_frame_text :: "LocalWALCheckpointFrame \<Rightarrow> (json_error, string) res" where
  "checkpoint_frame_text g =
     bindR (checkpoint_text (Checkpoint g)) (\<lambda>checkpoint.
       Inr (json_obj [(''format'', quote_string (cpf_Format g)), (''checkpoint'', checkpoint),
                      (''sha256'', quote_string (cpf_SHA256 g))]))"

section \<open>Unmarshalling\<close>

definition dec_record_field :: "LocalWALRecord \<Rightarrow> string \<Rightarrow> string \<Rightarrow> (json_error, LocalWALRecord) res" where
  "dec_record_field r key raw =
     (if EqualFold key ''version'' then bindR (dec_int (rec_Version r) raw) (\<lambda>v. Inr (r\<lparr>rec_Version := v\<rparr>))
      else if EqualFold key ''lsn'' then bindR (dec_uint (LSN r) raw) (\<lambda>v. Inr (r\<lparr>LSN := v\<rparr>))
      else if EqualFold key ''timestamp'' then bindR (dec_time (Timestamp r) raw) (\<lambda>v. Inr (r\<lparr>Timestamp := v\<rparr>))
      else if EqualFold key ''transaction'' then bindR (dec_string (Transaction r) raw) (\<lambda>v. Inr (r\<lparr>Transaction := v\<rparr>))
      else if EqualFold key ''statement'' then bindR (dec_string (rec_Statement r) raw) (\<lambda>v. Inr (r\<lparr>rec_Statement := v\<rparr>))
      else if EqualFold key ''operation_id'' then bindR (dec_string (OperationID r) raw) (\<lambda>v. Inr (r\<lparr>OperationID := v\<rparr>))
      else if EqualFold key ''kind'' then bindR (dec_string (Kind r) raw) (\<lambda>v. Inr (r\<lparr>Kind := v\<rparr>))
      else if EqualFold key ''table'' then bindR (dec_string (rec_Table r) raw) (\<lambda>v. Inr (r\<lparr>rec_Table := v\<rparr>))
      else if EqualFold key ''payload'' then Inr (r\<lparr>rec_Payload := bytes_of_string raw\<rparr>)
      else Inr r)"

definition dec_frame_field :: "LocalWALFrame \<Rightarrow> string \<Rightarrow> string \<Rightarrow> (json_error, LocalWALFrame) res" where
  "dec_frame_field f key raw =
     (if EqualFold key ''format'' then bindR (dec_string (frame_Format f) raw) (\<lambda>v. Inr (f\<lparr>frame_Format := v\<rparr>))
      else if EqualFold key ''record'' then bindR (dec_struct dec_record_field (Record f) raw) (\<lambda>v. Inr (f\<lparr>Record := v\<rparr>))
      else if EqualFold key ''sha256'' then bindR (dec_string (frame_SHA256 f) raw) (\<lambda>v. Inr (f\<lparr>frame_SHA256 := v\<rparr>))
      else Inr f)"

definition dec_checkpoint_field :: "LocalWALCheckpoint \<Rightarrow> string \<Rightarrow> string \<Rightarrow> (json_error, LocalWALCheckpoint) res" where
  "dec_checkpoint_field c key raw =
     (if EqualFold key ''version'' then bindR (dec_int (cp_Version c) raw) (\<lambda>v. Inr (c\<lparr>cp_Version := v\<rparr>))
      else if EqualFold key ''format'' then bindR (dec_string (cp_Format c) raw) (\<lambda>v. Inr (c\<lparr>cp_Format := v\<rparr>))
      else if EqualFold key ''wal_path'' then bindR (dec_string (cp_WALPath c) raw) (\<lambda>v. Inr (c\<lparr>cp_WALPath := v\<rparr>))
      else if EqualFold key ''last_committed_lsn'' then
        bindR (dec_uint (LastCommittedLSN c) raw) (\<lambda>v. Inr (c\<lparr>LastCommittedLSN := v\<rparr>))
      else if EqualFold key ''operation_id'' then bindR (dec_string (cp_OperationID c) raw) (\<lambda>v. Inr (c\<lparr>cp_OperationID := v\<rparr>))
      else if EqualFold key ''updated_at'' then bindR (dec_time (UpdatedAt c) raw) (\<lambda>v. Inr (c\<lparr>UpdatedAt := v\<rparr>))
      else Inr c)"

definition dec_checkpoint_frame_field :: "LocalWALCheckpointFrame \<Rightarrow> string \<Rightarrow> string \<Rightarrow> (json_error, LocalWALCheckpointFrame) res" where
  "dec_checkpoint_frame_field g key raw =
     (if EqualFold key ''format'' then bindR (dec_string (cpf_Format g) raw) (\<lambda>v. Inr (g\<lparr>cpf_Format := v\<rparr>))
      else if EqualFold key ''checkpoint'' then
        bindR (dec_struct dec_checkpoint_field (Checkpoint g) raw) (\<lambda>v. Inr (g\<lparr>Checkpoint := v\<rparr>))
      else if EqualFold key ''sha256'' then bindR (dec_string (cpf_SHA256 g) raw) (\<lambda>v. Inr (g\<lparr>cpf_SHA256 := v\<rparr>))
      else Inr g)"

definition zero_record :: LocalWALRecord where
  "zero_record = \<lparr>rec_Version = 0, LSN = 0, Timestamp = zero_time, Transaction = [], rec_Statement = [],
     OperationID = [], Kind = [], rec_Table = [], rec_Payload = []\<rparr>"

definition zero_frame :: LocalWALFrame where
  "zero_frame = \<lparr>frame_Format = [], Record = zero_record, frame_SHA256 = []\<rparr>"

definition zero_checkpoint_frame :: LocalWALCheckpointFrame where
  "zero_checkpoint_frame = \<lparr>cpf_Format = [], Checkpoint = zero_checkpoint, cpf_SHA256 = []\<rparr>"

definition go_json :: json where
  "go_json = \<lparr>
     marshalRecord = (\<lambda>r. bindR (record_text r) (\<lambda>s. Inr (bytes_of_string s))),
     marshalFrame = (\<lambda>f. bindR (frame_text f) (\<lambda>s. Inr (bytes_of_string s))),
     unmarshalFrame = (\<lambda>bs. json_Unmarshal dec_frame_field zero_frame (string_of_bytes bs)),
     json_Valid = (\<lambda>bs. go_json_Valid (string_of_bytes bs)),
     marshalCheckpoint = (\<lambda>c. bindR (checkpoint_text c) (\<lambda>s. Inr (bytes_of_string s))),
     marshalIndentCheckpointFrame = (\<lambda>g. bindR (checkpoint_frame_text g) (\<lambda>s. Inr (bytes_of_string (json_indent 0 False s)))),
     unmarshalCheckpointFrame = (\<lambda>bs. json_Unmarshal dec_checkpoint_frame_field zero_checkpoint_frame (string_of_bytes bs))\<rparr>"

text \<open>The records and checkpoints that read back, and how their payload reads.\<close>

definition compact_payload :: "LocalWALRecord \<Rightarrow> LocalWALRecord" where
  "compact_payload r =
     (case json_compact (string_of_bytes (rec_Payload r)) of
        None \<Rightarrow> r
      | Some c \<Rightarrow> r\<lparr>rec_Payload := bytes_of_string c\<rparr>)"

definition utc_time :: "Time \<Rightarrow> bool" where
  "utc_time t \<longleftrightarrow> tzoff t = 0 \<and> 0 \<le> tnsec t \<and> tnsec t < 1000000000"

definition record_ok :: "LocalWALRecord \<Rightarrow> bool" where
  "record_ok r \<longleftrightarrow>
     - (2 ^ 63) \<le> rec_Version r \<and> rec_Version r < 2 ^ 63 \<and> utc_time (Timestamp r) \<and>
     utf8_Valid (Transaction r) \<and> utf8_Valid (rec_Statement r) \<and> utf8_Valid (OperationID r) \<and> utf8_Valid (Kind r) \<and>
     utf8_Valid (rec_Table r) \<and>
     scan_value (length (rec_Payload r) + 1) 2 (string_of_bytes (rec_Payload r)) \<noteq> None"

definition checkpoint_ok :: "LocalWALCheckpoint \<Rightarrow> bool" where
  "checkpoint_ok c \<longleftrightarrow>
     - (2 ^ 63) \<le> cp_Version c \<and> cp_Version c < 2 ^ 63 \<and> utc_time (UpdatedAt c) \<and> utf8_Valid (cp_Format c) \<and>
     utf8_Valid (cp_WALPath c) \<and> utf8_Valid (cp_OperationID c)"

section \<open>Field names\<close>

definition low_key :: "string \<Rightarrow> bool" where
  "low_key k \<longleftrightarrow> list_all (\<lambda>c. between 97 122 c \<or> is_digit c \<or> c = CHR ''_'') k"

lemma fold_case_low: "low_key k \<Longrightarrow> fold_case k = k"
proof (induction k)
  case (Cons c k)
  then have c: "between 97 122 c \<or> is_digit c \<or> c = CHR ''_''" and k: "fold_case k = k" by (simp_all add: low_key_def)
  have "lower_char c = c" "c \<noteq> CHR 0xC5" "c \<noteq> CHR 0xE2" using c by (auto simp: lower_char_def between_def)
  with k show ?case by simp
qed simp

lemma EqualFold_low [simp]: "low_key k \<Longrightarrow> low_key l \<Longrightarrow> EqualFold k l \<longleftrightarrow> k = l"
  by (simp add: EqualFold_def fold_case_low)

lemma low_key_plain: "low_key k \<Longrightarrow> plain_key k"
  by (auto simp: low_key_def plain_key_def list_all_iff plain_char_def html_char_def between_def)

lemma low_keys [simp]:
  "low_key ''version''" "low_key ''lsn''" "low_key ''timestamp''" "low_key ''transaction''" "low_key ''statement''"
  "low_key ''operation_id''" "low_key ''kind''" "low_key ''table''" "low_key ''payload''" "low_key ''format''"
  "low_key ''record''" "low_key ''sha256''" "low_key ''wal_path''" "low_key ''last_committed_lsn''" "low_key ''updated_at''"
  "low_key ''checkpoint''"
  by (simp_all add: low_key_def between_def)

lemma plain_keys [simp]: "low_key k \<Longrightarrow> unquote k = k"
  using low_key_plain plain_key_props(3) by blast

lemma dec_fields_append: "dec_fields f x (fs @ gs) = bindR (dec_fields f x fs) (\<lambda>x. dec_fields f x gs)"
proof (induction fs arbitrary: x)
  case (Cons a fs)
  obtain k raw c where a: "a = (k, raw, c)" by (cases a)
  show ?case by (cases "f x (unquote k) raw") (simp_all add: a Cons)
qed simp

section \<open>Records\<close>

lemma compact_payload_fields [simp]:
  "rec_Version (compact_payload r) = rec_Version r" "LSN (compact_payload r) = LSN r" "Timestamp (compact_payload r) = Timestamp r"
  "Transaction (compact_payload r) = Transaction r" "rec_Statement (compact_payload r) = rec_Statement r"
  "OperationID (compact_payload r) = OperationID r" "Kind (compact_payload r) = Kind r" "rec_Table (compact_payload r) = rec_Table r"
  by (simp_all add: compact_payload_def split: option.split)

lemma compact_payload_payload:
  "string_of_bytes (rec_Payload (compact_payload r)) =
     (case json_compact (string_of_bytes (rec_Payload r)) of None \<Rightarrow> string_of_bytes (rec_Payload r) | Some c \<Rightarrow> c)"
  by (simp add: compact_payload_def split: option.split)

lemma json_compact_Nil: "json_compact [] = None"
  by (simp add: json_compact_def scan_value.simps(2))

lemma enc_raw_compact: "enc_raw (string_of_bytes (rec_Payload (compact_payload r))) = enc_raw (string_of_bytes (rec_Payload r))"
  using json_compact_text [of "string_of_bytes (rec_Payload r)"] json_compact_Nil
  by (auto simp: compact_payload_payload enc_raw_def split: option.split)

lemma compact_payload_idem: "compact_payload (compact_payload r) = compact_payload r"
  using json_compact_text(1) [of "string_of_bytes (rec_Payload r)"]
  by (auto simp: compact_payload_def split: option.split)

lemma record_text_compact: "record_text (compact_payload r) = record_text r"
  by (simp add: record_text_def record_members_def enc_raw_compact)

lemma valid_compact_payload: "validateLocalWALRecord go_json (compact_payload r) = validateLocalWALRecord go_json r"
proof (cases "json_compact (string_of_bytes (rec_Payload r))")
  case (Some c)
  have "rec_Payload r \<noteq> []" using Some json_compact_Nil by (auto simp: string_of_bytes_def)
  with Some json_compact_text [OF Some] show ?thesis
    by (simp add: validateLocalWALRecord_def go_json_def go_json_Valid_def compact_payload_def)
qed (simp add: compact_payload_def)

lemma payload_text:
  assumes "record_ok r" "enc_raw (string_of_bytes (rec_Payload r)) = Inr p"
  shows "text_at 2 p" "p = string_of_bytes (rec_Payload (compact_payload r))" "string_of_bytes (rec_Payload r) \<noteq> []"
proof -
  let ?s = "string_of_bytes (rec_Payload r)"
  obtain c x where s: "scan_value (length (rec_Payload r) + 1) 2 ?s = Some (c, x)"
    using assms(1) by (auto simp: record_ok_def)
  then show ne: "?s \<noteq> []" by (auto simp: scan_value.simps(2))
  with assms(2) have p: "json_compact ?s = Some p" by (auto simp: enc_raw_def split: option.splits)
  from scan_value_bound [OF s, of 0 "length ?s + 1"] p have c: "c = p" by (simp add: json_compact_def split: if_splits)
  then show "text_at 2 p" using scan_value_stable [OF s] by (auto simp: text_at_def)
  show "p = string_of_bytes (rec_Payload (compact_payload r))" using p by (simp add: compact_payload_payload)
qed

lemma record_ok_compact: "record_ok r \<Longrightarrow> record_ok (compact_payload r)"
proof (cases "json_compact (string_of_bytes (rec_Payload r))")
  case (Some c)
  assume ok: "record_ok r"
  have ne: "string_of_bytes (rec_Payload r) \<noteq> []" using Some json_compact_Nil by auto
  with Some have "enc_raw (string_of_bytes (rec_Payload r)) = Inr c" by (simp add: enc_raw_def)
  from payload_text(1) [OF ok this] have "value_text (length c + 1) 2 c" by (rule text_at_bound) simp
  from value_textD [OF this, of "[]"] have "scan_value (length c + 1) 2 c = Some (c, [])" by simp
  with ok Some show ?thesis by (simp add: record_ok_def compact_payload_def)
qed (simp add: compact_payload_def)

lemma members_at_append: "gs \<noteq> [] \<Longrightarrow> members_at d (fs @ gs) \<longleftrightarrow> (fs = [] \<or> members_at d fs) \<and> members_at d gs"
  by (auto simp: members_at_def)

lemma members_at_Cons: "members_at d (m # ms) \<longleftrightarrow> plain_key (fst m) \<and> text_at d (snd m) \<and> (ms = [] \<or> members_at d ms)"
  by (auto simp: members_at_def)

lemma text_at_leaf: "text_at d (quote_string s)" "text_at d (FormatInt i)" "text_at d (enc_uint n)"
  "enc_time t = Inr c \<Longrightarrow> text_at d c"
  using value_text_quote value_text_FormatInt value_text_uint value_text_time
  by (auto simp: enc_time_def split: if_splits)

lemma record_members_at:
  assumes "record_ok r" "enc_time (Timestamp r) = Inr ts" "enc_raw (string_of_bytes (rec_Payload r)) = Inr p"
  shows "members_at 2 (record_members r ts p)" "members_at 1 (record_members r ts p)"
proof -
  note p = payload_text(1) [OF assms(1,3)]
  show m: "members_at 2 (record_members r ts p)"
    using p text_at_leaf(1-3) text_at_leaf(4) [OF assms(2)]
    by (auto simp: members_at_def record_members_def omitempty_def low_key_plain)
  then show "members_at 1 (record_members r ts p)"
    using text_at_mono [of 2 _ 1] by (auto simp: members_at_def list_all_iff)
qed

lemma dec_record:
  assumes "record_ok r" "enc_time (Timestamp r) = Inr ts" "enc_raw (string_of_bytes (rec_Payload r)) = Inr p"
  shows "dec_struct dec_record_field zero_record (json_obj (record_members r ts p)) = Inr (compact_payload r)"
proof -
  have ok: "utf8_Valid (Transaction r)" "utf8_Valid (rec_Statement r)" "utf8_Valid (OperationID r)" "utf8_Valid (Kind r)"
    "utf8_Valid (rec_Table r)" "utc_time (Timestamp r)" "- (2 ^ 63) \<le> rec_Version r" "rec_Version r < 2 ^ 63"
    using assms(1) by (simp_all add: record_ok_def)
  have ts: "dec_time old ts = Inr (Timestamp r)" for old
    using dec_time_enc [OF assms(2)] ok(6) by (simp add: utc_time_def)
  have p: "bytes_of_string p = rec_Payload (compact_payload r)" using payload_text(2) [OF assms(1,3)] by simp
  have "dec_fields dec_record_field zero_record (map (\<lambda>(k, c). (k, c, c)) (record_members r ts p)) = Inr (compact_payload r)"
    using ok ts dec_int_Format [OF ok(7,8)]
    by (cases "Transaction r = []"; cases "rec_Statement r = []"; cases "rec_Table r = []")
      (simp_all add: record_members_def omitempty_def dec_fields_append dec_record_field_def dec_string_quote dec_uint_enc p zero_record_def)
  then show ?thesis unfolding dec_struct_obj [OF record_members_at(2) [OF assms]] .
qed

section \<open>Frames\<close>

lemma marshalFrame_Inr:
  assumes "marshalFrame go_json f = Inr d"
  obtains ts p where "enc_time (Timestamp (Record f)) = Inr ts" "enc_raw (string_of_bytes (rec_Payload (Record f))) = Inr p"
    "d = bytes_of_string (json_obj [(''format'', quote_string (frame_Format f)), (''record'', json_obj (record_members (Record f) ts p)),
        (''sha256'', quote_string (frame_SHA256 f))])"
  using assms by (auto simp: go_json_def frame_text_def record_text_def bindR_Inr_iff)

lemma enc_raw_text: "enc_raw s = Inr p \<Longrightarrow> printable p"
proof -
  assume e: "enc_raw s = Inr p"
  show ?thesis
  proof (cases "s = []")
    case True
    then show ?thesis using e by (auto simp: enc_raw_def between_def)
  next
    case False
    then have "json_compact s = Some p" using e by (auto simp: enc_raw_def split: option.splits)
    then show ?thesis using scan_printable unfolding json_compact_iff by blast
  qed
qed

lemma printable_obj: "\<forall>(k, c) \<in> set ms. plain_key k \<and> printable c \<Longrightarrow> printable (json_obj ms)"
proof -
  assume ms: "\<forall>(k, c) \<in> set ms. plain_key k \<and> printable c"
  have "\<forall>m \<in> set (map member ms). printable m"
    using ms plain_key_props(1) printable_body by (fastforce simp: member_def json_str_def)
  then show ?thesis using printable_join by (simp add: json_obj_def)
qed

lemma printable_leaf: "printable (quote_string s)" "printable (FormatInt i)" "printable (enc_uint n)" "enc_time t = Inr c \<Longrightarrow> printable c"
  using text_at_leaf text_at_printable by blast+

lemma char_of_byte_newline: "char_of_byte newline = CHR 0x0A"
  by code_simp

lemma newline_printable: "printable s \<Longrightarrow> newline \<notin> set (bytes_of_string s)"
proof
  assume p: "printable s" and n: "newline \<in> set (bytes_of_string s)"
  then obtain c where c: "c \<in> set s" "byte_of_char c = newline" by (auto simp: bytes_of_string_def)
  then have "c = CHR 0x0A" by (metis char_of_byte_of_char char_of_byte_newline)
  with p c(1) show False by (auto simp: printable_def between_def)
qed

lemma go_frame_object:
  assumes "marshalFrame go_json f = Inr d"
  shows "newline \<notin> set d \<and> d \<noteq> [] \<and> char_of_byte (hd d) = CHR ''{'' \<and> char_of_byte (last d) = CHR ''}''"
proof -
  obtain ts p where f: "enc_time (Timestamp (Record f)) = Inr ts" "enc_raw (string_of_bytes (rec_Payload (Record f))) = Inr p"
    "d = bytes_of_string (json_obj [(''format'', quote_string (frame_Format f)), (''record'', json_obj (record_members (Record f) ts p)),
        (''sha256'', quote_string (frame_SHA256 f))])"
    using marshalFrame_Inr [OF assms] .
  have "printable (json_obj (record_members (Record f) ts p))"
    using printable_leaf(1-3) printable_leaf(4) [OF f(1)] enc_raw_text [OF f(2)]
    by (intro printable_obj) (auto simp: record_members_def omitempty_def low_key_plain)
  then have "printable (json_obj [(''format'', quote_string (frame_Format f)), (''record'', json_obj (record_members (Record f) ts p)),
        (''sha256'', quote_string (frame_SHA256 f))])"
    using printable_leaf by (intro printable_obj) (auto simp: low_key_plain)
  then have "newline \<notin> set d" unfolding f(3) by (rule newline_printable)
  then show ?thesis unfolding f(3) by (simp add: json_obj_def bytes_of_string_def)
qed

lemma hex_utf8: "utf8_Valid (hex_EncodeToString bs)"
proof -
  have a: "utf8_Valid s" if "\<forall>c \<in> set s. between 0 0x7F c" for s
    using that by (induction s) (auto simp: utf8_Valid.simps)
  have "between 0 0x7F (hex_digit (n mod 16))" for n
    using of_hex_digit [of "n mod 16"] by (auto simp: between_def)
  moreover have "between 0 0x7F (hex_digit (unat (b :: byte) div 16))" for b
    using of_hex_digit [of "unat b div 16"] less_mult_imp_div_less [of "unat b" 16 16] unat_byte_less [of b]
    by (auto simp: between_def)
  ultimately show ?thesis by (intro a) (auto simp: hex_EncodeToString_def fmt_02x_def)
qed

lemma go_frame_back:
  assumes "record_ok (Record f)" "utf8_Valid (frame_Format f)" "utf8_Valid (frame_SHA256 f)" "marshalFrame go_json f = Inr d"
  shows "unmarshalFrame go_json d = Inr (f\<lparr>Record := compact_payload (Record f)\<rparr>)"
proof -
  obtain ts p where f: "enc_time (Timestamp (Record f)) = Inr ts" "enc_raw (string_of_bytes (rec_Payload (Record f))) = Inr p"
    "d = bytes_of_string (json_obj [(''format'', quote_string (frame_Format f)), (''record'', json_obj (record_members (Record f) ts p)),
        (''sha256'', quote_string (frame_SHA256 f))])"
    using marshalFrame_Inr [OF assms(4)] .
  have "text_at 1 (json_obj (record_members (Record f) ts p))"
    using text_at_obj [of 1] record_members_at(1) [OF assms(1) f(1,2)] by (simp add: maxNestingDepth_def)
  then have m: "members_at 1 [(''format'', quote_string (frame_Format f)), (''record'', json_obj (record_members (Record f) ts p)),
        (''sha256'', quote_string (frame_SHA256 f))]"
    by (simp add: members_at_def text_at_leaf low_key_plain)
  have "unmarshalFrame go_json d = dec_fields dec_frame_field zero_frame
      (map (\<lambda>(k, c). (k, c, c)) [(''format'', quote_string (frame_Format f)), (''record'', json_obj (record_members (Record f) ts p)),
        (''sha256'', quote_string (frame_SHA256 f))])"
    unfolding f(3) json_Unmarshal_obj [OF m, symmetric] by (simp add: go_json_def)
  also have "\<dots> = Inr (f\<lparr>Record := compact_payload (Record f)\<rparr>)"
    using assms(2,3) dec_record [OF assms(1) f(1,2)]
    by (simp add: dec_frame_field_def dec_string_quote zero_frame_def)
  finally show ?thesis .
qed

section \<open>Checkpoints\<close>

lemma checkpoint_members_fields:
  assumes "enc_time (UpdatedAt c) = Inr ts"
  defines "fs \<equiv> map (\<lambda>(k, v). (k, v, v)) (checkpoint_members c ts)"
  shows "fs \<noteq> []" "plain_fields fs = checkpoint_members c ts"
    "\<forall>(k, c', c) \<in> set fs. plain_key k \<and> indents D c c'" "\<forall>(k, c', c) \<in> set fs. plain_key k \<and> spaced_at d c' c"
proof -
  show "fs \<noteq> []" by (simp add: fs_def checkpoint_members_def)
  have "(\<lambda>(k, c', c). (k, c)) \<circ> (\<lambda>(k, v). (k, v, v)) = (id :: string \<times> string \<Rightarrow> _)" by (auto simp: fun_eq_iff)
  then show "plain_fields fs = checkpoint_members c ts" by (simp add: plain_fields_def fs_def)
  have ts: "indents D ts ts" "text_at d ts" using assms(1) indents_time text_at_leaf(4) [OF assms(1)] by (auto simp: enc_time_def split: if_splits)
  show "\<forall>(k, c', c) \<in> set fs. plain_key k \<and> indents D c c'"
    using ts by (auto simp: fs_def checkpoint_members_def omitempty_def low_key_plain indents_quote indents_int indents_uint)
  show "\<forall>(k, c', c) \<in> set fs. plain_key k \<and> spaced_at d c' c"
    using ts(2) text_at_leaf(1-3) by (auto simp: fs_def checkpoint_members_def omitempty_def low_key_plain spaced_at_text)
qed

lemma dec_checkpoint:
  assumes "checkpoint_ok c" "enc_time (UpdatedAt c) = Inr ts"
  shows "dec_struct dec_checkpoint_field zero_checkpoint (ind_obj D (map (\<lambda>(k, v). (k, v, v)) (checkpoint_members c ts))) = Inr c"
proof -
  have ok: "utf8_Valid (cp_Format c)" "utf8_Valid (cp_WALPath c)" "utf8_Valid (cp_OperationID c)" "utc_time (UpdatedAt c)"
    "- (2 ^ 63) \<le> cp_Version c" "cp_Version c < 2 ^ 63"
    using assms(1) by (simp_all add: checkpoint_ok_def)
  have ts: "dec_time old ts = Inr (UpdatedAt c)" for old
    using dec_time_enc [OF assms(2)] ok(4) by (simp add: utc_time_def)
  have "dec_fields dec_checkpoint_field zero_checkpoint (map (\<lambda>(k, v). (k, v, v)) (checkpoint_members c ts)) = Inr c"
    using ok ts dec_int_Format [OF ok(5,6)]
    by (cases "cp_OperationID c = []")
      (simp_all add: checkpoint_members_def omitempty_def dec_checkpoint_field_def dec_string_quote dec_uint_enc zero_checkpoint_def)
  then show ?thesis
    unfolding dec_struct_ind_obj [OF checkpoint_members_fields(1) [OF assms(2)] checkpoint_members_fields(4) [OF assms(2)]] .
qed

lemma go_checkpoint_back:
  assumes "checkpoint_ok (Checkpoint g)" "utf8_Valid (cpf_Format g)" "utf8_Valid (cpf_SHA256 g)"
    "marshalIndentCheckpointFrame go_json g = Inr d"
  shows "unmarshalCheckpointFrame go_json d = Inr g"
proof -
  obtain ts where ts: "enc_time (UpdatedAt (Checkpoint g)) = Inr ts"
    "d = bytes_of_string (json_indent 0 False (json_obj [(''format'', quote_string (cpf_Format g)),
        (''checkpoint'', json_obj (checkpoint_members (Checkpoint g) ts)), (''sha256'', quote_string (cpf_SHA256 g))]))"
    using assms(4) by (auto simp: go_json_def checkpoint_frame_text_def checkpoint_text_def bindR_Inr_iff)
  let ?in = "map (\<lambda>(k, v). (k, v, v)) (checkpoint_members (Checkpoint g) ts)"
  note c = checkpoint_members_fields [OF ts(1)]
  have i: "indents 1 (json_obj (checkpoint_members (Checkpoint g) ts)) (ind_obj 1 ?in)"
    using indents_obj [OF c(1) c(3) [of "Suc 1"]] c(2) by simp
  have s: "spaced_at 1 (ind_obj 1 ?in) (json_obj (checkpoint_members (Checkpoint g) ts))"
    using spaced_at_obj [OF c(1) c(4) [of "1 + 1"], of 1] c(2) by (simp add: maxNestingDepth_def)
  let ?fs = "[(''format'', quote_string (cpf_Format g), quote_string (cpf_Format g)),
      (''checkpoint'', ind_obj 1 ?in, json_obj (checkpoint_members (Checkpoint g) ts)),
      (''sha256'', quote_string (cpf_SHA256 g), quote_string (cpf_SHA256 g))]"
  have fs: "\<forall>(k, c', c) \<in> set ?fs. plain_key k \<and> indents (Suc 0) c c'" "\<forall>(k, c', c) \<in> set ?fs. plain_key k \<and> spaced_at 1 c' c"
    using i s by (auto simp: low_key_plain indents_quote spaced_at_text text_at_leaf)
  have "json_indent 0 False (json_obj (plain_fields ?fs) @ []) = ind_obj 0 ?fs @ json_indent 0 False []"
    using indents_obj [OF _ fs(1)] unfolding indents_def by blast
  then have d: "string_of_bytes d = ind_obj 0 ?fs" by (simp add: ts(2) plain_fields_def)
  have "unmarshalCheckpointFrame go_json d = json_Unmarshal dec_checkpoint_frame_field zero_checkpoint_frame (ind_obj 0 ?fs)"
    unfolding d [symmetric] by (simp add: go_json_def)
  also have "\<dots> = dec_fields dec_checkpoint_frame_field zero_checkpoint_frame ?fs"
    by (rule json_Unmarshal_ind_obj [OF _ fs(2)]) simp
  also have "\<dots> = Inr g"
    using assms(2,3) dec_checkpoint [OF assms(1) ts(1)]
    by (simp add: dec_checkpoint_frame_field_def dec_string_quote zero_checkpoint_frame_def)
  finally show ?thesis .
qed

section \<open>What the program appends\<close>

definition clock_ok :: "Time \<Rightarrow> bool" where
  "clock_ok t \<longleftrightarrow> 0 \<le> tnsec t \<and> tnsec t < 1000000000"

definition input_ok :: "LocalWALRecord \<Rightarrow> bool" where
  "input_ok r \<longleftrightarrow>
     clock_ok (Timestamp r) \<and>
     utf8_Valid (Transaction r) \<and> utf8_Valid (rec_Statement r) \<and> utf8_Valid (OperationID r) \<and> utf8_Valid (Kind r) \<and>
     utf8_Valid (rec_Table r) \<and>
     (rec_Payload r = [] \<or> scan_value (length (rec_Payload r) + 1) 2 (string_of_bytes (rec_Payload r)) \<noteq> None)"

lemma empty_object_scans: "scan_value (Suc (Suc (Suc 0))) 2 ''{}'' \<noteq> None"
  by code_simp

lemma stamped_ok: "clock_ok now \<Longrightarrow> input_ok r \<Longrightarrow> record_ok (stamped now lsn r)"
  using empty_object_scans
  by (cases "rec_Payload r = []")
    (simp_all add: record_ok_def input_ok_def clock_ok_def stamped_def utc_time_def UTC_def LocalWALVersion_def)

end
