(* ===== verification/WAL_Runs.thy ===== *)
theory WAL_Runs
  imports WAL_JSON
begin

text \<open>
  What the write-ahead log promises across crashes. The laws the log relies on from the JSON of
  its frames are a locale; inside it, reading back a file made of frames is proved once. The runs
  of the system are an inductive relation whose steps are the log's operations and crashes at any
  point of them, together with the list of the records that the log holds; an invariant ties the
  two and gives the durability, restart and recovery properties.
\<close>

section \<open>Trimming a line\<close>

lemma trim_front_hd:
  assumes "s \<noteq> []" "\<forall>p \<in> set ps. p \<noteq> [] \<longrightarrow> hd p \<noteq> hd s"
  shows "trim_front ps s = s"
  unfolding trim_front_fixed_iff
proof (intro ballI impI notI)
  fix p assume p: "p \<in> set ps" "p \<noteq> []" "take (length p) s = p"
  then have "hd p = hd s" by (metis hd_take length_greater_0_conv)
  with assms p show False by blast
qed

definition graphic :: "char \<Rightarrow> bool" where
  "graphic c \<longleftrightarrow> 33 \<le> (of_char c :: nat) \<and> (of_char c :: nat) \<le> 126"

lemma space_runes_not_graphic:
  "\<forall>p \<in> set space_runes. p \<noteq> [] \<and> \<not> graphic (hd p)" "\<forall>p \<in> set (map rev space_runes). p \<noteq> [] \<and> \<not> graphic (hd p)"
  by (simp_all add: space_runes_def graphic_def)

lemma trim_space_line:
  assumes "s \<noteq> []" "graphic (hd s)" "graphic (last s)"
  shows "trim_space (s @ [CHR 0x0A]) = s"
proof -
  have f: "trim_front space_runes (s @ [CHR 0x0A]) = s @ [CHR 0x0A]"
    using assms space_runes_not_graphic(1) by (intro trim_front_hd) auto
  have "List.find (\<lambda>p. p \<noteq> [] \<and> take (length p) (CHR 0x0A # rev s) = p) (map rev space_runes) = Some [CHR 0x0A]"
    by (simp add: space_runes_def)
  then have "trim_front (map rev space_runes) (CHR 0x0A # rev s) = trim_front (map rev space_runes) (rev s)"
    by (simp add: trim_front.simps [of _ "CHR 0x0A # rev s"])
  also have "\<dots> = rev s"
    using assms space_runes_not_graphic(2) by (intro trim_front_hd) (auto simp: hd_rev)
  finally show ?thesis by (simp add: trim_space_def f)
qed

section \<open>Sequence numbers\<close>

definition last_lsn :: "LocalWALRecord list \<Rightarrow> u64" where
  "last_lsn L = last (0 # map LSN L)"

definition increasing :: "u64 \<Rightarrow> LocalWALRecord list \<Rightarrow> bool" where
  "increasing l L \<longleftrightarrow> sorted_wrt (<) (l # map LSN L)"

lemma stamped_LSN [simp]: "LSN (stamped now lsn r) = lsn"
  by (simp add: stamped_def)

lemma less_plus_1: "x + 1 \<noteq> 0 \<Longrightarrow> (x :: u64) < x + 1"
  using unatSuc [of x] by (simp add: word_less_nat_alt add.commute)

lemma increasing_simps [simp]:
  "increasing l []" "increasing l (r # L) \<longleftrightarrow> l < LSN r \<and> increasing (LSN r) L"
  by (auto simp: increasing_def)

lemma last_lsn_simps [simp]: "last_lsn [] = 0" "last_lsn (L @ [r]) = LSN r"
  by (simp_all add: last_lsn_def)

lemma lastLSN_of_increasing: "increasing l L \<Longrightarrow> lastLSN_of l L = Inr (last (l # map LSN L))"
  by (induction L arbitrary: l) auto

lemma increasing_snoc: "increasing l (L @ [r]) \<longleftrightarrow> increasing l L \<and> last (l # map LSN L) < LSN r"
  by (induction L arbitrary: l) auto

lemma last_ge: "increasing l L \<Longrightarrow> r \<in> set L \<Longrightarrow> LSN r \<le> last (l # map LSN L)"
proof (induction L arbitrary: l)
  case (Cons x L)
  show ?case
  proof (cases "L = []")
    case False
    then obtain y where y: "y \<in> set L" "last (map LSN L) = LSN y" by (metis last_in_set last_map)
    have mono: "LSN x \<le> LSN y" using Cons.prems(1) y(1) by (auto simp: increasing_def)
    from Cons False y mono show ?thesis by auto
  qed (use Cons.prems in simp)
qed simp

section \<open>Runs\<close>

text \<open>
  The states a log can be in: the open log, if a process has it open, the files, and the records
  the log holds. A crash keeps what was synced and any prefix of the rest, also in the middle of
  an append or of the replacement of the checkpoint. Writes and syncs of an append succeed.
\<close>

definition file_bytes :: "disk \<Rightarrow> byte list" where
  "file_bytes d = (case contents d of None \<Rightarrow> [] | Some bs \<Rightarrow> bs)"

definition commit_checkpoint :: "LocalWAL \<Rightarrow> Time \<Rightarrow> LocalWALRecord \<Rightarrow> LocalWALCheckpoint" where
  "commit_checkpoint w now r =
     \<lparr>cp_Version = LocalWALVersion, cp_Format = LocalWALCheckpointFormat, cp_WALPath = wal_path w,
      LastCommittedLSN = LSN r, cp_OperationID = OperationID r, UpdatedAt = UTC now\<rparr>"

inductive wal_run :: "json \<Rightarrow> (LocalWALRecord \<Rightarrow> LocalWALRecord) \<Rightarrow> LocalWAL option \<Rightarrow> disk \<Rightarrow> LocalWALRecord list \<Rightarrow> bool"
  for j canon where
  boot: "wal_run j canon None empty_disk []"
| opened: "wal_run j canon None d L \<Longrightarrow> utf8_Valid path \<Longrightarrow> OpenLocalWAL j path io d = (Inr w, d') \<Longrightarrow>
    wal_run j canon (Some w) d' L"
| open_failed: "wal_run j canon None d L \<Longrightarrow> OpenLocalWAL j path io d = (Inl e, d') \<Longrightarrow>
    wal_run j canon None d' L"
| append: "wal_run j canon (Some w) d L \<Longrightarrow> io_write io = None \<Longrightarrow> io_sync io = None \<Longrightarrow>
    clock_ok (io_now io) \<Longrightarrow> input_ok r \<Longrightarrow>
    Append j io w d r = (Inr r', w', d') \<Longrightarrow> wal_run j canon (Some w') d' (L @ [canon r'])"
| append_failed: "wal_run j canon (Some w) d L \<Longrightarrow> io_write io = None \<Longrightarrow> io_sync io = None \<Longrightarrow>
    Append j io w d r = (Inl e, w', d') \<Longrightarrow> wal_run j canon (Some w') d' L"
| commit: "wal_run j canon (Some w) d L \<Longrightarrow> io_write io = None \<Longrightarrow> io_sync io = None \<Longrightarrow>
    clock_ok (io_now io) \<Longrightarrow> input_ok r \<Longrightarrow>
    CommitBoundary j io f w d r = ((a, res), w', d') \<Longrightarrow>
    wal_run j canon (Some w') d' (case a of None \<Rightarrow> L | Some r' \<Rightarrow> L @ [canon r'])"
| checkpoint: "wal_run j canon (Some w) d L \<Longrightarrow> r \<in> set L \<Longrightarrow> clock_ok (io_now io) \<Longrightarrow>
    CheckpointCommittedRecord j io w d r = (res, w', d') \<Longrightarrow> wal_run j canon (Some w') d' L"
| closed: "wal_run j canon (Some w) d L \<Longrightarrow> wal_run j canon None d L"
| crash: "wal_run j canon u d L \<Longrightarrow> durable d \<le> n \<Longrightarrow> contents d = Some bs \<Longrightarrow>
    wal_run j canon None (d\<lparr>contents := Some (take n bs), durable := length (take n bs)\<rparr>) L"
| crash_append: "wal_run j canon (Some w) d L \<Longrightarrow> clock_ok now \<Longrightarrow> input_ok r \<Longrightarrow>
    frame_line j (stamped now (nextLSN w) r) = Inr data \<Longrightarrow>
    bs = file_bytes d @ take k data \<Longrightarrow>
    wal_run j canon None (d\<lparr>contents := Some bs, durable := length bs\<rparr>)
      (if k < length data then L else L @ [canon (stamped now (nextLSN w) r)])"
| crash_checkpoint: "wal_run j canon (Some w) d L \<Longrightarrow> r \<in> set L \<Longrightarrow> checkpointLSN w < LSN r \<Longrightarrow>
    clock_ok now \<Longrightarrow> clock_ok now' \<Longrightarrow>
    checkpoint_data j now (commit_checkpoint w now' r) = Inr data \<Longrightarrow>
    d' = (if renamed then d\<lparr>checkpointFile := Some data, tmpFile := None\<rparr> else d\<lparr>tmpFile := Some (take k data)\<rparr>) \<Longrightarrow>
    wal_run j canon None d' L"

section \<open>Frames\<close>

lemma checkpoint_format_utf8: "utf8_Valid LocalWALCheckpointFormat"
  by code_simp

definition open_faultless :: "io \<Rightarrow> bool" where
  "open_faultless io \<longleftrightarrow> io_mkdir io = None \<and> io_read io = None \<and> io_truncate io = None \<and> io_readCheckpoint io = None \<and>
     io_open io = None"

text \<open>What the log relies on from the encoding: a frame is an object on one line that reads back, with a
  canonical form of its record that has the same text, the same checks and the same number.\<close>

locale wal_codec =
  fixes j :: json and canon :: "LocalWALRecord \<Rightarrow> LocalWALRecord"
  assumes frame_object: "marshalFrame j f = Inr d \<Longrightarrow>
      newline \<notin> set d \<and> d \<noteq> [] \<and> graphic (char_of_byte (hd d)) \<and> graphic (char_of_byte (last d))"
    and frame_back: "record_ok (Record f) \<Longrightarrow> frame_Format f = LocalWALFormat \<Longrightarrow> frame_SHA256 f = hex_EncodeToString bs \<Longrightarrow>
      marshalFrame j f = Inr d \<Longrightarrow> unmarshalFrame j d = Inr (f\<lparr>Record := canon (Record f)\<rparr>)"
    and canon_frame: "marshalFrame j (f\<lparr>Record := canon (Record f)\<rparr>) = marshalFrame j f"
    and canon_record: "marshalRecord j (canon r) = marshalRecord j r"
    and canon_idem: "canon (canon r) = canon r"
    and canon_ok: "record_ok r \<Longrightarrow> record_ok (canon r)"
    and canon_LSN: "LSN (canon r) = LSN r"
    and canon_commit: "is_commit (canon r) = is_commit r"
    and canon_valid: "validateLocalWALRecord j (canon r) = validateLocalWALRecord j r"
    and checkpoint_back: "checkpoint_ok (Checkpoint g) \<Longrightarrow> cpf_Format g = LocalWALCheckpointFormat \<Longrightarrow>
      cpf_SHA256 g = hex_EncodeToString bs \<Longrightarrow> marshalIndentCheckpointFrame j g = Inr d \<Longrightarrow>
      unmarshalCheckpointFrame j d = Inr g"
begin

lemma canon_checksum: "localWALRecordChecksum j (canon r) = localWALRecordChecksum j r"
  by (simp add: localWALRecordChecksum_def canon_record)

lemma frame_line_canon: "frame_line j (canon r) = frame_line j r"
proof (cases "localWALRecordChecksum j r")
  case (Inr c)
  have "marshalFrame j \<lparr>frame_Format = LocalWALFormat, Record = canon r, frame_SHA256 = c\<rparr> =
      marshalFrame j \<lparr>frame_Format = LocalWALFormat, Record = r, frame_SHA256 = c\<rparr>"
    using canon_frame [of "\<lparr>frame_Format = LocalWALFormat, Record = r, frame_SHA256 = c\<rparr>"] by simp
  with Inr show ?thesis by (simp add: frame_line_def newLocalWALFrame_def canon_checksum canon_valid)
qed (simp add: frame_line_def newLocalWALFrame_def canon_checksum canon_valid)

lemma frame_line_Inr:
  assumes "frame_line j r = Inr line"
  obtains c d where "validateLocalWALRecord j r = Inr ()" "localWALRecordChecksum j r = Inr c"
    "marshalFrame j \<lparr>frame_Format = LocalWALFormat, Record = r, frame_SHA256 = c\<rparr> = Inr d" "line = d @ [newline]"
  using assms
  by (auto simp: frame_line_def newLocalWALFrame_def bindR_Inr_iff wrapErr_Inr_iff)

lemma frame_line_shape: "frame_line j r = Inr line \<Longrightarrow> \<exists>d. line = d @ [newline] \<and> newline \<notin> set d"
  using frame_line_Inr frame_object by metis

lemma readLines_frame:
  assumes "frame_line j r = Inr line" "record_ok r"
  shows "readLines j (line @ rest) res l n =
     (if LSN r \<le> l then Inl (Err (LSNNotIncreasingAtLine (n + 1) (LSN r) l))
      else readLines j rest
        (res\<lparr>ByteCount := ByteCount res + length line, Records := Records res @ [canon r],
             ValidByteCount := ByteCount res + length line\<rparr>) (LSN r) (n + 1))"
proof -
  from frame_line_Inr [OF assms(1)] obtain c d where v: "validateLocalWALRecord j r = Inr ()"
    and c: "localWALRecordChecksum j r = Inr c"
    and d: "marshalFrame j \<lparr>frame_Format = LocalWALFormat, Record = r, frame_SHA256 = c\<rparr> = Inr d"
    and line: "line = d @ [newline]" by blast
  obtain bs where hex: "c = hex_EncodeToString bs" using c by (auto simp: localWALRecordChecksum_def bindR_Inr_iff)
  note obj = frame_object [OF d]
  have tw: "takeWhile (\<lambda>b. b \<noteq> newline) (line @ rest) = d"
  proof -
    have "takeWhile (\<lambda>b. b \<noteq> newline) (d @ newline # rest) = d @ takeWhile (\<lambda>b. b \<noteq> newline) (newline # rest)"
      by (rule takeWhile_append2) (use obj in auto)
    then show ?thesis by (simp add: line)
  qed
  have trim: "bytes_of_string (trim_space (string_of_bytes (d @ [newline]))) = d"
  proof -
    have "trim_space (string_of_bytes d @ [CHR 0x0A]) = string_of_bytes d"
      using obj by (intro trim_space_line) (simp_all add: string_of_bytes_def hd_map last_map)
    then show ?thesis by (simp add: string_of_bytes_def char_of_byte_newline)
      (metis bytes_of_string_of_bytes string_of_bytes_def)
  qed
  have un: "unmarshalFrame j d = Inr \<lparr>frame_Format = LocalWALFormat, Record = canon r, frame_SHA256 = c\<rparr>"
    using frame_back [OF _ _ _ d, of bs] hex assms(2) by simp
  have val: "validateLocalWALFrame j \<lparr>frame_Format = LocalWALFormat, Record = canon r, frame_SHA256 = c\<rparr> = Inr ()"
    using v c by (simp add: validateLocalWALFrame_def canon_valid canon_checksum)
  have "length d \<noteq> length (line @ rest)" "drop (length d + 1) (line @ rest) = rest" "line @ rest \<noteq> []"
    by (simp_all add: line)
  then show ?thesis
    unfolding readLines.simps [of j "line @ rest"] Let_def tw trim un
    using obj val by (simp add: canon_LSN line)
qed

lemma readLines_torn:
  assumes "newline \<notin> set torn"
  shows "readLines j torn res l n =
     Inr (if torn = [] then res
          else res\<lparr>ByteCount := ByteCount res + length torn,
                   TornTailBytes := ByteCount res + length torn - ValidByteCount res, TornTailLine := n + 1\<rparr>)"
proof -
  have tw: "takeWhile (\<lambda>b. b \<noteq> newline) torn = torn" using assms by (auto simp: takeWhile_eq_all_conv)
  show ?thesis unfolding readLines.simps [of j torn] Let_def tw by simp
qed

text \<open>The bytes of a list of records.\<close>

definition encodes :: "LocalWALRecord list \<Rightarrow> byte list \<Rightarrow> bool" where
  "encodes L bs \<longleftrightarrow> (\<exists>ls. list_all2 (\<lambda>r l. frame_line j r = Inr l) L ls \<and> bs = concat ls)"

lemma encodes_Nil [simp]: "encodes [] bs \<longleftrightarrow> bs = []"
  by (auto simp: encodes_def)

lemma encodes_Cons: "encodes (r # L) bs \<longleftrightarrow> (\<exists>l bs'. frame_line j r = Inr l \<and> encodes L bs' \<and> bs = l @ bs')"
  unfolding encodes_def list_all2_Cons1 by (auto, metis concat.simps(2))

lemma encodes_snoc: "encodes L bs \<Longrightarrow> frame_line j r = Inr l \<Longrightarrow> encodes (L @ [r]) (bs @ l)"
proof (induction L arbitrary: bs)
  case (Cons x L)
  then obtain l' bs' where x: "frame_line j x = Inr l'" "encodes L bs'" "bs = l' @ bs'" by (auto simp: encodes_Cons)
  with Cons.IH [OF x(2) Cons.prems(2)] show ?case by (auto simp: encodes_Cons)
qed (auto simp: encodes_Cons)

lemma encodes_unique: "encodes L bs \<Longrightarrow> encodes L bs' \<Longrightarrow> bs = bs'"
  by (induction L arbitrary: bs bs') (auto simp: encodes_Cons)

lemma readLines_app:
  assumes "encodes L bs" "increasing l L" "\<forall>r \<in> set L. canon r = r \<and> record_ok r" "ByteCount res = ValidByteCount res"
  shows "readLines j (bs @ rest) res l n =
     readLines j rest (res\<lparr>ByteCount := ByteCount res + length bs, Records := Records res @ L,
       ValidByteCount := ByteCount res + length bs\<rparr>) (last (l # map LSN L)) (n + length L)"
  using assms
proof (induction L arbitrary: bs l n res)
  case (Cons r L)
  then obtain line bs' where e: "frame_line j r = Inr line" "encodes L bs'" "bs = line @ bs'" by (auto simp: encodes_Cons)
  have lt: "\<not> LSN r \<le> l" using Cons.prems(2) by (simp add: not_le)
  let ?res = "res\<lparr>ByteCount := ByteCount res + length line, Records := Records res @ [r],
      ValidByteCount := ByteCount res + length line\<rparr>"
  have step: "readLines j (line @ (bs' @ rest)) res l n = readLines j (bs' @ rest) ?res (LSN r) (n + 1)"
    using readLines_frame [OF e(1), of "bs' @ rest" res l n] Cons.prems(3) lt by simp
  from Cons.IH [OF e(2), of "LSN r" ?res "n + 1"] Cons.prems
  show ?case by (simp add: e(3) step add.assoc)
next
  case Nil
  then show ?case by (cases res) simp
qed

lemma readLines_encodes:
  assumes "encodes L bs" "increasing l L" "\<forall>r \<in> set L. canon r = r \<and> record_ok r" "newline \<notin> set torn"
    "ByteCount res = ValidByteCount res"
  shows "\<exists>res'. readLines j (bs @ torn) res l n = Inr res' \<and> Records res' = Records res @ L \<and>
     ValidByteCount res' = ByteCount res + length bs \<and> ByteCount res' = ByteCount res + length bs + length torn \<and>
     TornTailBytes res' = (if torn = [] then TornTailBytes res else length torn)"
  using readLines_app [OF assms(1-3,5), of torn n] assms(4) by (simp add: readLines_torn)

definition cp_lsn :: "disk \<Rightarrow> u64 \<Rightarrow> bool" where
  "cp_lsn d l \<longleftrightarrow> (\<exists>c ex. LastCommittedLSN c = l \<and> (\<not> ex \<longrightarrow> l = 0) \<and>
     (\<forall>io. checkpointFile d = None \<or> io_readCheckpoint io = None \<longrightarrow> LoadLocalWALCheckpoint j io d = Inr (c, ex)))"

definition wal_inv :: "LocalWAL option \<Rightarrow> disk \<Rightarrow> LocalWALRecord list \<Rightarrow> bool" where
  "wal_inv u d L \<longleftrightarrow>
     (\<exists>bs torn l. encodes L bs \<and> file_bytes d = bs @ torn \<and> newline \<notin> set torn \<and> length bs \<le> durable d \<and>
        (\<forall>r \<in> set L. canon r = r \<and> record_ok r) \<and> increasing 0 L \<and> cp_lsn d l \<and> l \<le> last_lsn L \<and>
        (\<forall>w. u = Some w \<longrightarrow> torn = [] \<and> nextLSN w = last_lsn L + 1 \<and> checkpointLSN w = l \<and> syncOnAppend w \<and> utf8_Valid (wal_path w)))"

lemma wal_invI:
  assumes "encodes L bs" "file_bytes d = bs @ torn" "newline \<notin> set torn" "length bs \<le> durable d"
    "\<forall>r \<in> set L. canon r = r \<and> record_ok r" "increasing 0 L" "cp_lsn d l" "l \<le> last_lsn L"
    "\<And>w. u = Some w \<Longrightarrow> torn = [] \<and> nextLSN w = last_lsn L + 1 \<and> checkpointLSN w = l \<and> syncOnAppend w \<and> utf8_Valid (wal_path w)"
  shows "wal_inv u d L"
  using assms unfolding wal_inv_def by blast

lemma cp_lsn_cong: "checkpointFile d' = checkpointFile d \<Longrightarrow> cp_lsn d' l = cp_lsn d l"
  by (simp add: cp_lsn_def LoadLocalWALCheckpoint_def)

lemma checkpoint_data_loads:
  assumes "checkpoint_data j now c = Inr data" "checkpointFile d = Some data"
    "utf8_Valid (cp_WALPath c)" "utf8_Valid (cp_OperationID c)" "clock_ok now" "clock_ok (UpdatedAt c)"
  shows "cp_lsn d (LastCommittedLSN c)"
proof -
  let ?c = "c\<lparr>cp_Version := LocalWALVersion, cp_Format := LocalWALCheckpointFormat,
      UpdatedAt := (if IsZero (UpdatedAt c) then UTC now else UTC (UpdatedAt c))\<rparr>"
  from assms(1) obtain s where s: "localWALCheckpointChecksum j ?c = Inr s"
    and m: "marshalIndentCheckpointFrame j \<lparr>cpf_Format = LocalWALCheckpointFormat, Checkpoint = ?c, cpf_SHA256 = s\<rparr> = Inr data"
    unfolding checkpoint_data_def Let_def
    by (auto simp: newLocalWALCheckpointFrame_def bindR_Inr_iff wrapErr_Inr_iff)
  from s obtain bs where hex: "s = hex_EncodeToString bs" by (auto simp: localWALCheckpointChecksum_def bindR_Inr_iff)
  have ok: "checkpoint_ok ?c"
    using assms(3-6) checkpoint_format_utf8
    by (simp add: checkpoint_ok_def utc_time_def clock_ok_def UTC_def LocalWALVersion_def)
  have un: "unmarshalCheckpointFrame j data = Inr \<lparr>cpf_Format = LocalWALCheckpointFormat, Checkpoint = ?c, cpf_SHA256 = s\<rparr>"
    using checkpoint_back [OF _ _ _ m, of bs] hex ok by simp
  have "validateLocalWALCheckpointFrame j \<lparr>cpf_Format = LocalWALCheckpointFormat, Checkpoint = ?c, cpf_SHA256 = s\<rparr> = Inr ()"
    using s by (simp add: validateLocalWALCheckpointFrame_def)
  with un assms(2) have "LoadLocalWALCheckpoint j io d = Inr (?c, True)" if "io_readCheckpoint io = None" for io
    using that by (simp add: LoadLocalWALCheckpoint_def)
  then show ?thesis unfolding cp_lsn_def by (intro exI [of _ ?c] exI [of _ True]) (simp add: assms(2))
qed

lemma inv_reads:
  assumes "wal_inv u d L" "io_read io = None"
  obtains res bs torn where "readLocalWALPath j io d = Inr res" "Records res = L" "encodes L bs" "file_bytes d = bs @ torn"
    "ValidByteCount res = length bs" "TornTailBytes res = length torn"
proof -
  from assms(1) obtain bs torn where e: "encodes L bs" "file_bytes d = bs @ torn" "newline \<notin> set torn"
    "\<forall>r \<in> set L. canon r = r \<and> record_ok r" "increasing 0 L" unfolding wal_inv_def by blast
  from readLines_encodes [OF e(1,5,4,3), of empty_read 0] obtain res where
    "readLines j (bs @ torn) empty_read 0 0 = Inr res" "Records res = L" "ValidByteCount res = length bs"
    "TornTailBytes res = length torn"
    by (auto simp: empty_read_def)
  moreover have "readLocalWALPath j io d = readLines j (file_bytes d) empty_read 0 0"
    using assms(2) by (cases "contents d") (simp_all add: readLocalWALPath_def readLocalWAL_def file_bytes_def readLines_torn)
  ultimately show thesis using that e by simp
qed

lemma appendLocked_inv:
  assumes inv: "wal_inv (Some w) d L" and io: "io_write io = None" "io_sync io = None"
    and ok: "clock_ok (io_now io)" "input_ok r"
    and a: "appendLocked j io w d r = (res, w', d')"
  shows "(\<exists>r'. res = Inr r' \<and> LSN r' = nextLSN w \<and> record_ok r' \<and> wal_inv (Some w') d' (L @ [canon r'])) \<or>
     (\<exists>e. res = Inl e \<and> w' = w \<and> d' = d)"
proof (cases "frame_line j (stamped (io_now io) (nextLSN w) r)")
  case (Inl e)
  then show ?thesis using a by (auto simp: appendLocked_def)
next
  case (Inr data)
  let ?r = "stamped (io_now io) (nextLSN w) r"
  from inv obtain bs l where i: "encodes L bs" "file_bytes d = bs" "length bs \<le> durable d" "\<forall>r \<in> set L. canon r = r \<and> record_ok r"
    "increasing 0 L" "cp_lsn d l" "l \<le> last_lsn L"
    and w: "nextLSN w = last_lsn L + 1" "checkpointLSN w = l" "syncOnAppend w" "utf8_Valid (wal_path w)"
    unfolding wal_inv_def by auto
  have out: "res = Inr ?r" "w' = w\<lparr>nextLSN := nextLSN w + 1\<rparr>"
      "d' = d\<lparr>contents := Some (bs @ data), durable := length (bs @ data)\<rparr>"
    using a Inr io w(3) i(2) by (simp_all add: appendLocked_def Let_def file_bytes_def)
  have lsn: "LSN ?r = nextLSN w" by (simp add: stamped_def)
  have "LSN ?r \<noteq> 0"
    using Inr by (auto simp: frame_line_def validateLocalWALRecord_def bindR_Inr_iff split: if_splits)
  then have "last_lsn L + 1 \<noteq> 0" using lsn w(1) by metis
  then have lt: "last_lsn L < nextLSN w" unfolding w(1) by (rule less_plus_1)
  have "wal_inv (Some w') d' (L @ [canon ?r])"
  proof (rule wal_invI)
    show "encodes (L @ [canon ?r]) (bs @ data)"
      using i(1) Inr by (intro encodes_snoc) (simp_all add: frame_line_canon)
    show "file_bytes d' = (bs @ data) @ []" by (simp add: out(3) file_bytes_def)
    show "increasing 0 (L @ [canon ?r])" using i(5) lt by (simp add: increasing_snoc canon_LSN lsn last_lsn_def)
    have "checkpointFile d' = checkpointFile d" by (simp add: out(3))
    from cp_lsn_cong [OF this] i(6) show "cp_lsn d' l" by blast
    show "l \<le> last_lsn (L @ [canon ?r])" using i(7) lt by (simp add: canon_LSN lsn)
  qed (use i(4) w out canon_idem canon_ok stamped_ok [OF ok] in \<open>auto simp: canon_LSN stamped_LSN\<close>)
  with out lsn stamped_ok [OF ok] show ?thesis by simp
qed

lemma advanceCheckpoint_inv:
  assumes inv: "wal_inv (Some w) d L" and r: "LSN r \<le> last_lsn L" "record_ok r" and now: "clock_ok (io_now io)"
    and a: "advanceCheckpointLocked j io w d r = (res, w', d')"
  shows "wal_inv (Some w') d' L"
proof -
  from inv obtain bs l where i: "encodes L bs" "file_bytes d = bs" "length bs \<le> durable d" "\<forall>r \<in> set L. canon r = r \<and> record_ok r"
    "increasing 0 L" "cp_lsn d l" "l \<le> last_lsn L"
    and w: "nextLSN w = last_lsn L + 1" "checkpointLSN w = l" "syncOnAppend w" "utf8_Valid (wal_path w)"
    unfolding wal_inv_def by auto
  have same: "wal_inv (Some w) d'' L" if "contents d'' = contents d" "durable d'' = durable d" "checkpointFile d'' = checkpointFile d" for d''
  proof -
    have "file_bytes d'' = file_bytes d" using that(1) by (simp add: file_bytes_def)
    then show ?thesis using i w that cp_lsn_cong [OF that(3)] by (intro wal_invI [of L bs _ "[]" l]) auto
  qed
  show ?thesis
  proof (cases "LSN r \<le> checkpointLSN w")
    case True
    then show ?thesis using a inv by (simp add: advanceCheckpointLocked_def Let_def)
  next
    case False
    obtain x d1 where wr: "WriteLocalWALCheckpoint j io d (commit_checkpoint w (io_now io) r) = (x, d1)" by fastforce
    then have out: "(case x of Inl e \<Rightarrow> w' = w | Inr _ \<Rightarrow> w' = w\<lparr>checkpointLSN := LSN r\<rparr>)" "d' = d1"
      using a False by (auto simp: advanceCheckpointLocked_def commit_checkpoint_def Let_def split: sum.splits)
    show ?thesis
    proof (cases x)
      case (Inl e)
      then have "contents d1 = contents d \<and> durable d1 = durable d \<and> checkpointFile d1 = checkpointFile d"
        using wr by (auto simp: WriteLocalWALCheckpoint_def split: option.splits sum.splits checkpoint_fault.splits)
      with same [of d1] out Inl show ?thesis by simp
    next
      case (Inr y)
      then obtain data where data: "checkpoint_data j (io_now io) (commit_checkpoint w (io_now io) r) = Inr data"
        and d1: "d1 = d\<lparr>checkpointFile := Some data, tmpFile := None\<rparr>"
        using wr by (auto simp: WriteLocalWALCheckpoint_def split: option.splits sum.splits checkpoint_fault.splits)
      have "cp_lsn d1 (LSN r)"
        using checkpoint_data_loads [OF data, of d1] now r(2) w(4)
        by (simp add: d1 commit_checkpoint_def record_ok_def clock_ok_def UTC_def)
      moreover have "file_bytes d1 = bs" using i(2) by (simp add: d1 file_bytes_def)
      ultimately show ?thesis using i w r out Inr d1 by (intro wal_invI [of L bs _ "[]" "LSN r"]) auto
    qed
  qed
qed

lemma repaired:
  assumes "encodes L bs" "file_bytes d = bs @ torn" "newline \<notin> set torn" "length bs \<le> durable d"
    "(if torn \<noteq> [] then truncateLocalWALTail io d (length bs) else (Inr (), d)) = (x, d1)"
  shows "checkpointFile d1 = checkpointFile d" "length bs \<le> durable d1" "io_truncate io = None \<Longrightarrow> x = Inr ()"
    "\<exists>torn'. file_bytes d1 = bs @ torn' \<and> newline \<notin> set torn' \<and> (x = Inr () \<longrightarrow> torn' = [])"
  using assms(2-)
  by (auto simp: truncateLocalWALTail_def file_bytes_def Let_def split: if_splits option.splits truncate_fault.splits)

lemma opens:
  assumes inv: "wal_inv None d L"
  shows "(\<exists>e d'. OpenLocalWAL j path io d = (Inl e, d') \<and> wal_inv None d' L \<and> \<not> open_faultless io) \<or>
     (\<exists>w d'. OpenLocalWAL j path io d = (Inr w, d') \<and> wal_path w = path \<and> wal_open w \<and> (utf8_Valid path \<longrightarrow> wal_inv (Some w) d' L))"
proof (cases "io_mkdir io = None \<and> (contents d = None \<or> io_read io = None)")
  case False
  then have "\<exists>e. OpenLocalWAL j path io d = (Inl e, d)"
    by (auto simp: OpenLocalWAL_def OpenLocalWALWithOptions_def readLocalWALPath_def split: option.splits)
  moreover have "\<not> open_faultless io" using False by (auto simp: open_faultless_def)
  ultimately show ?thesis using inv by blast
next
  case reads: True
  from inv obtain bs torn l where i: "encodes L bs" "file_bytes d = bs @ torn" "newline \<notin> set torn" "length bs \<le> durable d"
    "\<forall>r \<in> set L. canon r = r \<and> record_ok r" "increasing 0 L" "cp_lsn d l" "l \<le> last_lsn L"
    unfolding wal_inv_def by auto
  from readLines_encodes [OF i(1,6,5,3), of empty_read 0] obtain res where
    res: "readLines j (bs @ torn) empty_read 0 0 = Inr res" "Records res = L" "ValidByteCount res = length bs"
    "TornTailBytes res = length torn"
    by (auto simp: empty_read_def)
  have read: "readLocalWALPath j io d = Inr res"
    using reads res(1) i(2) by (cases "contents d") (auto simp: readLocalWALPath_def readLocalWAL_def file_bytes_def readLines_torn)
  have lsn: "lastLSN_of 0 L = Inr (last_lsn L)" using lastLSN_of_increasing [OF i(6)] by (simp add: last_lsn_def)
  obtain x d1 where x: "(if torn \<noteq> [] then truncateLocalWALTail io d (length bs) else (Inr (), d)) = (x, d1)" by fastforce
  note d1 = repaired [OF i(1-4) x]
  obtain torn' where t': "file_bytes d1 = bs @ torn'" "newline \<notin> set torn'" "x = Inr () \<longrightarrow> torn' = []" using d1(4) by blast
  have cp1: "cp_lsn d1 l" using i(7) cp_lsn_cong [OF d1(1)] by simp
  have none: "wal_inv None d1 L" using i t' d1 cp1 by (intro wal_invI [of L bs d1 torn' l]) auto
  have op: "OpenLocalWAL j path io d =
      (case x of Inl e \<Rightarrow> (Inl e, d1) | Inr _ \<Rightarrow>
         (case bindR (Inr (last_lsn L)) (\<lambda>lastLSN.
                     bindR (LoadLocalWALCheckpoint j io d1) (\<lambda>(checkpoint, checkpointExists).
                       if checkpointExists \<and> LastCommittedLSN checkpoint > lastLSN
                       then Inl (Err (CheckpointAhead (LastCommittedLSN checkpoint) lastLSN))
                       else Inr (lastLSN, checkpoint))) of
                  Inl e \<Rightarrow> (Inl e, d1)
                | Inr (lastLSN, checkpoint) \<Rightarrow>
                    (case io_open io of
                       Some e \<Rightarrow> (Inl (Err (OpenErr e)), d1)
                     | None \<Rightarrow>
                         (Inr \<lparr>wal_path = path, wal_open = True, nextLSN = lastLSN + 1,
                               checkpointLSN = LastCommittedLSN checkpoint, syncOnAppend = True\<rparr>,
                          d1\<lparr>contents := Some (case contents d1 of None \<Rightarrow> [] | Some bs \<Rightarrow> bs)\<rparr>))))"
  proof -
    have mk: "io_mkdir io = None" using reads by simp
    have fix_tail: "(if TornTailBytes res \<noteq> 0 then truncateLocalWALTail io d (ValidByteCount res) else (Inr (), d)) = (x, d1)"
      using x res(3,4) by (simp split: if_splits)
    show ?thesis
      unfolding OpenLocalWAL_def OpenLocalWALWithOptions_def mk option.case read sum.case fix_tail prod.case res(2) lsn ..
  qed
  consider e where "x = Inl e" | "x = Inr ()" "checkpointFile d1 \<noteq> None" "io_readCheckpoint io \<noteq> None"
    | "x = Inr ()" "checkpointFile d1 = None \<or> io_readCheckpoint io = None"
    by (cases x; cases "checkpointFile d1"; cases "io_readCheckpoint io") auto
  then show ?thesis
  proof cases
    case 1
    then have "\<not> open_faultless io" using d1(3) by (auto simp: open_faultless_def)
    with op 1 none show ?thesis by simp
  next
    case 2
    then have "\<exists>e. LoadLocalWALCheckpoint j io d1 = Inl e" by (auto simp: LoadLocalWALCheckpoint_def)
    with op 2 none show ?thesis by (auto simp: open_faultless_def)
  next
    case 3
    then have torn': "torn' = []" using t'(3) by simp
    obtain c ex where c: "LoadLocalWALCheckpoint j io d1 = Inr (c, ex)" "LastCommittedLSN c = l"
      using 3(2) cp1 unfolding cp_lsn_def by blast
    have notahead: "\<not> l > last_lsn L" using i(8) by (simp add: not_less)
    have o: "OpenLocalWAL j path io d =
        (case io_open io of Some e \<Rightarrow> (Inl (Err (OpenErr e)), d1)
         | None \<Rightarrow> (Inr \<lparr>wal_path = path, wal_open = True, nextLSN = last_lsn L + 1, checkpointLSN = l, syncOnAppend = True\<rparr>,
             d1\<lparr>contents := Some (case contents d1 of None \<Rightarrow> [] | Some bs \<Rightarrow> bs)\<rparr>))"
      using op 3(1) c notahead by (simp split: option.split)
    show ?thesis
    proof (cases "io_open io")
      case None
      let ?d = "d1\<lparr>contents := Some (case contents d1 of None \<Rightarrow> [] | Some bs \<Rightarrow> bs)\<rparr>"
      have "file_bytes ?d = bs @ []" using t'(1) torn' by (simp add: file_bytes_def)
      moreover have "cp_lsn ?d l" using cp1 cp_lsn_cong [of ?d d1] by simp
      ultimately have "utf8_Valid path \<longrightarrow>
          wal_inv (Some \<lparr>wal_path = path, wal_open = True, nextLSN = last_lsn L + 1, checkpointLSN = l, syncOnAppend = True\<rparr>) ?d L"
        using i d1(2) by (intro impI wal_invI [of L bs ?d "[]" l]) auto
      with o None show ?thesis by simp
    next
      case (Some e)
      with o none show ?thesis by (simp add: open_faultless_def)
    qed
  qed
qed

lemma frame_prefix:
  assumes "frame_line j r = Inr data" "k < length data"
  shows "newline \<notin> set (take k data)"
proof -
  obtain d where "data = d @ [newline]" "newline \<notin> set d" using frame_line_shape [OF assms(1)] by blast
  with assms(2) show ?thesis by (auto dest: in_set_takeD)
qed

lemma crash_append_inv:
  assumes inv: "wal_inv (Some w) d L" and ok: "clock_ok now" "input_ok r" and data: "frame_line j (stamped now (nextLSN w) r) = Inr data"
    and bs: "bs = file_bytes d @ take k data"
  shows "wal_inv None (d\<lparr>contents := Some bs, durable := length bs\<rparr>)
     (if k < length data then L else L @ [canon (stamped now (nextLSN w) r)])"
proof -
  from inv obtain bs0 l where i: "encodes L bs0" "file_bytes d = bs0" "\<forall>r \<in> set L. canon r = r \<and> record_ok r"
    "increasing 0 L" "cp_lsn d l" "l \<le> last_lsn L"
    and w: "nextLSN w = last_lsn L + 1"
    unfolding wal_inv_def by auto
  let ?r = "stamped now (nextLSN w) r"
  let ?d = "d\<lparr>contents := Some bs, durable := length bs\<rparr>"
  have cp: "cp_lsn ?d l" using i(5) cp_lsn_cong [of ?d d] by simp
  show ?thesis
  proof (cases "k < length data")
    case True
    have "wal_inv None ?d L"
      using i bs cp frame_prefix [OF data True]
      by (intro wal_invI [of L bs0 ?d "take k data" l]) (auto simp: file_bytes_def)
    with True show ?thesis by simp
  next
    case False
    then have b: "bs = bs0 @ data" using bs i(2) by simp
    have "LSN ?r \<noteq> 0"
      using data by (auto simp: frame_line_def validateLocalWALRecord_def bindR_Inr_iff split: if_splits)
    moreover have "LSN ?r = nextLSN w" by (simp add: stamped_def)
    ultimately have "last_lsn L + 1 \<noteq> 0" by (simp only: w not_False_eq_True)
    then have lt: "last_lsn L < nextLSN w" unfolding w by (rule less_plus_1)
    have lsn: "LSN (canon ?r) = nextLSN w" by (simp add: canon_LSN stamped_def)
    have "wal_inv None ?d (L @ [canon ?r])"
      using i cp lt lsn encodes_snoc [OF i(1), of "canon ?r" data] data canon_ok [OF stamped_ok [OF ok]]
      by (intro wal_invI [of _ "bs0 @ data" ?d "[]" l])
        (auto simp: b frame_line_canon file_bytes_def canon_idem increasing_snoc last_lsn_def)
    with False show ?thesis by simp
  qed
qed

lemma crash_inv:
  assumes inv: "wal_inv u d L" and n: "durable d \<le> n" and c: "contents d = Some bs"
  shows "wal_inv None (d\<lparr>contents := Some (take n bs), durable := length (take n bs)\<rparr>) L"
proof -
  let ?d = "d\<lparr>contents := Some (take n bs), durable := length (take n bs)\<rparr>"
  from inv obtain bs0 torn l where i: "encodes L bs0" "file_bytes d = bs0 @ torn" "newline \<notin> set torn" "length bs0 \<le> durable d"
    "\<forall>r \<in> set L. canon r = r \<and> record_ok r" "increasing 0 L" "cp_lsn d l" "l \<le> last_lsn L"
    unfolding wal_inv_def by auto
  have "take n bs = bs0 @ take (n - length bs0) torn" using i(2,4) n c by (simp add: file_bytes_def)
  moreover have "cp_lsn ?d l" using i(7) cp_lsn_cong [of ?d d] by simp
  ultimately show ?thesis
    using i by (intro wal_invI [of L bs0 ?d "take (n - length bs0) torn" l]) (auto simp: file_bytes_def dest: in_set_takeD)
qed

lemma crash_checkpoint_inv:
  assumes inv: "wal_inv (Some w) d L" and r: "r \<in> set L" and now: "clock_ok now" "clock_ok now'"
    and data: "checkpoint_data j now (commit_checkpoint w now' r) = Inr data"
    and d': "d' = (if renamed then d\<lparr>checkpointFile := Some data, tmpFile := None\<rparr> else d\<lparr>tmpFile := Some (take k data)\<rparr>)"
  shows "wal_inv None d' L"
proof -
  from inv have w: "utf8_Valid (wal_path w)" by (auto simp: wal_inv_def)
  from inv obtain bs l where i: "encodes L bs" "file_bytes d = bs" "length bs \<le> durable d" "\<forall>r \<in> set L. canon r = r \<and> record_ok r"
    "increasing 0 L" "cp_lsn d l" "l \<le> last_lsn L"
    unfolding wal_inv_def by auto
  have f: "file_bytes d' = bs" "durable d' = durable d" using i(2) by (simp_all add: d' file_bytes_def)
  show ?thesis
  proof (cases renamed)
    case True
    have "cp_lsn d' (LSN r)" using checkpoint_data_loads [OF data, of d'] True now w i(4) r
      by (simp add: d' commit_checkpoint_def record_ok_def clock_ok_def UTC_def)
    moreover have "LSN r \<le> last_lsn L" using last_ge [OF i(5) r] by (simp add: last_lsn_def)
    ultimately show ?thesis using i f by (intro wal_invI [of L bs d' "[]" "LSN r"]) auto
  next
    case False
    then have "cp_lsn d' l" using i(6) cp_lsn_cong [of d' d] by (simp add: d')
    then show ?thesis using i f by (intro wal_invI [of L bs d' "[]" l]) auto
  qed
qed

lemma wal_inv_None: "wal_inv u d L \<Longrightarrow> wal_inv None d L"
  unfolding wal_inv_def by blast

lemma commit_inv:
  assumes inv: "wal_inv (Some w) d L" and io: "io_write io = None" "io_sync io = None"
    and ok: "clock_ok (io_now io)" "input_ok r"
    and c: "CommitBoundary j io f w d r = ((a, res), w', d')"
  shows "wal_inv (Some w') d' (case a of None \<Rightarrow> L | Some r' \<Rightarrow> L @ [canon r'])"
proof (cases "wal_open w \<and> f \<noteq> None \<and> io_ctx io = None")
  case False
  then have "a = None" "w' = w" "d' = d" using c by (auto simp: CommitBoundary_def split: if_splits option.splits)
  with inv show ?thesis by simp
next
  case True
  obtain x w1 d1 where a1: "appendLocked j io w d r = (x, w1, d1)" by (metis prod_cases3)
  show ?thesis
  proof (cases x)
    case (Inl e)
    then have "a = None" "w' = w1" "d' = d1" using True c a1 by (auto simp: CommitBoundary_def split: option.splits)
    with appendLocked_inv [OF inv io ok a1] Inl inv show ?thesis by auto
  next
    case (Inr r')
    with appendLocked_inv [OF inv io ok a1] have i1: "wal_inv (Some w1) d1 (L @ [canon r'])" "record_ok r'" by auto
    obtain res2 w2 d2 where a2: "advanceCheckpointLocked j io w1 d1 r' = (res2, w2, d2)" by (metis prod_cases3)
    have a: "a = Some r'" "(w' = w1 \<and> d' = d1) \<or> (w' = w2 \<and> d' = d2)"
      using True c a1 a2 Inr by (auto simp: CommitBoundary_def split: option.splits)
    have "wal_inv (Some w2) d2 (L @ [canon r'])"
      by (rule advanceCheckpoint_inv [OF i1(1) _ i1(2) ok(1) a2]) (simp add: canon_LSN)
    with a i1 show ?thesis by auto
  qed
qed

lemma Append_inv:
  assumes inv: "wal_inv (Some w) d L" and io: "io_write io = None" "io_sync io = None"
    and ok: "clock_ok (io_now io)" "input_ok r"
    and a: "Append j io w d r = (res, w', d')"
  shows "wal_inv (Some w') d' (case res of Inl _ \<Rightarrow> L | Inr r' \<Rightarrow> L @ [canon r'])"
proof (cases "wal_open w \<and> io_ctx io = None")
  case True
  then have "appendLocked j io w d r = (res, w', d')" using a by (simp add: Append_def)
  from appendLocked_inv [OF inv io ok this] inv show ?thesis by auto
next
  case False
  then show ?thesis using a inv by (auto simp: Append_def split: if_splits option.splits)
qed

lemma Append_failed:
  assumes inv: "wal_inv (Some w) d L" and io: "io_write io = None" "io_sync io = None"
    and a: "Append j io w d r = (Inl e, w', d')"
  shows "w' = w \<and> d' = d"
  using a io by (auto simp: Append_def appendLocked_def Let_def split: if_splits option.splits sum.splits)

lemma checkpoint_inv:
  assumes inv: "wal_inv (Some w) d L" and r: "r \<in> set L" and now: "clock_ok (io_now io)"
    and c: "CheckpointCommittedRecord j io w d r = (res, w', d')"
  shows "wal_inv (Some w') d' L"
proof -
  have inc: "increasing 0 L" and ok: "record_ok r" using inv r by (auto simp: wal_inv_def)
  from last_ge [OF inc r] have "LSN r \<le> last_lsn L" by (simp add: last_lsn_def)
  then show ?thesis using c inv advanceCheckpoint_inv [OF inv _ ok now]
    by (auto simp: CheckpointCommittedRecord_def split: if_splits option.splits)
qed

lemma boot_inv: "wal_inv None empty_disk []"
proof (rule wal_invI [of _ "[]" _ "[]" 0])
  have "LoadLocalWALCheckpoint j io empty_disk = Inr (zero_checkpoint, False)" for io
    by (simp add: LoadLocalWALCheckpoint_def empty_disk_def)
  then show "cp_lsn empty_disk 0" unfolding cp_lsn_def
    by (intro exI [of _ zero_checkpoint] exI [of _ False]) (simp add: zero_checkpoint_def)
qed (auto simp: empty_disk_def file_bytes_def)

lemma wal_run_inv: "wal_run j canon u d L \<Longrightarrow> wal_inv u d L"
proof (induction rule: wal_run.induct)
  case boot
  show ?case by (rule boot_inv)
next
  case (opened d L path io w d')
  then show ?case using opens [of d L path io] by auto
next
  case (open_failed d L path io e d')
  then show ?case using opens [of d L path io] by auto
next
  case (append w d L io r r' w' d')
  from Append_inv [OF append.IH append.hyps(2-6)] show ?case by simp
next
  case (append_failed w d L io r e w' d')
  from Append_failed [OF append_failed.IH append_failed.hyps(2-4)] append_failed.IH show ?case by simp
next
  case (commit w d L io f r a res w' d')
  from commit_inv [OF commit.IH commit.hyps(2-6)] show ?case .
next
  case (checkpoint w d L r io res w' d')
  from checkpoint_inv [OF checkpoint.IH checkpoint.hyps(2-4)] show ?case .
next
  case (closed w d L)
  then show ?case using wal_inv_None by blast
next
  case (crash u d L n bs)
  then show ?case using crash_inv by blast
next
  case (crash_append w d L now r data bs k)
  from crash_append_inv [OF crash_append.IH crash_append.hyps(2-5)] show ?case .
next
  case (crash_checkpoint w d L r now now' data d' renamed k)
  from crash_checkpoint_inv [OF crash_checkpoint.IH crash_checkpoint.hyps(2,4-7)] show ?case .
qed

end

end
