(* ===== verification/WAL_Props.thy ===== *)
theory WAL_Props
  imports WAL_Runs
begin

text \<open>
  The properties of the write-ahead log over its runs, with the JSON codec of \<^verbatim>\<open>WAL_JSON\<close>: what
  reading, restarting, planning a recovery and replaying give in every state a run can reach, also
  after crashes; that an append is durable and atomic whatever its write and its sync do, when a
  crash follows; and what the log does when a sync fails and it is used further.
\<close>

section \<open>The codec\<close>

lemma go_frame_text_compact: "frame_text (f\<lparr>Record := compact_payload (Record f)\<rparr>) = frame_text f"
  by (simp add: frame_text_def record_text_compact)

lemma format_utf8: "utf8_Valid LocalWALFormat"
  by code_simp

interpretation go: wal_codec go_json compact_payload
proof
  fix f :: LocalWALFrame and d
  assume "marshalFrame go_json f = Inr d"
  from go_frame_object [OF this]
  show "newline \<notin> set d \<and> d \<noteq> [] \<and> graphic (char_of_byte (hd d)) \<and> graphic (char_of_byte (last d))"
    by (simp add: graphic_def)
next
  fix f :: LocalWALFrame and bs d
  assume "record_ok (Record f)" "frame_Format f = LocalWALFormat" "frame_SHA256 f = hex_EncodeToString bs"
    "marshalFrame go_json f = Inr d"
  then show "unmarshalFrame go_json d = Inr (f\<lparr>Record := compact_payload (Record f)\<rparr>)"
    by (intro go_frame_back) (simp_all add: format_utf8 hex_utf8)
next
  fix g :: LocalWALCheckpointFrame and bs d
  assume "checkpoint_ok (Checkpoint g)" "cpf_Format g = LocalWALCheckpointFormat" "cpf_SHA256 g = hex_EncodeToString bs"
    "marshalIndentCheckpointFrame go_json g = Inr d"
  then show "unmarshalCheckpointFrame go_json d = Inr g"
    by (intro go_checkpoint_back) (simp_all add: checkpoint_format_utf8 hex_utf8)
next
  fix f :: LocalWALFrame
  show "marshalFrame go_json (f\<lparr>Record := compact_payload (Record f)\<rparr>) = marshalFrame go_json f"
    by (simp add: go_json_def go_frame_text_compact)
next
  fix r :: LocalWALRecord
  show "marshalRecord go_json (compact_payload r) = marshalRecord go_json r"
    by (simp add: go_json_def record_text_compact)
  show "compact_payload (compact_payload r) = compact_payload r" by (rule compact_payload_idem)
  show "record_ok r \<Longrightarrow> record_ok (compact_payload r)" by (rule record_ok_compact)
  show "LSN (compact_payload r) = LSN r" by simp
  show "is_commit (compact_payload r) = is_commit r" by (simp add: is_commit_def)
  show "validateLocalWALRecord go_json (compact_payload r) = validateLocalWALRecord go_json r" by (rule valid_compact_payload)
qed

abbreviation run :: "LocalWAL option \<Rightarrow> disk \<Rightarrow> LocalWALRecord list \<Rightarrow> bool" where
  "run \<equiv> wal_run go_json compact_payload"

section \<open>Plans\<close>

lemma lastCommitIndex_snoc:
  "lastCommitIndex (t @ [x]) = (if is_commit x then Some (length t) else lastCommitIndex t)"
  by (simp add: lastCommitIndex_def enumerate_append_eq)

lemma plan_tail_parts:
  assumes "plan_tail t = (replay, pending)"
  shows "t = replay @ pending" "replay = [] \<or> is_commit (last replay)" "\<forall>r \<in> set pending. \<not> is_commit r"
proof -
  have "(case lastCommitIndex t of
      None \<Rightarrow> \<forall>r \<in> set t. \<not> is_commit r
    | Some i \<Rightarrow> i < length t \<and> is_commit (t ! i) \<and> (\<forall>r \<in> set (drop (i + 1) t). \<not> is_commit r))"
  proof (induction t rule: rev_induct)
    case Nil
    then show ?case by (simp add: lastCommitIndex_def)
  next
    case (snoc x t)
    then show ?case by (auto simp: lastCommitIndex_snoc nth_append split: option.splits)
  qed
  with assms show "t = replay @ pending" "replay = [] \<or> is_commit (last replay)" "\<forall>r \<in> set pending. \<not> is_commit r"
    by (auto simp: plan_tail_def take_Suc_conv_app_nth id_take_nth_drop [symmetric] split: option.splits)
qed

lemma increasing_split:
  "increasing l L \<Longrightarrow> L = filter (\<lambda>r. LSN r \<le> c) L @ filter (\<lambda>r. \<not> LSN r \<le> c) L"
proof (induction L arbitrary: l)
  case (Cons r L)
  show ?case
  proof (cases "LSN r \<le> c")
    case True
    have "L = filter (\<lambda>r. LSN r \<le> c) L @ filter (\<lambda>r. \<not> LSN r \<le> c) L" using Cons.IH [of "LSN r"] Cons.prems by simp
    moreover have "filter (\<lambda>r. LSN r \<le> c) (r # L) @ filter (\<lambda>r. \<not> LSN r \<le> c) (r # L) =
        r # (filter (\<lambda>r. LSN r \<le> c) L @ filter (\<lambda>r. \<not> LSN r \<le> c) L)" using True by simp
    ultimately show ?thesis by metis
  next
    case False
    have "\<forall>x \<in> set L. \<not> LSN x \<le> c" using Cons.prems False by (auto simp: increasing_def)
    with False show ?thesis by (auto simp: filter_empty_conv filter_id_conv)
  qed
qed simp

section \<open>Reading\<close>

lemma run_reads:
  assumes "run u d L" "io_read io = None"
  shows "ReadLocalWAL go_json io d = Inr L" "increasing 0 L"
proof -
  note inv = go.wal_run_inv [OF assms(1)]
  then show "increasing 0 L" by (auto simp: go.wal_inv_def)
  obtain res where "readLocalWALPath go_json io d = Inr res" "Records res = L"
    using go.inv_reads [OF inv assms(2)] by blast
  then show "ReadLocalWAL go_json io d = Inr L" by (simp add: ReadLocalWAL_def)
qed

lemma increasing_iff: "increasing 0 L \<longleftrightarrow> sorted_wrt (<) (map LSN L) \<and> (\<forall>r \<in> set L. 0 < LSN r)"
  by (auto simp: increasing_def sorted_wrt_map)

text \<open>C1: in every state that a run of the log can reach, with appends, commits, checkpoints, restarts and
  crashes at any point of them, reading the log gives exactly the records that were appended (with
  their payload as compact JSON), in order, with increasing sequence numbers above 0.\<close>

theorem ReadLocalWAL_run:
  assumes "run u d L" "io_read io = None"
  shows "ReadLocalWAL go_json io d = Inr L \<and> sorted_wrt (<) (map LSN L) \<and> (\<forall>r \<in> set L. 0 < LSN r)"
  using run_reads [OF assms] by (simp add: increasing_iff)



section \<open>Restarting\<close>

text \<open>C3: after any run and any crash the log opens again when the file operations succeed: a torn tail
  is cut off, nothing that was appended is lost, and the next sequence number follows the last one.\<close>

theorem OpenLocalWAL_restarts:
  assumes "run None d L" "utf8_Valid path" "open_faultless io"
  shows "\<exists>w d' res. OpenLocalWAL go_json path io d = (Inr w, d') \<and> run (Some w) d' L \<and> wal_open w \<and>
     nextLSN w = last_lsn L + 1 \<and> readLocalWALPath go_json io d' = Inr res \<and> Records res = L \<and> TornTailBytes res = 0"
proof -
  from go.opens [OF go.wal_run_inv [OF assms(1)], of path io] assms(3) obtain w d' where
    o: "OpenLocalWAL go_json path io d = (Inr w, d')" "wal_open w" by blast
  have r: "run (Some w) d' L" by (rule wal_run.opened [OF assms(1,2) o(1)])
  note inv = go.wal_run_inv [OF r]
  have io: "io_read io = None" using assms(3) by (simp add: open_faultless_def)
  obtain res bs torn where res: "readLocalWALPath go_json io d' = Inr res" "Records res = L" "file_bytes d' = bs @ torn"
    "go.encodes L bs" "TornTailBytes res = length torn"
    using go.inv_reads [OF inv io] by metis
  obtain bs' where bs': "go.encodes L bs'" "file_bytes d' = bs'" "nextLSN w = last_lsn L + 1"
    using inv by (auto simp: go.wal_inv_def)
  have "bs = bs'"
    using res(4) bs'(1) by (metis go.encodes_unique)
  with res bs' o r show ?thesis by auto
qed

section \<open>Recovery\<close>

lemma plan_of_run:
  assumes "run u d L" "io_read io = None" "io_readCheckpoint io = None"
  shows "\<exists>plan. PlanLocalWALRecoveryWithOptions go_json io d = Inr plan \<and>
     L = filter (\<lambda>r. LSN r \<le> plan_CheckpointLSN plan) L @ ReplayRecords plan @ PendingRecords plan \<and>
     (ReplayRecords plan = [] \<or> is_commit (last (ReplayRecords plan))) \<and>
     (\<forall>r \<in> set (PendingRecords plan). \<not> is_commit r) \<and>
     plan_CheckpointLSN plan \<le> last_lsn L \<and> plan_LastLSN plan = last_lsn L \<and> plan_RecordCount plan = length L \<and>
     (\<exists>c. LoadLocalWALCheckpoint go_json io d = Inr (c, plan_CheckpointExists plan) \<and>
        plan_CheckpointLSN plan = LastCommittedLSN c)"
proof -
  note inv = go.wal_run_inv [OF assms(1)]
  obtain res where res: "readLocalWALPath go_json io d = Inr res" "Records res = L"
    using go.inv_reads [OF inv assms(2)] by metis
  from inv obtain l where l: "go.cp_lsn d l" "l \<le> last_lsn L" "increasing 0 L" by (auto simp: go.wal_inv_def)
  obtain c ex where c: "LoadLocalWALCheckpoint go_json io d = Inr (c, ex)" "LastCommittedLSN c = l"
    using l(1) assms(3) by (auto simp: go.cp_lsn_def)
  have lsn: "lastLSN_of 0 L = Inr (last_lsn L)" using lastLSN_of_increasing [OF l(3)] by (simp add: last_lsn_def)
  obtain replay pending where p: "plan_tail (filter (\<lambda>r. \<not> LSN r \<le> l) L) = (replay, pending)" by fastforce
  note parts = plan_tail_parts [OF p]
  have "\<not> l > last_lsn L" using l(2) by (simp add: not_less)
  then have "PlanLocalWALRecoveryWithOptions go_json io d =
      Inr \<lparr>plan_CheckpointExists = ex, plan_CheckpointLSN = l, plan_LastLSN = last_lsn L, plan_RecordCount = length L,
           plan_TornTailBytes = TornTailBytes res, plan_TornTailLine = TornTailLine res,
           CheckpointedRecordCount = length (filter (\<lambda>r. LSN r \<le> l) L), ReplayRecords = replay, PendingRecords = pending,
           ReplayCommitBoundaryCount = length (filter is_commit replay)\<rparr>"
    by (simp add: PlanLocalWALRecoveryWithOptions_def res lsn c p)
  moreover have "L = filter (\<lambda>r. LSN r \<le> l) L @ replay @ pending"
    using increasing_split [OF l(3), of l] parts(1) by simp
  ultimately show ?thesis using parts(2,3) l(2) c by auto
qed

text \<open>C4: in every state a run can reach, planning a recovery succeeds and splits the log in three: the
  records the checkpoint covers, the ones to replay, which are none or end with a commit, and a
  pending tail without a commit. The checkpoint of the plan is the one on disk and is never ahead of
  the log.\<close>

theorem PlanLocalWALRecovery_run:
  assumes "run u d L" "io_read io = None" "io_readCheckpoint io = None"
  shows "\<exists>plan. PlanLocalWALRecoveryWithOptions go_json io d = Inr plan \<and>
     L = filter (\<lambda>r. LSN r \<le> plan_CheckpointLSN plan) L @ ReplayRecords plan @ PendingRecords plan \<and>
     (ReplayRecords plan = [] \<or> is_commit (last (ReplayRecords plan))) \<and>
     (\<forall>r \<in> set (PendingRecords plan). \<not> is_commit r) \<and>
     plan_CheckpointLSN plan \<le> last_lsn L \<and> plan_LastLSN plan = last_lsn L \<and> plan_RecordCount plan = length L \<and>
     (\<exists>c. LoadLocalWALCheckpoint go_json io d = Inr (c, plan_CheckpointExists plan) \<and>
        plan_CheckpointLSN plan = LastCommittedLSN c)"
  using plan_of_run [OF assms] .

section \<open>Replay\<close>

text \<open>The function of a replay succeeds on every record of a list.\<close>

fun applies :: "'s applier \<Rightarrow> 's \<Rightarrow> LocalWALRecord list \<Rightarrow> 's \<Rightarrow> bool" where
  "applies f s [] s' \<longleftrightarrow> s' = s"
| "applies f s (r # rs) s' \<longleftrightarrow> (\<exists>s1. f s r = (None, s1) \<and> applies f s1 rs s')"

lemma replay_records_Inr: "replay_records f s rs = (Inr (), s') \<longleftrightarrow> applies f s rs s'"
  by (induction rs arbitrary: s) (auto split: prod.splits option.splits)

lemma replay_records_Inl:
  "replay_records f s rs = (Inl e, s') \<longleftrightarrow>
     (\<exists>pre r post s1 msg. rs = pre @ r # post \<and> applies f s pre s1 \<and> f s1 r = (Some msg, s') \<and>
        e = Err (ReplayErr (LSN r) (OperationID r) msg))"
proof (induction rs arbitrary: s)
  case (Cons x rs)
  obtain o1 s1 where f: "f s x = (o1, s1)" by fastforce
  show ?case
  proof (cases o1)
    case None
    then have "replay_records f s (x # rs) = (Inl e, s') \<longleftrightarrow> replay_records f s1 rs = (Inl e, s')" by (simp add: f)
    also have "\<dots> \<longleftrightarrow> (\<exists>pre r post s2 msg. rs = pre @ r # post \<and> applies f s1 pre s2 \<and> f s2 r = (Some msg, s') \<and>
        e = Err (ReplayErr (LSN r) (OperationID r) msg))" by (rule Cons.IH)
    also have "\<dots> \<longleftrightarrow> (\<exists>pre r post s2 msg. x # rs = pre @ r # post \<and> applies f s pre s2 \<and> f s2 r = (Some msg, s') \<and>
        e = Err (ReplayErr (LSN r) (OperationID r) msg))" (is "?A \<longleftrightarrow> ?B")
    proof
      assume ?A
      then obtain pre r post s2 msg where "rs = pre @ r # post" "applies f s1 pre s2" "f s2 r = (Some msg, s')"
        "e = Err (ReplayErr (LSN r) (OperationID r) msg)" by blast
      then show ?B using None f
        by (intro exI [of _ "x # pre"] exI [of _ r] exI [of _ post] exI [of _ s2] exI [of _ msg]) simp
    next
      assume ?B
      then obtain pre r post s2 msg where b: "x # rs = pre @ r # post" "applies f s pre s2" "f s2 r = (Some msg, s')"
        "e = Err (ReplayErr (LSN r) (OperationID r) msg)" by blast
      then obtain pre' where "pre = x # pre'" using None f by (cases pre) auto
      with b None f show ?A by auto
    qed
    finally show ?thesis .
  next
    case (Some m)
    have "(\<exists>pre r post s2 msg. x # rs = pre @ r # post \<and> applies f s pre s2 \<and> f s2 r = (Some msg, s') \<and>
        e = Err (ReplayErr (LSN r) (OperationID r) msg)) \<longleftrightarrow> s1 = s' \<and> e = Err (ReplayErr (LSN x) (OperationID x) m)" (is "?B \<longleftrightarrow> ?C")
    proof
      assume ?B
      then obtain pre r post s2 msg where b: "x # rs = pre @ r # post" "applies f s pre s2" "f s2 r = (Some msg, s')"
        "e = Err (ReplayErr (LSN r) (OperationID r) msg)" by blast
      then have "pre = []" using Some f by (cases pre) auto
      with b Some f show ?C by simp
    next
      assume ?C
      with Some f show ?B
        by (intro exI [of _ "[]"] exI [of _ x] exI [of _ rs] exI [of _ s] exI [of _ m]) simp
    qed
    with Some show ?thesis by (auto simp: f)
  qed
qed simp

text \<open>C6: replaying a plan applies its records in order and stops at the first one that fails, with the
  number and the operation of that record in the error and the state that record left; without a
  function it changes nothing.\<close>

theorem ReplayLocalWALRecoveryPlan_exact:
  "(ReplayLocalWALRecoveryPlan (Some f) s p = (Inr (), s') \<longleftrightarrow> applies f s (ReplayRecords p) s') \<and>
   (ReplayLocalWALRecoveryPlan (Some f) s p = (Inl e, s') \<longleftrightarrow>
     (\<exists>pre r post s1 msg. ReplayRecords p = pre @ r # post \<and> applies f s pre s1 \<and> f s1 r = (Some msg, s') \<and>
        e = Err (ReplayErr (LSN r) (OperationID r) msg))) \<and>
   ReplayLocalWALRecoveryPlan None s p = (Inl (Err ReplayFunctionRequired), s)"
  unfolding ReplayLocalWALRecoveryPlan_def by (simp add: replay_records_Inr replay_records_Inl)

lemma applies_total: "applies (\<lambda>s r. (None, g s r)) s rs s' \<longleftrightarrow> s' = foldl g s rs"
  by (induction rs arbitrary: s) auto

text \<open>What a recovery has to restore: the log up to the last record that is a commit or that the
  checkpoint covers.\<close>

definition recovered :: "u64 \<Rightarrow> LocalWALRecord list \<Rightarrow> LocalWALRecord list" where
  "recovered c L = rev (dropWhile (\<lambda>r. \<not> is_commit r \<and> c < LSN r) (rev L))"

lemma recovered_parts:
  assumes "L = filter (\<lambda>r. LSN r \<le> c) L @ replay @ pending" "replay = [] \<or> is_commit (last replay)"
    "\<forall>r \<in> set pending. \<not> is_commit r"
  shows "recovered c L = filter (\<lambda>r. LSN r \<le> c) L @ replay"
proof -
  define covered where "covered = filter (\<lambda>r. LSN r \<le> c) L"
  have L: "L = covered @ replay @ pending" using assms(1) by (simp add: covered_def)
  have "filter (\<lambda>r. LSN r \<le> c) (replay @ pending) = []"
    using arg_cong [OF L, of "filter (\<lambda>r. LSN r \<le> c)"] by (simp add: covered_def)
  then have late: "\<forall>r \<in> set pending. c < LSN r" by (auto simp: filter_empty_conv not_le)
  have stop: "covered @ replay = [] \<or> is_commit (last (covered @ replay)) \<or> LSN (last (covered @ replay)) \<le> c"
  proof (cases replay rule: rev_cases)
    case Nil
    have "LSN (last covered) \<le> c" if "covered \<noteq> []" using last_in_set [OF that] by (simp add: covered_def)
    then show ?thesis using Nil by auto
  qed (use assms(2) in simp)
  have "dropWhile (\<lambda>r. \<not> is_commit r \<and> c < LSN r) (rev pending @ rev (covered @ replay)) =
      dropWhile (\<lambda>r. \<not> is_commit r \<and> c < LSN r) (rev (covered @ replay))"
    using late assms(3) by (intro dropWhile_append2) auto
  also have "\<dots> = rev (covered @ replay)"
    using stop by (cases "covered @ replay" rule: rev_cases) (auto simp: not_less)
  finally have "dropWhile (\<lambda>r. \<not> is_commit r \<and> c < LSN r) (rev pending @ rev (covered @ replay)) = rev (covered @ replay)" .
  then show ?thesis unfolding recovered_def covered_def [symmetric] by (subst L) simp
qed

text \<open>C5: recovery restores exactly the committed part of the log, also when it is repeated. Take a store in
  which applying a sequence of records twice in a row is the same as applying it once, and let it
  hold the effects of some beginning of the log that includes what the checkpoint covers and is not
  longer than the log up to its last commit: this is what a crash leaves between the commit of the
  store and the checkpoint, or in the middle of an earlier replay. After replaying the plan of any
  reachable log the store holds the effects of the log up to its last record that is a commit or
  covered by the checkpoint, and of nothing after it.\<close>

theorem recovery_restores_committed:
  assumes "run u d L" "io_read io = None" "io_readCheckpoint io = None"
    and twice: "\<And>s rs. foldl g (foldl g s rs) rs = foldl g s rs"
  shows "\<exists>plan c. PlanLocalWALRecoveryWithOptions go_json io d = Inr plan \<and>
     LoadLocalWALCheckpoint go_json io d = Inr (c, plan_CheckpointExists plan) \<and>
     (\<forall>s k. length (filter (\<lambda>r. LSN r \<le> LastCommittedLSN c) L) \<le> k \<and> k \<le> length (recovered (LastCommittedLSN c) L) \<longrightarrow>
        ReplayLocalWALRecoveryPlan (Some (\<lambda>s r. (None, g s r))) (foldl g s (take k L)) plan =
          (Inr (), foldl g s (recovered (LastCommittedLSN c) L)))"
proof -
  obtain plan c where plan: "PlanLocalWALRecoveryWithOptions go_json io d = Inr plan"
    "LoadLocalWALCheckpoint go_json io d = Inr (c, plan_CheckpointExists plan)"
    and L: "L = filter (\<lambda>r. LSN r \<le> LastCommittedLSN c) L @ ReplayRecords plan @ PendingRecords plan"
    and parts: "ReplayRecords plan = [] \<or> is_commit (last (ReplayRecords plan))"
      "\<forall>r \<in> set (PendingRecords plan). \<not> is_commit r"
    using plan_of_run [OF assms(1-3)] by metis
  let ?c = "filter (\<lambda>r. LSN r \<le> LastCommittedLSN c) L"
  note rec = recovered_parts [OF L parts]
  have "ReplayLocalWALRecoveryPlan (Some (\<lambda>s r. (None, g s r))) (foldl g s (take k L)) plan =
      (Inr (), foldl g s (?c @ ReplayRecords plan))"
    if k: "length ?c \<le> k" "k \<le> length (?c @ ReplayRecords plan)" for s k
  proof -
    define held where "held = take (k - length ?c) (ReplayRecords plan)"
    define rest where "rest = drop (k - length ?c) (ReplayRecords plan)"
    have R: "ReplayRecords plan = held @ rest" by (simp add: held_def rest_def)
    have "take k L = take k (?c @ ReplayRecords plan @ PendingRecords plan)" using L by simp
    also have "\<dots> = ?c @ held" using k by (simp add: held_def)
    finally have "foldl g (foldl g s (take k L)) (ReplayRecords plan) = foldl g s (?c @ ReplayRecords plan)"
      by (simp add: R twice)
    then show ?thesis
      unfolding ReplayLocalWALRecoveryPlan_def by (simp add: replay_records_Inr applies_total)
  qed
  then have "\<forall>s k. length ?c \<le> k \<and> k \<le> length (recovered (LastCommittedLSN c) L) \<longrightarrow>
      ReplayLocalWALRecoveryPlan (Some (\<lambda>s r. (None, g s r))) (foldl g s (take k L)) plan =
        (Inr (), foldl g s (recovered (LastCommittedLSN c) L))"
    by (simp only: rec) blast
  then show ?thesis using plan by blast
qed

section \<open>A failed sync\<close>

text \<open>C7: a sync that fails leaves the frame in the file and the sequence number unused, so that the next
  append writes a second frame with the same number: the log then cannot be read, nor opened.\<close>

theorem sync_failure_duplicates_LSN:
  assumes "run (Some w) d L" "wal_open w" "io_write io1 = None" "io_sync io1 = Some e" "io_ctx io1 = None"
    "clock_ok (io_now io1)" "input_ok r1" "frame_line go_json (stamped (io_now io1) (nextLSN w) r1) = Inr line1"
    "io_write io2 = None" "io_sync io2 = None" "clock_ok (io_now io2)" "input_ok r2"
    "Append go_json io1 w d r1 = (res1, w1, d1)" "Append go_json io2 w1 d1 r2 = (Inr r', w2, d2)" "io_read io = None"
  shows "res1 = Inl (Err (SyncFrameErr e)) \<and> LSN r' = nextLSN w \<and>
    ReadLocalWAL go_json io d2 = Inl (Err (LSNNotIncreasingAtLine (length L + 2) (nextLSN w) (nextLSN w)))"
proof -
  let ?r1 = "stamped (io_now io1) (nextLSN w) r1"
  from go.wal_run_inv [OF assms(1)] obtain bs where i: "go.encodes L bs" "file_bytes d = bs" "increasing 0 L"
    "\<forall>r \<in> set L. compact_payload r = r \<and> record_ok r" "nextLSN w = last_lsn L + 1" "syncOnAppend w"
    unfolding go.wal_inv_def by auto
  have a1: "res1 = Inl (Err (SyncFrameErr e))" "w1 = w" "d1 = d\<lparr>contents := Some (bs @ line1)\<rparr>"
    using assms(2-5,8,13) i(2,6) by (simp_all add: Append_def appendLocked_def Let_def file_bytes_def)
  obtain line2 where l2: "frame_line go_json (stamped (io_now io2) (nextLSN w) r2) = Inr line2"
    "r' = stamped (io_now io2) (nextLSN w) r2" "contents d2 = Some (bs @ line1 @ line2)"
    using assms(2,9,10,14) i(6) a1
    by (auto simp: Append_def appendLocked_def Let_def split: if_splits option.splits sum.splits)
  have lt: "last_lsn L < nextLSN w"
  proof -
    have "nextLSN w \<noteq> 0"
      using assms(8) by (auto simp: frame_line_def validateLocalWALRecord_def bindR_Inr_iff split: if_splits)
    then show ?thesis unfolding i(5) by (rule less_plus_1)
  qed
  have e1: "go.encodes (L @ [compact_payload ?r1]) (bs @ line1)"
    using i(1) assms(8) by (intro go.encodes_snoc) (simp_all add: go.frame_line_canon)
  have inc: "increasing 0 (L @ [compact_payload ?r1])"
    using i(3) lt by (simp add: increasing_snoc last_lsn_def)
  have "readLines go_json ((bs @ line1) @ line2) empty_read 0 0 =
      readLines go_json line2 (empty_read\<lparr>ByteCount := length (bs @ line1), Records := L @ [compact_payload ?r1],
        ValidByteCount := length (bs @ line1)\<rparr>) (nextLSN w) (length L + 1)"
    using go.readLines_app [OF e1 inc, of empty_read line2 0] i(4) stamped_ok [OF assms(6,7)] record_ok_compact
    by (simp add: compact_payload_idem empty_read_def)
  also have "\<dots> = Inl (Err (LSNNotIncreasingAtLine (length L + 2) (nextLSN w) (nextLSN w)))"
    using go.readLines_frame [OF l2(1) stamped_ok [OF assms(11,12)], of "[]"] by simp
  finally have "readLocalWALPath go_json io d2 = Inl (Err (LSNNotIncreasingAtLine (length L + 2) (nextLSN w) (nextLSN w)))"
    using assms(15) l2(3) by (simp add: readLocalWALPath_def readLocalWAL_def)
  with a1(1) l2(2) show ?thesis by (simp add: ReadLocalWAL_def)
qed

end
