(* ===== verification/WAL_Example.thy ===== *)
theory WAL_Example
  imports WAL_Props
begin

text \<open>
  A run of the log with a row and a commit, and the properties of \<^verbatim>\<open>WAL_Props\<close> on it.
\<close>

definition io0 :: io where
  "io0 = \<lparr>io_now = \<lparr>tsec = 63000000000, tnsec = 500000000, tzoff = 0\<rparr>, io_ctx = None, io_write = None, io_sync = None,
     io_checkpoint = None, io_mkdir = None, io_read = None, io_readCheckpoint = None, io_truncate = None, io_open = None\<rparr>"

definition io_sync_fails :: io where
  "io_sync_fails = io0\<lparr>io_sync := Some ''input/output error''\<rparr>"

definition put_example :: LocalWALRecord where
  "put_example = zero_record\<lparr>OperationID := ''put_row:orders:1'', Kind := LocalWALRecordKindPutRow, rec_Table := ''orders'',
     rec_Payload := bytes_of_string ''[1, 2]''\<rparr>"

definition commit_example :: LocalWALRecord where
  "commit_example = zero_record\<lparr>OperationID := ''commit:2'', Kind := LocalWALRecordKindCommit, rec_Payload := bytes_of_string ''{}''\<rparr>"

definition disk1 :: disk where
  "disk1 = empty_disk\<lparr>contents := Some []\<rparr>"

definition wal1 :: LocalWAL where
  "wal1 = \<lparr>wal_path = ''/data/wal'', wal_open = True, nextLSN = 1, checkpointLSN = 0, syncOnAppend = True\<rparr>"

lemma examples_ok: "clock_ok (io_now io0)" "input_ok put_example" "input_ok commit_example" "utf8_Valid ''/data/wal''"
  by code_simp+

lemma io0_simps [simp]: "io_ctx io0 = None" "io_write io0 = None" "io_sync io0 = None" "io_read io0 = None"
  "io_readCheckpoint io0 = None" "open_faultless io0" "io_checkpoint io0 = None"
  by (simp_all add: io0_def open_faultless_def)

lemma opened1: "OpenLocalWAL go_json ''/data/wal'' io0 empty_disk = (Inr wal1, disk1)"
  by (simp add: OpenLocalWAL_def OpenLocalWALWithOptions_def io0_def readLocalWALPath_def empty_disk_def empty_read_def
      LoadLocalWALCheckpoint_def zero_checkpoint_def wal1_def disk1_def)

lemma run1: "run (Some wal1) disk1 []"
  by (rule wal_run.opened [OF wal_run.boot examples_ok(4) opened1])

lemma clock_year: "0 \<le> Year (io_now io0) \<and> Year (io_now io0) < 10000 \<and> tzoff (io_now io0) = 0"
  by code_simp

text \<open>A record with a valid payload has a frame.\<close>

lemma frame_exists:
  assumes "Timestamp r = zero_time" "validateLocalWALRecord go_json (stamped (io_now io0) lsn r) = Inr ()"
  obtains line where "frame_line go_json (stamped (io_now io0) lsn r) = Inr line"
proof -
  let ?r = "stamped (io_now io0) lsn r"
  have "Timestamp ?r = io_now io0" using assms(1) by (simp add: stamped_def IsZero_def zero_time_def UTC_def io0_def)
  then obtain ts where ts: "enc_time (Timestamp ?r) = Inr ts" using clock_year by (simp add: enc_time_def)
  have "rec_Payload ?r \<noteq> []" "json_compact (string_of_bytes (rec_Payload ?r)) \<noteq> None"
    using assms(2) by (auto simp: validateLocalWALRecord_def go_json_def go_json_Valid_def split: if_splits)
  then obtain p where p: "enc_raw (string_of_bytes (rec_Payload ?r)) = Inr p"
    by (auto simp: enc_raw_def string_of_bytes_def)
  have "\<exists>line. frame_line go_json ?r = Inr line"
    using assms(2) ts p
    by (simp add: frame_line_def newLocalWALFrame_def localWALRecordChecksum_def go_json_def frame_text_def record_text_def)
  then show thesis using that by blast
qed

lemma put_valid: "validateLocalWALRecord go_json (stamped (io_now io0) 1 put_example) = Inr ()"
  by code_simp

lemma commit_valid: "validateLocalWALRecord go_json (stamped (io_now io0) 2 commit_example) = Inr ()"
  by code_simp

lemma zero_stamps: "Timestamp put_example = zero_time" "Timestamp commit_example = zero_time"
  by (simp_all add: put_example_def commit_example_def zero_record_def)

lemma Append_ok:
  assumes "frame_line go_json (stamped (io_now io0) (nextLSN w) r) = Inr line" "wal_open w" "syncOnAppend w"
  shows "Append go_json io0 w d r =
    (Inr (stamped (io_now io0) (nextLSN w) r), w\<lparr>nextLSN := nextLSN w + 1\<rparr>,
     d\<lparr>contents := Some (file_bytes d @ line), durable := length (file_bytes d @ line)\<rparr>)"
  using assms by (simp add: Append_def appendLocked_def Let_def file_bytes_def)

definition put_record :: LocalWALRecord where
  "put_record = compact_payload (stamped (io_now io0) 1 put_example)"

lemma appended:
  obtains line w d where "frame_line go_json (stamped (io_now io0) 1 put_example) = Inr line"
    "Append go_json io0 wal1 disk1 put_example = (Inr (stamped (io_now io0) 1 put_example), w, d)"
    "run (Some w) d [put_record]" "wal_open w" "nextLSN w = 2" "contents d = Some line" "durable d = length line"
proof -
  obtain line where l: "frame_line go_json (stamped (io_now io0) 1 put_example) = Inr line"
    using frame_exists [OF zero_stamps(1) put_valid] .
  have w: "nextLSN wal1 = 1" "wal_open wal1" "syncOnAppend wal1" by (simp_all add: wal1_def)
  note a = Append_ok [of wal1 put_example line disk1, unfolded w, OF l]
  from wal_run.append [OF run1 _ _ examples_ok(1,2) a] show thesis
    by (intro that [OF l a]) (simp_all add: put_record_def w disk1_def file_bytes_def)
qed

section \<open>The properties on the example\<close>

theorem ReadLocalWAL_run_witness:
  "\<exists>w d. run (Some w) d [put_record] \<and> ReadLocalWAL go_json io0 d = Inr [put_record]"
proof -
  obtain w d where r: "run (Some w) d [put_record]" using appended by metis
  from ReadLocalWAL_run [OF r io0_simps(4)] r show ?thesis by blast
qed



theorem OpenLocalWAL_restarts_witness:
  "\<exists>d w d' res. run None d [put_record] \<and> OpenLocalWAL go_json ''/data/wal'' io0 d = (Inr w, d') \<and> nextLSN w = 2 \<and>
     readLocalWALPath go_json io0 d' = Inr res \<and> Records res = [put_record]"
proof -
  obtain w d where "run (Some w) d [put_record]" using appended by metis
  then have r: "run None d [put_record]" by (rule wal_run.closed)
  have "LSN put_record = 1" by (simp add: put_record_def)
  with OpenLocalWAL_restarts [OF r examples_ok(4) io0_simps(6)] r show ?thesis by (auto simp: last_lsn_def)
qed

theorem PlanLocalWALRecovery_run_witness:
  "\<exists>w d plan. run (Some w) d [put_record] \<and> PlanLocalWALRecoveryWithOptions go_json io0 d = Inr plan \<and>
     plan_RecordCount plan = 1 \<and> plan_LastLSN plan = 1"
proof -
  obtain w d where r: "run (Some w) d [put_record]" using appended by metis
  have "LSN put_record = 1" by (simp add: put_record_def)
  with PlanLocalWALRecovery_run [OF r io0_simps(4,5)] r show ?thesis by (auto simp: last_lsn_def)
qed

text \<open>Witness: a row and its commit, of which the store holds the row and the log no checkpoint.\<close>

definition commit_record :: LocalWALRecord where
  "commit_record = compact_payload (stamped (io_now io0) 2 commit_example)"

lemma committed:
  obtains w d where "run (Some w) d [put_record, commit_record]" "checkpointFile d = None"
proof -
  obtain line w d where a: "Append go_json io0 wal1 disk1 put_example = (Inr (stamped (io_now io0) 1 put_example), w, d)"
    "run (Some w) d [put_record]" "wal_open w" "nextLSN w = 2"
    using appended by metis
  have s: "syncOnAppend w" "checkpointFile d = None"
    using a(1) by (auto simp: Append_def appendLocked_def Let_def wal1_def disk1_def empty_disk_def split: sum.splits)
  obtain line where l: "frame_line go_json (stamped (io_now io0) 2 commit_example) = Inr line"
    using frame_exists [OF zero_stamps(2) commit_valid] .
  note b = Append_ok [of w commit_example line d, unfolded a(4), OF l a(3) s(1)]
  let ?d = "d\<lparr>contents := Some (file_bytes d @ line), durable := length (file_bytes d @ line)\<rparr>"
  have "run (Some (w\<lparr>nextLSN := 2 + 1\<rparr>)) ?d [put_record, commit_record]"
    using wal_run.append [OF a(2) io0_simps(2,3) examples_ok(1,3) b] by (simp add: commit_record_def)
  moreover have "checkpointFile ?d = None" by (simp add: s(2))
  ultimately show thesis by (rule that)
qed

theorem recovery_restores_committed_witness:
  "\<exists>w d plan. run (Some w) d [put_record, commit_record] \<and> PlanLocalWALRecoveryWithOptions go_json io0 d = Inr plan \<and>
     ReplayLocalWALRecoveryPlan (Some (\<lambda>s r. (None, insert (LSN r) s))) {1} plan = (Inr (), {1, 2})"
proof -
  obtain w d where r: "run (Some w) d [put_record, commit_record]" "checkpointFile d = None" using committed .
  have ins: "foldl (\<lambda>s r. insert (LSN r) s) s rs = s \<union> LSN ` set rs" for s and rs :: "LocalWALRecord list"
    by (induction rs arbitrary: s) auto
  have load: "LoadLocalWALCheckpoint go_json io0 d = Inr (zero_checkpoint, False)"
    by (simp add: LoadLocalWALCheckpoint_def r(2))
  have recs: "LSN put_record = 1" "LSN commit_record = 2" "is_commit commit_record"
    by (simp_all add: put_record_def commit_record_def commit_example_def is_commit_def stamped_def)
  then have rec: "recovered 0 [put_record, commit_record] = [put_record, commit_record]" by (simp add: recovered_def)
  obtain plan c where plan: "PlanLocalWALRecoveryWithOptions go_json io0 d = Inr plan"
    "LoadLocalWALCheckpoint go_json io0 d = Inr (c, plan_CheckpointExists plan)"
    and k: "\<forall>s k. length (filter (\<lambda>r. LSN r \<le> LastCommittedLSN c) [put_record, commit_record]) \<le> k \<and>
        k \<le> length (recovered (LastCommittedLSN c) [put_record, commit_record]) \<longrightarrow>
      ReplayLocalWALRecoveryPlan (Some (\<lambda>s r. (None, insert (LSN r) s)))
        (foldl (\<lambda>s r. insert (LSN r) s) s (take k [put_record, commit_record])) plan =
        (Inr (), foldl (\<lambda>s r. insert (LSN r) s) s (recovered (LastCommittedLSN c) [put_record, commit_record]))"
    using recovery_restores_committed [OF r(1) io0_simps(4,5), of "\<lambda>s r. insert (LSN r) s"] by (auto simp only: ins)
  have c: "LastCommittedLSN c = 0" using load plan(2) by (simp add: zero_checkpoint_def)
  from k [unfolded c, rule_format, of 1 "{}"]
  have "ReplayLocalWALRecoveryPlan (Some (\<lambda>s r. (None, insert (LSN r) s))) {1} plan = (Inr (), {1, 2})"
    by (simp add: rec recs insert_commute)
  with r(1) plan(1) show ?thesis by blast
qed

theorem sync_failure_duplicates_LSN_witness:
  "\<exists>w1 d1 r' w2 d2. Append go_json io_sync_fails wal1 disk1 put_example = (Inl (Err (SyncFrameErr ''input/output error'')), w1, d1) \<and>
     Append go_json io0 w1 d1 put_example = (Inr r', w2, d2) \<and>
     ReadLocalWAL go_json io0 d2 = Inl (Err (LSNNotIncreasingAtLine 2 1 1))"
proof -
  obtain line where l: "frame_line go_json (stamped (io_now io0) 1 put_example) = Inr line"
    using appended by metis
  have w: "nextLSN wal1 = 1" "wal_open wal1" "syncOnAppend wal1" by (simp_all add: wal1_def)
  have i: "io_now io_sync_fails = io_now io0" "io_write io_sync_fails = None" "io_ctx io_sync_fails = None"
    "io_sync io_sync_fails = Some ''input/output error''" by (simp_all add: io_sync_fails_def)
  have a1: "Append go_json io_sync_fails wal1 disk1 put_example =
      (Inl (Err (SyncFrameErr ''input/output error'')), wal1, disk1\<lparr>contents := Some (file_bytes disk1 @ line)\<rparr>)"
    using l w i by (simp add: Append_def appendLocked_def Let_def file_bytes_def)
  let ?d = "disk1\<lparr>contents := Some (file_bytes disk1 @ line)\<rparr>"
  have l': "frame_line go_json (stamped (io_now io_sync_fails) (nextLSN wal1) put_example) = Inr line"
    "frame_line go_json (stamped (io_now io0) (nextLSN wal1) put_example) = Inr line"
    using l by (simp_all add: i w)
  have now: "clock_ok (io_now io_sync_fails)" using examples_ok(1) by (simp add: i)
  note a2 = Append_ok [OF l'(2) w(2,3), of ?d]
  from sync_failure_duplicates_LSN [OF run1 w(2) i(2,4,3) now examples_ok(2) l'(1) io0_simps(2,3) examples_ok(1,2) a1 a2 io0_simps(4)]
  have "ReadLocalWAL go_json io0 (?d\<lparr>contents := Some (file_bytes ?d @ line), durable := length (file_bytes ?d @ line)\<rparr>) =
      Inl (Err (LSNNotIncreasingAtLine 2 1 1))" by (simp add: w numeral_2_eq_2)
  with a1 a2 show ?thesis by blast
qed

end
