(* ===== verification/Payload_Hash.thy ===== *)
theory Payload_Hash
  imports Bridge_Types Go_RFC3339 "HOL-Library.List_Lexorder" "HOL-Library.Char_ord"
    "HOL-Library.Multiset"
begin

text \<open>
  The deterministic hash of an ingest payload, \<^verbatim>\<open>core/ingest_payload_hash.go\<close>. A payload is
  written in a canonical tagged, length-prefixed form with the keys of every map sorted, and the
  written bytes are hashed with FNV-1a. A Go map is the list of its entries in iteration order. The
  canonical form is a prefix code, an interpretation of the locale of the prelude.
\<close>

section \<open>Payloads\<close>

text \<open>
  A parsed payload by dynamic type: the scalars of \<^typ>\<open>any\<close>, a \<^verbatim>\<open>json.Number\<close>, a
  \<^verbatim>\<open>map[string]interface{}\<close>, an \<^verbatim>\<open>[]interface{}\<close>, and what the code reaches by reflection: a
  pointer or interface, a map of another type (with the key type's name when its kind is not
  string), and a slice or array of another type.
\<close>

datatype payload =
    PAny any
  | PNumber string
  | PMap "(string \<times> payload) list"
  | PSlice "payload list"
  | PPointer "payload option"
  | PReflectMap "string option" "(string \<times> payload) list"
  | PReflectSlice "payload list"

datatype payload_error = MapKeyType string | ValueType string

section \<open>The writer\<close>

definition writeCanonicalToken :: "string \<Rightarrow> string \<Rightarrow> string" where
  "writeCanonicalToken tag v = tag @ '':'' @ dec_nat (length v) @ '':'' @ v @ '';''"

text \<open>The writes of a loop that stops at the first error.\<close>

fun writeAll :: "(payload_error, string) res list \<Rightarrow> (payload_error, string) res" where
  "writeAll [] = Inr []"
| "writeAll (w # ws) = bindR w (\<lambda>a. bindR (writeAll ws) (\<lambda>b. Inr (a @ b)))"

definition writeCanonicalPayloadMap ::
  "(string \<times> (payload_error, string) res) list \<Rightarrow> (payload_error, string) res" where
  "writeCanonicalPayloadMap entries =
     (let sorted = sort_key fst entries in
      bindR (writeAll (map (\<lambda>(key, w). bindR w (\<lambda>a. Inr (writeCanonicalToken ''key'' key @ a))) sorted))
        (\<lambda>body. Inr (''map:'' @ dec_nat (length entries) @ ''{'' @ body @ ''}'')))"

definition writeCanonicalPayloadSlice ::
  "(payload_error, string) res list \<Rightarrow> (payload_error, string) res" where
  "writeCanonicalPayloadSlice values =
     bindR (writeAll values) (\<lambda>body. Inr (''list:'' @ dec_nat (length values) @ ''['' @ body @ '']''))"

fun scalar_token :: "any \<Rightarrow> (string \<times> string) option" where
  "scalar_token ANil = Some (''null'', '''')"
| "scalar_token (AString s) = Some (''string'', s)"
| "scalar_token (ABool b) = Some (''bool'', if b then ''true'' else ''false'')"
| "scalar_token (AInt n) = Some (''int'', FormatInt (sint n))"
| "scalar_token (AInt8 n) = Some (''int'', FormatInt (sint n))"
| "scalar_token (AInt16 n) = Some (''int'', FormatInt (sint n))"
| "scalar_token (AInt32 n) = Some (''int'', FormatInt (sint n))"
| "scalar_token (AInt64 n) = Some (''int'', FormatInt (sint n))"
| "scalar_token (AUint n) = Some (''uint'', dec_nat (unat n))"
| "scalar_token (AUint8 n) = Some (''uint'', dec_nat (unat n))"
| "scalar_token (AUint16 n) = Some (''uint'', dec_nat (unat n))"
| "scalar_token (AUint32 n) = Some (''uint'', dec_nat (unat n))"
| "scalar_token (AUint64 n) = Some (''uint'', dec_nat (unat n))"
| "scalar_token (AFloat32 n) = Some (''float32'', dec_nat (unat n))"
| "scalar_token (AFloat64 n) = Some (''float64'', dec_nat (unat n))"
| "scalar_token (ATime t) = Some (''time'', FormatRFC3339Nano (UTC t))"
| "scalar_token (AOther _ _) = None"

lemma payload_size_entry: "(k, v) \<in> set m \<Longrightarrow> size v < size_list (size_prod (\<lambda>_. 0) size) m"
  by (induction m) auto

lemma payload_size_element: "v \<in> set vs \<Longrightarrow> size v < size_list size vs"
  by (induction vs) auto

function (sequential) writeCanonicalPayloadValue :: "payload \<Rightarrow> (payload_error, string) res"
  and writeCanonicalReflectValue :: "payload \<Rightarrow> (payload_error, string) res" where
  "writeCanonicalPayloadValue (PAny a) =
     (case scalar_token a of
        Some (tag, v) \<Rightarrow> Inr (writeCanonicalToken tag v)
      | None \<Rightarrow> writeCanonicalReflectValue (PAny a))"
| "writeCanonicalPayloadValue (PNumber s) = Inr (writeCanonicalToken ''number'' s)"
| "writeCanonicalPayloadValue (PMap m) =
     writeCanonicalPayloadMap (map (\<lambda>(key, v). (key, writeCanonicalPayloadValue v)) m)"
| "writeCanonicalPayloadValue (PSlice vs) =
     writeCanonicalPayloadSlice (map writeCanonicalPayloadValue vs)"
| "writeCanonicalPayloadValue p = writeCanonicalReflectValue p"
| "writeCanonicalReflectValue (PAny ANil) = Inr (writeCanonicalToken ''null'' '''')"
| "writeCanonicalReflectValue (PAny a) = Inl (Err (ValueType (type_name a)))"
| "writeCanonicalReflectValue (PNumber s) = Inl (Err (ValueType ''json.Number''))"
| "writeCanonicalReflectValue (PPointer None) = Inr (writeCanonicalToken ''null'' '''')"
| "writeCanonicalReflectValue (PPointer (Some p)) = writeCanonicalReflectValue p"
| "writeCanonicalReflectValue (PMap m) =
     writeCanonicalPayloadMap (map (\<lambda>(key, v). (key, writeCanonicalPayloadValue v)) m)"
| "writeCanonicalReflectValue (PReflectMap (Some t) m) = Inl (Err (MapKeyType t))"
| "writeCanonicalReflectValue (PReflectMap None m) =
     writeCanonicalPayloadMap (map (\<lambda>(key, v). (key, writeCanonicalPayloadValue v)) m)"
| "writeCanonicalReflectValue (PSlice vs) =
     writeCanonicalPayloadSlice (map writeCanonicalPayloadValue vs)"
| "writeCanonicalReflectValue (PReflectSlice vs) =
     writeCanonicalPayloadSlice (map writeCanonicalPayloadValue vs)"
  by pat_completeness auto

termination
  apply (relation "measure (\<lambda>x. case x of Inl p \<Rightarrow> 2 * size p + 1 | Inr p \<Rightarrow> 2 * size p)")
             apply auto
       apply ((drule payload_size_entry | drule payload_size_element), simp)+
  done

definition fnv64a :: "string \<Rightarrow> u64" where
  "fnv64a s = foldl (\<lambda>h c. (h XOR ucast (byte_of_char c)) * 1099511628211) 14695981039346656037 s"

definition HashIngestPayload :: "(string \<times> payload) list \<Rightarrow> (payload_error, u64) res" where
  "HashIngestPayload m =
     bindR (writeCanonicalPayloadValue (PMap m)) (\<lambda>out. Inr (fnv64a out))"

section \<open>The order of map entries\<close>

text \<open>Two payloads that differ in the iteration order of their maps.\<close>

inductive reordered :: "payload \<Rightarrow> payload \<Rightarrow> bool" where
  same: "reordered p p"
| entries: "list_all2 (rel_prod (=) reordered) m n \<Longrightarrow> mset n = mset n' \<Longrightarrow> distinct (map fst n) \<Longrightarrow>
    reordered (PMap m) (PMap n')"
| reflect_entries: "list_all2 (rel_prod (=) reordered) m n \<Longrightarrow> mset n = mset n' \<Longrightarrow> distinct (map fst n) \<Longrightarrow>
    reordered (PReflectMap k m) (PReflectMap k n')"
| elements: "list_all2 reordered vs ws \<Longrightarrow> reordered (PSlice vs) (PSlice ws)"
| reflect_elements: "list_all2 reordered vs ws \<Longrightarrow> reordered (PReflectSlice vs) (PReflectSlice ws)"
| pointer: "reordered p q \<Longrightarrow> reordered (PPointer (Some p)) (PPointer (Some q))"

lemma sort_key_distinct:
  assumes "mset xs = mset ys" "distinct (map fst xs)"
  shows "sort_key fst xs = sort_key fst ys"
proof (rule sort_key_inj_key_eq)
  show "mset xs = mset (sort_key fst ys)" using assms(1) by simp
  show "inj_on fst (set xs)" using assms(2) by (simp add: distinct_map)
qed simp

lemma writeMap_reordered:
  assumes "list_all2 (rel_prod (=) (\<lambda>v w. f v = f w)) m n" "mset n = mset n'" "distinct (map fst n)"
  shows "writeCanonicalPayloadMap (map (\<lambda>(k, v). (k, f v)) m) =
    writeCanonicalPayloadMap (map (\<lambda>(k, v). (k, f v)) n')"
proof -
  have "map (\<lambda>(k, v). (k, f v)) m = map (\<lambda>(k, v). (k, f v)) n"
    using assms(1) by (induction rule: list_all2_induct) auto
  moreover have "sort_key fst (map (\<lambda>(k, v). (k, f v)) n) = sort_key fst (map (\<lambda>(k, v). (k, f v)) n')"
  proof (rule sort_key_distinct)
    show "mset (map (\<lambda>(k, v). (k, f v)) n) = mset (map (\<lambda>(k, v). (k, f v)) n')"
      using assms(2) by simp
    show "distinct (map fst (map (\<lambda>(k, v). (k, f v)) n))"
      using assms(3) by (simp add: comp_def case_prod_beta)
  qed
  moreover have "length n = length n'" using assms(2) by (metis size_mset)
  ultimately show ?thesis by (simp add: writeCanonicalPayloadMap_def)
qed

lemma write_reordered:
  "reordered p q \<Longrightarrow>
   writeCanonicalPayloadValue p = writeCanonicalPayloadValue q \<and>
   writeCanonicalReflectValue p = writeCanonicalReflectValue q"
proof (induction rule: reordered.induct)
  case (entries m n n')
  then have "list_all2 (rel_prod (=) (\<lambda>v w. writeCanonicalPayloadValue v = writeCanonicalPayloadValue w)) m n"
    by (auto elim!: list_all2_mono simp: rel_prod_conv)
  with entries writeMap_reordered show ?case by simp
next
  case (reflect_entries m n n' k)
  then have "list_all2 (rel_prod (=) (\<lambda>v w. writeCanonicalPayloadValue v = writeCanonicalPayloadValue w)) m n"
    by (auto elim!: list_all2_mono simp: rel_prod_conv)
  with reflect_entries writeMap_reordered show ?case by (cases k) simp_all
next
  case (elements vs ws)
  then have "map writeCanonicalPayloadValue vs = map writeCanonicalPayloadValue ws"
    by (simp add: list_eq_iff_nth_eq list_all2_conv_all_nth)
  then show ?case by simp
next
  case (reflect_elements vs ws)
  then have "map writeCanonicalPayloadValue vs = map writeCanonicalPayloadValue ws"
    by (simp add: list_eq_iff_nth_eq list_all2_conv_all_nth)
  then show ?case by simp
qed simp_all

section \<open>Canonical trees\<close>

text \<open>What the canonical form keeps of a payload.\<close>

datatype tree = CLeaf string string | CMap "(string \<times> tree) list" | CList "tree list"

definition map_tree :: "(string \<times> tree option) list \<Rightarrow> tree option" where
  "map_tree es = map_option CMap (those (map (\<lambda>(k, t). map_option (Pair k) t) (sort_key fst es)))"

definition list_tree :: "tree option list \<Rightarrow> tree option" where
  "list_tree ts = map_option CList (those ts)"

function (sequential) tree_of :: "payload \<Rightarrow> tree option" and reflect_tree :: "payload \<Rightarrow> tree option" where
  "tree_of (PAny a) = map_option (\<lambda>(tag, v). CLeaf tag v) (scalar_token a)"
| "tree_of (PNumber s) = Some (CLeaf ''number'' s)"
| "tree_of (PMap m) = map_tree (map (\<lambda>(k, v). (k, tree_of v)) m)"
| "tree_of (PSlice vs) = list_tree (map tree_of vs)"
| "tree_of p = reflect_tree p"
| "reflect_tree (PAny ANil) = Some (CLeaf ''null'' '''')"
| "reflect_tree (PPointer None) = Some (CLeaf ''null'' '''')"
| "reflect_tree (PPointer (Some p)) = reflect_tree p"
| "reflect_tree (PMap m) = map_tree (map (\<lambda>(k, v). (k, tree_of v)) m)"
| "reflect_tree (PReflectMap None m) = map_tree (map (\<lambda>(k, v). (k, tree_of v)) m)"
| "reflect_tree (PSlice vs) = list_tree (map tree_of vs)"
| "reflect_tree (PReflectSlice vs) = list_tree (map tree_of vs)"
| "reflect_tree _ = None"
  by pat_completeness auto
termination
  apply (relation "measure (\<lambda>x. case x of Inl p \<Rightarrow> 2 * size p + 1 | Inr p \<Rightarrow> 2 * size p)")
            apply auto
       apply ((drule payload_size_entry | drule payload_size_element), simp)+
  done

primrec render :: "tree \<Rightarrow> string" where
  "render (CLeaf tag v) = writeCanonicalToken tag v"
| "render (CMap es) =
     ''map:'' @ dec_nat (length es) @ ''{'' @
     concat (map (\<lambda>(k, out). writeCanonicalToken ''key'' k @ out) (map (map_prod id render) es)) @ ''}''"
| "render (CList ts) = ''list:'' @ dec_nat (length ts) @ ''['' @ concat (map render ts) @ '']''"

lemma insort_key_map:
  "(\<And>x. fst (g x) = fst x) \<Longrightarrow> insort_key fst (g x) (map g xs) = map g (insort_key fst x xs)"
  by (induction xs) simp_all

lemma sort_key_map:
  "(\<And>x. fst (g x) = fst x) \<Longrightarrow> sort_key fst (map g xs) = map g (sort_key fst xs)"
  by (induction xs) (simp_all add: insort_key_map)

lemma writeAll_entries:
  assumes "\<And>k v out. (k, v) \<in> set m \<Longrightarrow> W v = Inr out \<longleftrightarrow> (\<exists>t. T v = Some t \<and> out = render t)"
  shows "writeAll (map (\<lambda>(k, v). bindR (W v) (\<lambda>a. Inr (writeCanonicalToken ''key'' k @ a))) m) = Inr body \<longleftrightarrow>
    (\<exists>es. those (map (\<lambda>(k, v). map_option (Pair k) (T v)) m) = Some es \<and>
      body = concat (map (\<lambda>(k, out). writeCanonicalToken ''key'' k @ out) (map (map_prod id render) es)))"
  using assms
proof (induction m arbitrary: body)
  case (Cons e m)
  obtain k v where e: "e = (k, v)" by (cases e)
  have IH: "writeAll (map (\<lambda>(k, v). bindR (W v) (\<lambda>a. Inr (writeCanonicalToken ''key'' k @ a))) m) = Inr b \<longleftrightarrow>
    (\<exists>es. those (map (\<lambda>(k, v). map_option (Pair k) (T v)) m) = Some es \<and>
      b = concat (map (\<lambda>(k, out). writeCanonicalToken ''key'' k @ out) (map (map_prod id render) es)))" for b
    using Cons.prems by (intro Cons.IH) auto
  have v: "W v = Inr out \<longleftrightarrow> (\<exists>t. T v = Some t \<and> out = render t)" for out
    using Cons.prems e by (metis list.set_intros(1))
  show ?case
    by (cases "T v") (auto simp: e bindR_Inr_iff IH v id_def)
qed auto

lemma writeAll_elements:
  assumes "\<And>v out. v \<in> set vs \<Longrightarrow> W v = Inr out \<longleftrightarrow> (\<exists>t. T v = Some t \<and> out = render t)"
  shows "writeAll (map W vs) = Inr body \<longleftrightarrow>
    (\<exists>ts. those (map T vs) = Some ts \<and> body = concat (map render ts))"
  using assms
proof (induction vs arbitrary: body)
  case (Cons v vs)
  have IH: "writeAll (map W vs) = Inr b \<longleftrightarrow>
    (\<exists>ts. those (map T vs) = Some ts \<and> b = concat (map render ts))" for b
    using Cons.prems by (intro Cons.IH) auto
  have v: "W v = Inr out \<longleftrightarrow> (\<exists>t. T v = Some t \<and> out = render t)" for out
    using Cons.prems by simp
  show ?case
    by (cases "T v") (auto simp: bindR_Inr_iff IH v)
qed auto

lemma those_length: "those (map f xs) = Some ys \<Longrightarrow> length ys = length xs"
  by (induction xs arbitrary: ys) (auto split: option.splits)

lemma write_map_tree:
  assumes "\<And>k v out. (k, v) \<in> set m \<Longrightarrow> W v = Inr out \<longleftrightarrow> (\<exists>t. T v = Some t \<and> out = render t)"
  shows "writeCanonicalPayloadMap (map (\<lambda>(k, v). (k, W v)) m) = Inr out \<longleftrightarrow>
    (\<exists>t. map_tree (map (\<lambda>(k, v). (k, T v)) m) = Some t \<and> out = render t)"
proof -
  have s: "sort_key fst (map (\<lambda>(k, v). (k, f v)) m) = map (\<lambda>(k, v). (k, f v)) (sort_key fst m)" for f :: "'a \<Rightarrow> 'x"
    by (rule sort_key_map) auto
  have "writeAll (map (\<lambda>(k, v). bindR (W v) (\<lambda>a. Inr (writeCanonicalToken ''key'' k @ a))) (sort_key fst m)) = Inr body \<longleftrightarrow>
    (\<exists>es. those (map (\<lambda>(k, v). map_option (Pair k) (T v)) (sort_key fst m)) = Some es \<and>
      body = concat (map (\<lambda>(k, out). writeCanonicalToken ''key'' k @ out) (map (map_prod id render) es)))" for body
    by (rule writeAll_entries) (use assms in auto)
  note body = this [unfolded case_prod_beta]
  show ?thesis
    unfolding writeCanonicalPayloadMap_def map_tree_def Let_def s case_prod_beta map_map comp_def fst_conv snd_conv
    by (auto simp: bindR_Inr_iff body comp_def case_prod_beta those_length)
qed

lemma write_list_tree:
  assumes "\<And>v out. v \<in> set vs \<Longrightarrow> W v = Inr out \<longleftrightarrow> (\<exists>t. T v = Some t \<and> out = render t)"
  shows "writeCanonicalPayloadSlice (map W vs) = Inr out \<longleftrightarrow>
    (\<exists>t. list_tree (map T vs) = Some t \<and> out = render t)"
proof -
  have "writeAll (map W vs) = Inr body \<longleftrightarrow>
      (\<exists>ts. those (map T vs) = Some ts \<and> body = concat (map render ts))" for body
    by (rule writeAll_elements) (rule assms)
  then show ?thesis
    by (auto simp: writeCanonicalPayloadSlice_def list_tree_def bindR_Inr_iff those_length)
qed

lemma write_tree:
  "writeCanonicalPayloadValue p = Inr out \<longleftrightarrow> (\<exists>t. tree_of p = Some t \<and> out = render t)"
  "writeCanonicalReflectValue q = Inr out' \<longleftrightarrow> (\<exists>t. reflect_tree q = Some t \<and> out' = render t)"
proof (induction p and q arbitrary: out and out'
    rule: writeCanonicalPayloadValue_writeCanonicalReflectValue.induct)
  case (1 a)
  then show ?case
  proof (cases "scalar_token a")
    case None
    then show ?thesis by (cases a) auto
  qed auto
qed (auto intro!: write_map_tree write_list_tree)

section \<open>The canonical form is a prefix code\<close>

fun valid_tree :: "tree \<Rightarrow> bool" where
  "valid_tree (CLeaf tag v) \<longleftrightarrow> tag \<notin> {''map'', ''list''} \<and> CHR '':'' \<notin> set tag"
| "valid_tree (CMap es) \<longleftrightarrow> (\<forall>e \<in> set es. valid_tree (snd e))"
| "valid_tree (CList ts) \<longleftrightarrow> (\<forall>t \<in> set ts. valid_tree t)"

lemma split_at:
  assumes "c \<notin> set a" "c \<notin> set b" "a @ c # x = b @ c # y"
  shows "a = b \<and> x = y"
proof -
  have "takeWhile (\<lambda>z. z \<noteq> c) (a @ c # x) = a" if "c \<notin> set a" for a x
    using that by (induction a) auto
  from this [OF assms(1)] this [OF assms(2)] assms(3) show ?thesis by (metis append_same_eq append_eq_append_conv list.inject same_append_eq)
qed

lemma split_number:
  assumes "\<not> digit c" "\<not> digit d" "dec_nat m @ c # x = dec_nat n @ d # y"
  shows "m = n \<and> c = d \<and> x = y"
proof -
  have "takeWhile digit (dec_nat k @ e # z) = dec_nat k" if "\<not> digit e" for k e z
    using dec_nat_all_digits [of k] that by (induction "dec_nat k") (auto simp: list_all_iff takeWhile_append2)
  from this [OF assms(1)] this [OF assms(2)] assms(3) have "dec_nat m = dec_nat n" by metis
  with assms(3) show ?thesis by simp
qed

lemma not_digit: "\<not> digit (CHR '':'')" "\<not> digit (CHR ''{'')" "\<not> digit (CHR ''['')"
  by (simp_all add: digit_def)

lemma token_split:
  assumes "CHR '':'' \<notin> set a" "CHR '':'' \<notin> set b"
    and "writeCanonicalToken a v @ r = writeCanonicalToken b w @ s"
  shows "a = b \<and> v = w \<and> r = s"
proof -
  have "a @ CHR '':'' # (dec_nat (length v) @ '':'' @ v @ '';'' @ r) =
      b @ CHR '':'' # (dec_nat (length w) @ '':'' @ w @ '';'' @ s)"
    using assms(3) by (simp add: writeCanonicalToken_def)
  from split_at [OF assms(1,2) this] have "a = b"
    and n: "dec_nat (length v) @ CHR '':'' # (v @ '';'' @ r) = dec_nat (length w) @ CHR '':'' # (w @ '';'' @ s)"
    by simp_all
  from split_number [OF not_digit(1) not_digit(1) n] \<open>a = b\<close> show ?thesis by auto
qed

lemma entries_split:
  assumes "\<And>k t u r s. (k, t) \<in> set es \<Longrightarrow> valid_tree u \<Longrightarrow> render t @ r = render u @ s \<Longrightarrow> t = u \<and> r = s"
    and "length es = length fs" "\<forall>e \<in> set fs. valid_tree (snd e)"
    and "concat (map (\<lambda>(k, out). writeCanonicalToken ''key'' k @ out) (map (map_prod id render) es)) @ r =
      concat (map (\<lambda>(k, out). writeCanonicalToken ''key'' k @ out) (map (map_prod id render) fs)) @ s"
  shows "es = fs \<and> r = s"
  using assms(2,1,3,4)
proof (induction es fs rule: list_induct2)
  case (Cons e es f fs)
  obtain k t where e: "e = (k, t)" by (cases e)
  obtain l u where f: "f = (l, u)" by (cases f)
  let ?c = "\<lambda>es. concat (map (\<lambda>(k, out). writeCanonicalToken ''key'' k @ out) (map (map_prod id render) es))"
  have "writeCanonicalToken ''key'' k @ (render t @ ?c es @ r) = writeCanonicalToken ''key'' l @ (render u @ ?c fs @ s)"
    using Cons.prems(3) by (simp add: e f id_def)
  from token_split [OF _ _ this] have kl: "k = l" "render t @ (?c es @ r) = render u @ (?c fs @ s)" by simp_all
  moreover have "t = u \<and> ?c es @ r = ?c fs @ s"
    by (rule Cons.prems(1) [OF _ _ kl(2), of k]) (use Cons.prems(2) e f in simp_all)
  moreover have "es = fs \<and> r = s" if "?c es @ r = ?c fs @ s"
  proof (rule Cons.IH [OF _ _ that])
    fix k t u r s
    assume "(k, t) \<in> set es" "valid_tree u" "render t @ r = render u @ s"
    then show "t = u \<and> r = s" by (intro Cons.prems(1)) auto
  qed (use Cons.prems(2) in simp)
  ultimately show ?case by (simp add: e f)
qed simp

lemma elements_split:
  assumes "\<And>t u r s. t \<in> set ts \<Longrightarrow> valid_tree u \<Longrightarrow> render t @ r = render u @ s \<Longrightarrow> t = u \<and> r = s"
    and "length ts = length us" "\<forall>t \<in> set us. valid_tree t"
    and "concat (map render ts) @ r = concat (map render us) @ s"
  shows "ts = us \<and> r = s"
  using assms(2,1,3,4)
proof (induction ts us rule: list_induct2)
  case (Cons t ts u us)
  have "t = u \<and> concat (map render ts) @ r = concat (map render us) @ s"
    by (rule Cons.prems(1)) (use Cons.prems(2,3) in simp_all)
  moreover have "ts = us \<and> r = s" if "concat (map render ts) @ r = concat (map render us) @ s"
  proof (rule Cons.IH [OF _ _ that])
    fix t u r s
    assume "t \<in> set ts" "valid_tree u" "render t @ r = render u @ s"
    then show "t = u \<and> r = s" by (intro Cons.prems(1)) auto
  qed (use Cons.prems(2) in simp)
  ultimately show ?case by simp
qed simp

fun head_tag :: "tree \<Rightarrow> string" where
  "head_tag (CLeaf tag _) = tag"
| "head_tag (CMap _) = ''map''"
| "head_tag (CList _) = ''list''"

lemma render_head: "\<exists>x. render t @ r = head_tag t @ CHR '':'' # x"
  by (cases t) (auto simp: writeCanonicalToken_def)

lemma head_tag_same:
  assumes "valid_tree t" "valid_tree u" "render t @ r = render u @ s"
  shows "head_tag t = head_tag u"
proof -
  obtain x y where "render t @ r = head_tag t @ CHR '':'' # x" "render u @ s = head_tag u @ CHR '':'' # y"
    using render_head by meson
  moreover have "CHR '':'' \<notin> set (head_tag v)" if "valid_tree v" for v using that by (cases v) auto
  ultimately show ?thesis using split_at assms by metis
qed

lemma map_split:
  assumes "\<And>k t u r s. (k, t) \<in> set es \<Longrightarrow> valid_tree u \<Longrightarrow> render t @ r = render u @ s \<Longrightarrow> t = u \<and> r = s"
    and "valid_tree (CMap fs)" "render (CMap es) @ r = render (CMap fs) @ s"
  shows "es = fs \<and> r = s"
proof -
  let ?c = "\<lambda>es. concat (map (\<lambda>(k, out). writeCanonicalToken ''key'' k @ out) (map (map_prod id render) es))"
  have "dec_nat (length es) @ CHR ''{'' # (?c es @ CHR ''}'' # r) =
      dec_nat (length fs) @ CHR ''{'' # (?c fs @ CHR ''}'' # s)" using assms(3) by simp
  from split_number [OF not_digit(2) not_digit(2) this]
  have len: "length es = length fs" and body: "?c es @ CHR ''}'' # r = ?c fs @ CHR ''}'' # s" by simp_all
  have "es = fs \<and> CHR ''}'' # r = CHR ''}'' # s"
  proof (rule entries_split [OF _ len _ body])
    fix k t u r s
    assume "(k, t) \<in> set es" "valid_tree u" "render t @ r = render u @ s"
    then show "t = u \<and> r = s" by (rule assms(1))
  qed (use assms(2) in simp)
  then show ?thesis by simp
qed

lemma list_split:
  assumes "\<And>t u r s. t \<in> set ts \<Longrightarrow> valid_tree u \<Longrightarrow> render t @ r = render u @ s \<Longrightarrow> t = u \<and> r = s"
    and "valid_tree (CList us)" "render (CList ts) @ r = render (CList us) @ s"
  shows "ts = us \<and> r = s"
proof -
  have "dec_nat (length ts) @ CHR ''['' # (concat (map render ts) @ CHR '']'' # r) =
      dec_nat (length us) @ CHR ''['' # (concat (map render us) @ CHR '']'' # s)" using assms(3) by simp
  from split_number [OF not_digit(3) not_digit(3) this]
  have len: "length ts = length us"
    and body: "concat (map render ts) @ CHR '']'' # r = concat (map render us) @ CHR '']'' # s" by simp_all
  have "ts = us \<and> CHR '']'' # r = CHR '']'' # s"
  proof (rule elements_split [OF _ len _ body])
    fix t u r s
    assume "t \<in> set ts" "valid_tree u" "render t @ r = render u @ s"
    then show "t = u \<and> r = s" by (rule assms(1))
  qed (use assms(2) in simp)
  then show ?thesis by simp
qed

lemma render_split:
  "valid_tree t \<Longrightarrow> valid_tree u \<Longrightarrow> render t @ r = render u @ s \<Longrightarrow> t = u \<and> r = s"
proof (induction t arbitrary: u r s)
  case (CLeaf tag v)
  then obtain w where "u = CLeaf tag w" using head_tag_same [OF CLeaf.prems] by (cases u) auto
  with CLeaf.prems token_split [of tag tag v r w s] show ?case by simp
next
  case (CMap es)
  then obtain fs where u: "u = CMap fs" using head_tag_same [OF CMap.prems] by (cases u) auto
  have "es = fs \<and> r = s"
  proof (rule map_split)
    fix k t u r s
    assume "(k, t) \<in> set es" "valid_tree u" "render t @ r = render u @ s"
    then show "t = u \<and> r = s" using CMap.IH [of "(k, t)" t u r s] CMap.prems(1) by fastforce
  qed (use CMap.prems(2,3) u in simp_all)
  then show ?case by (simp add: u)
next
  case (CList ts)
  then obtain us where u: "u = CList us" using head_tag_same [OF CList.prems] by (cases u) auto
  have "ts = us \<and> r = s"
  proof (rule list_split)
    fix t u r s
    assume "t \<in> set ts" "valid_tree u" "render t @ r = render u @ s"
    then show "t = u \<and> r = s" using CList.IH [of t u r s] CList.prems(1) by simp
  qed (use CList.prems(2,3) u in simp_all)
  then show ?case by (simp add: u)
qed

interpretation canonical: prefix_code valid_tree render
  by unfold_locales (rule render_split)

section \<open>Trees of payloads are valid\<close>

lemma scalar_token_tag:
  "scalar_token a = Some (tag, v) \<Longrightarrow> tag \<notin> {''map'', ''list''} \<and> CHR '':'' \<notin> set tag"
  by (cases a) auto

lemma those_set: "those xs = Some ys \<Longrightarrow> y \<in> set ys \<Longrightarrow> Some y \<in> set xs"
  by (induction xs arbitrary: ys) (auto split: option.splits)

lemma map_tree_valid:
  assumes "map_tree (map (\<lambda>(k, v). (k, T v)) m) = Some t" "\<And>k v t. (k, v) \<in> set m \<Longrightarrow> T v = Some t \<Longrightarrow> valid_tree t"
  shows "valid_tree t"
proof -
  obtain es where es: "t = CMap es"
    "those (map (\<lambda>(k, t). map_option (Pair k) t) (sort_key fst (map (\<lambda>(k, v). (k, T v)) m))) = Some es"
    using assms(1) by (auto simp: map_tree_def)
  have "valid_tree (snd e)" if "e \<in> set es" for e
    using those_set [OF es(2) that] assms(2) by (auto simp: map_option_case split: option.splits)
  with es(1) show ?thesis by simp
qed

lemma list_tree_valid:
  assumes "list_tree (map T vs) = Some t" "\<And>v t. v \<in> set vs \<Longrightarrow> T v = Some t \<Longrightarrow> valid_tree t"
  shows "valid_tree t"
  using assms those_set by (fastforce simp: list_tree_def)

lemma tree_valid:
  "tree_of p = Some t \<Longrightarrow> valid_tree t"
  "reflect_tree q = Some u \<Longrightarrow> valid_tree u"
proof (induction p and q arbitrary: t and u rule: tree_of_reflect_tree.induct)
  case (1 a)
  then show ?case using scalar_token_tag by auto
qed (auto elim!: map_tree_valid list_tree_valid)

lemma written_same:
  assumes "writeCanonicalPayloadValue p = Inr a" "writeCanonicalPayloadValue q = Inr b"
  shows "a = b \<longleftrightarrow> tree_of p = tree_of q"
proof -
  obtain t u where t: "tree_of p = Some t" "a = render t" and u: "tree_of q = Some u" "b = render u"
    using assms by (auto simp: write_tree)
  then show ?thesis using canonical.inject [OF tree_valid(1) [OF t(1)] tree_valid(1) [OF u(1)]] by simp
qed

section \<open>Properties\<close>

text \<open>C16: The hash of an ingest payload does not depend on the iteration order of its maps, at any
  depth and whether it succeeds or fails; and before hashing nothing is confused: two payloads are
  written as the same bytes exactly when they have the same canonical tree, that is the same kinds
  and values of scalars, the same sorted keys and the same sequences.\<close>

theorem HashIngestPayload_canonical:
  "(reordered (PMap m) (PMap n) \<longrightarrow> HashIngestPayload m = HashIngestPayload n) \<and>
   (\<forall>a b. writeCanonicalPayloadValue (PMap m) = Inr a \<longrightarrow> writeCanonicalPayloadValue (PMap n) = Inr b \<longrightarrow>
      (a = b \<longleftrightarrow> tree_of (PMap m) = tree_of (PMap n)))"
  using write_reordered [of "PMap m" "PMap n"] written_same [of "PMap m" _ "PMap n"]
  unfolding HashIngestPayload_def by metis

definition payload_example :: "string \<Rightarrow> string \<Rightarrow> (string \<times> payload) list" where
  "payload_example k l =
     [(k, PMap [(k, PAny (AInt8 1)), (l, PAny ANil)]), (l, PSlice [PNumber ''1'', PAny (AString '';'')])]"

text \<open>Witness: a nested payload against the same with its inner map iterated in the other order,
  and against a payload that differs.\<close>

theorem HashIngestPayload_canonical_witness:
  "let m = payload_example ''a'' ''b'';
       n = [(''b'', PSlice [PNumber ''1'', PAny (AString '';'')]),
            (''a'', PMap [(''b'', PAny ANil), (''a'', PAny (AInt8 1))])]
   in (\<exists>h. HashIngestPayload m = Inr h \<and> HashIngestPayload n = Inr h) \<and>
      writeCanonicalPayloadValue (PMap m) \<noteq> writeCanonicalPayloadValue (PMap (payload_example ''b'' ''a''))"
proof -
  let ?m = "payload_example ''a'' ''b''" and ?d = "payload_example ''b'' ''a''"
  let ?i = "PMap [(''a'', PAny (AInt8 1)), (''b'', PAny ANil)]" and ?j = "PMap [(''b'', PAny ANil), (''a'', PAny (AInt8 1))]"
  let ?s = "PSlice [PNumber ''1'', PAny (AString '';'')]"
  let ?n = "[(''b'', ?s), (''a'', ?j)]"
  have "reordered ?i ?j"
    by (rule entries [of _ "[(''a'', PAny (AInt8 1)), (''b'', PAny ANil)]"]) (auto intro: same)
  then have "reordered (PMap ?m) (PMap ?n)"
    unfolding payload_example_def
    by (intro entries [of _ "[(''a'', ?j), (''b'', ?s)]"]) (auto intro: same)
  then have eq: "HashIngestPayload ?m = HashIngestPayload ?n"
    using HashIngestPayload_canonical [of ?m ?n] by blast
  have "tree_of (PMap ?m) \<noteq> None" "tree_of (PMap ?d) \<noteq> None" "tree_of (PMap ?d) \<noteq> tree_of (PMap ?m)"
    by code_simp+
  then obtain t u where t: "tree_of (PMap ?m) = Some t" and u: "tree_of (PMap ?d) = Some u" "u \<noteq> t" by auto
  have w: "writeCanonicalPayloadValue (PMap ?m) = Inr (render t)" "writeCanonicalPayloadValue (PMap ?d) = Inr (render u)"
    unfolding write_tree using t u by blast+
  have "render t = render u \<longleftrightarrow> tree_of (PMap ?m) = tree_of (PMap ?d)"
    using HashIngestPayload_canonical [of ?m ?d] w by blast
  then have "render t \<noteq> render u" unfolding t u(1) using u(2) by blast
  moreover have "HashIngestPayload ?m = Inr (fnv64a (render t))" unfolding HashIngestPayload_def w(1) by simp
  ultimately show ?thesis unfolding Let_def w using eq by auto
qed

end
