(* ===== verification/PK_Identity.thy ===== *)
theory PK_Identity
  imports Bridge_Types
begin

text \<open>
  The durable identity of a primary key, \<^verbatim>\<open>core/primary_key_identity_encoding.go\<close>: a version
  byte, then the table, the key name, the shard instant and the typed key values, each in a
  self-delimiting form. The encoders append to a buffer as the code does. The unsigned varint and
  the length-prefixed byte string are interpretations of the prefix decoders of the prelude, the
  signed integer and the tagged value of its prefix codes, and the collision freedom of whole
  identities rests on the facts of these interpretations.
\<close>

unbundle bit_operations_syntax

section \<open>Requests\<close>

text \<open>An \<^verbatim>\<open>interface{}\<close> key value: a byte slice, a pointer to a \<^verbatim>\<open>big.Int\<close> that may be nil, or a
  value of one of the types of \<^typ>\<open>any\<close>.\<close>

datatype key_value = KBytes "byte list" | KBigInt "int option" | KAny any

record BasicAttribute =
  FieldName :: string
  Type :: string
  MappingStrategy :: string
  attrColumnID :: bool

record Attribute =
  BasicAttribute :: "BasicAttribute option"

record PrimaryKeyIdentityEncodingRequest =
  TableName :: string
  PrimaryKey :: string
  Attributes :: "Attribute option list"
  Values :: "key_value list"
  ShardTimestamp :: Time

datatype identity_error =
    RequiresTableName
  | RequiresPrimaryKeyName
  | RequiresTypedValues
  | RequiresAttributes nat nat
  | UnsupportedValueType string

definition primaryKeyIdentityEncodingVersion :: byte where
  "primaryKeyIdentityEncodingVersion = 1"

definition primaryKeyIdentityValueBool :: byte where "primaryKeyIdentityValueBool = 1"
definition primaryKeyIdentityValueInt :: byte where "primaryKeyIdentityValueInt = 2"
definition primaryKeyIdentityValueUint :: byte where "primaryKeyIdentityValueUint = 3"
definition primaryKeyIdentityValueString :: byte where "primaryKeyIdentityValueString = 4"
definition primaryKeyIdentityValueBytes :: byte where "primaryKeyIdentityValueBytes = 5"
definition primaryKeyIdentityValueTime :: byte where "primaryKeyIdentityValueTime = 6"

lemmas value_tags =
  primaryKeyIdentityValueBool_def primaryKeyIdentityValueInt_def primaryKeyIdentityValueUint_def
  primaryKeyIdentityValueString_def primaryKeyIdentityValueBytes_def primaryKeyIdentityValueTime_def

section \<open>Encoders\<close>

text \<open>\<^verbatim>\<open>Time.UnixNano\<close>: 64-bit arithmetic that wraps outside the years 1678 to 2262.\<close>

definition UnixNano :: "Time \<Rightarrow> u64" where
  "UnixNano t = word_of_int ((tsec t - 62135596800) * 1000000000 + tnsec t)"

text \<open>\<^verbatim>\<open>binary.PutUvarint\<close>: seven bits to a byte, the lowest first, the top bit marking that
  another byte follows.\<close>

function PutUvarint :: "u64 \<Rightarrow> byte list" where
  "PutUvarint x =
     (if x \<ge> 0x80 then (ucast x OR 0x80) # PutUvarint (drop_bit 7 x) else [ucast x])"
  by auto
termination
proof (relation "measure unat")
  fix x :: u64
  assume "x \<ge> 0x80"
  then have "unat x > 0" by (simp add: word_le_nat_alt)
  then show "(drop_bit 7 x, x) \<in> measure unat" by (simp add: drop_bit_eq_div unat_div)
qed simp

declare PutUvarint.simps [simp del]

definition appendPrimaryKeyIdentityUint :: "byte list \<Rightarrow> u64 \<Rightarrow> byte list" where
  "appendPrimaryKeyIdentityUint buf value = buf @ PutUvarint value"

definition appendPrimaryKeyIdentityInt :: "byte list \<Rightarrow> u64 \<Rightarrow> byte list" where
  "appendPrimaryKeyIdentityInt buf value =
     appendPrimaryKeyIdentityUint buf (push_bit 1 value XOR signed_drop_bit 63 value)"

definition appendPrimaryKeyIdentityBytes :: "byte list \<Rightarrow> byte list \<Rightarrow> byte list" where
  "appendPrimaryKeyIdentityBytes buf value =
     appendPrimaryKeyIdentityUint buf (word_of_nat (length value)) @ value"

definition appendPrimaryKeyIdentityString :: "byte list \<Rightarrow> string \<Rightarrow> byte list" where
  "appendPrimaryKeyIdentityString buf value = appendPrimaryKeyIdentityBytes buf (bytes_of_string value)"

fun appendPrimaryKeyIdentityValue ::
  "byte list \<Rightarrow> key_value \<Rightarrow> (identity_error, byte list) res" where
  "appendPrimaryKeyIdentityValue buf (KAny (ABool b)) =
     Inr (buf @ [primaryKeyIdentityValueBool] @ [if b then 1 else 0])"
| "appendPrimaryKeyIdentityValue buf (KAny (AInt n)) =
     Inr (appendPrimaryKeyIdentityInt (buf @ [primaryKeyIdentityValueInt]) n)"
| "appendPrimaryKeyIdentityValue buf (KAny (AInt8 n)) =
     Inr (appendPrimaryKeyIdentityInt (buf @ [primaryKeyIdentityValueInt]) (scast n))"
| "appendPrimaryKeyIdentityValue buf (KAny (AInt16 n)) =
     Inr (appendPrimaryKeyIdentityInt (buf @ [primaryKeyIdentityValueInt]) (scast n))"
| "appendPrimaryKeyIdentityValue buf (KAny (AInt32 n)) =
     Inr (appendPrimaryKeyIdentityInt (buf @ [primaryKeyIdentityValueInt]) (scast n))"
| "appendPrimaryKeyIdentityValue buf (KAny (AInt64 n)) =
     Inr (appendPrimaryKeyIdentityInt (buf @ [primaryKeyIdentityValueInt]) n)"
| "appendPrimaryKeyIdentityValue buf (KAny (AUint n)) =
     Inr (appendPrimaryKeyIdentityUint (buf @ [primaryKeyIdentityValueUint]) n)"
| "appendPrimaryKeyIdentityValue buf (KAny (AUint8 n)) =
     Inr (appendPrimaryKeyIdentityUint (buf @ [primaryKeyIdentityValueUint]) (ucast n))"
| "appendPrimaryKeyIdentityValue buf (KAny (AUint16 n)) =
     Inr (appendPrimaryKeyIdentityUint (buf @ [primaryKeyIdentityValueUint]) (ucast n))"
| "appendPrimaryKeyIdentityValue buf (KAny (AUint32 n)) =
     Inr (appendPrimaryKeyIdentityUint (buf @ [primaryKeyIdentityValueUint]) (ucast n))"
| "appendPrimaryKeyIdentityValue buf (KAny (AUint64 n)) =
     Inr (appendPrimaryKeyIdentityUint (buf @ [primaryKeyIdentityValueUint]) n)"
| "appendPrimaryKeyIdentityValue buf (KAny (AString s)) =
     Inr (appendPrimaryKeyIdentityString (buf @ [primaryKeyIdentityValueString]) s)"
| "appendPrimaryKeyIdentityValue buf (KBytes bs) =
     Inr (appendPrimaryKeyIdentityBytes (buf @ [primaryKeyIdentityValueBytes]) bs)"
| "appendPrimaryKeyIdentityValue buf (KAny (ATime t)) =
     Inr (appendPrimaryKeyIdentityInt (buf @ [primaryKeyIdentityValueTime]) (UnixNano (UTC t)))"
| "appendPrimaryKeyIdentityValue buf (KBigInt n) = Inl (Err (UnsupportedValueType ''*big.Int''))"
| "appendPrimaryKeyIdentityValue buf (KAny v) = Inl (Err (UnsupportedValueType (type_name v)))"

definition appendPrimaryKeyIdentityAttribute ::
  "byte list \<Rightarrow> Attribute option \<Rightarrow> nat \<Rightarrow> byte list" where
  "appendPrimaryKeyIdentityAttribute buf attr index =
     (case Option.bind attr BasicAttribute of
        None \<Rightarrow>
          appendPrimaryKeyIdentityString
            (appendPrimaryKeyIdentityString
               (appendPrimaryKeyIdentityString buf (''value'' @ dec_nat index)) '''') ''''
      | Some a \<Rightarrow>
          appendPrimaryKeyIdentityString
            (appendPrimaryKeyIdentityString
               (appendPrimaryKeyIdentityString buf (FieldName a)) (Type a)) (MappingStrategy a))"

text \<open>The loop over the values from index \<open>i\<close> on; the attribute is read by index.\<close>

fun appendValues ::
  "Attribute option list \<Rightarrow> nat \<Rightarrow> key_value list \<Rightarrow> byte list \<Rightarrow> (identity_error, byte list) res" where
  "appendValues attrs i [] buf = Inr buf"
| "appendValues attrs i (value # values) buf =
     bindR (idx attrs i) (\<lambda>attr.
     bindR (appendPrimaryKeyIdentityValue (appendPrimaryKeyIdentityAttribute buf attr i) value)
       (appendValues attrs (Suc i) values))"

definition EncodePrimaryKeyIdentity ::
  "PrimaryKeyIdentityEncodingRequest \<Rightarrow> (identity_error, byte list) res" where
  "EncodePrimaryKeyIdentity req =
     (if TableName req = '''' then Inl (Err RequiresTableName)
      else if PrimaryKey req = '''' then Inl (Err RequiresPrimaryKeyName)
      else if length (Values req) = 0 then Inl (Err RequiresTypedValues)
      else if length (Attributes req) \<noteq> length (Values req)
      then Inl (Err (RequiresAttributes (length (Values req)) (length (Attributes req))))
      else
        (let buf = [primaryKeyIdentityEncodingVersion];
             buf = appendPrimaryKeyIdentityString buf (TableName req);
             buf = appendPrimaryKeyIdentityString buf (PrimaryKey req);
             buf = appendPrimaryKeyIdentityInt buf (UnixNano (UTC (ShardTimestamp req)));
             buf = appendPrimaryKeyIdentityUint buf (word_of_nat (length (Values req)))
         in appendValues (Attributes req) 0 (Values req) buf))"

section \<open>Varints\<close>

text \<open>\<^verbatim>\<open>binary.Uvarint\<close>, the reader of the form.\<close>

fun Uvarint :: "byte list \<Rightarrow> (u64 \<times> byte list) option" where
  "Uvarint [] = None"
| "Uvarint (b # bs) =
     (if b < 0x80 then Some (ucast b, bs)
      else case Uvarint bs of
             None \<Rightarrow> None
           | Some (x, r) \<Rightarrow> Some (ucast (b AND 0x7F) OR push_bit 7 x, r))"

lemma bit_top_int: "bit (0x80 :: int) n \<longleftrightarrow> n = 7"
proof -
  have "bit (2 ^ 7 :: int) n \<longleftrightarrow> n = 7" by (simp only: bit_exp_iff) auto
  then show ?thesis by simp
qed

lemma low_mask: "(0x7F :: byte) = mask 7"
  by (simp add: mask_eq_exp_minus_1)

lemma ucast_small: "x < (0x80 :: u64) \<Longrightarrow> ucast x < (0x80 :: byte) \<and> ucast (ucast x :: byte) = x"
  by (simp add: word_less_nat_alt unsigned_ucast_eq word_unat_eq_iff take_bit_eq_mod unat_mod)

lemma continuation_byte: "\<not> ucast (x :: u64) OR 0x80 < (0x80 :: byte)"
proof -
  have "(0x80 :: byte) \<le> ucast x OR 0x80" by (simp add: word_ao_absorbs le_word_or1)
  then show ?thesis by simp
qed

lemma seven_bits:
  "ucast ((ucast (x :: u64) OR 0x80 :: byte) AND 0x7F) OR push_bit 7 (drop_bit 7 x) = x"
proof (rule bit_word_eqI)
  fix n
  assume "n < LENGTH(64)"
  then show "bit (ucast ((ucast x OR 0x80 :: byte) AND 0x7F) OR push_bit 7 (drop_bit 7 x)) n = bit x n"
    unfolding low_mask by (cases "n < 7") (auto simp: bit_simps bit_top_int)
qed

lemma Uvarint_PutUvarint: "Uvarint (PutUvarint x @ r) = Some (x, r)"
proof (induction x rule: PutUvarint.induct)
  case (1 x)
  show ?case
  proof (cases "x \<ge> 0x80")
    case True
    then show ?thesis
      using 1 continuation_byte [of x] seven_bits [of x] by (subst PutUvarint.simps) simp
  next
    case False
    then show ?thesis using ucast_small [of x] by (subst PutUvarint.simps) simp
  qed
qed

interpretation uv: prefix_decoder "\<lambda>_. True" PutUvarint Uvarint
  by unfold_locales (rule Uvarint_PutUvarint)


section \<open>Fields\<close>

lemma append_Uint: "appendPrimaryKeyIdentityUint buf v = buf @ PutUvarint v"
  by (simp add: appendPrimaryKeyIdentityUint_def)

text \<open>The sign of a zigzag value is its lowest bit, its magnitude the bits above.\<close>

definition zigzag :: "u64 \<Rightarrow> u64" where
  "zigzag v = push_bit 1 v XOR signed_drop_bit 63 v"

lemma bit_zigzag:
  "n < 64 \<Longrightarrow> bit (zigzag v) n \<longleftrightarrow> (if n = 0 then bit v 63 else bit v (n - 1) \<noteq> bit v 63)"
  unfolding zigzag_def bit_xor_iff bit_push_bit_iff bit_signed_drop_bit_iff
  by (cases n) auto

lemma zigzag_inject [simp]: "zigzag v = zigzag w \<longleftrightarrow> v = w"
proof
  assume eq: "zigzag v = zigzag w"
  have sign: "bit v 63 = bit w 63"
    using bit_zigzag [of 0 v] bit_zigzag [of 0 w] eq by simp
  show "v = w"
  proof (rule bit_word_eqI)
    fix n
    assume n: "n < LENGTH(64)"
    show "bit v n = bit w n"
    proof (cases "n = 63")
      case False
      then have "Suc n < 64" using n by simp
      then show ?thesis using bit_zigzag [of "Suc n" v] bit_zigzag [of "Suc n" w] eq sign by auto
    qed (use sign in simp)
  qed
qed simp

definition enc_int :: "u64 \<Rightarrow> byte list" where
  "enc_int v = appendPrimaryKeyIdentityInt [] v"

definition enc_bytes :: "byte list \<Rightarrow> byte list" where
  "enc_bytes bs = appendPrimaryKeyIdentityBytes [] bs"

definition enc_string :: "string \<Rightarrow> byte list" where
  "enc_string s = appendPrimaryKeyIdentityString [] s"

lemma append_Int: "appendPrimaryKeyIdentityInt buf v = buf @ enc_int v"
  by (simp add: appendPrimaryKeyIdentityInt_def enc_int_def append_Uint)

lemma append_Bytes: "appendPrimaryKeyIdentityBytes buf bs = buf @ enc_bytes bs"
  by (simp add: appendPrimaryKeyIdentityBytes_def enc_bytes_def append_Uint)

lemma append_String: "appendPrimaryKeyIdentityString buf s = buf @ enc_string s"
  by (simp add: appendPrimaryKeyIdentityString_def enc_string_def append_Bytes)

lemmas append_fields = append_Uint append_Int append_Bytes append_String

text \<open>A Go slice or string is shorter than \<open>2 ^ 63\<close>.\<close>

definition go_sized :: "'a list \<Rightarrow> bool" where
  "go_sized xs \<longleftrightarrow> length xs < 2 ^ 63"

lemma unat_go_length: "go_sized xs \<Longrightarrow> unat (word_of_nat (length xs) :: u64) = length xs"
  by (simp add: go_sized_def unat_of_nat take_bit_nat_eq_self)

definition dec_bytes :: "byte list \<Rightarrow> (byte list \<times> byte list) option" where
  "dec_bytes bs =
     (case Uvarint bs of
        None \<Rightarrow> None
      | Some (n, r) \<Rightarrow> if unat n \<le> length r then Some (take (unat n) r, drop (unat n) r) else None)"

interpretation pkint: prefix_code "\<lambda>_. True" enc_int
proof unfold_locales
  fix x y :: u64 and r s :: "byte list"
  assume "enc_int x @ r = enc_int y @ s"
  then have "PutUvarint (zigzag x) @ r = PutUvarint (zigzag y) @ s"
    by (simp add: enc_int_def appendPrimaryKeyIdentityInt_def append_Uint zigzag_def)
  then show "x = y \<and> r = s" using uv.append_inject by simp
qed

interpretation pkbytes: prefix_decoder go_sized enc_bytes dec_bytes
proof unfold_locales
  fix bs r :: "byte list"
  assume "go_sized bs"
  then show "dec_bytes (enc_bytes bs @ r) = Some (bs, r)"
    using unat_go_length [of bs]
    by (simp add: dec_bytes_def enc_bytes_def appendPrimaryKeyIdentityBytes_def append_Uint uv.dec_enc)
qed

lemma go_sized_bytes [simp]: "go_sized (bytes_of_string s) = go_sized s"
  by (simp add: go_sized_def)

interpretation pkstring: prefix_code go_sized enc_string
proof unfold_locales
  fix s t :: string and q r :: "byte list"
  assume "go_sized s" "go_sized t" "enc_string s @ q = enc_string t @ r"
  then show "s = t \<and> q = r"
    using pkbytes.append_inject [of "bytes_of_string s" "bytes_of_string t" q r]
    by (simp add: enc_string_def appendPrimaryKeyIdentityString_def append_Bytes)
qed

section \<open>Key values\<close>

text \<open>What an identity keeps of a key value: its kind and its 64-bit number, text or bytes.\<close>

datatype value_identity =
  IdBool bool | IdInt u64 | IdUint u64 | IdString string | IdBytes "byte list" | IdTime u64

fun key_identity :: "key_value \<Rightarrow> value_identity option" where
  "key_identity (KBytes bs) = Some (IdBytes bs)"
| "key_identity (KAny (ABool b)) = Some (IdBool b)"
| "key_identity (KAny (AInt n)) = Some (IdInt n)"
| "key_identity (KAny (AInt8 n)) = Some (IdInt (scast n))"
| "key_identity (KAny (AInt16 n)) = Some (IdInt (scast n))"
| "key_identity (KAny (AInt32 n)) = Some (IdInt (scast n))"
| "key_identity (KAny (AInt64 n)) = Some (IdInt n)"
| "key_identity (KAny (AUint n)) = Some (IdUint n)"
| "key_identity (KAny (AUint8 n)) = Some (IdUint (ucast n))"
| "key_identity (KAny (AUint16 n)) = Some (IdUint (ucast n))"
| "key_identity (KAny (AUint32 n)) = Some (IdUint (ucast n))"
| "key_identity (KAny (AUint64 n)) = Some (IdUint n)"
| "key_identity (KAny (AString s)) = Some (IdString s)"
| "key_identity (KAny (ATime t)) = Some (IdTime (UnixNano t))"
| "key_identity (KBigInt _) = None"
| "key_identity (KAny _) = None"

fun enc_value :: "value_identity \<Rightarrow> byte list" where
  "enc_value (IdBool b) = [primaryKeyIdentityValueBool, if b then 1 else 0]"
| "enc_value (IdInt n) = primaryKeyIdentityValueInt # enc_int n"
| "enc_value (IdUint n) = primaryKeyIdentityValueUint # PutUvarint n"
| "enc_value (IdString s) = primaryKeyIdentityValueString # enc_string s"
| "enc_value (IdBytes bs) = primaryKeyIdentityValueBytes # enc_bytes bs"
| "enc_value (IdTime n) = primaryKeyIdentityValueTime # enc_int n"

fun value_sized :: "value_identity \<Rightarrow> bool" where
  "value_sized (IdString s) = go_sized s"
| "value_sized (IdBytes bs) = go_sized bs"
| "value_sized _ = True"

interpretation pkvalue: prefix_code value_sized enc_value
proof unfold_locales
  fix x y r s
  assume "value_sized x" "value_sized y" "enc_value x @ r = enc_value y @ s"
  then show "x = y \<and> r = s"
    using pkint.append_inject uv.append_inject pkstring.append_inject pkbytes.append_inject
    by (cases x; cases y) (auto simp: value_tags split: if_splits)
qed

lemma UnixNano_UTC [simp]: "UnixNano (UTC t) = UnixNano t"
  by (simp add: UnixNano_def UTC_def)

lemma append_Value:
  "appendPrimaryKeyIdentityValue buf v =
     (case key_identity v of
        None \<Rightarrow> Inl (Err (UnsupportedValueType
          (case v of KAny a \<Rightarrow> type_name a | KBigInt _ \<Rightarrow> ''*big.Int'' | KBytes _ \<Rightarrow> [])))
      | Some k \<Rightarrow> Inr (buf @ enc_value k))"
  by (cases "(buf, v)" rule: appendPrimaryKeyIdentityValue.cases) (simp_all add: append_fields)

text \<open>What an identity keeps of the attribute a value belongs to: its name, its type and its
  mapping; a missing attribute stands for its position.\<close>

definition attribute_fields :: "Attribute option \<Rightarrow> nat \<Rightarrow> string \<times> string \<times> string" where
  "attribute_fields attr index =
     (case Option.bind attr BasicAttribute of
        None \<Rightarrow> (''value'' @ dec_nat index, '''', '''')
      | Some a \<Rightarrow> (FieldName a, Type a, MappingStrategy a))"

definition enc_field :: "(string \<times> string \<times> string) \<times> value_identity \<Rightarrow> byte list" where
  "enc_field f =
     (case f of ((a, b, c), v) \<Rightarrow> enc_string a @ enc_string b @ enc_string c @ enc_value v)"

fun field_sized :: "(string \<times> string \<times> string) \<times> value_identity \<Rightarrow> bool" where
  "field_sized ((a, b, c), v) \<longleftrightarrow> go_sized a \<and> go_sized b \<and> go_sized c \<and> value_sized v"

interpretation pkfield: prefix_code field_sized enc_field
proof unfold_locales
  fix x y r s
  assume "field_sized x" "field_sized y" "enc_field x @ r = enc_field y @ s"
  then show "x = y \<and> r = s"
    by (cases x rule: field_sized.cases; cases y rule: field_sized.cases)
      (simp add: enc_field_def pkstring.append_inject pkvalue.append_inject)
qed

lemma append_Attribute:
  "appendPrimaryKeyIdentityAttribute buf attr i =
     (case attribute_fields attr i of (a, b, c) \<Rightarrow> buf @ enc_string a @ enc_string b @ enc_string c)"
  by (simp add: appendPrimaryKeyIdentityAttribute_def attribute_fields_def append_String
      split: option.split)

section \<open>Whole identities\<close>

fun fields_from ::
  "Attribute option list \<Rightarrow> nat \<Rightarrow> key_value list \<Rightarrow> ((string \<times> string \<times> string) \<times> value_identity) list" where
  "fields_from attrs i [] = []"
| "fields_from attrs i (v # vs) =
     (attribute_fields (attrs ! i) i, the (key_identity v)) # fields_from attrs (Suc i) vs"

lemma length_fields_from [simp]: "length (fields_from attrs i vs) = length vs"
  by (induction vs arbitrary: i) simp_all

lemma append_Values:
  assumes "i + length vs \<le> length attrs"
  shows "appendValues attrs i vs buf = Inr out \<longleftrightarrow>
     (\<forall>v \<in> set vs. key_identity v \<noteq> None) \<and>
     out = buf @ concat (map enc_field (fields_from attrs i vs))"
  using assms
proof (induction vs arbitrary: i buf)
  case (Cons v vs)
  then have len: "i < length attrs" "Suc i + length vs \<le> length attrs" by simp_all
  obtain a b c where abc: "attribute_fields (attrs ! i) i = (a, b, c)" by (metis prod_cases3)
  show ?case
  proof (cases "key_identity v")
    case None
    then show ?thesis using len(1) by (simp add: idx_in append_Value)
  next
    case (Some k)
    then show ?thesis
      using len(1) Cons.IH [OF len(2)] abc
      by (auto simp: idx_in append_Value append_Attribute enc_field_def)
  qed
qed auto

text \<open>The identity a request asks for, free of its representation: what two requests must agree
  on to denote the same key.\<close>

definition identity_of ::
  "PrimaryKeyIdentityEncodingRequest \<Rightarrow>
   string \<times> string \<times> u64 \<times> ((string \<times> string \<times> string) \<times> value_identity) list" where
  "identity_of req =
     (TableName req, PrimaryKey req, UnixNano (ShardTimestamp req),
      fields_from (Attributes req) 0 (Values req))"

definition request_sized :: "PrimaryKeyIdentityEncodingRequest \<Rightarrow> bool" where
  "request_sized req \<longleftrightarrow>
     go_sized (TableName req) \<and> go_sized (PrimaryKey req) \<and> go_sized (Values req) \<and>
     list_all field_sized (fields_from (Attributes req) 0 (Values req))"

definition encodable :: "PrimaryKeyIdentityEncodingRequest \<Rightarrow> bool" where
  "encodable req \<longleftrightarrow>
     TableName req \<noteq> '''' \<and> PrimaryKey req \<noteq> '''' \<and> Values req \<noteq> [] \<and>
     length (Attributes req) = length (Values req) \<and>
     (\<forall>v \<in> set (Values req). key_identity v \<noteq> None)"

lemma EncodePrimaryKeyIdentity_form:
  "EncodePrimaryKeyIdentity req = Inr b \<longleftrightarrow>
     encodable req \<and>
     b = primaryKeyIdentityEncodingVersion # enc_string (TableName req) @ enc_string (PrimaryKey req) @
         enc_int (UnixNano (ShardTimestamp req)) @ PutUvarint (word_of_nat (length (Values req))) @
         concat (map enc_field (fields_from (Attributes req) 0 (Values req)))"
  by (auto simp: EncodePrimaryKeyIdentity_def encodable_def Let_def append_fields append_Values)

lemma encoded_same:
  assumes "request_sized r" "request_sized s"
    and "EncodePrimaryKeyIdentity r = Inr b" "EncodePrimaryKeyIdentity s = Inr c"
  shows "b = c \<longleftrightarrow> identity_of r = identity_of s"
proof -
  let ?F = "\<lambda>r. fields_from (Attributes r) 0 (Values r)"
  let ?n = "\<lambda>r. word_of_nat (length (Values r)) :: u64"
  have sized: "go_sized (TableName r)" "go_sized (TableName s)" "go_sized (PrimaryKey r)"
    "go_sized (PrimaryKey s)" "go_sized (Values r)" "go_sized (Values s)"
    "list_all field_sized (?F r)" "list_all field_sized (?F s)"
    using assms(1,2) by (simp_all add: request_sized_def)
  have "b = c \<longleftrightarrow> TableName r = TableName s \<and> PrimaryKey r = PrimaryKey s \<and>
      UnixNano (ShardTimestamp r) = UnixNano (ShardTimestamp s) \<and> ?n r = ?n s \<and>
      concat (map enc_field (?F r)) = concat (map enc_field (?F s))"
    using assms(3,4) sized(1-4)
    by (simp add: EncodePrimaryKeyIdentity_form pkstring.append_inject pkint.append_inject
        uv.append_inject)
  also have "\<dots> \<longleftrightarrow> identity_of r = identity_of s"
  proof -
    have "?n r = ?n s \<longleftrightarrow> length (?F r) = length (?F s)"
      using unat_go_length [OF sized(5)] unat_go_length [OF sized(6)] by (metis length_fields_from)
    moreover have "concat (map enc_field (?F r)) = concat (map enc_field (?F s)) \<longleftrightarrow> ?F r = ?F s"
      if "length (?F r) = length (?F s)"
      using pkfield.fields_inject [OF that sized(7,8), of "[]" "[]"] by simp
    ultimately show ?thesis unfolding identity_of_def prod.inject by (metis length_fields_from)
  qed
  finally show ?thesis .
qed

section \<open>Lookup and stage requests\<close>

text \<open>The lookup and the stage request carry the key material among their other fields
  (\<^verbatim>\<open>core/primary_key_bsi.go\<close>).\<close>

record BSIPrimaryKeyRequest = PrimaryKeyIdentityEncodingRequest +
  AuthorityValue :: "int option"
  Identity :: "byte list"
  RenderedValue :: string

record BSIPrimaryKeyLookupRequest = BSIPrimaryKeyRequest +
  PrimaryKeyMode :: string

record BSIPrimaryKeyStageRequest = BSIPrimaryKeyRequest +
  ColumnID :: u64

definition EncodeBSIPrimaryKeyLookupIdentity ::
  "BSIPrimaryKeyLookupRequest \<Rightarrow> (identity_error, byte list) res" where
  "EncodeBSIPrimaryKeyLookupIdentity req =
     EncodePrimaryKeyIdentity
       \<lparr>TableName = TableName req, PrimaryKey = PrimaryKey req, Attributes = Attributes req,
        Values = Values req, ShardTimestamp = ShardTimestamp req\<rparr>"

definition EncodeBSIPrimaryKeyStageIdentity ::
  "BSIPrimaryKeyStageRequest \<Rightarrow> (identity_error, byte list) res" where
  "EncodeBSIPrimaryKeyStageIdentity req =
     EncodePrimaryKeyIdentity
       \<lparr>TableName = TableName req, PrimaryKey = PrimaryKey req, Attributes = Attributes req,
        Values = Values req, ShardTimestamp = ShardTimestamp req\<rparr>"

section \<open>Properties\<close>

text \<open>Instants that a signed 64-bit count of nanoseconds can hold.\<close>

definition nano_range :: "Time \<Rightarrow> bool" where
  "nano_range t \<longleftrightarrow> 0 \<le> tnsec t \<and> tnsec t < 1000000000 \<and>
     - (2 ^ 63) \<le> (tsec t - 62135596800) * 1000000000 + tnsec t \<and>
     (tsec t - 62135596800) * 1000000000 + tnsec t < 2 ^ 63"

lemma sint_of_int64: "- (2 ^ 63) \<le> k \<Longrightarrow> k < 2 ^ 63 \<Longrightarrow> sint (word_of_int k :: u64) = k"
  by (transfer fixing: k) (simp add: signed_take_bit_int_eq_self)

lemma UnixNano_inject:
  assumes "nano_range t" "nano_range u"
  shows "UnixNano t = UnixNano u \<longleftrightarrow> tsec t = tsec u \<and> tnsec t = tnsec u"
proof -
  let ?n = "\<lambda>t :: Time. (tsec t - 62135596800) * 1000000000 + tnsec t"
  have sint: "sint (UnixNano t) = ?n t" if "nano_range t" for t
    unfolding UnixNano_def using that by (intro sint_of_int64) (simp_all add: nano_range_def)
  have "?n t = ?n u" if "UnixNano t = UnixNano u"
    using sint [OF assms(1)] sint [OF assms(2)] that by simp
  moreover have "tsec t = tsec u" if "?n t = ?n u"
  proof -
    have "0 \<le> tnsec t" "tnsec t < 1000000000" "0 \<le> tnsec u" "tnsec u < 1000000000"
      using assms by (simp_all add: nano_range_def)
    moreover have "tsec t * 1000000000 + tnsec t = tsec u * 1000000000 + tnsec u" using that by simp
    ultimately show ?thesis by linarith
  qed
  ultimately show ?thesis by (auto simp: UnixNano_def)
qed

text \<open>Outside that range two different instants share one identity.\<close>

lemma UnixNano_wraps:
  "UnixNano \<lparr>tsec = 62135596800, tnsec = 0, tzoff = 0\<rparr> =
   UnixNano \<lparr>tsec = 62135596800 + 18446744073, tnsec = 709551616, tzoff = 0\<rparr>"
  by (simp add: UnixNano_def)

text \<open>C9: A primary-key identity is produced exactly for requests that name a table and a key and
  give one attribute to each of at least one supported value, and two requests produce the same
  bytes exactly when they agree on the table, the key name, the shard instant and, value by value,
  on the attribute's name, type and mapping and on the typed value: no choice of delimiters, empty
  or null bytes in the parts makes two keys collide.\<close>

theorem EncodePrimaryKeyIdentity_exact:
  assumes "request_sized r" "request_sized s"
  shows "((\<exists>b. EncodePrimaryKeyIdentity r = Inr b) \<longleftrightarrow> encodable r) \<and>
    (\<forall>b c. EncodePrimaryKeyIdentity r = Inr b \<longrightarrow> EncodePrimaryKeyIdentity s = Inr c \<longrightarrow>
       (b = c \<longleftrightarrow> identity_of r = identity_of s))"
  using encoded_same [OF assms] EncodePrimaryKeyIdentity_form [of r] by blast

definition split_key :: "string \<Rightarrow> string \<Rightarrow> PrimaryKeyIdentityEncodingRequest" where
  "split_key a b =
     \<lparr>TableName = ''t'', PrimaryKey = ''k'',
      Attributes = [None, Some \<lparr>BasicAttribute = Some \<lparr>FieldName = ''f'', Type = ''String'',
        MappingStrategy = ''m'', attrColumnID = False\<rparr>\<rparr>],
      Values = [KAny (AString a), KAny (AString b)], ShardTimestamp = zero_time\<rparr>"

text \<open>Witness: the two-part keys \<open>ab+c\<close> and \<open>a+bc\<close>.\<close>

theorem EncodePrimaryKeyIdentity_exact_witness:
  "\<exists>b c. EncodePrimaryKeyIdentity (split_key ''ab'' ''c'') = Inr b \<and>
     EncodePrimaryKeyIdentity (split_key ''a'' ''bc'') = Inr c \<and> b \<noteq> c"
proof -
  let ?r = "split_key ''ab'' ''c''" and ?s = "split_key ''a'' ''bc''"
  have sized: "request_sized ?r" "request_sized ?s"
    by (simp_all add: request_sized_def split_key_def go_sized_def attribute_fields_def dec_nat.simps)
  have "encodable ?r" "encodable ?s" by (simp_all add: encodable_def split_key_def)
  then obtain b c where bc: "EncodePrimaryKeyIdentity ?r = Inr b" "EncodePrimaryKeyIdentity ?s = Inr c"
    using EncodePrimaryKeyIdentity_exact [OF sized] EncodePrimaryKeyIdentity_exact [OF sized(2,1)] by blast
  moreover have "b \<noteq> c"
    using EncodePrimaryKeyIdentity_exact [OF sized] bc by (simp add: identity_of_def split_key_def)
  ultimately show ?thesis by blast
qed

end
