(* ===== verification/Column_IDs.thy ===== *)
theory Column_IDs
  imports PK_Identity
begin

text \<open>
  Column identifiers: the sequence generator (\<^verbatim>\<open>shared/sequencer.go\<close>), the server's queue of
  generators it has handed out (\<^verbatim>\<open>server/sequencer.go\<close>), the server operation that hands out the
  next range (\<^verbatim>\<open>CheckoutSequence\<close> in \<^verbatim>\<open>server/bitmap.go\<close>), and the client that draws identifiers
  from its cached generators and checks out a new one when they run dry (\<^verbatim>\<open>NextColumnID\<close> in
  \<^verbatim>\<open>core/session.go\<close>). The last section runs any number of clients against one server.
\<close>

section \<open>Sequence generators\<close>

text \<open>The \<^verbatim>\<open>Index\<close> of a generator in its queue is only written; it is left out.\<close>

record Sequencer =
  seqStart :: u64
  seqCount :: int
  seqCurrent :: u64

definition NewSequencer :: "u64 \<Rightarrow> int \<Rightarrow> Sequencer" where
  "NewSequencer start count = \<lparr>seqStart = start, seqCount = count, seqCurrent = start\<rparr>"

definition Next :: "Sequencer \<Rightarrow> (u64 \<times> bool) \<times> Sequencer" where
  "Next s =
     (if seqCurrent s < seqStart s + word_of_int (seqCount s)
      then ((seqCurrent s, True), s\<lparr>seqCurrent := seqCurrent s + 1\<rparr>)
      else ((0, False), s))"

definition IsFullySubscribed :: "Sequencer \<Rightarrow> bool" where
  "IsFullySubscribed s \<longleftrightarrow> \<not> seqCurrent s < seqStart s + word_of_int (seqCount s)"

definition Maximum :: "Sequencer \<Rightarrow> u64" where
  "Maximum s = seqStart s + word_of_int (seqCount s) - 1"

section \<open>The queue of generators handed out\<close>

text \<open>\<^verbatim>\<open>sort.Sort\<close> on the queue's order; the maxima of a queue are distinct, so the result does not
  depend on the sorting algorithm.\<close>

definition Push :: "Sequencer list \<Rightarrow> Sequencer \<Rightarrow> Sequencer list" where
  "Push queue item = sort_key Maximum (queue @ [item])"

definition Remove :: "Sequencer list \<Rightarrow> int \<Rightarrow> ('e, Sequencer \<times> Sequencer list) res" where
  "Remove queue index =
     (if 0 \<le> index \<and> index < int (length queue)
      then Inr (queue ! nat index, take (nat index) queue @ drop (nat index + 1) queue)
      else Inl Panic)"

definition Pop :: "Sequencer list \<Rightarrow> ('e, Sequencer \<times> Sequencer list) res" where
  "Pop queue = Remove queue (int (length queue) - 1)"

definition Peek :: "Sequencer list \<Rightarrow> ('e, Sequencer) res" where
  "Peek queue = (if queue = [] then Inl Panic else Inr (queue ! (length queue - 1)))"

fun Purge :: "Sequencer list \<Rightarrow> u64 \<Rightarrow> Sequencer list" where
  "Purge [] mx = []"
| "Purge (s # queue) mx = (if Maximum s \<le> mx then Purge queue mx else s # queue)"

definition queueMaximum :: "Sequencer list \<Rightarrow> u64" where
  "queueMaximum queue = (if queue = [] then 0 else Maximum (queue ! (length queue - 1)))"

section \<open>The server\<close>

text \<open>The catalog entry of a field, with the names of the table's key attributes.\<close>

record FieldConfig =
  cfgFieldName :: string
  cfgTimeQuantumType :: string
  cfgPrimaryKey :: string
  cfgTimeQuantumField :: string
  cfgPrimaryKeyInfo :: "string option list"

text \<open>A bit-sliced field: the rows that exist in it and, on the first key field of a table, the
  queue of generators.\<close>

record BSIBitmap =
  existence :: "u64 set"
  TQType :: string
  sequencerQueue :: "Sequencer list option"

type_synonym shard = "string \<times> string \<times> u64"

record BitmapIndex =
  bsiCache :: "shard \<Rightarrow> BSIBitmap option"
  fieldConfig :: "string \<Rightarrow> string \<Rightarrow> FieldConfig option"

datatype sequence_error =
  NoIndex | NoPkField | NoReservation | CheckoutError sequence_error

definition newBSIBitmap :: "BitmapIndex \<Rightarrow> string \<Rightarrow> string \<Rightarrow> (sequence_error, BSIBitmap) res" where
  "newBSIBitmap m index field =
     (case fieldConfig m index field of
        None \<Rightarrow> Inl Panic
      | Some attr \<Rightarrow>
          let bsi = \<lparr>existence = {}, TQType = cfgTimeQuantumType attr, sequencerQueue = None\<rparr> in
          if cfgPrimaryKey attr \<noteq> [] \<or> cfgTimeQuantumField attr \<noteq> [] then
            bindR (idx (cfgPrimaryKeyInfo attr) 0) (\<lambda>pk.
              case pk of
                None \<Rightarrow> Inl Panic
              | Some name \<Rightarrow>
                  Inr (if cfgFieldName attr = name then bsi\<lparr>sequencerQueue := Some []\<rparr> else bsi))
          else Inr bsi)"

definition maxColumnID :: "u64 set \<Rightarrow> u64" where
  "maxColumnID ebm = (if ebm = {} then 0 else Max ebm)"

definition nextSeqStart :: "BSIBitmap \<Rightarrow> Sequencer list \<Rightarrow> u64 \<Rightarrow> u64" where
  "nextSeqStart bsi queue time =
     (let maxColID = maxColumnID (existence bsi); maxSeq = queueMaximum queue in
      if maxSeq = 0 then
        if maxColID = 0 then (if TQType bsi \<noteq> [] then time + 1 else 1)
        else maxColID + 1
      else maxSeq + 1)"

text \<open>A nil queue makes \<^verbatim>\<open>Purge\<close> dereference nil.\<close>

definition CheckoutSequence ::
  "string \<Rightarrow> string \<Rightarrow> u64 \<Rightarrow> u32 \<Rightarrow> BitmapIndex \<Rightarrow> (sequence_error, (u64 \<times> u32) \<times> BitmapIndex) res" where
  "CheckoutSequence index pkField time reservationSize m =
     (if index = [] then Inl (Err NoIndex)
      else if pkField = [] then Inl (Err NoPkField)
      else if reservationSize \<le> 0 then Inl (Err NoReservation)
      else
        bindR (case bsiCache m (index, pkField, time) of
                 Some bsi \<Rightarrow> Inr bsi
               | None \<Rightarrow> newBSIBitmap m index pkField) (\<lambda>targetBSI.
        case sequencerQueue targetBSI of
          None \<Rightarrow> Inl Panic
        | Some queue \<Rightarrow>
            let queue = Purge queue (maxColumnID (existence targetBSI));
                start = nextSeqStart targetBSI queue time;
                queue = Push queue (NewSequencer start (uint reservationSize));
                targetBSI = targetBSI\<lparr>sequencerQueue := Some queue\<rparr>
            in Inr ((start, reservationSize),
                    m\<lparr>bsiCache := (bsiCache m)((index, pkField, time) \<mapsto> targetBSI)\<rparr>)))"

section \<open>The client\<close>

definition reservationSize :: u32 where
  "reservationSize = 1000"

record Table =
  Name :: string
  tablePrimaryKey :: string
  TimeQuantumType :: string

record TableBuffer =
  Table :: Table
  sequencerCache :: "u64 \<Rightarrow> Sequencer option"
  CurrentColumnID :: u64
  CurrentTimestamp :: Time
  PKAttributes :: "Attribute option list"

definition clientCheckoutSequence ::
  "string \<Rightarrow> string \<Rightarrow> Time \<Rightarrow> u32 \<Rightarrow> BitmapIndex \<Rightarrow> (sequence_error, Sequencer \<times> BitmapIndex) res" where
  "clientCheckoutSequence indexName pkField ts n m =
     bindR (wrapErr CheckoutError (CheckoutSequence indexName pkField (UnixNano ts) n m))
       (\<lambda>((start, count), m). Inr (NewSequencer start (uint count), m))"

text \<open>\<^verbatim>\<open>t.PKAttributes[0].FieldName\<close>.\<close>

definition firstKeyField :: "Attribute option list \<Rightarrow> (sequence_error, string) res" where
  "firstKeyField attrs =
     bindR (idx attrs 0) (\<lambda>a.
       case Option.bind a BasicAttribute of None \<Rightarrow> Inl Panic | Some b \<Rightarrow> Inr (FieldName b))"

text \<open>The state is returned whether the call succeeds or fails; a failed checkout resets the current
  identifier.\<close>

definition NextColumnID ::
  "TableBuffer \<Rightarrow> BitmapIndex \<Rightarrow> (sequence_error, unit) res \<times> TableBuffer \<times> BitmapIndex" where
  "NextColumnID t bi =
     (let nano = UnixNano (CurrentTimestamp t);
          draw = (\<lambda>sequencer t bi.
            let ((v, _), sequencer) = Next sequencer in
            (Inr (), t\<lparr>CurrentColumnID := v, sequencerCache := (sequencerCache t)(nano \<mapsto> sequencer)\<rparr>, bi));
          checkout =
            (case bindR (firstKeyField (PKAttributes t)) (\<lambda>field.
                    clientCheckoutSequence (Name (Table t)) field (CurrentTimestamp t) reservationSize bi) of
               Inl (Err e) \<Rightarrow> (Inl (Err (CheckoutError e)), t\<lparr>CurrentColumnID := 0\<rparr>, bi)
             | Inl Panic \<Rightarrow> (Inl Panic, t, bi)
             | Inr (seq, bi) \<Rightarrow> draw seq t bi)
      in case sequencerCache t nano of
           None \<Rightarrow> checkout
         | Some sequencer \<Rightarrow> if IsFullySubscribed sequencer then checkout else draw sequencer t bi)"

section \<open>Generators that do not wrap\<close>

definition seq_end :: "Sequencer \<Rightarrow> nat" where
  "seq_end s = unat (seqStart s) + nat (seqCount s)"

text \<open>The identifiers a generator has still to give.\<close>

definition pending :: "Sequencer \<Rightarrow> nat set" where
  "pending s = {unat (seqCurrent s) ..< seq_end s}"

definition seq_fits :: "Sequencer \<Rightarrow> bool" where
  "seq_fits s \<longleftrightarrow> 1 \<le> unat (seqStart s) \<and> 1 \<le> seqCount s \<and> seq_end s < 2 ^ 64"

definition seq_ok :: "Sequencer \<Rightarrow> bool" where
  "seq_ok s \<longleftrightarrow> seq_fits s \<and> seqStart s \<le> seqCurrent s \<and> unat (seqCurrent s) \<le> seq_end s"

lemma unat_end: "seq_fits s \<Longrightarrow> unat (seqStart s + word_of_int (seqCount s)) = seq_end s"
proof -
  assume f: "seq_fits s"
  then have "word_of_int (seqCount s) = (word_of_nat (nat (seqCount s)) :: u64)"
    by (simp add: seq_fits_def)
  moreover have "nat (seqCount s) < 2 ^ 64" using f by (simp add: seq_fits_def seq_end_def)
  then have "unat (word_of_nat (nat (seqCount s)) :: u64) = nat (seqCount s)"
    by (simp add: unat_of_nat take_bit_nat_eq_self)
  ultimately show ?thesis
    using f by (simp add: seq_fits_def seq_end_def unat_word_ariths)
qed

lemma full_iff: "seq_fits s \<Longrightarrow> IsFullySubscribed s \<longleftrightarrow> pending s = {}"
  by (simp add: IsFullySubscribed_def word_less_nat_alt unat_end pending_def)

lemma unat_Maximum: "seq_fits s \<Longrightarrow> unat (Maximum s) = seq_end s - 1"
proof -
  assume f: "seq_fits s"
  then have "0 < seq_end s" by (simp add: seq_fits_def seq_end_def)
  then have "unat (seqStart s + word_of_int (seqCount s)) = Suc (seq_end s - 1)"
    using unat_end [OF f] by simp
  then show ?thesis unfolding Maximum_def by (metis diff_Suc_1 unat_minus_one unat_0 old.nat.distinct(2))
qed

lemma Next_pending:
  assumes "seq_ok s" "pending s \<noteq> {}" "Next s = ((v, ok), s')"
  shows "ok" "unat v \<in> pending s" "pending s' = pending s - {unat v}" "seq_ok s'" "seq_end s' = seq_end s"
proof -
  have f: "seq_fits s" and lt: "unat (seqCurrent s) < seq_end s"
    using assms(1,2) by (auto simp: seq_ok_def pending_def)
  then have less: "seqCurrent s < seqStart s + word_of_int (seqCount s)"
    by (simp add: word_less_nat_alt unat_end)
  then have n: "ok" "v = seqCurrent s" "s' = s\<lparr>seqCurrent := seqCurrent s + 1\<rparr>"
    using assms(3) by (auto simp: Next_def)
  have "unat (seqCurrent s + 1) = Suc (unat (seqCurrent s))"
    using lt f by (simp add: seq_fits_def unat_word_ariths)
  then show "ok" "unat v \<in> pending s" "pending s' = pending s - {unat v}" "seq_ok s'" "seq_end s' = seq_end s"
    using n lt assms(1) by (auto simp: pending_def seq_ok_def seq_fits_def seq_end_def word_le_nat_alt)
qed

lemma NewSequencer_ok: "seq_fits (NewSequencer start n) \<Longrightarrow> seq_ok (NewSequencer start n)"
  by (simp add: seq_ok_def NewSequencer_def seq_end_def)

section \<open>The server hands out disjoint ranges\<close>

definition queue_ok :: "Sequencer list \<Rightarrow> bool" where
  "queue_ok q \<longleftrightarrow> sorted (map Maximum q) \<and> (\<forall>s \<in> set q. seq_fits s)"

text \<open>The highest identifier of a shard that is in a range handed out, 0 if there is none.\<close>

definition queue_top :: "Sequencer list \<Rightarrow> nat" where
  "queue_top q = (if q = [] then 0 else seq_end (last q) - 1)"

definition shard_top :: "BitmapIndex \<Rightarrow> shard \<Rightarrow> nat" where
  "shard_top m \<kappa> =
     (case bsiCache m \<kappa> of None \<Rightarrow> 0
      | Some bsi \<Rightarrow> (case sequencerQueue bsi of None \<Rightarrow> 0 | Some q \<Rightarrow> queue_top q))"

definition queues :: "BitmapIndex \<Rightarrow> Sequencer list set" where
  "queues m = {q. \<exists>\<kappa> bsi. bsiCache m \<kappa> = Some bsi \<and> sequencerQueue bsi = Some q}"

lemma sort_key_sorted: "sorted (map f xs) \<Longrightarrow> sort_key f xs = xs"
  by (induction xs) (auto intro: insort_is_Cons)

lemma Purge_suffix: "\<exists>p. q = p @ Purge q mx \<and> (\<forall>s \<in> set p. Maximum s \<le> mx)"
proof (induction q)
  case (Cons s q)
  then obtain p where "q = p @ Purge q mx" "\<forall>s \<in> set p. Maximum s \<le> mx" by blast
  then have "s # q = (s # p) @ Purge q mx" "Maximum s \<le> mx \<Longrightarrow> \<forall>s \<in> set (s # p). Maximum s \<le> mx"
    by simp_all
  then show ?case by (cases "Maximum s \<le> mx") (metis Purge.simps(2), auto)
qed simp

lemma sorted_last: "sorted (map f q) \<Longrightarrow> s \<in> set q \<Longrightarrow> f s \<le> f (last q)"
  by (induction q) auto

lemma queueMaximum_top:
  assumes "queue_ok q"
  shows "unat (queueMaximum q) = queue_top q" "q \<noteq> [] \<Longrightarrow> 1 \<le> queue_top q"
proof -
  have "seq_fits (last q)" if "q \<noteq> []" using assms that by (simp add: queue_ok_def)
  then show "unat (queueMaximum q) = queue_top q" "q \<noteq> [] \<Longrightarrow> 1 \<le> queue_top q"
    by (auto simp: queueMaximum_def queue_top_def unat_Maximum last_conv_nth seq_fits_def seq_end_def)
qed

text \<open>The next range starts above everything handed out before, whatever rows exist.\<close>

lemma nextSeqStart_above:
  assumes q: "queue_ok q" and q': "q' = Purge q (maxColumnID (existence bsi))"
    and start: "start = nextSeqStart bsi q' time" "1 \<le> unat start"
  shows "queue_top q < unat start" "\<forall>s \<in> set q'. unat (Maximum s) < unat start" "queue_ok q'"
proof -
  let ?mx = "maxColumnID (existence bsi)"
  obtain p where p: "q = p @ q'" "\<forall>s \<in> set p. Maximum s \<le> ?mx"
    using Purge_suffix [of q ?mx] unfolding q' by blast
  show ok: "queue_ok q'" using q unfolding p(1) by (simp add: queue_ok_def sorted_append)
  have succ: "unat (w + 1) = Suc (unat w)" if "1 \<le> unat (w + 1)" for w :: u64
    using that by (metis One_nat_def add.commute not_one_le_zero unat_0 unatSuc)
  show top: "queue_top q < unat start"
  proof (cases "q' = []")
    case True
    show ?thesis
    proof (cases "q = []")
      case False
      with True p have "Maximum (last q) \<le> ?mx" by simp
      then have "queue_top q \<le> unat ?mx"
        using queueMaximum_top(1) [OF q] False by (simp add: queueMaximum_def last_conv_nth word_le_nat_alt)
      moreover have "1 \<le> queue_top q" using queueMaximum_top(2) [OF q False] .
      ultimately have "?mx \<noteq> 0" by auto
      then have "start = ?mx + 1" using True start(1) by (simp add: nextSeqStart_def queueMaximum_def)
      then show ?thesis using succ [of ?mx] start(2) \<open>queue_top q \<le> unat ?mx\<close> by simp
    qed (use start(2) in \<open>simp add: queue_top_def\<close>)
  next
    case False
    then have l: "last q = last q'" "q \<noteq> []" using p(1) by auto
    have "queueMaximum q' \<noteq> 0"
      using queueMaximum_top [OF ok] False by (metis not_one_le_zero unat_0)
    then have "start = queueMaximum q' + 1" using start(1) by (simp add: nextSeqStart_def Let_def)
    moreover have "queue_top q = queue_top q'" using l False by (simp add: queue_top_def)
    ultimately show ?thesis using succ [of "queueMaximum q'"] start(2) queueMaximum_top(1) [OF ok] by simp
  qed
  show "\<forall>s \<in> set q'. unat (Maximum s) < unat start"
  proof
    fix s
    assume s: "s \<in> set q'"
    then have "Maximum s \<le> Maximum (last q)" using q p(1) by (intro sorted_last) (auto simp: queue_ok_def)
    moreover have "q \<noteq> []" using s p(1) by auto
    ultimately have "unat (Maximum s) \<le> queue_top q"
      using queueMaximum_top(1) [OF q] by (simp add: queueMaximum_def last_conv_nth word_le_nat_alt)
    then show "unat (Maximum s) < unat start" using top by simp
  qed
qed

definition server_ok :: "BitmapIndex \<Rightarrow> bool" where
  "server_ok m \<longleftrightarrow> (\<forall>q \<in> queues m. queue_ok q)"

text \<open>No range handed out wraps around or starts at 0.\<close>

definition fits :: "BitmapIndex \<Rightarrow> bool" where
  "fits m \<longleftrightarrow> (\<forall>q \<in> queues m. \<forall>s \<in> set q. seq_fits s)"

lemma newBSIBitmap_queue:
  "newBSIBitmap m index field = Inr bsi \<Longrightarrow> sequencerQueue bsi = None \<or> sequencerQueue bsi = Some []"
  by (auto simp: newBSIBitmap_def bindR_Inr_iff Let_def split: option.splits if_splits)

lemma set_Push [simp]: "set (Push q s) = insert s (set q)"
  by (simp add: Push_def)

lemma Push_top:
  assumes "queue_ok q" "seq_fits s" "\<forall>t \<in> set q. unat (Maximum t) < unat (seqStart s)"
  shows "queue_ok (Push q s)" "queue_top (Push q s) = seq_end s - 1"
proof -
  have "1 \<le> nat (seqCount s)" using assms(2) unfolding seq_fits_def by linarith
  then have "unat (seqStart s) \<le> unat (Maximum s)"
    using assms(2) by (simp add: unat_Maximum seq_end_def)
  then have "\<forall>t \<in> set q. Maximum t \<le> Maximum s" using assms(3) by (force simp: word_le_nat_alt)
  then have "sorted (map Maximum (q @ [s]))" using assms(1) by (simp add: queue_ok_def sorted_append)
  then have "Push q s = q @ [s]" unfolding Push_def by (rule sort_key_sorted)
  then show "queue_ok (Push q s)" "queue_top (Push q s) = seq_end s - 1"
    using \<open>sorted (map Maximum (q @ [s]))\<close> assms(1,2) by (simp_all add: queue_ok_def queue_top_def)
qed

lemma CheckoutSequence_range:
  assumes "server_ok m" "CheckoutSequence index f time n m = Inr ((start, k), m')" "fits m'"
  shows "server_ok m'" "k = n" "shard_top m (index, f, time) < unat start"
    "shard_top m' (index, f, time) = seq_end (NewSequencer start (uint n)) - 1"
    "seq_fits (NewSequencer start (uint n))"
    "\<kappa> \<noteq> (index, f, time) \<Longrightarrow> bsiCache m' \<kappa> = bsiCache m \<kappa>"
proof -
  let ?\<kappa> = "(index, f, time)"
  let ?s = "NewSequencer start (uint n)"
  obtain bsi q where bsi: "bsiCache m ?\<kappa> = Some bsi \<or> bsiCache m ?\<kappa> = None \<and> newBSIBitmap m index f = Inr bsi"
    and q: "sequencerQueue bsi = Some q"
    and start: "start = nextSeqStart bsi (Purge q (maxColumnID (existence bsi))) time"
    and k: "k = n"
    and m': "m' = m\<lparr>bsiCache := (bsiCache m)(?\<kappa> \<mapsto> bsi\<lparr>sequencerQueue :=
        Some (Push (Purge q (maxColumnID (existence bsi))) ?s)\<rparr>)\<rparr>"
    using assms(2) by (auto simp: CheckoutSequence_def bindR_Inr_iff Let_def split: if_splits option.splits)
  have ok: "queue_ok q \<and> queue_top q = shard_top m ?\<kappa>"
  proof (cases "bsiCache m ?\<kappa>")
    case None
    then have "q = []" using bsi newBSIBitmap_queue q by fastforce
    then show ?thesis using None by (simp add: queue_ok_def queue_top_def shard_top_def)
  next
    case (Some b)
    then have "q \<in> queues m" using bsi q by (auto simp: queues_def)
    then show ?thesis using Some bsi q assms(1) by (simp add: server_ok_def shard_top_def)
  qed
  let ?q = "Purge q (maxColumnID (existence bsi))"
  have "Push ?q ?s \<in> queues m'" unfolding queues_def m' by (auto intro!: exI [of _ ?\<kappa>])
  then show fit: "seq_fits ?s" using assms(3) unfolding fits_def by auto
  then have one: "1 \<le> unat start" by (simp add: seq_fits_def NewSequencer_def)
  note above = nextSeqStart_above [OF conjunct1 [OF ok] refl start one]
  have p: "queue_ok (Push ?q ?s)" "queue_top (Push ?q ?s) = seq_end ?s - 1"
    using Push_top [OF above(3) fit] above(2) by (simp_all add: NewSequencer_def)
  show "shard_top m ?\<kappa> < unat start" using ok above(1) by simp
  show "k = n" by (rule k)
  show "shard_top m' ?\<kappa> = seq_end ?s - 1" using p(2) by (simp add: m' shard_top_def)
  show "\<kappa> \<noteq> ?\<kappa> \<Longrightarrow> bsiCache m' \<kappa> = bsiCache m \<kappa>" by (simp add: m')
  show "server_ok m'"
    using assms(1) p(1) by (fastforce simp: server_ok_def queues_def m' split: if_splits)
qed

section \<open>Clients and server\<close>

record allocation =
  index :: BitmapIndex
  buffers :: "TableBuffer list"
  issued :: "(shard \<times> u64) list"

definition field_of :: "TableBuffer \<Rightarrow> string" where
  "field_of t = (case firstKeyField (PKAttributes t) of Inr f \<Rightarrow> f | Inl _ \<Rightarrow> [])"

definition shard_at :: "TableBuffer \<Rightarrow> u64 \<Rightarrow> shard" where
  "shard_at t nano = (Name (Table t), field_of t, nano)"

definition current_shard :: "TableBuffer \<Rightarrow> shard" where
  "current_shard t = shard_at t (UnixNano (CurrentTimestamp t))"

text \<open>
  The interleavings of any number of clients with one server: a client opens a table, moves to
  another time partition, or draws an identifier, which is recorded with its shard; between these
  the rows of any shard may be written, cleared or loaded in any way.
\<close>

inductive alloc_step :: "allocation \<Rightarrow> allocation \<Rightarrow> bool" where
  open_table: "sequencerCache t = Map.empty \<Longrightarrow> alloc_step st (st\<lparr>buffers := buffers st @ [t]\<rparr>)"
| move: "i < length (buffers st) \<Longrightarrow>
    alloc_step st (st\<lparr>buffers := (buffers st)[i := (buffers st ! i)\<lparr>CurrentTimestamp := ts\<rparr>]\<rparr>)"
| draw: "i < length (buffers st) \<Longrightarrow> NextColumnID (buffers st ! i) (index st) = (Inr (), t, m) \<Longrightarrow> fits m \<Longrightarrow>
    alloc_step st (st\<lparr>index := m, buffers := (buffers st)[i := t],
      issued := (current_shard t, CurrentColumnID t) # issued st\<rparr>)"
| fail: "i < length (buffers st) \<Longrightarrow> NextColumnID (buffers st ! i) (index st) = (Inl e, t, m) \<Longrightarrow>
    alloc_step st (st\<lparr>index := m, buffers := (buffers st)[i := t]\<rparr>)"
| rows: "bsiCache (index st) \<kappa> = Some bsi \<Longrightarrow>
    alloc_step st (st\<lparr>index := (index st)\<lparr>bsiCache := (bsiCache (index st))(\<kappa> \<mapsto> bsi\<lparr>existence := rs\<rparr>)\<rparr>\<rparr>)"
| load: "bsiCache (index st) (a, b, c) = None \<Longrightarrow> newBSIBitmap (index st) a b = Inr bsi \<Longrightarrow>
    alloc_step st (st\<lparr>index := (index st)\<lparr>bsiCache := (bsiCache (index st))((a, b, c) \<mapsto> bsi\<lparr>existence := rs\<rparr>)\<rparr>\<rparr>)"

inductive allocations :: "allocation \<Rightarrow> bool" where
  start: "bsiCache (index st) = Map.empty \<Longrightarrow> buffers st = [] \<Longrightarrow> issued st = [] \<Longrightarrow> allocations st"
| step: "allocations st \<Longrightarrow> alloc_step st st' \<Longrightarrow> allocations st'"

definition cached :: "allocation \<Rightarrow> nat \<Rightarrow> u64 \<Rightarrow> Sequencer \<Rightarrow> bool" where
  "cached st i nano s \<longleftrightarrow> i < length (buffers st) \<and> sequencerCache (buffers st ! i) nano = Some s"

definition alloc_inv :: "allocation \<Rightarrow> bool" where
  "alloc_inv st \<longleftrightarrow>
     server_ok (index st) \<and> distinct (issued st) \<and>
     (\<forall>i nano s. cached st i nano s \<longrightarrow>
        seq_ok s \<and> seq_end s - 1 \<le> shard_top (index st) (shard_at (buffers st ! i) nano)) \<and>
     (\<forall>i j nano s s'. cached st i nano s \<longrightarrow> cached st j nano s' \<longrightarrow> i \<noteq> j \<longrightarrow>
        shard_at (buffers st ! i) nano = shard_at (buffers st ! j) nano \<longrightarrow> pending s \<inter> pending s' = {}) \<and>
     (\<forall>\<kappa> v. (\<kappa>, v) \<in> set (issued st) \<longrightarrow> unat v \<le> shard_top (index st) \<kappa> \<and>
        (\<forall>i nano s. cached st i nano s \<longrightarrow> shard_at (buffers st ! i) nano = \<kappa> \<longrightarrow> unat v \<notin> pending s))"

lemma shard_at_simps [simp]:
  "shard_at (t\<lparr>CurrentTimestamp := ts\<rparr>) = shard_at t"
  "shard_at (t\<lparr>CurrentColumnID := v\<rparr>) = shard_at t"
  "shard_at (t\<lparr>sequencerCache := c\<rparr>) = shard_at t"
  by (simp_all add: fun_eq_iff shard_at_def field_of_def)

lemma cached_update:
  "i < length (buffers st) \<Longrightarrow> st' = st\<lparr>buffers := (buffers st)[i := t]\<rparr> \<Longrightarrow>
   cached st' j nano s \<longleftrightarrow> (if j = i then sequencerCache t nano = Some s else cached st j nano s)"
  by (auto simp: cached_def)

lemma alloc_invD:
  assumes "alloc_inv st"
  shows "server_ok (index st)" "distinct (issued st)"
    and "cached st i nano s \<Longrightarrow> seq_ok s"
    and "cached st i nano s \<Longrightarrow> seq_end s - 1 \<le> shard_top (index st) (shard_at (buffers st ! i) nano)"
    and "cached st i nano s \<Longrightarrow> cached st j nano s' \<Longrightarrow> i \<noteq> j \<Longrightarrow>
      shard_at (buffers st ! i) nano = shard_at (buffers st ! j) nano \<Longrightarrow> pending s \<inter> pending s' = {}"
    and "(\<kappa>, v) \<in> set (issued st) \<Longrightarrow> unat v \<le> shard_top (index st) \<kappa>"
    and "(\<kappa>, v) \<in> set (issued st) \<Longrightarrow> cached st i nano s \<Longrightarrow> shard_at (buffers st ! i) nano = \<kappa> \<Longrightarrow>
      unat v \<notin> pending s"
  using assms unfolding alloc_inv_def by blast+

lemma pending_below:
  assumes "alloc_inv st" "cached st i nano s" "x \<in> pending s"
  shows "x \<le> shard_top (index st) (shard_at (buffers st ! i) nano)"
  using alloc_invD(4) [OF assms(1,2)] assms(3) unfolding pending_def by auto

lemma alloc_invI:
  assumes "server_ok (index st)" "distinct (issued st)"
    and "\<And>i nano s. cached st i nano s \<Longrightarrow>
      seq_ok s \<and> seq_end s - 1 \<le> shard_top (index st) (shard_at (buffers st ! i) nano)"
    and "\<And>i j nano s s'. cached st i nano s \<Longrightarrow> cached st j nano s' \<Longrightarrow> i \<noteq> j \<Longrightarrow>
      shard_at (buffers st ! i) nano = shard_at (buffers st ! j) nano \<Longrightarrow> pending s \<inter> pending s' = {}"
    and "\<And>\<kappa> v. (\<kappa>, v) \<in> set (issued st) \<Longrightarrow> unat v \<le> shard_top (index st) \<kappa>"
    and "\<And>\<kappa> v i nano s. (\<kappa>, v) \<in> set (issued st) \<Longrightarrow> cached st i nano s \<Longrightarrow>
      shard_at (buffers st ! i) nano = \<kappa> \<Longrightarrow> unat v \<notin> pending s"
  shows "alloc_inv st"
  unfolding alloc_inv_def using assms by blast

text \<open>A range that starts above everything handed out can be cached by any client.\<close>

lemma alloc_inv_install:
  assumes inv: "alloc_inv st" and i: "i < length (buffers st)" and t: "t = buffers st ! i"
    and m: "server_ok m" "shard_top (index st) (shard_at t nano) < unat (seqStart s)"
      "shard_top m (shard_at t nano) = seq_end s - 1" "seq_ok s" "seqCurrent s = seqStart s"
      "\<And>\<kappa>. \<kappa> \<noteq> shard_at t nano \<Longrightarrow> bsiCache m \<kappa> = bsiCache (index st) \<kappa>"
    and st': "st' = st\<lparr>index := m, buffers := (buffers st)[i := t\<lparr>sequencerCache := (sequencerCache t)(nano \<mapsto> s)\<rparr>]\<rparr>"
  shows "alloc_inv st'"
proof -
  have c: "j = i \<and> n = nano \<and> s' = s \<or> cached st j n s' \<and> \<not> (j = i \<and> n = nano)" if "cached st' j n s'" for j n s'
    using that i t by (auto simp: cached_def st' nth_list_update split: if_splits)
  have sh: "shard_at (buffers st' ! j) = shard_at (buffers st ! j)" for j
    using t by (cases "j = i") (simp_all add: i st')
  have "unat (seqStart s) \<le> seq_end s - 1"
    using m(4) unfolding seq_ok_def seq_fits_def seq_end_def by linarith
  then have up: "shard_top (index st) \<kappa> \<le> shard_top m \<kappa>" for \<kappa>
    using m(2,3) m(6) [of \<kappa>] by (cases "\<kappa> = shard_at t nano") (simp_all add: shard_top_def)
  have above: "x \<notin> pending s" if "x \<le> shard_top (index st) (shard_at t nano)" for x
    using that m(2,5) by (simp add: pending_def)
  have apart: "pending s \<inter> pending s' = {}" if "cached st j nano s'" "shard_at (buffers st ! j) nano = shard_at t nano" for j s'
    using pending_below [OF inv that(1)] above unfolding that(2) by blast
  show ?thesis
  proof (rule alloc_invI)
    show "server_ok (index st')" using m(1) by (simp add: st')
    show "distinct (issued st')" using alloc_invD(2) [OF inv] by (simp add: st')
  next
    fix j n s'
    assume "cached st' j n s'"
    from c [OF this] show "seq_ok s' \<and> seq_end s' - 1 \<le> shard_top (index st') (shard_at (buffers st' ! j) n)"
      unfolding sh using m(3,4) t alloc_invD(3,4) [OF inv, of j n s'] up [of "shard_at (buffers st ! j) n"]
      by (auto simp: st')
  next
    fix j k n s' s''
    assume a: "cached st' j n s'" "cached st' k n s''" "j \<noteq> k" "shard_at (buffers st' ! j) n = shard_at (buffers st' ! k) n"
    from c [OF a(1)] c [OF a(2)] a(3) consider
      "j = i" "n = nano" "s' = s" "cached st k n s''" | "k = i" "n = nano" "s'' = s" "cached st j n s'"
      | "cached st j n s'" "cached st k n s''" by blast
    then show "pending s' \<inter> pending s'' = {}"
    proof cases
      case 1
      then show ?thesis using apart [of k s''] a(4) t unfolding sh by simp
    next
      case 2
      then show ?thesis using apart [of j s'] a(4) t unfolding sh by (simp add: Int_commute)
    next
      case 3
      then show ?thesis using alloc_invD(5) [OF inv 3 a(3)] a(4) unfolding sh by blast
    qed
  next
    fix \<kappa> v
    assume "(\<kappa>, v) \<in> set (issued st')"
    then have v: "(\<kappa>, v) \<in> set (issued st)" by (simp add: st')
    show "unat v \<le> shard_top (index st') \<kappa>" using alloc_invD(6) [OF inv v] up [of \<kappa>] by (simp add: st')
    fix j n s'
    assume "cached st' j n s'" "shard_at (buffers st' ! j) n = \<kappa>"
    with c [of j n s'] show "unat v \<notin> pending s'"
      unfolding sh using alloc_invD(6,7) [OF inv v] above [of "unat v"] t by auto
  qed
qed

text \<open>Drawing moves an identifier from a cached generator to the issued ones.\<close>

lemma alloc_inv_draw:
  assumes inv: "alloc_inv st" and s: "cached st i nano s" "pending s \<noteq> {}" "Next s = ((v, ok), s')"
    and t: "t = (buffers st ! i)\<lparr>CurrentColumnID := v, sequencerCache := (sequencerCache (buffers st ! i))(nano \<mapsto> s')\<rparr>"
    and st': "st' = st\<lparr>buffers := (buffers st)[i := t], issued := (shard_at t nano, v) # issued st\<rparr>"
  shows "alloc_inv st'"
proof -
  note n = Next_pending [OF alloc_invD(3) [OF inv s(1)] s(2,3)]
  have i: "i < length (buffers st)" using s(1) by (simp add: cached_def)
  have sh: "shard_at (buffers st' ! j) = shard_at (buffers st ! j)" for j
    by (cases "j = i") (simp_all add: i st' t)
  have sht: "shard_at t = shard_at (buffers st ! i)" by (simp add: t)
  have c: "\<exists>u. cached st j m u \<and> pending u' \<subseteq> pending u \<and> seq_ok u' \<and> seq_end u' = seq_end u \<and>
      (j = i \<and> m = nano \<longrightarrow> unat v \<notin> pending u')" if "cached st' j m u'" for j m u'
  proof (cases "j = i \<and> m = nano")
    case True
    then have "u' = s'" using that by (simp add: cached_def st' t i)
    then show ?thesis using s(1) True n by auto
  next
    case False
    then have "cached st j m u'" using that by (auto simp: cached_def st' t nth_list_update i split: if_splits)
    then show ?thesis using alloc_invD(3) [OF inv] False by blast
  qed
  show ?thesis
  proof (rule alloc_invI)
    show "server_ok (index st')" using alloc_invD(1) [OF inv] by (simp add: st')
    have "(shard_at t nano, v) \<notin> set (issued st)"
      using alloc_invD(7) [OF inv _ s(1)] n(2) sht by metis
    then show "distinct (issued st')" using alloc_invD(2) [OF inv] by (simp add: st')
  next
    fix j m u'
    assume "cached st' j m u'"
    from c [OF this] obtain u where "cached st j m u" "seq_ok u'" "seq_end u' = seq_end u" by blast
    then show "seq_ok u' \<and> seq_end u' - 1 \<le> shard_top (index st') (shard_at (buffers st' ! j) m)"
      using alloc_invD(4) [OF inv] unfolding sh by (simp add: st')
  next
    fix j k m u' w'
    assume a: "cached st' j m u'" "cached st' k m w'" "j \<noteq> k" "shard_at (buffers st' ! j) m = shard_at (buffers st' ! k) m"
    from c [OF a(1)] obtain u where u: "cached st j m u" "pending u' \<subseteq> pending u" by blast
    from c [OF a(2)] obtain w where w: "cached st k m w" "pending w' \<subseteq> pending w" by blast
    show "pending u' \<inter> pending w' = {}"
      using alloc_invD(5) [OF inv u(1) w(1) a(3)] a(4) u(2) w(2) unfolding sh by blast
  next
    fix \<kappa> x
    assume x: "(\<kappa>, x) \<in> set (issued st')"
    then have x': "\<kappa> = shard_at (buffers st ! i) nano \<and> x = v \<or> (\<kappa>, x) \<in> set (issued st)"
      by (auto simp: st' sht)
    then show "unat x \<le> shard_top (index st') \<kappa>"
      using pending_below [OF inv s(1) n(2)] alloc_invD(6) [OF inv, of \<kappa> x] by (auto simp: st')
    fix j m u'
    assume u': "cached st' j m u'" "shard_at (buffers st' ! j) m = \<kappa>"
    from c [OF u'(1)] obtain u where u: "cached st j m u" "pending u' \<subseteq> pending u"
      "j = i \<and> m = nano \<longrightarrow> unat v \<notin> pending u'" by blast
    from x' show "unat x \<notin> pending u'"
    proof
      assume "(\<kappa>, x) \<in> set (issued st)"
      then show ?thesis using alloc_invD(7) [OF inv _ u(1)] u(2) u'(2) unfolding sh by blast
    next
      assume e: "\<kappa> = shard_at (buffers st ! i) nano \<and> x = v"
      then have m: "m = nano" using u'(2) unfolding sh by (simp add: shard_at_def)
      show ?thesis
      proof (cases "j = i")
        case False
        then have "pending s \<inter> pending u = {}"
          using alloc_invD(5) [OF inv s(1) u(1) [unfolded m]] e u'(2) unfolding sh m by metis
        then show ?thesis using n(2) u(2) e by blast
      qed (use u(3) m e in blast)
    qed
  qed
qed

lemma NextColumnID_cases:
  assumes "NextColumnID t bi = (r, t', m)" "nano = UnixNano (CurrentTimestamp t)"
  obtains (cached) s v ok s' where "sequencerCache t nano = Some s" "\<not> IsFullySubscribed s"
      "Next s = ((v, ok), s')" "r = Inr ()"
      "t' = t\<lparr>CurrentColumnID := v, sequencerCache := (sequencerCache t)(nano \<mapsto> s')\<rparr>" "m = bi"
  | (fresh) field s v ok s' where "firstKeyField (PKAttributes t) = Inr field"
      "clientCheckoutSequence (Name (Table t)) field (CurrentTimestamp t) reservationSize bi = Inr (s, m)"
      "Next s = ((v, ok), s')" "r = Inr ()"
      "t' = t\<lparr>CurrentColumnID := v, sequencerCache := (sequencerCache t)(nano \<mapsto> s')\<rparr>"
  | (failed) e where "r = Inl e" "t' = t \<or> t' = t\<lparr>CurrentColumnID := 0\<rparr>" "m = bi"
proof (cases "\<exists>s. sequencerCache t nano = Some s \<and> \<not> IsFullySubscribed s")
  case True
  then obtain s where s: "sequencerCache t nano = Some s" "\<not> IsFullySubscribed s" by blast
  obtain v ok s' where n: "Next s = ((v, ok), s')" by (metis prod_cases3 surj_pair)
  show thesis
    by (rule cached [OF s n]) (use assms s n in \<open>simp_all add: NextColumnID_def Let_def\<close>)
next
  case False
  let ?c = "bindR (firstKeyField (PKAttributes t)) (\<lambda>field.
    clientCheckoutSequence (Name (Table t)) field (CurrentTimestamp t) reservationSize bi)"
  have run: "(r, t', m) = (case ?c of
      Inl (Err e) \<Rightarrow> (Inl (Err (CheckoutError e)), t\<lparr>CurrentColumnID := 0\<rparr>, bi)
    | Inl Panic \<Rightarrow> (Inl Panic, t, bi)
    | Inr (s, bi) \<Rightarrow> let ((v, _), s') = Next s in
        (Inr (), t\<lparr>CurrentColumnID := v, sequencerCache := (sequencerCache t)(nano \<mapsto> s')\<rparr>, bi))"
    using assms False unfolding NextColumnID_def Let_def by (auto split: option.splits)
  show thesis
  proof (cases ?c)
    case (Inl e)
    then show thesis using run failed by (cases e) auto
  next
    case (Inr p)
    obtain s bi' where p: "p = (s, bi')" by (cases p)
    obtain v ok s' where n: "Next s = ((v, ok), s')" by (metis prod_cases3 surj_pair)
    obtain field where f: "firstKeyField (PKAttributes t) = Inr field"
      "clientCheckoutSequence (Name (Table t)) field (CurrentTimestamp t) reservationSize bi = Inr (s, bi')"
      using Inr p by (auto simp: bindR_Inr_iff)
    have "m = bi'" "r = Inr ()"
      "t' = t\<lparr>CurrentColumnID := v, sequencerCache := (sequencerCache t)(nano \<mapsto> s')\<rparr>"
      using run unfolding Inr p by (simp_all add: n)
    then show thesis using fresh [OF f(1) _ n] f(2) by blast
  qed
qed

lemma alloc_inv_Next:
  assumes inv: "alloc_inv st" and i: "i < length (buffers st)"
    and n: "NextColumnID (buffers st ! i) (index st) = (Inr (), t, m)" and fit: "fits m"
    and st': "st' = st\<lparr>index := m, buffers := (buffers st)[i := t], issued := (current_shard t, CurrentColumnID t) # issued st\<rparr>"
  shows "alloc_inv st'"
proof -
  let ?b = "buffers st ! i"
  define nano where "nano = UnixNano (CurrentTimestamp ?b)"
  from n nano_def show ?thesis
  proof (cases rule: NextColumnID_cases)
    case (cached s v ok s')
    have c: "Column_IDs.cached st i nano s" using cached(1) i by (simp add: cached_def)
    moreover have "pending s \<noteq> {}"
      using cached(2) alloc_invD(3) [OF inv c] by (simp add: full_iff seq_ok_def)
    ultimately show ?thesis
      using cached(3) cached(5) by (rule alloc_inv_draw [OF inv])
        (simp add: st' cached(5,6) current_shard_def nano_def)
  next
    case (fresh field s v ok s')
    let ?\<kappa> = "(Name (Table ?b), field, nano)"
    obtain start k where co: "CheckoutSequence (Name (Table ?b)) field nano reservationSize (index st) = Inr ((start, k), m)"
      and s: "s = NewSequencer start (uint k)"
      using fresh(2) by (auto simp: clientCheckoutSequence_def bindR_Inr_iff wrapErr_Inr_iff nano_def)
    note r = CheckoutSequence_range [OF alloc_invD(1) [OF inv] co fit]
    have \<kappa>: "shard_at ?b nano = ?\<kappa>" using fresh(1) by (simp add: shard_at_def field_of_def)
    define st1 where "st1 = st\<lparr>index := m, buffers := (buffers st)[i := ?b\<lparr>sequencerCache := (sequencerCache ?b)(nano \<mapsto> s)\<rparr>]\<rparr>"
    have ok: "seq_ok s" using r(2,5) NewSequencer_ok by (simp add: s)
    have inv1: "alloc_inv st1"
    proof (rule alloc_inv_install [OF inv i refl r(1) _ _ ok])
      show "shard_top (index st) (shard_at ?b nano) < unat (seqStart s)"
        using r(3) unfolding \<kappa> by (simp add: s NewSequencer_def)
      show "shard_top m (shard_at ?b nano) = seq_end s - 1" using r(2,4) unfolding \<kappa> by (simp add: s)
      show "seqCurrent s = seqStart s" by (simp add: s NewSequencer_def)
      show "bsiCache m \<kappa> = bsiCache (index st) \<kappa>" if "\<kappa> \<noteq> shard_at ?b nano" for \<kappa>
        using r(6) that unfolding \<kappa> .
    qed (rule st1_def)
    have "cached st1 i nano s" using i by (simp add: cached_def st1_def)
    moreover have "pending s \<noteq> {}" using r(2,5) by (simp add: s pending_def NewSequencer_def seq_end_def reservationSize_def)
    ultimately show ?thesis
      using fresh(3) refl by (rule alloc_inv_draw [OF inv1])
        (simp add: st' st1_def fresh(5) i current_shard_def nano_def)
  qed simp
qed

lemma alloc_inv_index:
  assumes "alloc_inv st" "\<And>\<kappa>. shard_top m \<kappa> = shard_top (index st) \<kappa>" "server_ok m" "st' = st\<lparr>index := m\<rparr>"
  shows "alloc_inv st'"
proof -
  have c: "cached st' = cached st" by (simp add: fun_eq_iff cached_def assms(4))
  show ?thesis
    using assms(1,3) unfolding alloc_inv_def c by (simp add: assms(2,4))
qed

lemma alloc_inv_buffers:
  assumes "alloc_inv st" "\<And>i nano s. cached st' i nano s \<Longrightarrow> cached st i nano s"
    and "\<And>i nano s. cached st' i nano s \<Longrightarrow> shard_at (buffers st' ! i) = shard_at (buffers st ! i)"
    and "index st' = index st" "issued st' = issued st"
  shows "alloc_inv st'"
proof (rule alloc_invI)
  show "server_ok (index st')" "distinct (issued st')" using alloc_invD(1,2) [OF assms(1)] assms(4,5) by simp_all
next
  fix i nano s
  assume "cached st' i nano s"
  then show "seq_ok s \<and> seq_end s - 1 \<le> shard_top (index st') (shard_at (buffers st' ! i) nano)"
    using alloc_invD(3,4) [OF assms(1) assms(2)] assms(3,4) by simp
next
  fix i j nano s s'
  assume "cached st' i nano s" "cached st' j nano s'" "i \<noteq> j"
    "shard_at (buffers st' ! i) nano = shard_at (buffers st' ! j) nano"
  then show "pending s \<inter> pending s' = {}"
    using alloc_invD(5) [OF assms(1) assms(2) assms(2)] assms(3) by metis
next
  fix \<kappa> v
  assume v: "(\<kappa>, v) \<in> set (issued st')"
  then show "unat v \<le> shard_top (index st') \<kappa>" using alloc_invD(6) [OF assms(1), of \<kappa> v] assms(4,5) by simp
  fix i nano s
  assume "cached st' i nano s" "shard_at (buffers st' ! i) nano = \<kappa>"
  then show "unat v \<notin> pending s"
    using alloc_invD(7) [OF assms(1), of \<kappa> v] v assms(2,3,5) by metis
qed

lemma queues_update:
  "q \<in> queues (m\<lparr>bsiCache := (bsiCache m)(\<kappa> \<mapsto> bsi)\<rparr>) \<Longrightarrow> sequencerQueue bsi = Some q \<or> q \<in> queues m"
  by (auto simp: queues_def split: if_splits)

lemma queuesI: "bsiCache m \<kappa> = Some bsi \<Longrightarrow> sequencerQueue bsi = Some q \<Longrightarrow> q \<in> queues m"
  unfolding queues_def by blast

lemma alloc_inv_step:
  assumes inv: "alloc_inv st" and step: "alloc_step st st'"
  shows "alloc_inv st'"
  using step
proof cases
  case (open_table t)
  show ?thesis
    by (rule alloc_inv_buffers [OF inv]) (use open_table in \<open>auto simp: cached_def nth_append split: if_splits\<close>)
next
  case (move i ts)
  show ?thesis
    by (rule alloc_inv_buffers [OF inv])
      (use move in \<open>auto simp: cached_def nth_list_update split: if_splits\<close>)
next
  case (draw i t m)
  show ?thesis by (rule alloc_inv_Next [OF inv draw(2,3,4,1)])
next
  case (fail i e t m)
  from fail(3) refl have "(t = buffers st ! i \<or> t = (buffers st ! i)\<lparr>CurrentColumnID := 0\<rparr>) \<and> m = index st"
    by (cases rule: NextColumnID_cases) simp_all
  then show ?thesis
    by (intro alloc_inv_buffers [OF inv])
      (use fail(1,2) in \<open>auto simp: cached_def nth_list_update split: if_splits\<close>)
next
  case (rows \<kappa> bsi rs)
  show ?thesis
  proof (rule alloc_inv_index [OF inv _ _ rows(1)])
    let ?m = "(index st)\<lparr>bsiCache := (bsiCache (index st))(\<kappa> \<mapsto> bsi\<lparr>existence := rs\<rparr>)\<rparr>"
    show "shard_top ?m \<kappa>' = shard_top (index st) \<kappa>'" for \<kappa>' using rows(2) by (simp add: shard_top_def)
    show "server_ok ?m"
      using alloc_invD(1) [OF inv] queuesI [OF rows(2)] by (auto simp: server_ok_def dest!: queues_update)
  qed
next
  case (load a b c bsi rs)
  have q: "sequencerQueue bsi = None \<or> sequencerQueue bsi = Some []" using load(3) by (rule newBSIBitmap_queue)
  show ?thesis
  proof (rule alloc_inv_index [OF inv _ _ load(1)])
    let ?m = "(index st)\<lparr>bsiCache := (bsiCache (index st))((a, b, c) \<mapsto> bsi\<lparr>existence := rs\<rparr>)\<rparr>"
    show "shard_top ?m \<kappa>' = shard_top (index st) \<kappa>'" for \<kappa>'
      using load(2) q by (auto simp: shard_top_def queue_top_def)
    show "server_ok ?m"
      using alloc_invD(1) [OF inv] q
      by (auto simp: server_ok_def queue_ok_def dest!: queues_update)
  qed
qed

lemma alloc_inv_run: "allocations st \<Longrightarrow> alloc_inv st"
proof (induction rule: allocations.induct)
  case (start st)
  then show ?case
    by (intro alloc_invI) (simp_all add: cached_def server_ok_def queues_def)
qed (rule alloc_inv_step)

section \<open>Properties\<close>

text \<open>C8: No column identifier is issued twice. However many clients open tables, move between time
  partitions and draw identifiers against the server, in whatever order, and whatever rows are
  written to, cleared from or loaded into the shards in between, the identifiers issued for a shard
  are pairwise different, lie in ranges the server has handed out, and are no longer in any client's
  generator, as long as the 64-bit identifier space of the shard is not exhausted.\<close>

theorem column_ids_unique:
  assumes "allocations st"
  shows "distinct (issued st) \<and>
    (\<forall>\<kappa> v. (\<kappa>, v) \<in> set (issued st) \<longrightarrow> unat v \<le> shard_top (index st) \<kappa> \<and>
       (\<forall>t \<in> set (buffers st). \<forall>nano s. sequencerCache t nano = Some s \<longrightarrow> shard_at t nano = \<kappa> \<longrightarrow>
          unat v \<notin> pending s))"
proof -
  note inv = alloc_inv_run [OF assms]
  have "unat v \<notin> pending s" if v: "(\<kappa>, v) \<in> set (issued st)" and t: "t \<in> set (buffers st)"
    "sequencerCache t nano = Some s" "shard_at t nano = \<kappa>" for \<kappa> v t nano s
  proof -
    obtain i where "i < length (buffers st)" "t = buffers st ! i" using t(1) by (metis in_set_conv_nth)
    then show ?thesis using alloc_invD(7) [OF inv v, of i nano s] t(2,3) by (simp add: cached_def)
  qed
  then show ?thesis using alloc_invD(2,6) [OF inv] by blast
qed

definition id_server :: "Sequencer list option \<Rightarrow> BitmapIndex" where
  "id_server q =
     \<lparr>bsiCache = (case q of None \<Rightarrow> Map.empty
        | Some q \<Rightarrow> [(''t'', ''k'', 0) \<mapsto> \<lparr>existence = {}, TQType = [], sequencerQueue = Some q\<rparr>]),
      fieldConfig = (\<lambda>_ _. Some \<lparr>cfgFieldName = ''k'', cfgTimeQuantumType = [], cfgPrimaryKey = ''k'',
        cfgTimeQuantumField = [], cfgPrimaryKeyInfo = [Some ''k'']\<rparr>)\<rparr>"

definition id_buffer :: "(u64 \<Rightarrow> Sequencer option) \<Rightarrow> u64 \<Rightarrow> TableBuffer" where
  "id_buffer c v =
     \<lparr>Table = \<lparr>Name = ''t'', tablePrimaryKey = ''k'', TimeQuantumType = []\<rparr>, sequencerCache = c,
      CurrentColumnID = v, CurrentTimestamp = \<lparr>tsec = 62135596800, tnsec = 0, tzoff = 0\<rparr>,
      PKAttributes = [Some \<lparr>BasicAttribute = Some \<lparr>FieldName = ''k'', Type = ''Integer'',
        MappingStrategy = ''IntBSI'', attrColumnID = False\<rparr>\<rparr>]\<rparr>"

definition id_seq :: "u64 \<Rightarrow> u64 \<Rightarrow> Sequencer" where
  "id_seq start current = \<lparr>seqStart = start, seqCount = 1000, seqCurrent = current\<rparr>"

lemmas id_defs = id_server_def id_buffer_def id_seq_def NextColumnID_def clientCheckoutSequence_def
  CheckoutSequence_def newBSIBitmap_def firstKeyField_def idx_def reservationSize_def UnixNano_def
  maxColumnID_def nextSeqStart_def queueMaximum_def NewSequencer_def Next_def Push_def Maximum_def

lemma id_first:
  "NextColumnID (id_buffer Map.empty 0) (id_server None) =
     (Inr (), id_buffer [0 \<mapsto> id_seq 1 2] 1, id_server (Some [id_seq 1 1]))"
  by (simp add: id_defs Let_def)

lemma id_second:
  "NextColumnID (id_buffer Map.empty 0) (id_server (Some [id_seq 1 1])) =
     (Inr (), id_buffer [0 \<mapsto> id_seq 1001 1002] 1001, id_server (Some [id_seq 1 1, id_seq 1001 1001]))"
  by (simp add: id_defs Let_def)

definition id_run :: allocation where
  "id_run =
     \<lparr>index = id_server (Some [id_seq 1 1, id_seq 1001 1001]),
      buffers = [id_buffer [0 \<mapsto> id_seq 1 2] 1, id_buffer [0 \<mapsto> id_seq 1001 1002] 1001],
      issued = [((''t'', ''k'', 0), 1001), ((''t'', ''k'', 0), 1)]\<rparr>"

lemma id_shard: "current_shard (id_buffer c v) = (''t'', ''k'', 0)"
  by (simp add: current_shard_def shard_at_def field_of_def id_defs)

lemma id_fits: "fits (id_server (Some q)) \<longleftrightarrow> (\<forall>s \<in> set q. seq_fits s)"
  by (auto simp: fits_def queues_def id_server_def split: if_splits)

lemma id_seq_fits: "seq_fits (id_seq 1 1)" "seq_fits (id_seq 1001 1001)"
  by (simp_all add: seq_fits_def seq_end_def id_seq_def)

lemma id_run_allocations: "allocations id_run"
proof -
  let ?b = "id_buffer Map.empty 0"
  let ?s0 = "\<lparr>index = id_server None, buffers = [], issued = []\<rparr>"
  let ?s1 = "?s0\<lparr>buffers := buffers ?s0 @ [?b]\<rparr>"
  let ?s2 = "?s1\<lparr>buffers := buffers ?s1 @ [?b]\<rparr>"
  let ?t = "id_buffer [0 \<mapsto> id_seq 1 2] 1" and ?m = "id_server (Some [id_seq 1 1])"
  let ?s3 = "?s2\<lparr>index := ?m, buffers := (buffers ?s2)[0 := ?t], issued := (current_shard ?t, CurrentColumnID ?t) # issued ?s2\<rparr>"
  let ?u = "id_buffer [0 \<mapsto> id_seq 1001 1002] 1001" and ?n = "id_server (Some [id_seq 1 1, id_seq 1001 1001])"
  let ?s4 = "?s3\<lparr>index := ?n, buffers := (buffers ?s3)[1 := ?u], issued := (current_shard ?u, CurrentColumnID ?u) # issued ?s3\<rparr>"
  have e: "sequencerCache ?b = Map.empty" by (simp add: id_buffer_def)
  have "allocations ?s0" by (rule start) (simp_all add: id_server_def)
  then have "allocations ?s1" by (rule step) (rule open_table [OF e])
  then have "allocations ?s2" by (rule step) (rule open_table [OF e])
  then have "allocations ?s3"
    by (rule step) (rule draw, simp_all add: id_first id_fits id_seq_fits)
  then have "allocations ?s4"
    by (rule step) (rule draw, simp_all add: id_second id_fits id_seq_fits)
  moreover have "?s4 = id_run" by (simp add: id_run_def id_shard) (simp add: id_buffer_def)
  ultimately show ?thesis by simp
qed

text \<open>Witness: two clients of one table, each drawing once, with the ranges 1 to 1000 and 1001 to
  2000 handed out.\<close>

theorem column_ids_unique_witness:
  "allocations id_run \<and> distinct (issued id_run) \<and> length (issued id_run) = 2 \<and>
   list_all (\<lambda>(\<kappa>, v). unat v \<le> shard_top (index id_run) \<kappa>) (issued id_run)"
  using column_ids_unique [OF id_run_allocations] id_run_allocations
  by (auto simp: list_all_iff) (simp add: id_run_def)

end
