(* ===== verification/Time_Parse.thy ===== *)
theory Time_Parse
  imports Go_RFC3339
begin

text \<open>
  The fast timestamp parser of the ingest path, \<^verbatim>\<open>shared/time_parse.go\<close>. Text is read by index as
  in the code, every access checked. The lemmas describe the result of the loops on a segment of
  the text; the properties are that the parser never reads outside the text, agrees with the
  general RFC 3339 parser, and reads back what the RFC 3339 format writes.
\<close>

section \<open>The parser\<close>

text \<open>Each function returns \<^verbatim>\<open>false\<close> as \<^term>\<open>None\<close>.\<close>

type_synonym 'a parsed = "(unit, 'a option) res"

fun andThen :: "'a parsed \<Rightarrow> ('a \<Rightarrow> 'b parsed) \<Rightarrow> 'b parsed" where
  "andThen (Inl e) f = Inl e"
| "andThen (Inr None) f = Inr None"
| "andThen (Inr (Some x)) f = f x"

definition digit_at :: "char \<Rightarrow> nat" where
  "digit_at c = of_char c - 48"

fun digits_loop :: "string \<Rightarrow> nat \<Rightarrow> nat \<Rightarrow> nat \<Rightarrow> nat parsed" where
  "digits_loop value i 0 result = Inr (Some result)"
| "digits_loop value i (Suc n) result =
     bindR (idx value i) (\<lambda>c.
       if \<not> digit c then Inr None
       else digits_loop value (Suc i) n (result * 10 + digit_at c))"

definition parseFixedDigits :: "string \<Rightarrow> nat \<Rightarrow> nat \<Rightarrow> nat parsed" where
  "parseFixedDigits value start count =
     (if start + count > length value then Inr None else digits_loop value start count 0)"

function frac_loop :: "string \<Rightarrow> nat \<Rightarrow> nat \<Rightarrow> nat \<Rightarrow> (nat \<times> nat \<times> nat) parsed" where
  "frac_loop value index digits nanos =
     (if index < length value then
        bindR (idx value index) (\<lambda>c.
          if digit c then
            if digits \<ge> 9 then Inr None
            else frac_loop value (Suc index) (Suc digits) (nanos * 10 + digit_at c)
          else Inr (Some (nanos, digits, index)))
      else Inr (Some (nanos, digits, index)))"
  by pat_completeness auto
termination by (relation "measure (\<lambda>(value, index, _). length value - index)") auto

declare frac_loop.simps [simp del]

function pad_loop :: "nat \<Rightarrow> nat \<Rightarrow> nat" where
  "pad_loop digits nanos = (if digits < 9 then pad_loop (Suc digits) (nanos * 10) else nanos)"
  by pat_completeness auto
termination by (relation "measure (\<lambda>(digits, _). 9 - digits)") auto

declare pad_loop.simps [simp del]

definition parseFractionalNanos :: "string \<Rightarrow> nat \<Rightarrow> (nat \<times> nat) parsed" where
  "parseFractionalNanos value start =
     (if start \<ge> length value then Inr None
      else bindR (idx value start) (\<lambda>c.
        if \<not> digit c then Inr None
        else andThen (frac_loop value start 0 0) (\<lambda>(nanos, digits, index).
          Inr (Some (pad_loop digits nanos, index)))))"

definition checkedUTCTime :: "int \<Rightarrow> int \<Rightarrow> int \<Rightarrow> int \<Rightarrow> int \<Rightarrow> int \<Rightarrow> int \<Rightarrow> Time option" where
  "checkedUTCTime year month day hour minute second nanos =
     (if month < 1 \<or> month > 12 \<or> day < 1 \<or> hour > 23 \<or> minute > 59 \<or> second > 59 \<or> nanos < 0 then None
      else
        (let parsed = time_Date year month day hour minute second nanos in
         if Year parsed \<noteq> year \<or> Month parsed \<noteq> month \<or> Day parsed \<noteq> day \<or> Hour parsed \<noteq> hour \<or>
            Minute parsed \<noteq> minute \<or> Second parsed \<noteq> second \<or> Nanosecond parsed \<noteq> nanos
         then None else Some parsed))"

definition charAt :: "string \<Rightarrow> nat \<Rightarrow> char \<Rightarrow> 'a parsed \<Rightarrow> 'a parsed" where
  "charAt value i c k = bindR (idx value i) (\<lambda>x. if x \<noteq> c then Inr None else k)"

definition ParseFastUTCTimestamp :: "string \<Rightarrow> Time parsed" where
  "ParseFastUTCTimestamp raw =
     (let value = trim_space raw in
      if length value < 10 then Inr None
      else
        andThen (parseFixedDigits value 0 4) (\<lambda>year. charAt value 4 (CHR ''-'') (
        andThen (parseFixedDigits value 5 2) (\<lambda>month. charAt value 7 (CHR ''-'') (
        andThen (parseFixedDigits value 8 2) (\<lambda>day.
        if length value = 10 then Inr (checkedUTCTime (int year) (int month) (int day) 0 0 0 0)
        else if length value < 19 then Inr None
        else bindR (idx value 10) (\<lambda>sep.
          if sep \<noteq> CHR ''T'' \<and> sep \<noteq> CHR '' '' then Inr None
          else
            andThen (parseFixedDigits value 11 2) (\<lambda>hour. charAt value 13 (CHR '':'') (
            andThen (parseFixedDigits value 14 2) (\<lambda>minute. charAt value 16 (CHR '':'') (
            andThen (parseFixedDigits value 17 2) (\<lambda>second.
            andThen
              (if 19 < length value then
                 bindR (idx value 19) (\<lambda>c.
                   if c = CHR ''.'' then parseFractionalNanos value 20 else Inr (Some (0, 19)))
               else Inr (Some (0, 19)))
              (\<lambda>(nanos, index).
            let fin = Inr (checkedUTCTime (int year) (int month) (int day) (int hour) (int minute)
                             (int second) (int nanos))
            in
              if index < length value then
                if index \<noteq> length value - 1 then Inr None
                else charAt value index (CHR ''Z'') fin
              else fin)))))))))))))"

section \<open>Segments of the text\<close>

definition seg :: "string \<Rightarrow> nat \<Rightarrow> nat \<Rightarrow> string" where
  "seg value start count = take count (drop start value)"

lemma seg_Suc: "i < length value \<Longrightarrow> seg value i (Suc n) = value ! i # seg value (Suc i) n"
  by (simp add: seg_def Cons_nth_drop_Suc [symmetric])

lemma digits_loop_seg:
  "i + n \<le> length value \<Longrightarrow>
   digits_loop value i n a =
     Inr (if list_all digit (seg value i n) then Some (val_dec (seg value i n) a) else None)"
proof (induction n arbitrary: i a)
  case 0
  then show ?case by (simp add: seg_def)
next
  case (Suc n)
  then show ?case by (simp add: idx_in seg_Suc digit_at_def mult.commute)
qed

lemma parseFixedDigits_seg:
  "start + count \<le> length value \<Longrightarrow>
   parseFixedDigits value start count =
     Inr (if list_all digit (seg value start count) then Some (val_dec (seg value start count) 0) else None)"
  by (simp add: parseFixedDigits_def digits_loop_seg)

lemma pad_loop_power: "digits \<le> 9 \<Longrightarrow> pad_loop digits nanos = nanos * 10 ^ (9 - digits)"
proof (induction digits nanos rule: pad_loop.induct)
  case (1 digits nanos)
  show ?case
  proof (cases "digits < 9")
    case True
    then have "9 - digits = Suc (9 - Suc digits)" by simp
    with 1 True show ?thesis by (simp add: pad_loop.simps [of digits])
  next
    case False
    with 1 show ?thesis by (simp add: pad_loop.simps [of 9])
  qed
qed

lemma frac_loop_run:
  assumes "index \<le> length v" "ds = takeWhile digit (drop index v)" "digits \<le> 9"
  shows "frac_loop v index digits nanos =
    Inr (if digits + length ds \<le> 9 then Some (val_dec ds nanos, digits + length ds, index + length ds)
         else None)"
  using assms
proof (induction v index digits nanos arbitrary: ds rule: frac_loop.induct)
  case (1 v index digits nanos)
  show ?case
  proof (cases "index < length v \<and> digit (v ! index)")
    case True
    then have ds: "ds = v ! index # takeWhile digit (drop (Suc index) v)"
      using "1.prems"(2) by (simp add: Cons_nth_drop_Suc [symmetric])
    show ?thesis
    proof (cases "digits \<ge> 9")
      case nine: True
      then show ?thesis using True ds by (simp add: frac_loop.simps [of v index] idx_in)
    next
      case False
      then show ?thesis
        using True "1.IH" [of "v ! index" "takeWhile digit (drop (Suc index) v)"]
        by (simp add: frac_loop.simps [of v index digits] idx_in ds digit_at_def mult.commute)
    qed
  next
    case False
    then have "ds = []"
      using "1.prems"(2) by (cases "index < length v") (simp_all add: Cons_nth_drop_Suc [symmetric])
    then show ?thesis
      using False "1.prems"(3) by (auto simp: frac_loop.simps [of v index digits] idx_in)
  qed
qed

section \<open>The parser on a whole text\<close>

lemma val_dec_less: "list_all digit s \<Longrightarrow> val_dec s a < (a + 1) * 10 ^ length s"
proof (induction s arbitrary: a)
  case (Cons c s)
  then have "val_dec s (10 * a + (of_char c - 48)) < (10 * a + (of_char c - 48) + 1) * 10 ^ length s"
    by simp
  also have "\<dots> \<le> (10 * a + 10) * 10 ^ length s"
    using Cons.prems by (intro mult_right_mono) (auto simp: digit_def)
  finally show ?case by (simp add: algebra_simps)
qed simp

definition fraction :: "string \<Rightarrow> (nat \<times> nat) option" where
  "fraction v =
     (if 19 < length v \<and> v ! 19 = CHR ''.'' then
        (let ds = takeWhile digit (drop 20 v) in
         if ds \<noteq> [] \<and> length ds \<le> 9 then Some (val_dec ds 0 * 10 ^ (9 - length ds), 20 + length ds)
         else None)
      else Some (0, 19))"

lemma parseFractionalNanos_run:
  assumes "ds = takeWhile digit (drop 20 v)"
  shows "parseFractionalNanos v 20 =
    Inr (if ds \<noteq> [] \<and> length ds \<le> 9 then Some (val_dec ds 0 * 10 ^ (9 - length ds), 20 + length ds)
         else None)"
proof (cases "20 < length v")
  case True
  then have "ds \<noteq> [] \<longleftrightarrow> digit (v ! 20)"
    by (simp add: assms Cons_nth_drop_Suc [symmetric])
  then show ?thesis
    using True frac_loop_run [of 20 v ds 0 0] assms
    by (simp add: parseFractionalNanos_def idx_in pad_loop_power)
next
  case False
  then show ?thesis by (simp add: parseFractionalNanos_def assms)
qed

lemma fraction_digits:
  assumes "ds = takeWhile digit (drop 20 v)" "ds \<noteq> []"
  shows "20 + length ds \<le> length v" "digit (v ! (19 + length ds))" "list_all digit ds"
proof -
  obtain n where n: "length ds = Suc n" using assms(2) by (cases ds) auto
  have len: "length ds \<le> length (drop 20 v)" unfolding assms(1) by (rule length_takeWhile_le)
  with n show "20 + length ds \<le> length v" by simp
  show all: "list_all digit ds" unfolding assms(1) list_all_iff by (auto dest: set_takeWhileD)
  have "ds ! n = drop 20 v ! n" using n unfolding assms(1) by (intro takeWhile_nth) simp
  also have "\<dots> = v ! (20 + n)" using n len by simp
  finally have "v ! (20 + n) = ds ! n" by simp
  moreover have "digit (ds ! n)" using all n by (simp add: list_all_length)
  ultimately show "digit (v ! (19 + length ds))" by (simp add: n)
qed

lemma fraction_Some:
  assumes "fraction v = Some (ns, i)"
  shows "ns < 1000000000 \<and> 19 \<le> i \<and> (i = 19 \<or> 20 < i \<and> i \<le> length v \<and> digit (v ! (i - 1)))"
proof (cases "19 < length v \<and> v ! 19 = CHR ''.''")
  case True
  define ds where "ds = takeWhile digit (drop 20 v)"
  have ds: "ds \<noteq> []" "length ds \<le> 9" "ns = val_dec ds 0 * 10 ^ (9 - length ds)" "i = 20 + length ds"
    using assms True unfolding fraction_def Let_def ds_def [symmetric] by (auto split: if_splits)
  note f = fraction_digits [OF ds_def ds(1)]
  have "val_dec ds 0 < 10 ^ length ds" using val_dec_less [OF f(3), of 0] by simp
  then have "ns < 10 ^ length ds * 10 ^ (9 - length ds)" unfolding ds(3) by simp
  also have "\<dots> = 10 ^ 9" using ds(2) by (simp flip: power_add)
  finally have "ns < 1000000000" by simp
  moreover have "0 < length ds" using ds(1) by simp
  moreover have "digit (v ! (i - 1))" using f(2) by (simp add: ds(4))
  ultimately show ?thesis using f(1) ds(4) by auto
next
  case False
  with assms show ?thesis by (auto simp: fraction_def)
qed

lemma checkedUTCTime_iff:
  assumes "0 \<le> h" "0 \<le> mi" "0 \<le> s" "0 \<le> ns" "ns < 1000000000"
  shows "checkedUTCTime y m d h mi s ns =
    (if valid_date y m d \<and> valid_clock h mi s ns then Some (time_Date y m d h mi s ns) else None)"
proof -
  have "Nanosecond (time_Date y m d h mi s ns) = ns"
    using assms(4,5) by (simp add: Nanosecond_def time_Date_def Let_def)
  then show ?thesis
    using time_Date_check [OF assms(4,5), of y m d h mi s] assms
    by (auto simp: checkedUTCTime_def Let_def valid_date_def valid_clock_def)
qed

text \<open>The shape the parser accepts.\<close>

definition date_shape :: "string \<Rightarrow> bool" where
  "date_shape v \<longleftrightarrow> 10 \<le> length v \<and> list_all digit (seg v 0 4) \<and> v ! 4 = CHR ''-'' \<and>
     list_all digit (seg v 5 2) \<and> v ! 7 = CHR ''-'' \<and> list_all digit (seg v 8 2)"

definition clock_shape :: "string \<Rightarrow> bool" where
  "clock_shape v \<longleftrightarrow> 19 \<le> length v \<and> v ! 10 \<in> {CHR ''T'', CHR '' ''} \<and>
     list_all digit (seg v 11 2) \<and> v ! 13 = CHR '':'' \<and>
     list_all digit (seg v 14 2) \<and> v ! 16 = CHR '':'' \<and> list_all digit (seg v 17 2) \<and>
     (case fraction v of None \<Rightarrow> False
      | Some (ns, i) \<Rightarrow> i = length v \<or> Suc i = length v \<and> v ! i = CHR ''Z'')"

definition num :: "string \<Rightarrow> nat \<Rightarrow> nat \<Rightarrow> int" where
  "num v start count = int (val_dec (seg v start count) 0)"

lemma ParseFast_result:
  assumes "v = trim_space raw"
  shows "ParseFastUTCTimestamp raw = Inr (
    if \<not> date_shape v then None
    else if length v = 10 then checkedUTCTime (num v 0 4) (num v 5 2) (num v 8 2) 0 0 0 0
    else if clock_shape v then
      checkedUTCTime (num v 0 4) (num v 5 2) (num v 8 2) (num v 11 2) (num v 14 2) (num v 17 2)
        (int (fst (the (fraction v))))
    else None)"
proof (cases "date_shape v \<and> 19 \<le> length v")
  case False
  then show ?thesis
    unfolding ParseFastUTCTimestamp_def Let_def assms [symmetric]
    by (auto simp: date_shape_def clock_shape_def parseFixedDigits_seg charAt_def idx_in num_def)
next
  case True
  then have d: "date_shape v" and l: "19 \<le> length v" by simp_all
  have frac: "(if 19 < length v then
       bindR (idx v 19) (\<lambda>c. if c = CHR ''.'' then parseFractionalNanos v 20 else Inr (Some (0, 19)))
     else Inr (Some (0, 19))) = (Inr (fraction v) :: (nat \<times> nat) parsed)"
    by (simp add: fraction_def idx_in parseFractionalNanos_run [OF refl] Let_def)
  show ?thesis
  proof (cases "fraction v")
    case None
    then show ?thesis
      using d l frac unfolding ParseFastUTCTimestamp_def Let_def assms [symmetric]
      by (auto simp: date_shape_def clock_shape_def parseFixedDigits_seg charAt_def idx_in num_def)
  next
    case (Some p)
    obtain ns i where p: "p = (ns, i)" by (cases p)
    note f = fraction_Some [OF Some [unfolded p]]
    show ?thesis
      using d l frac f Some p unfolding ParseFastUTCTimestamp_def Let_def assms [symmetric]
      by (auto simp: date_shape_def clock_shape_def parseFixedDigits_seg charAt_def idx_in num_def)
  qed
qed

section \<open>Agreement with the general parser\<close>

lemma getnum_seg:
  "i + 2 \<le> length v \<Longrightarrow> list_all digit (seg v i 2) \<Longrightarrow>
   getnum fixed (drop i v) = Some (val_dec (seg v i 2) 0, drop (i + 2) v)"
proof -
  assume len: "i + 2 \<le> length v" and d: "list_all digit (seg v i 2)"
  have v: "drop i v = v ! i # v ! Suc i # drop (i + 2) v"
    using len by (simp add: Cons_nth_drop_Suc [symmetric])
  have "digit (v ! i)" "digit (v ! Suc i)" using d by (simp_all add: seg_def v)
  then show ?thesis by (simp add: getnum_def seg_def v)
qed

lemma skip_char_seg: "i < length v \<Longrightarrow> v ! i = c \<Longrightarrow> skip_char c (drop i v) = Some (drop (Suc i) v)"
  by (simp add: skip_char_def Cons_nth_drop_Suc [symmetric])

lemma parse_year_seg:
  "4 \<le> length v \<Longrightarrow> list_all digit (seg v 0 4) \<Longrightarrow> parse_year v = Some (val_dec (seg v 0 4) 0, drop 4 v)"
  by (simp add: parse_year_def seg_def)

lemma digit_not: "\<not> digit (CHR ''Z'')" "\<not> digit (CHR ''.'')"
  by (simp_all add: digit_def)

lemma fraction_parse_nanos:
  assumes "fraction v = Some (ns, i)" "Suc i = length v" "v ! i = CHR ''Z''"
  shows "parse_nanos (drop 19 v) = (ns, ''Z'')"
proof (cases "v ! 19 = CHR ''.''")
  case True
  define ds where "ds = takeWhile digit (drop 20 v)"
  have l: "19 < length v" using fraction_Some [OF assms(1)] assms(2) by auto
  have ds: "ds \<noteq> []" "length ds \<le> 9" "ns = val_dec ds 0 * 10 ^ (9 - length ds)" "i = 20 + length ds"
    using assms(1) True l unfolding fraction_def Let_def ds_def [symmetric] by (auto split: if_splits)
  have v: "drop 19 v = CHR ''.'' # drop 20 v" using l True by (simp add: Cons_nth_drop_Suc [symmetric])
  have "drop i v = ''Z''" using assms(2,3) Cons_nth_drop_Suc [of i v] by simp
  then have "drop (length ds) (drop 20 v) = ''Z''" by (simp add: ds(4) add.commute)
  moreover have "drop 20 v \<noteq> []" "digit (hd (drop 20 v))"
    using ds(1) unfolding ds_def by (cases "drop 20 v"; simp split: if_splits)+
  ultimately show ?thesis
    using ds(2,3) unfolding v parse_nanos_def
    by (cases "drop 20 v") (auto simp: Let_def ds_def)
next
  case False
  then have "i = 19" "ns = 0" using assms(1) by (auto simp: fraction_def split: if_splits)
  then have "drop 19 v = ''Z''" using assms(2,3) by (simp add: Cons_nth_drop_Suc [symmetric])
  with \<open>ns = 0\<close> show ?thesis by (simp add: parse_nanos_def)
qed

lemma fast_agrees:
  assumes "v = trim_space raw" "ParseFastUTCTimestamp raw = Inr (Some t)"
    and "10 < length v" "v ! 10 = CHR ''T''" "last v = CHR ''Z''"
  shows "ParseRFC3339 v = Some t"
proof -
  have shape: "date_shape v" "clock_shape v"
    and t: "checkedUTCTime (num v 0 4) (num v 5 2) (num v 8 2) (num v 11 2) (num v 14 2) (num v 17 2)
        (int (fst (the (fraction v)))) = Some t"
    using assms(2,3) unfolding ParseFast_result [OF assms(1)] by (auto split: if_splits)
  obtain ns i where f: "fraction v = Some (ns, i)"
    and i: "i = length v \<or> Suc i = length v \<and> v ! i = CHR ''Z''"
    using shape(2) by (auto simp: clock_shape_def split: option.splits)
  have l: "19 \<le> length v" using shape(2) by (simp add: clock_shape_def)
  have z: "Suc i = length v \<and> v ! i = CHR ''Z''"
  proof (rule ccontr)
    assume "\<not> ?thesis"
    with i have li: "i = length v" by simp
    have "digit (v ! (i - 1))"
    proof (cases "i = 19")
      case True
      have "seg v 17 2 = [v ! 17, v ! 18]" using l by (simp add: seg_def Cons_nth_drop_Suc [symmetric])
      then show ?thesis using True shape(2) by (simp add: clock_shape_def)
    qed (use fraction_Some [OF f] in simp)
    moreover have "v ! (i - 1) = CHR ''Z''" using assms(5) l li by (metis last_conv_nth list.size(3) not_numeral_le_zero)
    ultimately show False using digit_not by simp
  qed
  have "ParseRFC3339 v =
      (if valid_date (num v 0 4) (num v 5 2) (num v 8 2) \<and> num v 11 2 < 24 \<and> num v 14 2 < 60 \<and> num v 17 2 < 60
       then let t = time_Date (num v 0 4) (num v 5 2) (num v 8 2) (num v 11 2) (num v 14 2) (num v 17 2) (int ns)
            in Some (t\<lparr>tsec := tsec t - 0, tzoff := 0\<rparr>)
       else None)"
    using shape l assms(4) fraction_parse_nanos [OF f] z
    unfolding ParseRFC3339_def date_shape_def clock_shape_def
    by (simp add: parse_year_seg getnum_seg skip_char_seg parse_zone_def num_def)
  moreover have "tzoff (time_Date a b c d e f g) = 0" for a b c d e f g by (simp add: time_Date_def Let_def)
  moreover have "valid_date (num v 0 4) (num v 5 2) (num v 8 2) \<and>
      valid_clock (num v 11 2) (num v 14 2) (num v 17 2) (int ns)"
    "t = time_Date (num v 0 4) (num v 5 2) (num v 8 2) (num v 11 2) (num v 14 2) (num v 17 2) (int ns)"
    using t f fraction_Some [OF f] by (auto simp: checkedUTCTime_iff num_def split: if_splits)
  ultimately show ?thesis by (auto simp: valid_clock_def Let_def)
qed

section \<open>Canonical texts\<close>

lemma fmt_nano_digits:
  assumes "ns < 1000000000" "ns \<noteq> 0"
  obtains ds where "fmt_nano ns = CHR ''.'' # ds" "ds \<noteq> []" "list_all digit ds" "length ds \<le> 9"
    "val_dec ds 0 * 10 ^ (9 - length ds) = ns"
proof -
  define ds where "ds = rev (dropWhile (\<lambda>c. c = CHR ''0'') (rev (fmt_0d 9 ns)))"
  have n9: "ns < 10 ^ 9" using assms(1) by simp
  note p = fmt_0d_props [OF n9]
  note s = val_dec_strip(1) [OF p(3) ds_def, of 0] val_dec_strip(2-) [OF p(3) ds_def]
  show thesis
  proof (rule that)
    show "fmt_nano ns = CHR ''.'' # ds" using assms(2) by (simp add: fmt_nano_def ds_def)
  qed (use s p assms(2) in simp_all)
qed

lemma takeWhile_digits_Z: "list_all digit ds \<Longrightarrow> takeWhile digit (ds @ ''Z'') = ds"
  by (induction ds) (simp_all add: digit_not)

lemma digit_graphic: "digit c \<Longrightarrow> 33 \<le> (of_char c :: nat) \<and> (of_char c :: nat) \<le> 126"
  by (simp add: digit_def)

lemma fmt_nano_graphic:
  assumes "ns < 1000000000" "c \<in> set (fmt_nano ns)"
  shows "33 \<le> (of_char c :: nat) \<and> (of_char c :: nat) \<le> 126"
proof (cases "ns = 0")
  case True
  with assms show ?thesis by (simp add: fmt_nano_def)
next
  case False
  obtain ds where "fmt_nano ns = CHR ''.'' # ds" "list_all digit ds"
    using fmt_nano_digits [OF assms(1) False] .
  with assms(2) digit_graphic show ?thesis by (auto simp: list_all_iff)
qed

lemma fraction_fmt:
  assumes "drop 19 v = fmt_nano ns @ ''Z''" "19 < length v" "ns < 1000000000"
  shows "\<exists>i. fraction v = Some (ns, i) \<and> Suc i = length v \<and> v ! i = CHR ''Z''"
proof (cases "ns = 0")
  case True
  then have "drop 19 v = ''Z''" using assms by (simp add: fmt_nano_def)
  then have "length v - 19 = 1" "v ! 19 = CHR ''Z''"
    using assms(2) by (metis length_drop length_Cons list.size(3) One_nat_def)
      (metis \<open>drop 19 v = ''Z''\<close> hd_drop_conv_nth list.sel(1) assms(2))
  then show ?thesis using True assms(2) by (simp add: fraction_def)
next
  case False
  obtain ds where ds: "fmt_nano ns = CHR ''.'' # ds" "ds \<noteq> []" "list_all digit ds" "length ds \<le> 9"
    "val_dec ds 0 * 10 ^ (9 - length ds) = ns"
    using fmt_nano_digits [OF assms(3) False] .
  have d19: "drop 19 v = CHR ''.'' # ds @ ''Z''" using assms(1) ds(1) by simp
  then have c: "v ! 19 = CHR ''.''" using assms(2) by (metis hd_drop_conv_nth list.sel(1))
  have d20: "drop 20 v = ds @ ''Z''"
  proof -
    have "drop 20 v = tl (drop 19 v)" by (simp add: tl_drop drop_Suc flip: drop_Suc)
    then show ?thesis by (simp add: d19)
  qed
  have l: "length v = 20 + length ds + 1" using arg_cong [OF d19, of length] assms(2) by simp
  have "v ! (20 + length ds) = drop 20 v ! length ds" using l by simp
  then have "v ! (20 + length ds) = CHR ''Z''" by (simp add: d20)
  then show ?thesis
    using c assms(2) l ds takeWhile_digits_Z [OF ds(3)] by (simp add: fraction_def d20)
qed

lemma fast_canonical:
  assumes "tzoff t = 0" "0 \<le> tnsec t" "tnsec t < 1000000000" "0 \<le> Year t" "Year t < 10000"
  shows "ParseFastUTCTimestamp (FormatRFC3339Nano t) = Inr (Some t)"
proof -
  define y m d h mi s ns where
    "y = nat (Year t)" and "m = nat (Month t)" and "d = nat (Day t)" and "h = nat (Hour t)" and
    "mi = nat (Minute t)" and "s = nat (Second t)" and "ns = nat (Nanosecond t)"
  note f = time_fields_valid [of t]
  have month: "1 \<le> Month t" "Month t \<le> 12" "1 \<le> Day t" "Day t \<le> 31"
    using f(1) unfolding valid_date_def by (auto simp: days_in_month_def split: if_splits)
  have ints: "int y = Year t" "int m = Month t" "int d = Day t" "int h = Hour t" "int mi = Minute t"
    "int s = Second t" "int ns = Nanosecond t"
    using assms f month by (simp_all add: y_def m_def d_def h_def mi_def s_def ns_def Nanosecond_def)
  have ns: "ns < 1000000000" using assms ints(7) by (simp add: Nanosecond_def)
  define v where "v = fmt_0d 4 y @ CHR ''-'' # fmt_0d 2 m @ CHR ''-'' # fmt_0d 2 d @ CHR ''T'' #
    fmt_0d 2 h @ CHR '':'' # fmt_0d 2 mi @ CHR '':'' # fmt_0d 2 s @ fmt_nano ns @ ''Z''"
  have v: "FormatRFC3339Nano t = v"
    using assms(1,4) by (simp add: FormatRFC3339Nano_def v_def y_def m_def d_def h_def mi_def s_def
        ns_def fmt_zone_def)
  have bounds: "y < 10 ^ 4" "m < 10 ^ 2" "d < 10 ^ 2" "h < 10 ^ 2" "mi < 10 ^ 2" "s < 10 ^ 2"
    using assms f month ints by simp_all
  note P = fmt_0d_props [OF bounds(1)] fmt_0d_props [OF bounds(2)] fmt_0d_props [OF bounds(3)]
    fmt_0d_props [OF bounds(4)] fmt_0d_props [OF bounds(5)] fmt_0d_props [OF bounds(6)]
  have rest: "drop 19 v = fmt_nano ns @ ''Z''" "19 < length v" using P by (simp_all add: v_def)
  have segs: "seg v 0 4 = fmt_0d 4 y" "seg v 5 2 = fmt_0d 2 m" "seg v 8 2 = fmt_0d 2 d"
    "seg v 11 2 = fmt_0d 2 h" "seg v 14 2 = fmt_0d 2 mi" "seg v 17 2 = fmt_0d 2 s"
    using P by (simp_all add: seg_def v_def)
  have chars: "v ! 4 = CHR ''-''" "v ! 7 = CHR ''-''" "v ! 10 = CHR ''T''" "v ! 13 = CHR '':''"
    "v ! 16 = CHR '':''"
    using P by (simp_all add: v_def nth_append)
  note fr = fraction_fmt [OF rest ns]
  have tr: "trim_space v = v"
  proof (rule trim_space_graphic)
    have "list_all digit x \<Longrightarrow> c \<in> set x \<Longrightarrow> 33 \<le> (of_char c :: nat) \<and> (of_char c :: nat) \<le> 126" for x c
      using digit_graphic by (auto simp: list_all_iff)
    then show "\<forall>c \<in> set v. 33 \<le> (of_char c :: nat) \<and> (of_char c :: nat) \<le> 126"
      using P fmt_nano_graphic [OF ns] unfolding v_def by auto
  qed
  have shape: "date_shape v" "clock_shape v" "length v \<noteq> 10"
    using P segs chars rest(2) fr by (auto simp: date_shape_def clock_shape_def)
  have nums: "num v 0 4 = Year t" "num v 5 2 = Month t" "num v 8 2 = Day t" "num v 11 2 = Hour t"
    "num v 14 2 = Minute t" "num v 17 2 = Second t"
    using P ints by (simp_all add: num_def segs)
  have "ParseFastUTCTimestamp v = Inr (checkedUTCTime (Year t) (Month t) (Day t) (Hour t) (Minute t)
      (Second t) (Nanosecond t))"
    using shape fr ints(7) unfolding ParseFast_result [OF tr [symmetric]] nums by auto
  also have "\<dots> = Inr (Some t)"
    using f assms time_Date_of_fields [OF assms(1-3)]
    by (simp add: checkedUTCTime_iff valid_clock_def Nanosecond_def)
  finally show ?thesis unfolding v .
qed

section \<open>Properties\<close>

text \<open>C17: The fast timestamp parser of the ingest path never reads outside its text and never
  disagrees with Go's RFC 3339 parser: whatever it returns for a trimmed text with a \<open>T\<close> separator
  and a final \<open>Z\<close> is what the general parser returns, and it does return the instant for every
  RFC 3339 text that formatting a UTC instant of a year 0 to 9999 produces.\<close>

theorem ParseFastUTCTimestamp_agrees:
  assumes "tzoff u = 0" "0 \<le> tnsec u" "tnsec u < 1000000000" "0 \<le> Year u" "Year u < 10000"
  shows "no_panic (ParseFastUTCTimestamp raw) \<and>
    (\<forall>t. ParseFastUTCTimestamp raw = Inr (Some t) \<longrightarrow>
       10 < length (trim_space raw) \<and> trim_space raw ! 10 = CHR ''T'' \<and> last (trim_space raw) = CHR ''Z'' \<longrightarrow>
       ParseRFC3339 (trim_space raw) = Some t) \<and>
    ParseFastUTCTimestamp (FormatRFC3339Nano u) = Inr (Some u)"
proof (intro conjI allI impI)
  show "no_panic (ParseFastUTCTimestamp raw)"
    unfolding ParseFast_result [OF refl] by (rule no_panic_Inr)
  show "ParseFastUTCTimestamp (FormatRFC3339Nano u) = Inr (Some u)" using assms by (rule fast_canonical)
qed (use fast_agrees [OF refl, of raw] in blast)

text \<open>Witness: the text \<open>2024-02-29T01:02:03.0Z\<close> between spaces, and the zero time.\<close>

theorem ParseFastUTCTimestamp_agrees_witness:
  "\<exists>t. ParseFastUTCTimestamp '' 2024-02-29T01:02:03.0Z '' = Inr (Some t) \<and>
     ParseRFC3339 ''2024-02-29T01:02:03.0Z'' = Some t \<and>
     ParseFastUTCTimestamp (FormatRFC3339Nano zero_time) = Inr (Some zero_time)"
proof -
  let ?raw = "'' 2024-02-29T01:02:03.0Z ''"
  have tr: "trim_space ?raw = ''2024-02-29T01:02:03.0Z''" by code_simp
  have y: "tzoff zero_time = 0" "0 \<le> tnsec zero_time" "tnsec zero_time < 1000000000"
    "0 \<le> Year zero_time" "Year zero_time < 10000" by code_simp+
  have "ParseFastUTCTimestamp ?raw = Inr (Some (time_Date 2024 2 29 1 2 3 0))" by code_simp
  then show ?thesis using ParseFastUTCTimestamp_agrees [OF y, of ?raw] by (simp add: tr)
qed

end
