(* ===== verification/PK_Resolver.thy ===== *)
theory PK_Resolver
  imports Column_IDs Time_Parse
begin

text \<open>
  Resolution of a primary key to a row: the exact numeric form of compound keys
  (\<^verbatim>\<open>core/primary_key_authority_value.go\<close>), the cached state of key domains
  (\<^verbatim>\<open>core/primary_key_domain_state.go\<close>), the identities of the current batch
  (\<^verbatim>\<open>shared/batch.go\<close>) and the resolver over an abstract key backend
  (\<^verbatim>\<open>core/primary_key_bsi.go\<close>). The backend is an interface of the program; it is a record of its
  operations on a state of its own. Elapsed times are not modelled, the counters of the profile are.
\<close>

section \<open>Compound keys as numbers\<close>

datatype SharedType =
    NotExist | SharedString | Integer | SharedFloat | Boolean | JSON | SharedDate | SharedDateTime
  | NotDefined

definition TypeFromString :: "string \<Rightarrow> SharedType" where
  "TypeFromString vt =
     (if vt = ''NotExist'' then NotExist
      else if vt = ''String'' then SharedString
      else if vt = ''Integer'' then Integer
      else if vt = ''Float'' then SharedFloat
      else if vt = ''Boolean'' then Boolean
      else if vt = ''JSON'' then JSON
      else if vt = ''Date'' then SharedDate
      else if vt = ''DateTime'' then SharedDateTime
      else NotDefined)"

datatype component_detail =
    NilValue | NilBigInt | BigIntRange | EmptyString | NeedsCatalogType | UnsupportedString
  | BadInteger string | BadTimestamp string | UnsupportedType string

datatype authority_error =
    AuthorityTableName | AuthorityPrimaryKeyName | AuthorityTwoValues | AuthorityAttributes nat nat
  | AuthorityComponent string component_detail

definition compoundPrimaryKeyAuthorityValueComponentError ::
  "Attribute option \<Rightarrow> component_detail \<Rightarrow> authority_error" where
  "compoundPrimaryKeyAuthorityValueComponentError attr detail =
     AuthorityComponent
       (case Option.bind attr BasicAttribute of
          Some a \<Rightarrow> if FieldName a \<noteq> '''' then FieldName a else ''(unknown)''
        | None \<Rightarrow> ''(unknown)'') detail"

text \<open>\<^verbatim>\<open>strconv.ParseInt(s, 10, 64)\<close>.\<close>

definition ParseInt64 :: "string \<Rightarrow> int option" where
  "ParseInt64 s =
     (let neg = take 1 s = ''-''; body = (if take 1 s = ''-'' \<or> take 1 s = ''+'' then tl s else s);
          n = int (val_dec body 0)
      in if body = [] \<or> \<not> list_all digit body then None
         else if neg then (if n \<le> 2 ^ 63 then Some (- n) else None)
         else (if n < 2 ^ 63 then Some n else None))"

text \<open>\<^verbatim>\<open>time.Parse\<close> with a layout that has a blank between date and time: the blank of the layout stands for
  any run of blanks, the fraction and the zone are as the layout has them.\<close>

definition skip_blank :: "string \<Rightarrow> string option" where
  "skip_blank s = (if s \<noteq> [] \<and> hd s \<noteq> CHR '' '' then None else Some (dropWhile (\<lambda>c. c = CHR '' '') s))"

definition parse_blank_layout ::
  "(string \<Rightarrow> (nat \<times> string) option) \<Rightarrow> (string \<Rightarrow> (int \<times> string) option) \<Rightarrow> string \<Rightarrow> Time option" where
  "parse_blank_layout frac zone s =
     do {
       (year, s) \<leftarrow> parse_year s;
       s \<leftarrow> skip_char (CHR ''-'') s;
       (month, s) \<leftarrow> getnum True s;
       s \<leftarrow> skip_char (CHR ''-'') s;
       (day, s) \<leftarrow> getnum True s;
       s \<leftarrow> skip_blank s;
       (hour, s) \<leftarrow> getnum False s;
       s \<leftarrow> skip_char (CHR '':'') s;
       (minute, s) \<leftarrow> getnum True s;
       s \<leftarrow> skip_char (CHR '':'') s;
       (second, s) \<leftarrow> getnum True s;
       (nanos, s) \<leftarrow> frac s;
       (offset, s) \<leftarrow> zone s;
       if s = [] \<and> valid_date (int year) (int month) (int day) \<and> hour < 24 \<and> minute < 60 \<and> second < 60 then
         let t = time_Date (int year) (int month) (int day) (int hour) (int minute) (int second) (int nanos)
         in Some (t\<lparr>tsec := tsec t - offset, tzoff := offset\<rparr>)
       else None
     }"

text \<open>The fraction \<^verbatim>\<open>.999999999\<close> of a layout is optional and of any length; \<^verbatim>\<open>.000\<close> takes three bytes,
  which the package reads as a number with an optional sign.\<close>

definition frac_nines :: "string \<Rightarrow> (nat \<times> string) option" where
  "frac_nines s = Some (parse_nanos s)"

definition frac_zeros :: "string \<Rightarrow> (nat \<times> string) option" where
  "frac_zeros s =
     (let body = take 3 (drop 1 s); ds = (if take 1 body = ''-'' \<or> take 1 body = ''+'' then tl body else body) in
      if length s < 4 \<or> hd s \<noteq> CHR ''.'' \<and> hd s \<noteq> CHR '','' then None
      else if \<not> list_all digit ds \<or> take 1 body = ''-'' \<and> val_dec ds 0 \<noteq> 0 then None
      else Some (val_dec ds 0 * 10 ^ 6, drop 4 s))"

definition literal_Z :: "string \<Rightarrow> (int \<times> string) option" where
  "literal_Z s = map_option (\<lambda>s. (0, s)) (skip_char (CHR ''Z'') s)"

definition parseLayouts :: "string \<Rightarrow> Time option" where
  "parseLayouts s =
     (case ParseRFC3339 s of
        Some t \<Rightarrow> Some t
      | None \<Rightarrow>
          (case parse_blank_layout frac_nines parse_zone s of
             Some t \<Rightarrow> Some t
           | None \<Rightarrow>
               (case parse_blank_layout frac_nines literal_Z s of
                  Some t \<Rightarrow> Some t
                | None \<Rightarrow> parse_blank_layout frac_zeros literal_Z s)))"

text \<open>\<open>dateparse\<close> stands for the date-parsing package that the code tries last.\<close>

definition parseTimestampMapperString :: "(string \<Rightarrow> Time option) \<Rightarrow> string \<Rightarrow> Time parsed" where
  "parseTimestampMapperString dateparse v =
     (let trimmed = trim_space v in
      bindR (ParseFastUTCTimestamp trimmed) (\<lambda>p.
        case p of
          Some t \<Rightarrow> Inr (Some t)
        | None \<Rightarrow> Inr (case parseLayouts trimmed of Some t \<Rightarrow> Some t | None \<Rightarrow> dateparse trimmed)))"

definition normalizeCompoundPrimaryKeyAuthorityValueComponent ::
  "(string \<Rightarrow> Time option) \<Rightarrow> Attribute option \<Rightarrow> key_value \<Rightarrow> (authority_error, key_value) res" where
  "normalizeCompoundPrimaryKeyAuthorityValueComponent dateparse attr v =
     (let failed = (\<lambda>d. Inl (Err (compoundPrimaryKeyAuthorityValueComponentError attr d))) in
      case v of
        KAny (AString s) \<Rightarrow>
          let str = trim_space s in
          if str = '''' then failed EmptyString
          else (case Option.bind attr BasicAttribute of
                  None \<Rightarrow> failed NeedsCatalogType
                | Some a \<Rightarrow>
                    (case TypeFromString (Type a) of
                       Integer \<Rightarrow>
                         (case ParseInt64 str of
                            None \<Rightarrow> failed (BadInteger str)
                          | Some n \<Rightarrow> Inr (KAny (AInt64 (word_of_int n))))
                     | SharedDate \<Rightarrow>
                         (case parseTimestampMapperString dateparse str of
                            Inl _ \<Rightarrow> Inl Panic
                          | Inr None \<Rightarrow> failed (BadTimestamp str)
                          | Inr (Some t) \<Rightarrow> Inr (KAny (ATime t)))
                     | SharedDateTime \<Rightarrow>
                         (case parseTimestampMapperString dateparse str of
                            Inl _ \<Rightarrow> Inl Panic
                          | Inr None \<Rightarrow> failed (BadTimestamp str)
                          | Inr (Some t) \<Rightarrow> Inr (KAny (ATime t)))
                     | _ \<Rightarrow> failed UnsupportedString))
      | _ \<Rightarrow> Inr v)"

fun componentWord :: "key_value \<Rightarrow> component_detail + u64" where
  "componentWord (KAny (AInt n)) = Inr n"
| "componentWord (KAny (AInt8 n)) = Inr (scast n)"
| "componentWord (KAny (AInt16 n)) = Inr (scast n)"
| "componentWord (KAny (AInt32 n)) = Inr (scast n)"
| "componentWord (KAny (AInt64 n)) = Inr n"
| "componentWord (KAny (AUint n)) = Inr n"
| "componentWord (KAny (AUint8 n)) = Inr (ucast n)"
| "componentWord (KAny (AUint16 n)) = Inr (ucast n)"
| "componentWord (KAny (AUint32 n)) = Inr (ucast n)"
| "componentWord (KAny (AUint64 n)) = Inr n"
| "componentWord (KBigInt None) = Inl NilBigInt"
| "componentWord (KBigInt (Some n)) =
     (if n < 0 \<or> n \<ge> 2 ^ 64 then Inl BigIntRange else Inr (word_of_int n))"
| "componentWord (KAny (ATime t)) = Inr (UnixNano (UTC t))"
| "componentWord (KBytes _) = Inl (UnsupportedType ''[]uint8'')"
| "componentWord (KAny a) = Inl (UnsupportedType (type_name a))"

text \<open>\<^verbatim>\<open>binary.BigEndian.PutUint64\<close>.\<close>

definition be_bytes :: "u64 \<Rightarrow> byte list" where
  "be_bytes w = rev (le_bytes 8 (unat w))"

definition appendCompoundPrimaryKeyAuthorityValueComponent ::
  "(string \<Rightarrow> Time option) \<Rightarrow> byte list \<Rightarrow> Attribute option \<Rightarrow> key_value \<Rightarrow> (authority_error, byte list) res" where
  "appendCompoundPrimaryKeyAuthorityValueComponent dateparse buf attr v =
     (if v = KAny ANil then Inl (Err (compoundPrimaryKeyAuthorityValueComponentError attr NilValue))
      else
        bindR (normalizeCompoundPrimaryKeyAuthorityValueComponent dateparse attr v) (\<lambda>v.
          case componentWord v of
            Inl d \<Rightarrow> Inl (Err (compoundPrimaryKeyAuthorityValueComponentError attr d))
          | Inr w \<Rightarrow> Inr (buf @ be_bytes w)))"

fun appendComponents ::
  "(string \<Rightarrow> Time option) \<Rightarrow> Attribute option list \<Rightarrow> nat \<Rightarrow> key_value list \<Rightarrow> byte list \<Rightarrow>
   (authority_error, byte list) res" where
  "appendComponents dateparse attrs i [] buf = Inr buf"
| "appendComponents dateparse attrs i (v # vs) buf =
     bindR (idx attrs i) (\<lambda>attr.
     bindR (appendCompoundPrimaryKeyAuthorityValueComponent dateparse buf attr v)
       (appendComponents dateparse attrs (Suc i) vs))"

text \<open>\<^verbatim>\<open>big.Int.SetBytes\<close> reads the bytes as a big-endian number.\<close>

definition SetBytes :: "byte list \<Rightarrow> int" where
  "SetBytes bs = int (le_val (rev bs))"

definition EncodeCompoundPrimaryKeyAuthorityValue ::
  "(string \<Rightarrow> Time option) \<Rightarrow> string \<Rightarrow> string \<Rightarrow> Attribute option list \<Rightarrow> key_value list \<Rightarrow>
   (authority_error, int) res" where
  "EncodeCompoundPrimaryKeyAuthorityValue dateparse tableName primaryKey attrs values =
     (if tableName = '''' then Inl (Err AuthorityTableName)
      else if primaryKey = '''' then Inl (Err AuthorityPrimaryKeyName)
      else if length values < 2 then Inl (Err AuthorityTwoValues)
      else if length attrs \<noteq> length values then Inl (Err (AuthorityAttributes (length values) (length attrs)))
      else bindR (appendComponents dateparse attrs 0 values []) (\<lambda>buf. Inr (SetBytes buf)))"

definition optionalCompoundPrimaryKeyAuthorityValue ::
  "(string \<Rightarrow> Time option) \<Rightarrow> string \<Rightarrow> string \<Rightarrow> Attribute option list \<Rightarrow> key_value list \<Rightarrow> int option" where
  "optionalCompoundPrimaryKeyAuthorityValue dateparse tableName primaryKey attrs values =
     (if length values < 2 then None
      else case EncodeCompoundPrimaryKeyAuthorityValue dateparse tableName primaryKey attrs values of
             Inl _ \<Rightarrow> None
           | Inr n \<Rightarrow> Some n)"

section \<open>Sessions, batches and domain states\<close>

datatype PrimaryKeyDomainState =
    PrimaryKeyDomainUnknown | PrimaryKeyDomainEmpty | PrimaryKeyDomainNonEmpty
  | PrimaryKeyDomainOther string

text \<open>Of a session the resolver uses the open batch, of which it uses the identities, the cached
  domain states and the index client.\<close>

record Session =
  BatchBuffer :: "(byte list \<rightharpoonup> u64) option"
  primaryKeyDomainStates :: "string \<rightharpoonup> PrimaryKeyDomainState"
  BitIndex :: BitmapIndex

definition SetPrimaryKeyIdentity :: "(byte list \<rightharpoonup> u64) \<Rightarrow> byte list \<Rightarrow> u64 \<Rightarrow> (byte list \<rightharpoonup> u64)" where
  "SetPrimaryKeyIdentity batch identity columnID =
     (if length identity = 0 \<or> columnID = 0 then batch
      else if batch identity = None then batch(identity \<mapsto> columnID)
      else batch)"

definition LookupLocalCIDForPrimaryKeyIdentity :: "(byte list \<rightharpoonup> u64) \<Rightarrow> byte list \<Rightarrow> u64 option" where
  "LookupLocalCIDForPrimaryKeyIdentity batch identity =
     (if length identity = 0 then None else batch identity)"

text \<open>\<^verbatim>\<open>Session.flush\<close>, as far as the resolver can see it: a batch that holds mutations is replaced
  by an empty one, also when sending it fails.\<close>

definition flush :: "bool \<Rightarrow> Session \<Rightarrow> Session" where
  "flush isEmpty s =
     (if BatchBuffer s \<noteq> None \<and> \<not> isEmpty then s\<lparr>BatchBuffer := Some Map.empty\<rparr> else s)"

definition normalizePrimaryKeyDomainState :: "PrimaryKeyDomainState \<Rightarrow> PrimaryKeyDomainState" where
  "normalizePrimaryKeyDomainState state =
     (if state = PrimaryKeyDomainEmpty \<or> state = PrimaryKeyDomainNonEmpty then state
      else PrimaryKeyDomainUnknown)"

definition bsiPrimaryKeyDomainKey :: "BSIPrimaryKeyLookupRequest \<Rightarrow> TableBuffer \<Rightarrow> string" where
  "bsiPrimaryKeyDomainKey req tbuf =
     (let shardNanos =
        (if TimeQuantumType (Table tbuf) \<noteq> '''' \<and> \<not> IsZero (ShardTimestamp req)
         then sint (UnixNano (UTC (ShardTimestamp req))) else 0)
      in TableName req @ ''|'' @ PrimaryKey req @ ''|'' @ FormatInt shardNanos)"

definition bsiPrimaryKeyAuthorityKey :: "BSIPrimaryKeyLookupRequest \<Rightarrow> string" where
  "bsiPrimaryKeyAuthorityKey req = TableName req @ ''|'' @ PrimaryKey req @ ''|authority''"

definition cachedBSIPrimaryKeyDomainState :: "Session \<Rightarrow> string \<Rightarrow> PrimaryKeyDomainState option" where
  "cachedBSIPrimaryKeyDomainState s domainKey =
     (if domainKey = '''' then None
      else map_option normalizePrimaryKeyDomainState (primaryKeyDomainStates s domainKey))"

definition markBSIPrimaryKeyDomainState :: "Session \<Rightarrow> string \<Rightarrow> PrimaryKeyDomainState \<Rightarrow> Session" where
  "markBSIPrimaryKeyDomainState s domainKey state =
     (if domainKey = '''' then s
      else let state = normalizePrimaryKeyDomainState state in
        if state = PrimaryKeyDomainUnknown then s
        else s\<lparr>primaryKeyDomainStates := (primaryKeyDomainStates s)(domainKey \<mapsto> state)\<rparr>)"

definition markBSIPrimaryKeyAuthorityNonEmpty :: "Session \<Rightarrow> string \<Rightarrow> Session" where
  "markBSIPrimaryKeyAuthorityNonEmpty s authorityKey =
     markBSIPrimaryKeyDomainState s authorityKey PrimaryKeyDomainNonEmpty"

definition bsiPrimaryKeyAuthorityKnownNonEmpty :: "Session \<Rightarrow> string \<Rightarrow> bool" where
  "bsiPrimaryKeyAuthorityKnownNonEmpty s authorityKey \<longleftrightarrow>
     cachedBSIPrimaryKeyDomainState s authorityKey = Some PrimaryKeyDomainNonEmpty"

definition assumeNew :: "string \<Rightarrow> bool" where
  "assumeNew m \<longleftrightarrow> EqualFold m ''assume_new''"

definition Normalize :: "string \<Rightarrow> string" where
  "Normalize m = (if assumeNew m then ''assume_new'' else ''verify_existing'')"

section \<open>The resolver\<close>

record PrimaryKeyResolveRequest =
  LookupValue :: string
  PrimaryKeyValues :: "key_value list"
  ProvidedColumnID :: u64
  DirectColumnID :: bool
  LookupOnly :: bool
  requestMode :: string

record PrimaryKeyResolveProfile =
  ResolveCount :: nat
  LookupRequiredCount :: nat
  AssumeNewCount :: nat
  LocalCacheLookupCount :: nat
  LocalCacheHitCount :: nat
  BSILookupCount :: nat
  BSIHitCount :: nat
  SkippedBSILookupCount :: nat
  EmptyDomainProbeCount :: nat
  EmptyDomainSkipCount :: nat
  EmptyDomainNonEmptyCount :: nat
  EmptyDomainUnknownCount :: nat
  BSIStageWriteCount :: nat
  RownumAllocationCount :: nat
  ProvidedColumnIDCount :: nat
  DirectColumnIDCount :: nat
  BatchCacheWriteCount :: nat

record BSIPrimaryKeyLookupResult =
  foundColumnID :: u64
  Found :: bool
  MatchedColumnIDs :: "u64 list"

text \<open>\<^verbatim>\<open>BSIPrimaryKeyBackend\<close> with the optional \<^verbatim>\<open>BSIPrimaryKeyDomainStateBackend\<close>.\<close>

record 'b BSIPrimaryKeyBackend =
  LookupPrimaryKey :: "BSIPrimaryKeyLookupRequest \<Rightarrow> 'b \<Rightarrow> (string + BSIPrimaryKeyLookupResult) \<times> 'b"
  StagePrimaryKey :: "BSIPrimaryKeyStageRequest \<Rightarrow> 'b \<Rightarrow> string option \<times> 'b"
  DomainStateProbe :: "(BSIPrimaryKeyLookupRequest \<Rightarrow> 'b \<Rightarrow> (string + PrimaryKeyDomainState) \<times> 'b) option"

text \<open>What one resolution reads and writes.\<close>

record 'b resolving =
  session :: Session
  tableBuffer :: TableBuffer
  store :: 'b
  profile :: PrimaryKeyResolveProfile

datatype resolve_error =
    NilBackend | NilSession | NilTableBuffer
  | ValueCount nat nat | NilKeyValue string
  | IdentityError identity_error
  | LocalBatchConflict u64 u64
  | DomainStateError string | LookupError string | AuthorityConflict nat | StageError string
  | AllocationError sequence_error

type_synonym ('b, 'a) resolution = "'b resolving \<Rightarrow> (resolve_error, 'a) res \<times> 'b resolving"

definition counted :: "(PrimaryKeyResolveProfile \<Rightarrow> PrimaryKeyResolveProfile) \<Rightarrow> 'b resolving \<Rightarrow> 'b resolving" where
  "counted f st = st\<lparr>profile := f (profile st)\<rparr>"

definition no_counts :: PrimaryKeyResolveProfile where
  "no_counts = \<lparr>ResolveCount = 0, LookupRequiredCount = 0, AssumeNewCount = 0, LocalCacheLookupCount = 0,
     LocalCacheHitCount = 0, BSILookupCount = 0, BSIHitCount = 0, SkippedBSILookupCount = 0,
     EmptyDomainProbeCount = 0, EmptyDomainSkipCount = 0, EmptyDomainNonEmptyCount = 0,
     EmptyDomainUnknownCount = 0, BSIStageWriteCount = 0, RownumAllocationCount = 0,
     ProvidedColumnIDCount = 0, DirectColumnIDCount = 0, BatchCacheWriteCount = 0\<rparr>"

text \<open>A resolution starts with counters of its own; the elapsed times and the backend's own
  profile are not modelled.\<close>

definition started :: "'b resolving \<Rightarrow> 'b resolving" where
  "started st = st\<lparr>profile := no_counts\<lparr>ResolveCount := 1\<rparr>\<rparr>"

text \<open>\<^verbatim>\<open>t.PKAttributes[i].ColumnID\<close>.\<close>

definition columnIDAttribute :: "Attribute option list \<Rightarrow> nat \<Rightarrow> ('e, bool) res" where
  "columnIDAttribute attrs i =
     bindR (idx attrs i) (\<lambda>a.
       case Option.bind a BasicAttribute of None \<Rightarrow> Inl Panic | Some b \<Rightarrow> Inr (attrColumnID b))"

definition ShouldLookupPrimaryKey :: "TableBuffer \<Rightarrow> ('e, bool) res" where
  "ShouldLookupPrimaryKey t =
     (let attrs = PKAttributes t; tq = TimeQuantumType (Table t) in
      if length attrs = 0 then Inr False
      else bindR (columnIDAttribute attrs 0) (\<lambda>direct.
        if direct then Inr False
        else if tq \<noteq> '''' \<and> length attrs > 1 then
          bindR (columnIDAttribute attrs 1) (\<lambda>direct. Inr (\<not> direct))
        else Inr (tq = '''' \<and> length attrs > 0)))"

fun requireNonNil :: "Attribute option list \<Rightarrow> nat \<Rightarrow> key_value list \<Rightarrow> (resolve_error, unit) res" where
  "requireNonNil attrs i [] = Inr ()"
| "requireNonNil attrs i (v # vs) =
     (if v = KAny ANil then
        (case (if i < length attrs then attrs ! i else None) of
           None \<Rightarrow> Inl (Err (NilKeyValue (''value'' @ dec_nat i)))
         | Some a \<Rightarrow>
             (case BasicAttribute a of
                None \<Rightarrow> Inl Panic
              | Some b \<Rightarrow> Inl (Err (NilKeyValue (FieldName b)))))
      else requireNonNil attrs (Suc i) vs)"

definition validateBSIPrimaryKeyValues :: "PrimaryKeyResolveRequest \<Rightarrow> TableBuffer \<Rightarrow> (resolve_error, unit) res" where
  "validateBSIPrimaryKeyValues req tbuf =
     (if length (PrimaryKeyValues req) \<noteq> length (PKAttributes tbuf)
      then Inl (Err (ValueCount (length (PKAttributes tbuf)) (length (PrimaryKeyValues req))))
      else requireNonNil (PKAttributes tbuf) 0 (PrimaryKeyValues req))"

definition lookupMaterial :: "PrimaryKeyResolveRequest \<Rightarrow> TableBuffer \<Rightarrow> BSIPrimaryKeyLookupRequest" where
  "lookupMaterial req tbuf =
     \<lparr>TableName = Name (Table tbuf), PrimaryKey = tablePrimaryKey (Table tbuf),
      Attributes = PKAttributes tbuf, Values = PrimaryKeyValues req,
      ShardTimestamp = CurrentTimestamp tbuf, AuthorityValue = None, Identity = [],
      RenderedValue = LookupValue req, PrimaryKeyMode = Normalize (requestMode req)\<rparr>"

definition newBSIPrimaryKeyLookupRequest ::
  "(string \<Rightarrow> Time option) \<Rightarrow> PrimaryKeyResolveRequest \<Rightarrow> TableBuffer \<Rightarrow>
   (identity_error, BSIPrimaryKeyLookupRequest) res" where
  "newBSIPrimaryKeyLookupRequest dateparse req tbuf =
     (let lookupReq = lookupMaterial req tbuf in
      bindR (EncodeBSIPrimaryKeyLookupIdentity lookupReq) (\<lambda>identity.
        Inr (lookupReq\<lparr>Identity := identity,
          AuthorityValue := optionalCompoundPrimaryKeyAuthorityValue dateparse (TableName lookupReq)
            (PrimaryKey lookupReq) (Attributes lookupReq) (Values lookupReq)\<rparr>)))"

definition newBSIPrimaryKeyStageRequestFromLookup ::
  "BSIPrimaryKeyLookupRequest \<Rightarrow> u64 \<Rightarrow> BSIPrimaryKeyStageRequest" where
  "newBSIPrimaryKeyStageRequestFromLookup req columnID =
     \<lparr>TableName = TableName req, PrimaryKey = PrimaryKey req, Attributes = Attributes req,
      Values = Values req, ShardTimestamp = ShardTimestamp req, AuthorityValue = AuthorityValue req,
      Identity = Identity req, RenderedValue = RenderedValue req, ColumnID = columnID\<rparr>"

definition matchedColumnIDs :: "BSIPrimaryKeyLookupResult \<Rightarrow> u64 list" where
  "matchedColumnIDs r =
     (if length (MatchedColumnIDs r) > 0 then MatchedColumnIDs r
      else if Found r then [foundColumnID r] else [])"

definition allocatePrimaryKeyColumnID :: "PrimaryKeyResolveRequest \<Rightarrow> ('b, unit) resolution" where
  "allocatePrimaryKeyColumnID req st =
     (if ProvidedColumnID req \<noteq> 0 then
        (Inr (), counted (ProvidedColumnIDCount_update Suc)
           (st\<lparr>tableBuffer := (tableBuffer st)\<lparr>CurrentColumnID := ProvidedColumnID req\<rparr>\<rparr>))
      else
        (let st = counted (RownumAllocationCount_update Suc) st;
             (r, tbuf, bi) = NextColumnID (tableBuffer st) (BitIndex (session st))
         in (wrapErr AllocationError r,
             st\<lparr>tableBuffer := tbuf, session := (session st)\<lparr>BitIndex := bi\<rparr>\<rparr>)))"

definition resolveDirectColumnID :: "PrimaryKeyResolveRequest \<Rightarrow> ('b, u64 \<times> bool) resolution" where
  "resolveDirectColumnID req st =
     (if DirectColumnID req then
        (Inr (CurrentColumnID (tableBuffer st), False), counted (DirectColumnIDCount_update Suc) st)
      else case allocatePrimaryKeyColumnID req st of
             (Inl e, st) \<Rightarrow> (Inl e, st)
           | (Inr _, st) \<Rightarrow> (Inr (CurrentColumnID (tableBuffer st), False), st))"

text \<open>The last part of \<^verbatim>\<open>shouldSkipLookupForEmptyDomain\<close>: asking the backend.\<close>

definition probeDomain ::
  "'b BSIPrimaryKeyBackend \<Rightarrow> BSIPrimaryKeyLookupRequest \<Rightarrow> string \<Rightarrow> string \<Rightarrow> ('b, bool) resolution" where
  "probeDomain backend lookupReq domainKey authorityKey st =
     (case DomainStateProbe backend of
        None \<Rightarrow> (Inr False, st)
      | Some probe \<Rightarrow>
          let (answer, store') = probe lookupReq (store st);
              st = counted (EmptyDomainProbeCount_update Suc) (st\<lparr>store := store'\<rparr>)
          in case answer of
               Inl e \<Rightarrow> (Inl (Err (DomainStateError e)), st)
             | Inr state \<Rightarrow>
                 (case normalizePrimaryKeyDomainState state of
                    PrimaryKeyDomainEmpty \<Rightarrow>
                      (Inr True, counted (EmptyDomainSkipCount_update Suc)
                         (st\<lparr>session := markBSIPrimaryKeyDomainState (session st) domainKey PrimaryKeyDomainEmpty\<rparr>))
                  | PrimaryKeyDomainNonEmpty \<Rightarrow>
                      (Inr False, counted (EmptyDomainNonEmptyCount_update Suc)
                         (st\<lparr>session := markBSIPrimaryKeyAuthorityNonEmpty
                            (markBSIPrimaryKeyDomainState (session st) domainKey PrimaryKeyDomainNonEmpty)
                            authorityKey\<rparr>))
                  | _ \<Rightarrow> (Inr False, counted (EmptyDomainUnknownCount_update Suc) st)))"

definition shouldSkipLookupForEmptyDomain ::
  "'b BSIPrimaryKeyBackend \<Rightarrow> PrimaryKeyResolveRequest \<Rightarrow> BSIPrimaryKeyLookupRequest \<Rightarrow> ('b, bool) resolution" where
  "shouldSkipLookupForEmptyDomain backend req lookupReq st =
     (if assumeNew (requestMode req) then (Inr False, st)
      else
        (let domainKey = bsiPrimaryKeyDomainKey lookupReq (tableBuffer st);
             authorityKey = bsiPrimaryKeyAuthorityKey lookupReq;
             cached = cachedBSIPrimaryKeyDomainState (session st) domainKey
         in
           if cached = Some PrimaryKeyDomainNonEmpty \<or> bsiPrimaryKeyAuthorityKnownNonEmpty (session st) authorityKey
           then (Inr False, counted (EmptyDomainNonEmptyCount_update Suc) st)
           else if cached = Some PrimaryKeyDomainEmpty
           then (Inr True, counted (EmptyDomainSkipCount_update Suc) st)
           else probeDomain backend lookupReq domainKey authorityKey st))"

text \<open>The lookup of the batch: the row of a key staged earlier in this batch.\<close>

definition resolveLocal ::
  "PrimaryKeyResolveRequest \<Rightarrow> BSIPrimaryKeyLookupRequest \<Rightarrow> ('b, u64 option) resolution" where
  "resolveLocal req lookupReq st =
     (case BatchBuffer (session st) of
        None \<Rightarrow> (Inr None, st)
      | Some batch \<Rightarrow>
          let st = counted (LocalCacheLookupCount_update Suc) st in
          case LookupLocalCIDForPrimaryKeyIdentity batch (Identity lookupReq) of
            None \<Rightarrow> (Inr None, st)
          | Some columnID \<Rightarrow>
              if ProvidedColumnID req \<noteq> 0 \<and> ProvidedColumnID req \<noteq> columnID
              then (Inl (Err (LocalBatchConflict columnID (ProvidedColumnID req))), st)
              else (Inr (Some columnID), counted (LocalCacheHitCount_update Suc)
                      (st\<lparr>tableBuffer := (tableBuffer st)\<lparr>CurrentColumnID := columnID\<rparr>\<rparr>)))"

text \<open>The lookup of the backend; the result says whether the resolution is decided by it.\<close>

definition resolveLookup ::
  "'b BSIPrimaryKeyBackend \<Rightarrow> PrimaryKeyResolveRequest \<Rightarrow> BSIPrimaryKeyLookupRequest \<Rightarrow>
   ('b, (u64 \<times> bool) option) resolution" where
  "resolveLookup backend req lookupReq st =
     (let (answer, store') = LookupPrimaryKey backend lookupReq (store st);
          st = counted (BSILookupCount_update Suc) (st\<lparr>store := store'\<rparr>)
      in case answer of
           Inl e \<Rightarrow> (Inl (Err (LookupError e)), st)
         | Inr found \<Rightarrow>
             (case matchedColumnIDs found of
                [] \<Rightarrow> (Inr (if LookupOnly req then Some (0, False) else None), st)
              | [columnID] \<Rightarrow>
                  (Inr (Some (columnID, True)), counted (BSIHitCount_update Suc)
                     (st\<lparr>session := markBSIPrimaryKeyAuthorityNonEmpty
                           (markBSIPrimaryKeyDomainState (session st)
                              (bsiPrimaryKeyDomainKey lookupReq (tableBuffer st)) PrimaryKeyDomainNonEmpty)
                           (bsiPrimaryKeyAuthorityKey lookupReq),
                         tableBuffer := (tableBuffer st)\<lparr>CurrentColumnID := columnID\<rparr>\<rparr>))
              | _ \<Rightarrow> (Inl (Err (AuthorityConflict (length (matchedColumnIDs found)))), st)))"

text \<open>A new row: allocate, stage, and remember the identity in the batch.\<close>

definition resolveNew ::
  "'b BSIPrimaryKeyBackend \<Rightarrow> PrimaryKeyResolveRequest \<Rightarrow> BSIPrimaryKeyLookupRequest \<Rightarrow>
   ('b, u64 \<times> bool) resolution" where
  "resolveNew backend req lookupReq st =
     (case allocatePrimaryKeyColumnID req st of
        (Inl e, st) \<Rightarrow> (Inl e, st)
      | (Inr _, st) \<Rightarrow>
          let columnID = CurrentColumnID (tableBuffer st);
              stageReq = newBSIPrimaryKeyStageRequestFromLookup lookupReq columnID;
              (failure, store') = StagePrimaryKey backend stageReq (store st);
              st = counted (BSIStageWriteCount_update Suc) (st\<lparr>store := store'\<rparr>)
          in case failure of
               Some e \<Rightarrow> (Inl (Err (StageError e)), st)
             | None \<Rightarrow>
                 (Inr (columnID, False),
                  case BatchBuffer (session st) of
                    None \<Rightarrow> st
                  | Some batch \<Rightarrow>
                      counted (BatchCacheWriteCount_update Suc)
                        (st\<lparr>session := (session st)\<lparr>BatchBuffer :=
                           Some (SetPrimaryKeyIdentity batch (Identity stageReq) columnID)\<rparr>\<rparr>)))"

text \<open>The part of the resolution after the batch has been consulted.\<close>

definition resolveRemote ::
  "'b BSIPrimaryKeyBackend \<Rightarrow> PrimaryKeyResolveRequest \<Rightarrow> BSIPrimaryKeyLookupRequest \<Rightarrow>
   ('b, u64 \<times> bool) resolution" where
  "resolveRemote backend req lookupReq st =
     (case shouldSkipLookupForEmptyDomain backend req lookupReq st of
        (Inl e, st) \<Rightarrow> (Inl e, st)
      | (Inr domainSkip, st) \<Rightarrow>
          if assumeNew (requestMode req) then
            resolveNew backend req lookupReq
              (counted (SkippedBSILookupCount_update Suc) (counted (AssumeNewCount_update Suc) st))
          else if domainSkip then
            resolveNew backend req lookupReq (counted (SkippedBSILookupCount_update Suc) st)
          else (case resolveLookup backend req lookupReq st of
                  (Inl e, st) \<Rightarrow> (Inl e, st)
                | (Inr (Some r), st) \<Rightarrow> (Inr r, st)
                | (Inr None, st) \<Rightarrow> resolveNew backend req lookupReq st))"

definition resolveKeyed ::
  "(string \<Rightarrow> Time option) \<Rightarrow> 'b BSIPrimaryKeyBackend \<Rightarrow> PrimaryKeyResolveRequest \<Rightarrow>
   ('b, u64 \<times> bool) resolution" where
  "resolveKeyed dateparse backend req st =
     (case validateBSIPrimaryKeyValues req (tableBuffer st) of
        Inl e \<Rightarrow> (Inl e, st)
      | Inr _ \<Rightarrow>
          let st = counted (LookupRequiredCount_update Suc) st in
          case wrapErr IdentityError (newBSIPrimaryKeyLookupRequest dateparse req (tableBuffer st)) of
            Inl e \<Rightarrow> (Inl e, st)
          | Inr lookupReq \<Rightarrow>
              (case resolveLocal req lookupReq st of
                 (Inl e, st) \<Rightarrow> (Inl e, st)
               | (Inr (Some columnID), st) \<Rightarrow> (Inr (columnID, True), st)
               | (Inr None, st) \<Rightarrow> resolveRemote backend req lookupReq st))"

text \<open>The whole handler. A nil backend, session or table buffer leaves nothing to update.\<close>

definition ResolvePrimaryKeyColumnID ::
  "(string \<Rightarrow> Time option) \<Rightarrow> 'b BSIPrimaryKeyBackend option \<Rightarrow> bool \<Rightarrow> bool \<Rightarrow> PrimaryKeyResolveRequest \<Rightarrow>
   ('b, u64 \<times> bool) resolution" where
  "ResolvePrimaryKeyColumnID dateparse backend nilSession nilBuffer req st =
     (let st = started st in
      case backend of
        None \<Rightarrow> (Inl (Err NilBackend), st)
      | Some backend \<Rightarrow>
          if nilSession then (Inl (Err NilSession), st)
          else if nilBuffer then (Inl (Err NilTableBuffer), st)
          else (case ShouldLookupPrimaryKey (tableBuffer st) of
                  Inl e \<Rightarrow> (Inl e, st)
                | Inr False \<Rightarrow> resolveDirectColumnID req st
                | Inr True \<Rightarrow> resolveKeyed dateparse backend req st))"

text \<open>\<^verbatim>\<open>lookupParentPrimaryKeyColumnID\<close> of \<^verbatim>\<open>core/session.go\<close>, the only caller that sets
  \<^verbatim>\<open>LookupOnly\<close>, for the parent's primary key: a search for the row of a foreign key.\<close>

datatype parent_error =
  ParentNotAvailable | AlternateForeignKey string | ParentValues nat nat | ParentResolve resolve_error

definition lookupParentPrimaryKeyColumnID ::
  "(string \<Rightarrow> Time option) \<Rightarrow> 'b BSIPrimaryKeyBackend option \<Rightarrow> bool \<Rightarrow> string \<Rightarrow> key_value list \<Rightarrow> string \<Rightarrow>
   'b resolving \<Rightarrow> (parent_error, u64 option) res \<times> 'b resolving" where
  "lookupParentPrimaryKeyColumnID dateparse backend nilBuffer lookupKey lookupValues fkFieldSpec st =
     (let relBuf = tableBuffer st in
      if nilBuffer then (Inl (Err ParentNotAvailable), st)
      else if fkFieldSpec \<noteq> '''' \<and> fkFieldSpec \<noteq> tablePrimaryKey (Table relBuf)
      then (Inl (Err (AlternateForeignKey fkFieldSpec)), st)
      else if length lookupValues \<noteq> length (PKAttributes relBuf)
      then (Inl (Err (ParentValues (length (PKAttributes relBuf)) (length lookupValues))), st)
      else
        (let (r, st) = ResolvePrimaryKeyColumnID dateparse backend False False
               \<lparr>LookupValue = lookupKey, PrimaryKeyValues = lookupValues, ProvidedColumnID = 0,
                DirectColumnID = False, LookupOnly = True, requestMode = ''verify_existing''\<rparr> st;
             st = st\<lparr>tableBuffer := (tableBuffer st)\<lparr>CurrentColumnID := CurrentColumnID relBuf,
                       CurrentTimestamp := CurrentTimestamp relBuf\<rparr>\<rparr>
         in (case r of
               Inl Panic \<Rightarrow> (Inl Panic, st)
             | Inl (Err e) \<Rightarrow> (Inl (Err (ParentResolve e)), st)
             | Inr (columnID, existing) \<Rightarrow>
                 (Inr (if \<not> existing \<or> columnID = 0 then None else Some columnID), st))))"

section \<open>The batch remembers\<close>

definition batch_of :: "'b resolving \<Rightarrow> (byte list \<rightharpoonup> u64) option" where
  "batch_of st = BatchBuffer (session st)"

text \<open>A batch is never closed by a resolution and never forgets or changes an identity.\<close>

definition batch_grows :: "'b resolving \<Rightarrow> 'b resolving \<Rightarrow> bool" where
  "batch_grows st st' \<longleftrightarrow>
     (case batch_of st of None \<Rightarrow> batch_of st' = None | Some b \<Rightarrow> (\<exists>b'. batch_of st' = Some b' \<and> b \<subseteq>\<^sub>m b'))"

lemma batch_grows_same: "batch_of st' = batch_of st \<Longrightarrow> batch_grows st st'"
  by (simp add: batch_grows_def split: option.split)

lemma batch_grows_refl [simp]: "batch_grows st st"
  by (simp add: batch_grows_same)

lemma batch_grows_trans: "batch_grows st st' \<Longrightarrow> batch_grows st' st'' \<Longrightarrow> batch_grows st st''"
  unfolding batch_grows_def by (auto split: option.splits) (blast intro: map_le_trans)

lemma batch_of_simps [simp]:
  "batch_of (counted f st) = batch_of st"
  "batch_of (st\<lparr>tableBuffer := t\<rparr>) = batch_of st"
  "batch_of (st\<lparr>store := s\<rparr>) = batch_of st"
  "batch_of (st\<lparr>profile := p\<rparr>) = batch_of st"
  "batch_of (st\<lparr>session := ss\<rparr>) = BatchBuffer ss"
  by (simp_all add: batch_of_def counted_def)

lemma counted_simps [simp]:
  "session (counted f st) = session st" "tableBuffer (counted f st) = tableBuffer st"
  "store (counted f st) = store st" "profile (counted f st) = f (profile st)"
  by (simp_all add: counted_def)

lemma started_simps [simp]:
  "session (started st) = session st" "tableBuffer (started st) = tableBuffer st"
  "store (started st) = store st" "batch_of (started st) = batch_of st"
  by (simp_all add: started_def batch_of_def)

lemma BatchBuffer_mark [simp]:
  "BatchBuffer (markBSIPrimaryKeyDomainState s k d) = BatchBuffer s"
  "BatchBuffer (markBSIPrimaryKeyAuthorityNonEmpty s k) = BatchBuffer s"
  by (simp_all add: markBSIPrimaryKeyDomainState_def markBSIPrimaryKeyAuthorityNonEmpty_def Let_def)

lemma allocate_batch: "allocatePrimaryKeyColumnID req st = (r, st') \<Longrightarrow> batch_of st' = batch_of st"
  by (auto simp: allocatePrimaryKeyColumnID_def Let_def batch_of_def split: if_splits prod.splits)

lemma direct_batch: "resolveDirectColumnID req st = (r, st') \<Longrightarrow> batch_of st' = batch_of st"
  by (auto simp: resolveDirectColumnID_def dest: allocate_batch split: if_splits prod.splits sum.splits)

lemma skip_batch: "shouldSkipLookupForEmptyDomain backend req lr st = (r, st') \<Longrightarrow> batch_of st' = batch_of st"
  by (auto simp: shouldSkipLookupForEmptyDomain_def probeDomain_def Let_def batch_of_def
      split: if_splits option.splits prod.splits sum.splits PrimaryKeyDomainState.splits)

lemma lookup_batch: "resolveLookup backend req lr st = (r, st') \<Longrightarrow> batch_of st' = batch_of st"
  by (auto simp: resolveLookup_def Let_def batch_of_def split: if_splits list.splits prod.splits sum.splits)

lemma local_batch: "resolveLocal req lr st = (r, st') \<Longrightarrow> batch_of st' = batch_of st"
  by (auto simp: resolveLocal_def Let_def batch_of_def split: if_splits option.splits)

lemma SetPrimaryKeyIdentity_le: "b \<subseteq>\<^sub>m SetPrimaryKeyIdentity b i c"
  by (auto simp: SetPrimaryKeyIdentity_def map_le_def)

lemma new_batch: "resolveNew backend req lr st = (r, st') \<Longrightarrow> batch_grows st st'"
proof -
  assume run: "resolveNew backend req lr st = (r, st')"
  obtain a st1 where al: "allocatePrimaryKeyColumnID req st = (a, st1)" by (cases "allocatePrimaryKeyColumnID req st")
  note b = allocate_batch [OF al]
  show ?thesis
  proof (cases a)
    case (Inl e)
    then show ?thesis using run al b by (simp add: resolveNew_def batch_grows_same)
  next
    case (Inr u)
    then have "batch_grows st1 st'"
      using run al SetPrimaryKeyIdentity_le
      by (auto simp: resolveNew_def Let_def batch_grows_def batch_of_def split: option.splits prod.splits)
    with b show ?thesis using batch_grows_trans batch_grows_same by blast
  qed
qed

lemma remote_batch: "resolveRemote backend req lr st = (r, st') \<Longrightarrow> batch_grows st st'"
proof -
  assume run: "resolveRemote backend req lr st = (r, st')"
  obtain a st1 where s: "shouldSkipLookupForEmptyDomain backend req lr st = (a, st1)"
    by (cases "shouldSkipLookupForEmptyDomain backend req lr st")
  have "batch_grows st1 st'"
  proof (cases a)
    case (Inr skip)
    obtain l st2 where l: "resolveLookup backend req lr st1 = (l, st2)" by (cases "resolveLookup backend req lr st1")
    from run s Inr l have "st' = st2 \<or> (\<exists>f st3. resolveNew backend req lr st3 = (r, st') \<and> batch_of st3 = batch_of st1)"
      using lookup_batch [OF l]
      by (auto simp: resolveRemote_def split: if_splits sum.splits option.splits)
    then show ?thesis
      using lookup_batch [OF l] new_batch batch_grows_same batch_grows_trans by metis
  qed (use run s in \<open>simp add: resolveRemote_def\<close>)
  with skip_batch [OF s] show ?thesis using batch_grows_same batch_grows_trans by blast
qed

lemma keyed_batch: "resolveKeyed dateparse backend req st = (r, st') \<Longrightarrow> batch_grows st st'"
proof -
  assume run: "resolveKeyed dateparse backend req st = (r, st')"
  let ?st = "counted (LookupRequiredCount_update Suc) st"
  show ?thesis
  proof (cases "validateBSIPrimaryKeyValues req (tableBuffer st)")
    case (Inl e)
    then show ?thesis using run by (simp add: resolveKeyed_def)
  next
    case v: (Inr u)
    show ?thesis
    proof (cases "newBSIPrimaryKeyLookupRequest dateparse req (tableBuffer st)")
      case (Inl e)
      then show ?thesis using run v by (cases e) (auto simp: resolveKeyed_def Let_def batch_grows_same)
    next
      case (Inr lr)
      obtain a st1 where l: "resolveLocal req lr ?st = (a, st1)" by (cases "resolveLocal req lr ?st")
      then have "st' = st1 \<or> resolveRemote backend req lr st1 = (r, st')"
        using run v Inr by (auto simp: resolveKeyed_def Let_def split: sum.splits option.splits)
      then have "batch_grows st1 st'" using remote_batch by auto
      moreover have "batch_of st1 = batch_of st" using local_batch [OF l] by simp
      ultimately show ?thesis using batch_grows_same batch_grows_trans by blast
    qed
  qed
qed

lemma resolve_batch:
  "ResolvePrimaryKeyColumnID dateparse backend ns nb req st = (r, st') \<Longrightarrow> batch_grows st st'"
proof -
  assume run: "ResolvePrimaryKeyColumnID dateparse backend ns nb req st = (r, st')"
  let ?st = "started st"
  have "st' = ?st \<or> resolveDirectColumnID req ?st = (r, st') \<or>
      (\<exists>be. resolveKeyed dateparse be req ?st = (r, st'))"
    using run by (auto simp: ResolvePrimaryKeyColumnID_def Let_def split: option.splits if_splits sum.splits bool.splits)
  then have "batch_grows ?st st'" using direct_batch keyed_batch batch_grows_same by blast
  then show ?thesis using batch_grows_trans [OF batch_grows_same [of ?st st]] by simp
qed

section \<open>One row for one key\<close>

text \<open>The key a request asks for in a table buffer.\<close>

definition key_of :: "PrimaryKeyResolveRequest \<Rightarrow> TableBuffer \<Rightarrow> PrimaryKeyIdentityEncodingRequest" where
  "key_of req tbuf =
     \<lparr>TableName = Name (Table tbuf), PrimaryKey = tablePrimaryKey (Table tbuf),
      Attributes = PKAttributes tbuf, Values = PrimaryKeyValues req,
      ShardTimestamp = CurrentTimestamp tbuf\<rparr>"

lemma newLookup_iff:
  "newBSIPrimaryKeyLookupRequest dateparse req tbuf = Inr lr \<longleftrightarrow>
     (\<exists>i. EncodePrimaryKeyIdentity (key_of req tbuf) = Inr i \<and>
        lr = (lookupMaterial req tbuf)\<lparr>Identity := i,
          AuthorityValue := optionalCompoundPrimaryKeyAuthorityValue dateparse (Name (Table tbuf))
            (tablePrimaryKey (Table tbuf)) (PKAttributes tbuf) (PrimaryKeyValues req)\<rparr>)"
  by (auto simp: newBSIPrimaryKeyLookupRequest_def EncodeBSIPrimaryKeyLookupIdentity_def bindR_Inr_iff
      Let_def lookupMaterial_def key_of_def)

lemma newLookup_Identity:
  assumes "newBSIPrimaryKeyLookupRequest dateparse req tbuf = Inr lr"
  shows "EncodePrimaryKeyIdentity (key_of req tbuf) = Inr (Identity lr)" "Identity lr \<noteq> []"
  using assms by (auto simp: newLookup_iff EncodePrimaryKeyIdentity_form)

lemma requireNonNil_ok:
  "\<forall>v \<in> set vs. key_identity v \<noteq> None \<Longrightarrow> requireNonNil attrs i vs = Inr ()"
  by (induction vs arbitrary: i) auto

lemma encodable_validates:
  "encodable (key_of req tbuf) \<Longrightarrow> validateBSIPrimaryKeyValues req tbuf = Inr ()"
  by (simp add: encodable_def key_of_def validateBSIPrimaryKeyValues_def requireNonNil_ok)

lemma new_row_recorded:
  assumes "resolveNew backend req lr st = (Inr (c, existing), st')" "c \<noteq> 0" "Identity lr \<noteq> []"
    and "batch_of st = Some b" "b (Identity lr) = None"
  shows "\<exists>b'. batch_of st' = Some b' \<and> b' (Identity lr) = Some c"
proof -
  obtain a st1 where al: "allocatePrimaryKeyColumnID req st = (a, st1)" by (cases "allocatePrimaryKeyColumnID req st")
  have b1: "BatchBuffer (session st1) = Some b" using allocate_batch [OF al] assms(4) by (simp add: batch_of_def)
  show ?thesis
    using assms al b1
    by (auto simp: resolveNew_def Let_def SetPrimaryKeyIdentity_def newBSIPrimaryKeyStageRequestFromLookup_def
        split: sum.splits option.splits prod.splits)
qed

lemma remote_new_recorded:
  assumes "resolveRemote backend req lr st = (Inr (c, False), st')" "c \<noteq> 0" "Identity lr \<noteq> []"
    and "batch_of st = Some b" "b (Identity lr) = None"
  shows "\<exists>b'. batch_of st' = Some b' \<and> b' (Identity lr) = Some c"
proof -
  obtain a st1 where s: "shouldSkipLookupForEmptyDomain backend req lr st = (a, st1)"
    by (cases "shouldSkipLookupForEmptyDomain backend req lr st")
  then obtain skip where a: "a = Inr skip" using assms(1) by (cases a) (auto simp: resolveRemote_def)
  obtain l st2 where l: "resolveLookup backend req lr st1 = (l, st2)" by (cases "resolveLookup backend req lr st1")
  have "l \<noteq> Inr (Some (c, False))"
    using l assms(2) by (auto simp: resolveLookup_def Let_def split: if_splits list.splits prod.splits sum.splits)
  then obtain st3 where "resolveNew backend req lr st3 = (Inr (c, False), st')" "batch_of st3 = batch_of st1"
    using assms(1) s a l lookup_batch [OF l]
    by (auto simp: resolveRemote_def split: if_splits sum.splits option.splits)
  with new_row_recorded [OF this(1) assms(2,3)] skip_batch [OF s] assms(4,5) show ?thesis by simp
qed

lemma keyed_new_recorded:
  assumes "resolveKeyed dateparse backend req st = (Inr (c, False), st')" "c \<noteq> 0" "batch_of st = Some b"
  shows "\<exists>i b'. EncodePrimaryKeyIdentity (key_of req (tableBuffer st)) = Inr i \<and> i \<noteq> [] \<and>
    batch_of st' = Some b' \<and> b' i = Some c"
proof -
  let ?st = "counted (LookupRequiredCount_update Suc) st"
  obtain lr where lr: "newBSIPrimaryKeyLookupRequest dateparse req (tableBuffer st) = Inr lr"
    using assms(1)
    by (cases "newBSIPrimaryKeyLookupRequest dateparse req (tableBuffer st)"; cases "projl (newBSIPrimaryKeyLookupRequest dateparse req (tableBuffer st))")
      (auto simp: resolveKeyed_def Let_def split: sum.splits)
  note i = newLookup_Identity [OF lr]
  obtain a st1 where l: "resolveLocal req lr ?st = (a, st1)" by (cases "resolveLocal req lr ?st")
  have a: "a = Inr None" and r: "resolveRemote backend req lr st1 = (Inr (c, False), st')"
    using assms(1) lr l by (auto simp: resolveKeyed_def Let_def split: sum.splits option.splits)
  have "b (Identity lr) = None"
    using l a assms(3) i(2)
    by (auto simp: resolveLocal_def Let_def LookupLocalCIDForPrimaryKeyIdentity_def batch_of_def split: option.splits if_splits)
  moreover have "batch_of st1 = Some b" using local_batch [OF l] assms(3) by simp
  ultimately show ?thesis using remote_new_recorded [OF r assms(2) i(2)] i by blast
qed

lemma keyed_hit:
  assumes "encodable (key_of req (tableBuffer st))" "EncodePrimaryKeyIdentity (key_of req (tableBuffer st)) = Inr i"
    and "i \<noteq> []" "batch_of st = Some b" "b i = Some c" "ProvidedColumnID req = 0 \<or> ProvidedColumnID req = c"
  shows "\<exists>st'. resolveKeyed dateparse backend req st = (Inr (c, True), st') \<and> store st' = store st \<and>
    session st' = session st \<and> tableBuffer st' = (tableBuffer st)\<lparr>CurrentColumnID := c\<rparr>"
proof -
  obtain lr where lr: "newBSIPrimaryKeyLookupRequest dateparse req (tableBuffer st) = Inr lr" "Identity lr = i"
    using assms(2) newLookup_Identity(1) by (metis newLookup_iff Inr_inject)
  then show ?thesis
    using assms(3-) encodable_validates [OF assms(1)]
    by (auto simp: resolveKeyed_def Let_def resolveLocal_def batch_of_def LookupLocalCIDForPrimaryKeyIdentity_def)
qed

lemma keyed_conflict:
  assumes "encodable (key_of req (tableBuffer st))" "EncodePrimaryKeyIdentity (key_of req (tableBuffer st)) = Inr i"
    and "i \<noteq> []" "batch_of st = Some b" "b i = Some c" "ProvidedColumnID req \<noteq> 0" "ProvidedColumnID req \<noteq> c"
  shows "\<exists>st'. resolveKeyed dateparse backend req st = (Inl (Err (LocalBatchConflict c (ProvidedColumnID req))), st') \<and>
    store st' = store st \<and> session st' = session st \<and> tableBuffer st' = tableBuffer st"
proof -
  obtain lr where lr: "newBSIPrimaryKeyLookupRequest dateparse req (tableBuffer st) = Inr lr" "Identity lr = i"
    using assms(2) newLookup_Identity(1) by (metis newLookup_iff Inr_inject)
  then show ?thesis
    using assms(3-) encodable_validates [OF assms(1)]
    by (auto simp: resolveKeyed_def Let_def resolveLocal_def batch_of_def LookupLocalCIDForPrimaryKeyIdentity_def)
qed

text \<open>Whatever else is resolved or done while the batch is open.\<close>

inductive same_batch :: "'b resolving \<Rightarrow> 'b resolving \<Rightarrow> bool" where
  now: "same_batch st st"
| resolves: "same_batch st st' \<Longrightarrow> ResolvePrimaryKeyColumnID dateparse backend ns nb req st' = (r, st'') \<Longrightarrow> same_batch st st''"
| elsewhere: "same_batch st st' \<Longrightarrow> same_batch st (st'\<lparr>tableBuffer := t, store := s, profile := p\<rparr>)"

lemma same_batch_grows: "same_batch st st' \<Longrightarrow> batch_grows st st'"
proof (induction rule: same_batch.induct)
  case (resolves st st' dateparse backend ns nb req r st'')
  then show ?case using resolve_batch batch_grows_trans by blast
next
  case (elsewhere st st' p s t)
  have "batch_grows st' (st'\<lparr>tableBuffer := t, store := s, profile := p\<rparr>)" by (rule batch_grows_same) simp
  with elsewhere show ?case using batch_grows_trans by blast
qed simp

section \<open>Domains believed empty\<close>

definition cached_empty :: "BSIPrimaryKeyLookupRequest \<Rightarrow> 'b resolving \<Rightarrow> bool" where
  "cached_empty lr st \<longleftrightarrow>
     cachedBSIPrimaryKeyDomainState (session st) (bsiPrimaryKeyDomainKey lr (tableBuffer st)) = Some PrimaryKeyDomainEmpty \<and>
     \<not> bsiPrimaryKeyAuthorityKnownNonEmpty (session st) (bsiPrimaryKeyAuthorityKey lr)"

lemma FormatInt_authority: "FormatInt n \<noteq> ''authority''"
proof
  assume eq: "FormatInt n = ''authority''"
  have "CHR ''a'' \<notin> set (dec_nat m)" for m using dec_nat_digits [of "CHR ''a''" m] by auto
  moreover have "CHR ''a'' \<in> set (FormatInt n)" by (simp add: eq)
  ultimately show False by (auto simp: FormatInt_def split: if_splits)
qed

lemma domain_key_authority: "bsiPrimaryKeyDomainKey lr t \<noteq> bsiPrimaryKeyAuthorityKey lr"
proof -
  have "CHR ''|'' # FormatInt n \<noteq> ''|authority''" for n using FormatInt_authority by simp
  then show ?thesis by (auto simp: bsiPrimaryKeyDomainKey_def bsiPrimaryKeyAuthorityKey_def Let_def)
qed

text \<open>A session that knows nothing of a domain asks the backend and believes it.\<close>

lemma skip_fresh:
  assumes "primaryKeyDomainStates (session st) = Map.empty" "\<not> assumeNew (requestMode req)"
    and "DomainStateProbe be = Some probe" "fst (probe lr (store st)) = Inr PrimaryKeyDomainEmpty"
  shows "\<exists>st'. shouldSkipLookupForEmptyDomain be req lr st = (Inr True, st') \<and> cached_empty lr st' \<and>
    batch_of st' = batch_of st \<and> tableBuffer st' = tableBuffer st \<and> BitIndex (session st') = BitIndex (session st)"
proof -
  obtain s' where p: "probe lr (store st) = (Inr PrimaryKeyDomainEmpty, s')" using assms(4) by (cases "probe lr (store st)") auto
  have k: "bsiPrimaryKeyDomainKey lr t \<noteq> []" for t by (simp add: bsiPrimaryKeyDomainKey_def Let_def)
  show ?thesis
    using assms(1-3) p domain_key_authority [of lr "tableBuffer st"] k [of "tableBuffer st"]
    by (simp add: shouldSkipLookupForEmptyDomain_def probeDomain_def Let_def cachedBSIPrimaryKeyDomainState_def
        bsiPrimaryKeyAuthorityKnownNonEmpty_def normalizePrimaryKeyDomainState_def cached_empty_def
        markBSIPrimaryKeyDomainState_def batch_of_def)
qed

lemma skip_cached:
  "cached_empty lr st \<Longrightarrow> \<not> assumeNew (requestMode req) \<Longrightarrow>
   shouldSkipLookupForEmptyDomain be req lr st = (Inr True, counted (EmptyDomainSkipCount_update Suc) st)"
  by (simp add: shouldSkipLookupForEmptyDomain_def cached_empty_def Let_def)

lemma remote_skips:
  "shouldSkipLookupForEmptyDomain be req lr st = (Inr True, st') \<Longrightarrow> \<not> assumeNew (requestMode req) \<Longrightarrow>
   resolveRemote be req lr st = resolveNew be req lr (counted (SkippedBSILookupCount_update Suc) st')"
  by (simp add: resolveRemote_def)

text \<open>What a new row leaves alone.\<close>

lemma NextColumnID_frame:
  assumes "NextColumnID t bi = (r, t', m)"
  shows "Table t' = Table t" "PKAttributes t' = PKAttributes t" "CurrentTimestamp t' = CurrentTimestamp t"
  using assms by (cases rule: NextColumnID_cases [OF assms refl]; auto)+

definition same_key :: "'b resolving \<Rightarrow> 'b resolving \<Rightarrow> bool" where
  "same_key st st' \<longleftrightarrow>
     Table (tableBuffer st') = Table (tableBuffer st) \<and>
     PKAttributes (tableBuffer st') = PKAttributes (tableBuffer st) \<and>
     CurrentTimestamp (tableBuffer st') = CurrentTimestamp (tableBuffer st)"

lemma same_key_facts:
  assumes "same_key st st'"
  shows "key_of req (tableBuffer st') = key_of req (tableBuffer st)"
    "newBSIPrimaryKeyLookupRequest dateparse req (tableBuffer st') = newBSIPrimaryKeyLookupRequest dateparse req (tableBuffer st)"
    "ShouldLookupPrimaryKey (tableBuffer st') = ShouldLookupPrimaryKey (tableBuffer st)"
    "bsiPrimaryKeyDomainKey lr (tableBuffer st') = bsiPrimaryKeyDomainKey lr (tableBuffer st)"
    "validateBSIPrimaryKeyValues req (tableBuffer st') = validateBSIPrimaryKeyValues req (tableBuffer st)"
  using assms
  by (simp_all add: same_key_def key_of_def newBSIPrimaryKeyLookupRequest_def lookupMaterial_def
      ShouldLookupPrimaryKey_def bsiPrimaryKeyDomainKey_def validateBSIPrimaryKeyValues_def)

lemma allocate_frame:
  assumes "allocatePrimaryKeyColumnID req st = (r, st')"
  shows "same_key st st'" "primaryKeyDomainStates (session st') = primaryKeyDomainStates (session st)"
    "store st' = store st" "BSILookupCount (profile st') = BSILookupCount (profile st)"
    "ProvidedColumnID req = 0 \<Longrightarrow> RownumAllocationCount (profile st') = Suc (RownumAllocationCount (profile st))"
  using assms NextColumnID_frame
  by (auto simp: allocatePrimaryKeyColumnID_def same_key_def Let_def split: if_splits prod.splits)

lemma resolveNew_frame:
  assumes "resolveNew be req lr st = (Inr (c, existing), st')"
  shows "same_key st st'" "primaryKeyDomainStates (session st') = primaryKeyDomainStates (session st)"
    "\<not> existing" "BSILookupCount (profile st') = BSILookupCount (profile st)"
    "ProvidedColumnID req = 0 \<Longrightarrow> RownumAllocationCount (profile st') = Suc (RownumAllocationCount (profile st))"
proof -
  obtain a st1 where al: "allocatePrimaryKeyColumnID req st = (a, st1)" by (cases "allocatePrimaryKeyColumnID req st")
  note f = allocate_frame [OF al]
  show "same_key st st'" "primaryKeyDomainStates (session st') = primaryKeyDomainStates (session st)"
    "\<not> existing" "BSILookupCount (profile st') = BSILookupCount (profile st)"
    "ProvidedColumnID req = 0 \<Longrightarrow> RownumAllocationCount (profile st') = Suc (RownumAllocationCount (profile st))"
    using assms al f
    by (auto simp: resolveNew_def Let_def same_key_def split: sum.splits option.splits prod.splits)
qed

lemma cached_empty_cong:
  assumes "same_key st st'" "primaryKeyDomainStates (session st') = primaryKeyDomainStates (session st)"
  shows "cached_empty lr st' = cached_empty lr st"
  using assms by (simp add: cached_empty_def same_key_facts cachedBSIPrimaryKeyDomainState_def bsiPrimaryKeyAuthorityKnownNonEmpty_def)

text \<open>A resolution in a session that knows nothing, of a domain that is empty.\<close>

lemma first_in_domain:
  assumes "primaryKeyDomainStates (session st) = Map.empty" "batch_of st = Some Map.empty"
    and "\<not> assumeNew (requestMode req)" "ShouldLookupPrimaryKey (tableBuffer st) = (Inr True :: (resolve_error, bool) res)"
    and "DomainStateProbe be = Some probe" "\<And>lr. fst (probe lr (store st)) = Inr PrimaryKeyDomainEmpty"
    and "ResolvePrimaryKeyColumnID dateparse (Some be) False False req st = (Inr (c, existing), st1)"
  obtains lr st0 where "newBSIPrimaryKeyLookupRequest dateparse req (tableBuffer st) = Inr lr"
    "validateBSIPrimaryKeyValues req (tableBuffer st) = Inr ()"
    "resolveNew be req lr st0 = (Inr (c, existing), st1)" "batch_of st0 = Some Map.empty"
    "same_key st st0" "tableBuffer st0 = tableBuffer st" "BitIndex (session st0) = BitIndex (session st)" "cached_empty lr st0"
proof -
  let ?st = "counted (LookupRequiredCount_update Suc) (started st)"
  let ?l = "counted (LocalCacheLookupCount_update Suc) ?st"
  have keyed: "resolveKeyed dateparse be req (started st) = (Inr (c, existing), st1)"
    using assms(4,7) by (simp add: ResolvePrimaryKeyColumnID_def Let_def)
  obtain u where v: "validateBSIPrimaryKeyValues req (tableBuffer st) = Inr u"
    using keyed by (cases "validateBSIPrimaryKeyValues req (tableBuffer st)") (auto simp: resolveKeyed_def)
  obtain lr where lr: "newBSIPrimaryKeyLookupRequest dateparse req (tableBuffer st) = Inr lr"
  proof (cases "newBSIPrimaryKeyLookupRequest dateparse req (tableBuffer st)")
    case (Inl e)
    then show ?thesis using keyed v by (cases e) (auto simp: resolveKeyed_def Let_def)
  qed
  have local: "resolveLocal req lr ?st = (Inr None, ?l)"
    using assms(2) by (simp add: resolveLocal_def batch_of_def LookupLocalCIDForPrimaryKeyIdentity_def Let_def)
  obtain st' where skip: "shouldSkipLookupForEmptyDomain be req lr ?l = (Inr True, st')" "cached_empty lr st'"
    "batch_of st' = batch_of ?l" "tableBuffer st' = tableBuffer ?l" "BitIndex (session st') = BitIndex (session ?l)"
    using skip_fresh [of ?l req be probe lr] assms(1,3,5,6) by auto
  let ?s0 = "counted (SkippedBSILookupCount_update Suc) st'"
  have r: "resolveNew be req lr ?s0 = (Inr (c, existing), st1)"
    using keyed v lr local remote_skips [OF skip(1) assms(3)] by (simp add: resolveKeyed_def Let_def)
  show thesis
    by (rule that [OF lr _ r])
      (use v assms(2) skip(2-5) in \<open>simp_all add: same_key_def cached_empty_def\<close>)
qed

text \<open>A search for a parent row.\<close>

abbreviation parent_request :: "string \<Rightarrow> key_value list \<Rightarrow> PrimaryKeyResolveRequest" where
  "parent_request lookupKey vals \<equiv>
     \<lparr>LookupValue = lookupKey, PrimaryKeyValues = vals, ProvidedColumnID = 0,
      DirectColumnID = False, LookupOnly = True, requestMode = ''verify_existing''\<rparr>"

lemma parent_mode: "\<not> assumeNew (requestMode (parent_request lookupKey vals))"
  by (simp add: assumeNew_def EqualFold_def)

lemma parent_searchE:
  assumes "lookupParentPrimaryKeyColumnID dateparse (Some be) False lookupKey vals fk st = (Inr r, st1)"
  obtains c ex st' where
    "ResolvePrimaryKeyColumnID dateparse (Some be) False False (parent_request lookupKey vals) st = (Inr (c, ex), st')"
    "st1 = st'\<lparr>tableBuffer := (tableBuffer st')\<lparr>CurrentColumnID := CurrentColumnID (tableBuffer st),
                 CurrentTimestamp := CurrentTimestamp (tableBuffer st)\<rparr>\<rparr>"
    "r = (if \<not> ex \<or> c = 0 then None else Some c)"
    "fk = [] \<or> fk = tablePrimaryKey (Table (tableBuffer st))" "length vals = length (PKAttributes (tableBuffer st))"
  using assms
  by (auto simp: lookupParentPrimaryKeyColumnID_def Let_def split: if_splits prod.splits sum.splits fault.splits)

lemma recorded_is_found:
  assumes "same_key st st1" "newBSIPrimaryKeyLookupRequest dateparse req (tableBuffer st) = Inr lr"
    and "batch_of st1 = Some b" "b (Identity lr) = Some c" "ProvidedColumnID req = 0"
    and "ShouldLookupPrimaryKey (tableBuffer st) = (Inr True :: (resolve_error, bool) res)"
  shows "\<exists>st2. ResolvePrimaryKeyColumnID dateparse (Some be) False False req st1 = (Inr (c, True), st2)"
proof -
  note facts = same_key_facts [OF assms(1)] and i = newLookup_Identity [OF assms(2)]
  have "encodable (key_of req (tableBuffer (started st1)))"
    "EncodePrimaryKeyIdentity (key_of req (tableBuffer (started st1))) = Inr (Identity lr)"
    using i(1) facts by (simp_all add: EncodePrimaryKeyIdentity_form)
  from keyed_hit [OF this i(2), of b c dateparse be] assms(3-5)
  obtain st2 where "resolveKeyed dateparse be req (started st1) = (Inr (c, True), st2)" by auto
  then show ?thesis using assms(6) by (simp add: facts(3) ResolvePrimaryKeyColumnID_def Let_def)
qed

section \<open>Properties\<close>

text \<open>C10: While a batch is open a key has one row: once the resolver has given a key a new row, every
  later resolution of the same typed key in that batch, after any other resolutions and changes of
  table buffers and backend, neither asks the backend nor draws an identifier. It returns the same
  row as an existing one when the request provides no row of its own or that row, and the conflict
  of the two rows as an error, without touching the table buffer, when it provides another row.\<close>

theorem resolve_same_key:
  assumes first: "ResolvePrimaryKeyColumnID dateparse (Some be) False False req st = (Inr (c, False), st1)"
      "ShouldLookupPrimaryKey (tableBuffer st) = (Inr True :: (resolve_error, bool) res)"
      "batch_of st \<noteq> None" "c \<noteq> 0" "request_sized (key_of req (tableBuffer st))"
    and between: "same_batch st1 st2"
    and again: "ShouldLookupPrimaryKey (tableBuffer st2) = (Inr True :: (resolve_error, bool) res)"
      "encodable (key_of req' (tableBuffer st2))" "request_sized (key_of req' (tableBuffer st2))"
      "identity_of (key_of req' (tableBuffer st2)) = identity_of (key_of req (tableBuffer st))"
  shows "\<exists>st3. ResolvePrimaryKeyColumnID dateparse' (Some be') False False req' st2 =
      (if ProvidedColumnID req' = 0 \<or> ProvidedColumnID req' = c then Inr (c, True)
       else Inl (Err (LocalBatchConflict c (ProvidedColumnID req'))), st3) \<and>
    store st3 = store st2 \<and> session st3 = session st2 \<and>
    tableBuffer st3 = (if ProvidedColumnID req' = 0 \<or> ProvidedColumnID req' = c
      then (tableBuffer st2)\<lparr>CurrentColumnID := c\<rparr> else tableBuffer st2)"
proof -
  obtain b where b: "batch_of (started st) = Some b" using first(3) by auto
  have "resolveKeyed dateparse be req (started st) = (Inr (c, False), st1)"
    using first(1,2) by (simp add: ResolvePrimaryKeyColumnID_def Let_def)
  from keyed_new_recorded [OF this first(4) b] obtain i b1 where
    i: "EncodePrimaryKeyIdentity (key_of req (tableBuffer st)) = Inr i" "i \<noteq> []"
    and b1: "batch_of st1 = Some b1" "b1 i = Some c" by auto
  obtain b2 where b2: "batch_of st2 = Some b2" "b2 i = Some c"
    using same_batch_grows [OF between] b1 by (auto simp: batch_grows_def map_le_def) (metis domI)
  obtain j where j: "EncodePrimaryKeyIdentity (key_of req' (tableBuffer st2)) = Inr j"
    using again(2) EncodePrimaryKeyIdentity_form by blast
  have "j = i" using encoded_same [OF again(3) first(5) j i(1)] again(4) by simp
  let ?st = "started st2"
  have "ResolvePrimaryKeyColumnID dateparse' (Some be') False False req' st2 = resolveKeyed dateparse' be' req' ?st"
    using again(1) by (simp add: ResolvePrimaryKeyColumnID_def Let_def)
  moreover have "encodable (key_of req' (tableBuffer ?st))" "EncodePrimaryKeyIdentity (key_of req' (tableBuffer ?st)) = Inr i"
    "batch_of ?st = Some b2" using again(2) j b2(1) \<open>j = i\<close> by simp_all
  ultimately show ?thesis
    using keyed_hit [of req' ?st i b2 c dateparse' be'] keyed_conflict [of req' ?st i b2 c dateparse' be'] i(2) b2(2)
    by (cases "ProvidedColumnID req' = 0 \<or> ProvidedColumnID req' = c") auto
qed

text \<open>C11: The belief that a domain is empty outlives the batch that made it non-empty. A session that
  knows nothing resolves a key in an empty domain; the batch is flushed, so the backend may now hold
  the key; the same request in the same session is given a second, newly drawn row, and the backend
  is not asked, whatever it would answer.\<close>

theorem flush_forgets_key:
  assumes "primaryKeyDomainStates (session st) = Map.empty" "batch_of st = Some Map.empty"
    and "\<not> assumeNew (requestMode req)" "ProvidedColumnID req = 0"
    and "ShouldLookupPrimaryKey (tableBuffer st) = (Inr True :: (resolve_error, bool) res)"
    and "DomainStateProbe be = Some probe" "\<And>lr. fst (probe lr (store st)) = Inr PrimaryKeyDomainEmpty"
    and first: "ResolvePrimaryKeyColumnID dateparse (Some be) False False req st = (Inr (c, existing), st1)"
    and flushed: "st2 = st1\<lparr>session := flush False (session st1), store := s\<rparr>"
    and again: "ResolvePrimaryKeyColumnID dateparse (Some be') False False req st2 = (Inr (c', existing'), st3)"
  shows "\<not> existing' \<and> BSILookupCount (profile st3) = 0 \<and> RownumAllocationCount (profile st3) = 1"
proof -
  obtain lr st0 where lr: "newBSIPrimaryKeyLookupRequest dateparse req (tableBuffer st) = Inr lr"
    "validateBSIPrimaryKeyValues req (tableBuffer st) = Inr ()"
    "resolveNew be req lr st0 = (Inr (c, existing), st1)" "batch_of st0 = Some Map.empty"
    "same_key st st0" "cached_empty lr st0"
    using first_in_domain [OF assms(1-3,5-7) first] by metis
  have same: "same_key st st2"
    using lr(5) resolveNew_frame(1) [OF lr(3)] by (simp add: same_key_def flushed)
  have "cached_empty lr st1"
    using cached_empty_cong [OF resolveNew_frame(1,2) [OF lr(3)], of lr] lr(6) by simp
  then have e2: "cached_empty lr st2"
    using cached_empty_cong [of st1 st2 lr] by (simp add: flushed flush_def same_key_def)
  obtain b1 where "batch_of st1 = Some b1"
    using new_batch [OF lr(3)] lr(4) by (auto simp: batch_grows_def)
  then have b2: "BatchBuffer (session st2) = Some Map.empty" by (simp add: flushed flush_def batch_of_def)
  note facts = same_key_facts [OF same]
  let ?st = "counted (LocalCacheLookupCount_update Suc)
    (counted (LookupRequiredCount_update Suc) (started st2))"
  have "cached_empty lr ?st" using e2 by (simp add: cached_empty_def)
  from remote_skips [OF skip_cached [OF this assms(3)] assms(3)]
  have "resolveNew be' req lr (counted (SkippedBSILookupCount_update Suc) (counted (EmptyDomainSkipCount_update Suc) ?st)) =
      (Inr (c', existing'), st3)"
    using again assms(5) lr(1,2) b2
    by (simp add: facts ResolvePrimaryKeyColumnID_def resolveKeyed_def resolveLocal_def Let_def
        LookupLocalCIDForPrimaryKeyIdentity_def)
  from resolveNew_frame(3-5) [OF this] show ?thesis using assms(4) by (simp add: started_def no_counts_def)
qed

text \<open>C12: A search for a parent row inserts it. When the domain of the parent's key is empty, the
  lookup-only request of \<^verbatim>\<open>lookupParentPrimaryKeyColumnID\<close> draws an identifier, stages the key with
  it and answers that there is no such row; the next search for the key in the batch answers with
  that identifier, a row nobody wrote.\<close>

theorem parent_search_inserts:
  assumes "primaryKeyDomainStates (session st) = Map.empty" "batch_of st = Some Map.empty"
    and "ShouldLookupPrimaryKey (tableBuffer st) = (Inr True :: (resolve_error, bool) res)"
    and "DomainStateProbe be = Some probe" "\<And>lr. fst (probe lr (store st)) = Inr PrimaryKeyDomainEmpty"
    and "NextColumnID (tableBuffer st) (BitIndex (session st)) = (Inr (), t, m)" "CurrentColumnID t \<noteq> 0"
    and search: "lookupParentPrimaryKeyColumnID dateparse (Some be) False lookupKey vals fk st = (Inr r, st1)"
  shows "r = None \<and>
    (\<exists>stage s. store st1 = snd (StagePrimaryKey be stage s) \<and> ColumnID stage = CurrentColumnID t \<and> Values stage = vals) \<and>
    (\<exists>st2. lookupParentPrimaryKeyColumnID dateparse (Some be) False lookupKey vals fk st1 = (Inr (Some (CurrentColumnID t)), st2))"
proof -
  let ?req = "parent_request lookupKey vals" and ?c = "CurrentColumnID t"
  obtain c ex st' where run: "ResolvePrimaryKeyColumnID dateparse (Some be) False False ?req st = (Inr (c, ex), st')"
    and st1: "st1 = st'\<lparr>tableBuffer := (tableBuffer st')\<lparr>CurrentColumnID := CurrentColumnID (tableBuffer st),
                       CurrentTimestamp := CurrentTimestamp (tableBuffer st)\<rparr>\<rparr>"
    and r: "r = (if \<not> ex \<or> c = 0 then None else Some c)"
    and guards: "fk = [] \<or> fk = tablePrimaryKey (Table (tableBuffer st))" "length vals = length (PKAttributes (tableBuffer st))"
    by (rule parent_searchE [OF search])
  obtain lr st0 where lr: "newBSIPrimaryKeyLookupRequest dateparse ?req (tableBuffer st) = Inr lr"
    "resolveNew be ?req lr st0 = (Inr (c, ex), st')" "batch_of st0 = Some Map.empty"
    "same_key st st0" "tableBuffer st0 = tableBuffer st" "BitIndex (session st0) = BitIndex (session st)"
    using first_in_domain [OF assms(1,2) parent_mode assms(3-5) run] by metis
  have c: "c = ?c" and stage: "store st' = snd (StagePrimaryKey be (newBSIPrimaryKeyStageRequestFromLookup lr ?c) (store st0))"
    using lr(2,5,6) assms(6)
    by (auto simp: resolveNew_def allocatePrimaryKeyColumnID_def Let_def split: option.splits prod.splits)
  have same: "same_key st st1" using resolveNew_frame(1) [OF lr(2)] lr(4) by (simp add: st1 same_key_def)
  have "c \<noteq> 0" using c assms(7) by simp
  from new_row_recorded [OF lr(2) this newLookup_Identity(2) [OF lr(1)] lr(3)] obtain b where
    "batch_of st1 = Some b" "b (Identity lr) = Some ?c" using c by (auto simp: st1)
  from recorded_is_found [OF same lr(1) this _ assms(3), of be]
  obtain st2 where "ResolvePrimaryKeyColumnID dateparse (Some be) False False ?req st1 = (Inr (?c, True), st2)" by auto
  then have "\<exists>st2. lookupParentPrimaryKeyColumnID dateparse (Some be) False lookupKey vals fk st1 = (Inr (Some ?c), st2)"
    using guards same assms(7) by (auto simp: lookupParentPrimaryKeyColumnID_def Let_def same_key_def)
  moreover have "Values lr = vals" using lr(1) by (auto simp: newLookup_iff lookupMaterial_def)
  then have "\<exists>stage s. store st1 = snd (StagePrimaryKey be stage s) \<and> ColumnID stage = ?c \<and> Values stage = vals"
    using stage by (auto simp: st1 newBSIPrimaryKeyStageRequestFromLookup_def intro!: exI)
  moreover have "r = None" using r resolveNew_frame(3) [OF lr(2)] by simp
  ultimately show ?thesis by blast
qed

section \<open>A backend that keeps what is staged\<close>

text \<open>The instance the witnesses run on: the backend is the list of the identities staged, with
  their rows, and a domain is empty when the list is.\<close>

definition listed :: "(byte list \<times> u64) list BSIPrimaryKeyBackend" where
  "listed =
     \<lparr>LookupPrimaryKey = (\<lambda>req s. (Inr \<lparr>foundColumnID = 0, Found = False,
        MatchedColumnIDs = map snd (filter (\<lambda>p. fst p = Identity req) s)\<rparr>, s)),
      StagePrimaryKey = (\<lambda>req s. (None, s @ [(Identity req, ColumnID req)])),
      DomainStateProbe = Some (\<lambda>req s. (Inr (if s = [] then PrimaryKeyDomainEmpty else PrimaryKeyDomainNonEmpty), s))\<rparr>"

definition fresh :: "(byte list \<times> u64) list resolving" where
  "fresh = \<lparr>session = \<lparr>BatchBuffer = Some Map.empty, primaryKeyDomainStates = Map.empty, BitIndex = id_server None\<rparr>,
     tableBuffer = id_buffer Map.empty 0, store = [], profile = no_counts\<rparr>"

definition key_request :: "bool \<Rightarrow> PrimaryKeyResolveRequest" where
  "key_request lookup = \<lparr>LookupValue = ''7'', PrimaryKeyValues = [KAny (AInt64 7)], ProvidedColumnID = 0,
     DirectColumnID = False, LookupOnly = lookup, requestMode = ''verify_existing''\<rparr>"

lemma verify_mode: "\<not> assumeNew ''verify_existing''"
  by (simp add: assumeNew_def EqualFold_def)

lemma id_looks_up: "ShouldLookupPrimaryKey (id_buffer c v) = Inr True"
  by (simp add: ShouldLookupPrimaryKey_def id_buffer_def columnIDAttribute_def idx_def Let_def)

lemma id_encodable: "encodable (key_of (key_request l) (id_buffer c v))"
  by (simp add: encodable_def key_of_def id_buffer_def key_request_def)

lemma id_sized: "request_sized (key_of (key_request l) (id_buffer c v))"
  by (simp add: request_sized_def key_of_def id_buffer_def key_request_def go_sized_def attribute_fields_def)

definition id_key :: "byte list" where
  "id_key = projr (EncodePrimaryKeyIdentity (key_of (key_request False) (id_buffer Map.empty 0)))"

definition id_lookup :: "bool \<Rightarrow> BSIPrimaryKeyLookupRequest" where
  "id_lookup l = (lookupMaterial (key_request l) (id_buffer Map.empty 0))\<lparr>Identity := id_key\<rparr>"

lemma id_newLookup: "newBSIPrimaryKeyLookupRequest dateparse (key_request l) (id_buffer c v) = Inr (id_lookup l)"
proof -
  have k: "key_of (key_request l) (id_buffer c v) = key_of (key_request False) (id_buffer Map.empty 0)"
    by (simp add: key_of_def id_buffer_def key_request_def)
  obtain i where "EncodePrimaryKeyIdentity (key_of (key_request False) (id_buffer Map.empty 0)) = Inr i"
    using id_encodable EncodePrimaryKeyIdentity_form by blast
  then show ?thesis
    by (simp add: newLookup_iff k id_lookup_def id_key_def)
      (simp add: lookupMaterial_def id_buffer_def key_request_def optionalCompoundPrimaryKeyAuthorityValue_def)
qed

lemma id_key_nonempty: "id_key \<noteq> []"
  using newLookup_Identity(2) [OF id_newLookup [of "\<lambda>_. None" False Map.empty 0]] by (simp add: id_lookup_def)

lemma id_draw:
  "NextColumnID (id_buffer [0 \<mapsto> id_seq 1 2] 1) bi = (Inr (), id_buffer [0 \<mapsto> id_seq 1 3] 2, bi)"
  by (simp add: id_defs Let_def IsFullySubscribed_def)

definition key_domain :: string where
  "key_domain = bsiPrimaryKeyDomainKey (id_lookup False) (id_buffer Map.empty 0)"

lemma id_domain: "bsiPrimaryKeyDomainKey (id_lookup l) (id_buffer c v) = key_domain"
  by (simp add: key_domain_def bsiPrimaryKeyDomainKey_def id_lookup_def lookupMaterial_def id_buffer_def)

lemma key_domain_other: "key_domain \<noteq> []" "bsiPrimaryKeyAuthorityKey (id_lookup l) \<noteq> key_domain"
  using domain_key_authority [of "id_lookup l" "id_buffer Map.empty 0"]
  by (simp_all add: id_domain) (simp add: key_domain_def bsiPrimaryKeyDomainKey_def Let_def)

lemma id_validates: "validateBSIPrimaryKeyValues (key_request l) (id_buffer c v) = Inr ()"
  by (rule encodable_validates [OF id_encodable])

lemmas id_resolves = ResolvePrimaryKeyColumnID_def resolveKeyed_def resolveLocal_def resolveRemote_def
  resolveNew_def shouldSkipLookupForEmptyDomain_def probeDomain_def allocatePrimaryKeyColumnID_def
  newBSIPrimaryKeyStageRequestFromLookup_def LookupLocalCIDForPrimaryKeyIdentity_def SetPrimaryKeyIdentity_def
  cachedBSIPrimaryKeyDomainState_def markBSIPrimaryKeyDomainState_def normalizePrimaryKeyDomainState_def
  bsiPrimaryKeyAuthorityKnownNonEmpty_def counted_def started_def id_looks_up id_newLookup id_validates id_domain
  key_domain_other id_key_nonempty verify_mode

definition one_key :: "PrimaryKeyResolveProfile \<Rightarrow> (byte list \<times> u64) list resolving" where
  "one_key p = \<lparr>session = \<lparr>BatchBuffer = Some [id_key \<mapsto> 1], primaryKeyDomainStates = [key_domain \<mapsto> PrimaryKeyDomainEmpty],
       BitIndex = id_server (Some [id_seq 1 1])\<rparr>,
     tableBuffer = id_buffer [0 \<mapsto> id_seq 1 2] 1, store = [(id_key, 1)], profile = p\<rparr>"

lemma id_resolve_first:
  "\<exists>p. ResolvePrimaryKeyColumnID dateparse (Some listed) False False (key_request l) fresh = (Inr (1, False), one_key p)"
proof -
  have r: "ProvidedColumnID (key_request l) = 0" "requestMode (key_request l) = ''verify_existing''"
    by (simp_all add: key_request_def)
  have i: "Identity (id_lookup l) = id_key" "CurrentColumnID (id_buffer [0 \<mapsto> id_seq 1 2] 1) = 1"
    by (simp_all add: id_lookup_def id_buffer_def)
  show ?thesis
    by (simp add: id_resolves fresh_def listed_def one_key_def r i id_first Let_def)
qed

lemma id_resolve_flushed:
  "\<exists>st. ResolvePrimaryKeyColumnID dateparse (Some listed) False False (key_request False)
       ((one_key p)\<lparr>session := flush False (session (one_key p)), store := [(id_key, 1)]\<rparr>) = (Inr (2, False), st) \<and>
     store st = [(id_key, 1), (id_key, 2)]"
proof -
  have r: "ProvidedColumnID (key_request False) = 0" "requestMode (key_request False) = ''verify_existing''"
    by (simp_all add: key_request_def)
  have i: "Identity (id_lookup False) = id_key" "CurrentColumnID (id_buffer [0 \<mapsto> id_seq 1 3] 2) = 2"
    by (simp_all add: id_lookup_def id_buffer_def)
  show ?thesis
    by (simp add: id_resolves listed_def one_key_def flush_def r i id_draw Let_def)
qed

definition empty_when_unused :: "BSIPrimaryKeyLookupRequest \<Rightarrow> (byte list \<times> u64) list \<Rightarrow>
   (string + PrimaryKeyDomainState) \<times> (byte list \<times> u64) list" where
  "empty_when_unused req s = (Inr (if s = [] then PrimaryKeyDomainEmpty else PrimaryKeyDomainNonEmpty), s)"

lemma listed_probe:
  "DomainStateProbe listed = Some empty_when_unused"
  "fst (empty_when_unused lr (store fresh)) = Inr PrimaryKeyDomainEmpty"
  by (simp_all add: listed_def empty_when_unused_def fresh_def fun_eq_iff)

section \<open>Witnesses\<close>

text \<open>Witness: the key 7 resolved twice in a batch is row 1 both times, and a conflict when the second
  request provides row 9.\<close>

theorem resolve_same_key_witness:
  "\<exists>st1 st3. ResolvePrimaryKeyColumnID (\<lambda>_. None) (Some listed) False False (key_request False) fresh = (Inr (1, False), st1) \<and>
     ResolvePrimaryKeyColumnID (\<lambda>_. None) (Some listed) False False (key_request False) st1 = (Inr (1, True), st3) \<and>
     store st3 = [(id_key, 1)] \<and>
     fst (ResolvePrimaryKeyColumnID (\<lambda>_. None) (Some listed) False False ((key_request False)\<lparr>ProvidedColumnID := 9\<rparr>) st1) =
       Inl (Err (LocalBatchConflict 1 9))"
proof -
  obtain p where first: "ResolvePrimaryKeyColumnID (\<lambda>_. None) (Some listed) False False (key_request False) fresh =
      (Inr (1, False), one_key p)" using id_resolve_first by blast
  have b: "tableBuffer fresh = id_buffer Map.empty 0" "tableBuffer (one_key p) = id_buffer [0 \<mapsto> id_seq 1 2] 1"
    "batch_of fresh \<noteq> None" "store (one_key p) = [(id_key, 1)]"
    by (simp_all add: fresh_def one_key_def batch_of_def)
  have provided: "ProvidedColumnID (key_request False) = 0" by (simp add: key_request_def)
  have same: "key_of (key_request False) (tableBuffer (one_key p)) = key_of (key_request False) (tableBuffer fresh)"
    unfolding b by (simp add: key_of_def id_buffer_def)
  have same9: "key_of ((key_request False)\<lparr>ProvidedColumnID := 9\<rparr>) (tableBuffer (one_key p)) = key_of (key_request False) (tableBuffer fresh)"
    using same by (simp add: key_of_def)
  have look: "ShouldLookupPrimaryKey (tableBuffer fresh) = (Inr True :: (resolve_error, bool) res)"
    "ShouldLookupPrimaryKey (tableBuffer (one_key p)) = (Inr True :: (resolve_error, bool) res)"
    "encodable (key_of (key_request False) (tableBuffer fresh))" "request_sized (key_of (key_request False) (tableBuffer fresh))"
    by (simp_all add: b id_looks_up id_encodable id_sized)
  note again = resolve_same_key [OF first look(1) b(3) one_neq_zero look(4) now look(2), where dateparse' = "\<lambda>_. None" and be' = listed]
  show ?thesis
    using first b(4) again [of "key_request False", unfolded same, OF look(3,4) refl]
      again [of "(key_request False)\<lparr>ProvidedColumnID := 9\<rparr>", unfolded same9, OF look(3,4) refl]
    by (auto simp: provided)
qed

text \<open>Witness: the key 7 resolved, flushed and resolved again has the rows 1 and 2 in the backend.\<close>

theorem flush_forgets_key_witness:
  "\<exists>st1 st2 st3. ResolvePrimaryKeyColumnID (\<lambda>_. None) (Some listed) False False (key_request False) fresh = (Inr (1, False), st1) \<and>
     st2 = st1\<lparr>session := flush False (session st1), store := [(id_key, 1)]\<rparr> \<and>
     ResolvePrimaryKeyColumnID (\<lambda>_. None) (Some listed) False False (key_request False) st2 = (Inr (2, False), st3) \<and>
     BSILookupCount (profile st3) = 0 \<and> store st3 = [(id_key, 1), (id_key, 2)]"
proof -
  obtain p where first: "ResolvePrimaryKeyColumnID (\<lambda>_. None) (Some listed) False False (key_request False) fresh =
      (Inr (1, False), one_key p)" using id_resolve_first by blast
  let ?st2 = "(one_key p)\<lparr>session := flush False (session (one_key p)), store := [(id_key, 1)]\<rparr>"
  obtain st3 where again: "ResolvePrimaryKeyColumnID (\<lambda>_. None) (Some listed) False False (key_request False) ?st2 = (Inr (2, False), st3)"
    "store st3 = [(id_key, 1), (id_key, 2)]" using id_resolve_flushed by blast
  have "\<not> False \<and> BSILookupCount (profile st3) = 0 \<and> RownumAllocationCount (profile st3) = 1"
    by (rule flush_forgets_key [OF _ _ _ _ _ listed_probe first refl again(1)])
      (simp_all add: fresh_def batch_of_def key_request_def verify_mode id_looks_up)
  then show ?thesis using first again by blast
qed

text \<open>Witness: two searches for the missing parent key 7.\<close>

theorem parent_search_inserts_witness:
  "\<exists>st1 st2. lookupParentPrimaryKeyColumnID (\<lambda>_. None) (Some listed) False ''7'' [KAny (AInt64 7)] ''k'' fresh = (Inr None, st1) \<and>
     lookupParentPrimaryKeyColumnID (\<lambda>_. None) (Some listed) False ''7'' [KAny (AInt64 7)] ''k'' st1 = (Inr (Some 1), st2)"
proof -
  obtain p where "ResolvePrimaryKeyColumnID (\<lambda>_. None) (Some listed) False False (key_request True) fresh =
      (Inr (1, False), one_key p)" using id_resolve_first by blast
  then have "\<exists>st1. lookupParentPrimaryKeyColumnID (\<lambda>_. None) (Some listed) False ''7'' [KAny (AInt64 7)] ''k'' fresh = (Inr None, st1)"
    by (simp add: lookupParentPrimaryKeyColumnID_def key_request_def Let_def) (simp add: fresh_def id_buffer_def)
  then obtain st1 where search: "lookupParentPrimaryKeyColumnID (\<lambda>_. None) (Some listed) False ''7'' [KAny (AInt64 7)] ''k'' fresh = (Inr None, st1)"
    by blast
  have draw: "NextColumnID (tableBuffer fresh) (BitIndex (session fresh)) =
      (Inr (), id_buffer [0 \<mapsto> id_seq 1 2] 1, id_server (Some [id_seq 1 1]))"
    by (simp add: fresh_def id_first)
  have "None = (None :: u64 option) \<and>
    (\<exists>stage s. store st1 = snd (StagePrimaryKey listed stage s) \<and>
       ColumnID stage = CurrentColumnID (id_buffer [0 \<mapsto> id_seq 1 2] 1) \<and> Values stage = [KAny (AInt64 7)]) \<and>
    (\<exists>st2. lookupParentPrimaryKeyColumnID (\<lambda>_. None) (Some listed) False ''7'' [KAny (AInt64 7)] ''k'' st1 =
       (Inr (Some (CurrentColumnID (id_buffer [0 \<mapsto> id_seq 1 2] 1))), st2))"
    by (rule parent_search_inserts [OF _ _ _ listed_probe draw _ search])
      (simp_all add: fresh_def batch_of_def id_looks_up, simp add: id_buffer_def)
  then show ?thesis using search by (auto simp: id_buffer_def)
qed

end
