(* ===== verification/SQL_Lexer.thy ===== *)
theory SQL_Lexer
  imports Go_Strings
begin

text \<open>
  The lexer of the SQL front end (\<^verbatim>\<open>qsbridge/simple_lexer.go\<close>). The lexer is a cursor in the bytes
  of the text; the loop of \<^verbatim>\<open>lexSimpleSQL\<close> has no bound of its own, so it is a partial function
  whose value \<open>None\<close> is not returning. The theorem is that it returns, that no index leaves the
  text, and that its result is the only tiling of the text by longest tokens.
\<close>

section \<open>Tokens and the lexer\<close>

datatype simpleTokenKind =
    simpleTokenEOF | simpleTokenIdentifier | simpleTokenKeyword | simpleTokenNumber | simpleTokenString
  | simpleTokenOperator | simpleTokenComma | simpleTokenDot | simpleTokenLeftParen | simpleTokenRightParen
  | simpleTokenPlaceholder | simpleTokenAsterisk | simpleTokenSemicolon | simpleTokenError

record simpleToken =
  tokKind :: simpleTokenKind
  tokText :: string
  tokStart :: nat
  tokEnd :: nat

record simpleLexer =
  lexText :: string
  lexPos :: nat

definition isSimpleIdentifierStart :: "char \<Rightarrow> bool" where
  "isSimpleIdentifierStart ch \<longleftrightarrow>
     ch = CHR ''_'' \<or> (let n = of_char ch :: nat in 65 \<le> n \<and> n \<le> 90 \<or> 97 \<le> n \<and> n \<le> 122)"

definition isSimpleDigit :: "char \<Rightarrow> bool" where
  "isSimpleDigit ch \<longleftrightarrow> (let n = of_char ch :: nat in 48 \<le> n \<and> n \<le> 57)"

definition isSimpleIdentifierPart :: "char \<Rightarrow> bool" where
  "isSimpleIdentifierPart ch \<longleftrightarrow> isSimpleIdentifierStart ch \<or> isSimpleDigit ch"

definition isSimpleOperatorStart :: "char \<Rightarrow> bool" where
  "isSimpleOperatorStart ch \<longleftrightarrow> ch \<in> set ''=<>!+-/''"

definition simpleLowerASCII :: "string \<Rightarrow> string" where
  "simpleLowerASCII = map lower_char"

definition isSimpleKeyword :: "string \<Rightarrow> bool" where
  "isSimpleKeyword s \<longleftrightarrow> simpleLowerASCII s \<in> set
     [''and'', ''as'', ''asc'', ''between'', ''by'', ''desc'', ''false'', ''from'', ''group'', ''having'',
      ''in'', ''insert'', ''into'', ''is'', ''limit'', ''not'', ''null'', ''offset'', ''or'', ''order'',
      ''select'', ''true'', ''values'', ''where'']"

text \<open>\<^verbatim>\<open>unicode.IsSpace\<close> of a byte taken as a rune.\<close>

definition IsSpace :: "char \<Rightarrow> bool" where
  "IsSpace ch \<longleftrightarrow> (let n = of_char ch :: nat in 9 \<le> n \<and> n \<le> 13 \<or> n = 32 \<or> n = 0x85 \<or> n = 0xA0)"

text \<open>The loops \<^verbatim>\<open>for lexer.pos < len(lexer.text) && p(lexer.text[lexer.pos]) { lexer.pos++ }\<close>.\<close>

function scan_while :: "(char \<Rightarrow> bool) \<Rightarrow> string \<Rightarrow> nat \<Rightarrow> nat" where
  "scan_while p s i = (if i < length s \<and> p (s ! i) then scan_while p s (Suc i) else i)"
  by pat_completeness auto
termination by (relation "measure (\<lambda>(p, s, i). length s - i)") auto

declare scan_while.simps [simp del]

definition skipWhitespace :: "simpleLexer \<Rightarrow> simpleLexer" where
  "skipWhitespace lexer = lexer\<lparr>lexPos := scan_while IsSpace (lexText lexer) (lexPos lexer)\<rparr>"

text \<open>The token from \<open>start\<close> to the cursor.\<close>

definition tokenFrom :: "simpleTokenKind \<Rightarrow> nat \<Rightarrow> simpleLexer \<Rightarrow> (unit, simpleToken \<times> simpleLexer) res" where
  "tokenFrom kind start lexer =
     bindR (slice (lexText lexer) start (lexPos lexer)) (\<lambda>s.
       Inr (\<lparr>tokKind = kind, tokText = s, tokStart = start, tokEnd = lexPos lexer\<rparr>, lexer))"

definition scanIdentifierOrKeyword :: "simpleLexer \<Rightarrow> (unit, simpleToken \<times> simpleLexer) res" where
  "scanIdentifierOrKeyword lexer =
     (let start = lexPos lexer;
          lexer = lexer\<lparr>lexPos := scan_while isSimpleIdentifierPart (lexText lexer) (start + 1)\<rparr>
      in bindR (slice (lexText lexer) start (lexPos lexer)) (\<lambda>s.
           tokenFrom (if isSimpleKeyword s then simpleTokenKeyword else simpleTokenIdentifier) start lexer))"

definition scanNumber :: "simpleLexer \<Rightarrow> (unit, simpleToken \<times> simpleLexer) res" where
  "scanNumber lexer =
     (let start = lexPos lexer; s = lexText lexer;
          i = scan_while isSimpleDigit s start;
          i = (if i < length s \<and> s ! i = CHR ''.'' then scan_while isSimpleDigit s (i + 1) else i)
      in tokenFrom simpleTokenNumber start (lexer\<lparr>lexPos := i\<rparr>))"

text \<open>The loop of \<^verbatim>\<open>scanString\<close>: whether the closing quote was found, and the cursor.\<close>

function scan_quoted :: "string \<Rightarrow> nat \<Rightarrow> bool \<times> nat" where
  "scan_quoted s i =
     (if i < length s then
        if s ! i \<noteq> CHR 0x27 then scan_quoted s (i + 1)
        else if i + 1 < length s \<and> s ! (i + 1) = CHR 0x27 then scan_quoted s (i + 2)
        else (True, i + 1)
      else (False, i))"
  by pat_completeness auto
termination by (relation "measure (\<lambda>(s, i). length s - i)") auto

declare scan_quoted.simps [simp del]

definition scanString :: "simpleLexer \<Rightarrow> (unit, simpleToken \<times> simpleLexer) res" where
  "scanString lexer =
     (let start = lexPos lexer; (closed, i) = scan_quoted (lexText lexer) (start + 1)
      in tokenFrom (if closed then simpleTokenString else simpleTokenError) start (lexer\<lparr>lexPos := i\<rparr>))"

definition scanOperator :: "simpleLexer \<Rightarrow> (unit, simpleToken \<times> simpleLexer) res" where
  "scanOperator lexer =
     (let start = lexPos lexer; i = start + 1 in
      if i < length (lexText lexer) then
        bindR (slice (lexText lexer) start (i + 1)) (\<lambda>pair.
          tokenFrom simpleTokenOperator start
            (lexer\<lparr>lexPos := (if pair \<in> set [''>='', ''<='', ''<>'', ''!=''] then i + 1 else i)\<rparr>))
      else tokenFrom simpleTokenOperator start (lexer\<lparr>lexPos := i\<rparr>))"

text \<open>A token of one byte with the text the code writes for it.\<close>

definition punctuation :: "simpleTokenKind \<Rightarrow> string \<Rightarrow> simpleLexer \<Rightarrow> (unit, simpleToken \<times> simpleLexer) res" where
  "punctuation kind s lexer =
     (let lexer' = lexer\<lparr>lexPos := lexPos lexer + 1\<rparr>
      in Inr (\<lparr>tokKind = kind, tokText = s, tokStart = lexPos lexer, tokEnd = lexPos lexer'\<rparr>, lexer'))"

definition nextToken :: "simpleLexer \<Rightarrow> (unit, simpleToken \<times> simpleLexer) res" where
  "nextToken lexer =
     (let lexer = skipWhitespace lexer; start = lexPos lexer in
      if start \<ge> length (lexText lexer)
      then Inr (\<lparr>tokKind = simpleTokenEOF, tokText = [], tokStart = start, tokEnd = start\<rparr>, lexer)
      else
        bindR (idx (lexText lexer) start) (\<lambda>ch.
          if isSimpleIdentifierStart ch then scanIdentifierOrKeyword lexer
          else if isSimpleDigit ch then scanNumber lexer
          else if ch = CHR 0x27 then scanString lexer
          else if ch = CHR '','' then punctuation simpleTokenComma '','' lexer
          else if ch = CHR ''.'' then punctuation simpleTokenDot ''.'' lexer
          else if ch = CHR ''('' then punctuation simpleTokenLeftParen ''('' lexer
          else if ch = CHR '')'' then punctuation simpleTokenRightParen '')'' lexer
          else if ch = CHR ''?'' then punctuation simpleTokenPlaceholder ''?'' lexer
          else if ch = CHR ''*'' then punctuation simpleTokenAsterisk ''*'' lexer
          else if ch = CHR '';'' then punctuation simpleTokenSemicolon '';'' lexer
          else if isSimpleOperatorStart ch then scanOperator lexer
          else tokenFrom simpleTokenError start (lexer\<lparr>lexPos := start + 1\<rparr>)))"

partial_function (option) lexLoop :: "simpleLexer \<Rightarrow> simpleToken list \<Rightarrow> (unit, simpleToken list) res option" where
  "lexLoop lexer tokens =
     (case nextToken lexer of
        Inl e \<Rightarrow> Some (Inl e)
      | Inr (token, lexer) \<Rightarrow>
          if tokKind token = simpleTokenEOF \<or> tokKind token = simpleTokenError then Some (Inr (tokens @ [token]))
          else lexLoop lexer (tokens @ [token]))"

definition lexSimpleSQL :: "string \<Rightarrow> (unit, simpleToken list) res option" where
  "lexSimpleSQL sql = lexLoop \<lparr>lexText = sql, lexPos = 0\<rparr> []"

section \<open>What a token is\<close>

definition sub :: "string \<Rightarrow> nat \<Rightarrow> nat \<Rightarrow> string" where
  "sub s i j = take (j - i) (drop i s)"

text \<open>The SQL quoting of a text: every quote doubled, and quotes around it.\<close>

fun doubled :: "string \<Rightarrow> string" where
  "doubled [] = []"
| "doubled (c # s) = (if c = CHR 0x27 then [c, c] else [c]) @ doubled s"

definition quoted :: "string \<Rightarrow> string" where
  "quoted s = [CHR 0x27] @ doubled s @ [CHR 0x27]"

definition is_identifier :: "string \<Rightarrow> bool" where
  "is_identifier s \<longleftrightarrow> s \<noteq> [] \<and> isSimpleIdentifierStart (hd s) \<and> list_all isSimpleIdentifierPart s"

definition is_number :: "string \<Rightarrow> bool" where
  "is_number s \<longleftrightarrow> (\<exists>ds fs. ds \<noteq> [] \<and> list_all isSimpleDigit ds \<and> list_all isSimpleDigit fs \<and>
     (s = ds \<or> s = ds @ ''.'' @ fs))"

fun token_text :: "simpleTokenKind \<Rightarrow> string \<Rightarrow> bool" where
  "token_text simpleTokenEOF s \<longleftrightarrow> s = []"
| "token_text simpleTokenIdentifier s \<longleftrightarrow> is_identifier s \<and> \<not> isSimpleKeyword s"
| "token_text simpleTokenKeyword s \<longleftrightarrow> is_identifier s \<and> isSimpleKeyword s"
| "token_text simpleTokenNumber s \<longleftrightarrow> is_number s"
| "token_text simpleTokenString s \<longleftrightarrow> (\<exists>u. s = quoted u)"
| "token_text simpleTokenOperator s \<longleftrightarrow>
     s \<in> set [''='', ''<'', ''>'', ''!'', ''+'', ''-'', ''/'', ''>='', ''<='', ''<>'', ''!='']"
| "token_text simpleTokenComma s \<longleftrightarrow> s = '',''"
| "token_text simpleTokenDot s \<longleftrightarrow> s = ''.''"
| "token_text simpleTokenLeftParen s \<longleftrightarrow> s = ''(''"
| "token_text simpleTokenRightParen s \<longleftrightarrow> s = '')''"
| "token_text simpleTokenPlaceholder s \<longleftrightarrow> s = ''?''"
| "token_text simpleTokenAsterisk s \<longleftrightarrow> s = ''*''"
| "token_text simpleTokenSemicolon s \<longleftrightarrow> s = '';''"
| "token_text simpleTokenError s \<longleftrightarrow>
     (\<exists>c. s = [c] \<and> c \<notin> set '',.()?*;'' \<and> c \<noteq> CHR 0x27 \<and> \<not> IsSpace c \<and>
        \<not> isSimpleIdentifierPart c \<and> \<not> isSimpleOperatorStart c) \<or>
     (\<exists>u. s = CHR 0x27 # doubled u)"

text \<open>Tokens are as long as possible: what may follow a token.\<close>

fun ends_before :: "simpleTokenKind \<Rightarrow> string \<Rightarrow> string \<Rightarrow> bool" where
  "ends_before simpleTokenEOF s rest \<longleftrightarrow> rest = []"
| "ends_before simpleTokenIdentifier s rest \<longleftrightarrow> rest = [] \<or> \<not> isSimpleIdentifierPart (hd rest)"
| "ends_before simpleTokenKeyword s rest \<longleftrightarrow> rest = [] \<or> \<not> isSimpleIdentifierPart (hd rest)"
| "ends_before simpleTokenNumber s rest \<longleftrightarrow>
     rest = [] \<or> \<not> isSimpleDigit (hd rest) \<and> (hd rest \<noteq> CHR ''.'' \<or> CHR ''.'' \<in> set s)"
| "ends_before simpleTokenString s rest \<longleftrightarrow> rest = [] \<or> hd rest \<noteq> CHR 0x27"
| "ends_before simpleTokenOperator s rest \<longleftrightarrow> rest = [] \<or> s @ [hd rest] \<notin> set [''>='', ''<='', ''<>'', ''!='']"
| "ends_before simpleTokenError s rest \<longleftrightarrow> hd s \<noteq> CHR 0x27 \<or> rest = []"
| "ends_before _ s rest \<longleftrightarrow> True"

definition final :: "simpleToken \<Rightarrow> bool" where
  "final tok \<longleftrightarrow> tokKind tok = simpleTokenEOF \<or> tokKind tok = simpleTokenError"

text \<open>A token of a text after the position \<open>i\<close>: blanks up to its start, then its text.\<close>

definition token_at :: "string \<Rightarrow> nat \<Rightarrow> simpleToken \<Rightarrow> bool" where
  "token_at s i tok \<longleftrightarrow>
     i \<le> tokStart tok \<and> tokStart tok \<le> tokEnd tok \<and> tokEnd tok \<le> length s \<and>
     list_all IsSpace (sub s i (tokStart tok)) \<and>
     tokText tok = sub s (tokStart tok) (tokEnd tok) \<and> token_text (tokKind tok) (tokText tok) \<and>
     ends_before (tokKind tok) (tokText tok) (drop (tokEnd tok) s)"

fun tiles :: "string \<Rightarrow> nat \<Rightarrow> simpleToken list \<Rightarrow> bool" where
  "tiles s i [] \<longleftrightarrow> False"
| "tiles s i (tok # toks) \<longleftrightarrow>
     token_at s i tok \<and>
     (if toks = [] then final tok else \<not> final tok \<and> tiles s (tokEnd tok) toks)"

section \<open>The scanners\<close>

lemma sub_Nil [simp]: "sub s i i = []" by (simp add: sub_def)

lemma sub_Cons: "i < j \<Longrightarrow> j \<le> length s \<Longrightarrow> sub s i j = s ! i # sub s (Suc i) j"
  by (simp add: sub_def Cons_nth_drop_Suc [symmetric] Suc_diff_Suc [symmetric] del: Suc_diff_Suc)

lemma sub_split: "i \<le> j \<Longrightarrow> j \<le> k \<Longrightarrow> sub s i k = sub s i j @ sub s j k"
  using take_add [of "j - i" "k - j" "drop i s"] by (simp add: sub_def)

lemma slice_sub: "i \<le> j \<Longrightarrow> j \<le> length s \<Longrightarrow> slice s i j = Inr (sub s i j)"
  by (simp add: slice_def sub_def)

lemma scan_while_stop: "\<not> (i < length s \<and> p (s ! i)) \<Longrightarrow> scan_while p s i = i"
  by (subst scan_while.simps) (rule if_not_P)

lemma scan_while_spec:
  "i \<le> length s \<Longrightarrow> i \<le> scan_while p s i \<and> scan_while p s i \<le> length s \<and> list_all p (sub s i (scan_while p s i))"
proof (induction p s i rule: scan_while.induct)
  case (1 p s i)
  show ?case
  proof (cases "i < length s \<and> p (s ! i)")
    case True
    with 1 have "Suc i \<le> scan_while p s (Suc i) \<and> scan_while p s (Suc i) \<le> length s \<and>
        list_all p (sub s (Suc i) (scan_while p s (Suc i)))" by simp
    with True show ?thesis by (simp add: scan_while.simps [of p s i] sub_Cons)
  next
    case False
    with 1 show ?thesis by (simp add: scan_while_stop)
  qed
qed

lemma scan_while_end: "scan_while p s i < length s \<Longrightarrow> \<not> p (s ! scan_while p s i)"
proof (induction p s i rule: scan_while.induct)
  case (1 p s i)
  show ?case
  proof (cases "i < length s \<and> p (s ! i)")
    case True
    with 1 show ?thesis by (simp add: scan_while.simps [of p s i])
  next
    case False
    with 1 show ?thesis by (simp add: scan_while_stop)
  qed
qed

lemma scan_while_ends: "drop (scan_while p s i) s = [] \<or> \<not> p (hd (drop (scan_while p s i) s))"
  using scan_while_end [of p s i] by (cases "scan_while p s i < length s") (simp_all add: hd_drop_conv_nth)

lemma scan_quoted_step:
  "i < length s \<Longrightarrow> s ! i \<noteq> CHR 0x27 \<Longrightarrow> scan_quoted s i = scan_quoted s (Suc i)"
  "Suc i < length s \<Longrightarrow> s ! i = CHR 0x27 \<Longrightarrow> s ! Suc i = CHR 0x27 \<Longrightarrow> scan_quoted s i = scan_quoted s (Suc (Suc i))"
  "i < length s \<Longrightarrow> s ! i = CHR 0x27 \<Longrightarrow> \<not> (Suc i < length s \<and> s ! Suc i = CHR 0x27) \<Longrightarrow> scan_quoted s i = (True, Suc i)"
  "\<not> i < length s \<Longrightarrow> scan_quoted s i = (False, i)"
  by (subst scan_quoted.simps; simp)+

definition closing :: "bool \<Rightarrow> string" where
  "closing closed = (if closed then [CHR 0x27] else [])"

lemma scan_quoted_spec:
  assumes "i \<le> length s" "scan_quoted s i = (closed, j)"
  shows "i \<le> j \<and> j \<le> length s \<and> (\<exists>u. sub s i j = doubled u @ closing closed)"
  using assms
proof (induction "length s - i" arbitrary: i rule: less_induct)
  case less
  consider (other) "i < length s" "s ! i \<noteq> CHR 0x27"
    | (pair) "Suc i < length s" "s ! i = CHR 0x27" "s ! Suc i = CHR 0x27"
    | (close) "i < length s" "s ! i = CHR 0x27" "\<not> (Suc i < length s \<and> s ! Suc i = CHR 0x27)"
    | (stop) "\<not> i < length s"
    by (metis Suc_lessD)
  then show ?case
  proof cases
    case other
    with less.hyps [of "Suc i"] less.prems(2) obtain u where
      u: "Suc i \<le> j" "j \<le> length s" "sub s (Suc i) j = doubled u @ closing closed"
      by (auto simp: scan_quoted_step diff_less_mono2)
    then have "sub s i j = doubled (s ! i # u) @ closing closed" using other by (simp add: sub_Cons)
    with u show ?thesis by (meson Suc_leD)
  next
    case pair
    with less.hyps [of "Suc (Suc i)"] less.prems(2) obtain u where
      u: "Suc (Suc i) \<le> j" "j \<le> length s" "sub s (Suc (Suc i)) j = doubled u @ closing closed"
      by (auto simp: scan_quoted_step diff_less_mono2)
    then have "sub s i j = doubled (s ! i # u) @ closing closed" using pair by (simp add: sub_Cons)
    with u show ?thesis by (meson Suc_leD)
  next
    case close
    then have r: "closed" "j = Suc i" using less.prems(2) by (simp_all add: scan_quoted_step)
    then have "sub s i j = doubled [] @ closing closed" using close by (simp add: sub_Cons closing_def)
    then show ?thesis using r close by (metis Suc_leI le_SucI order_refl)
  next
    case stop
    then have r: "\<not> closed" "j = i" using less.prems(2) by (simp_all add: scan_quoted_step)
    then have "sub s i j = doubled [] @ closing closed" by (simp add: closing_def)
    then show ?thesis using r less.prems(1) by blast
  qed
qed

lemma scan_quoted_ends:
  assumes "scan_quoted s i = (closed, j)" "i \<le> length s"
  shows "if closed then drop j s = [] \<or> hd (drop j s) \<noteq> CHR 0x27 else j = length s"
  using assms
proof (induction "length s - i" arbitrary: i rule: less_induct)
  case less
  consider (other) "i < length s" "s ! i \<noteq> CHR 0x27"
    | (pair) "Suc i < length s" "s ! i = CHR 0x27" "s ! Suc i = CHR 0x27"
    | (close) "i < length s" "s ! i = CHR 0x27" "\<not> (Suc i < length s \<and> s ! Suc i = CHR 0x27)"
    | (stop) "\<not> i < length s"
    by (metis Suc_lessD)
  then show ?case
  proof cases
    case other
    then have "scan_quoted s (Suc i) = (closed, j)" "Suc i \<le> length s" "length s - Suc i < length s - i"
      using less.prems(1) scan_quoted_step(1) [OF other] by auto
    then show ?thesis using less.hyps by blast
  next
    case pair
    then have "scan_quoted s (Suc (Suc i)) = (closed, j)" "Suc (Suc i) \<le> length s" "length s - Suc (Suc i) < length s - i"
      using less.prems(1) scan_quoted_step(2) [OF pair] by auto
    then show ?thesis using less.hyps by blast
  next
    case close
    then have "closed" "j = Suc i" using less.prems(1) scan_quoted_step(3) [OF close] by simp_all
    then show ?thesis using close(3) by (cases "Suc i < length s") (simp_all add: hd_drop_conv_nth)
  next
    case stop
    then show ?thesis using less.prems scan_quoted_step(4) [OF stop] by simp
  qed
qed

text \<open>What a scanner owes when it starts at \<open>i\<close> in \<open>s\<close>: a token that starts there and is not empty, with the
  cursor at its end.\<close>

definition scans :: "string \<Rightarrow> nat \<Rightarrow> (unit, simpleToken \<times> simpleLexer) res \<Rightarrow> bool" where
  "scans s i r \<longleftrightarrow>
     (\<exists>tok. r = Inr (tok, \<lparr>lexText = s, lexPos = tokEnd tok\<rparr>) \<and> tokStart tok = i \<and> i < tokEnd tok \<and>
        tokEnd tok \<le> length s \<and> tokText tok = sub s i (tokEnd tok) \<and> token_text (tokKind tok) (tokText tok) \<and>
        ends_before (tokKind tok) (tokText tok) (drop (tokEnd tok) s) \<and> tokKind tok \<noteq> simpleTokenEOF)"

lemma tokenFrom_scans:
  "i < j \<Longrightarrow> j \<le> length s \<Longrightarrow> token_text kind (sub s i j) \<Longrightarrow> ends_before kind (sub s i j) (drop j s) \<Longrightarrow>
   kind \<noteq> simpleTokenEOF \<Longrightarrow> scans s i (tokenFrom kind i \<lparr>lexText = s, lexPos = j\<rparr>)"
  by (simp add: tokenFrom_def slice_sub scans_def)

lemma identifier_scans:
  assumes "i < length s" "isSimpleIdentifierStart (s ! i)"
  shows "scans s i (scanIdentifierOrKeyword \<lparr>lexText = s, lexPos = i\<rparr>)"
proof -
  let ?j = "scan_while isSimpleIdentifierPart s (Suc i)"
  have j: "i < ?j" "?j \<le> length s" "list_all isSimpleIdentifierPart (sub s (Suc i) ?j)"
    using scan_while_spec [of "Suc i" s isSimpleIdentifierPart] assms(1) by auto
  have "is_identifier (sub s i ?j)"
    using j assms by (simp add: is_identifier_def sub_Cons isSimpleIdentifierPart_def)
  with tokenFrom_scans [OF j(1,2)] j scan_while_ends [of isSimpleIdentifierPart s "Suc i"] show ?thesis
    by (simp add: scanIdentifierOrKeyword_def slice_sub)
qed

lemma number_scans:
  assumes "i < length s" "isSimpleDigit (s ! i)"
  shows "scans s i (scanNumber \<lparr>lexText = s, lexPos = i\<rparr>)"
proof -
  let ?j = "scan_while isSimpleDigit s i"
  have j: "i \<le> ?j" "?j \<le> length s" "list_all isSimpleDigit (sub s i ?j)"
    using scan_while_spec [of i s isSimpleDigit] assms(1) by auto
  have "i < ?j" using j(1) scan_while_end [of isSimpleDigit s i] assms by (metis le_neq_implies_less)
  show ?thesis
  proof (cases "?j < length s \<and> s ! ?j = CHR ''.''")
    case False
    have "is_number (sub s i ?j)" using j \<open>i < ?j\<close> by (auto simp: is_number_def sub_Cons)
    moreover have "ends_before simpleTokenNumber (sub s i ?j) (drop ?j s)"
      using scan_while_ends [of isSimpleDigit s i] False by (cases "?j < length s") (simp_all add: hd_drop_conv_nth)
    moreover have "scanNumber \<lparr>lexText = s, lexPos = i\<rparr> = tokenFrom simpleTokenNumber i \<lparr>lexText = s, lexPos = ?j\<rparr>"
      using False by (auto simp: scanNumber_def Let_def)
    ultimately show ?thesis using tokenFrom_scans [OF \<open>i < ?j\<close> j(2)] by simp
  next
    case True
    let ?k = "scan_while isSimpleDigit s (Suc ?j)"
    have k: "Suc ?j \<le> ?k" "?k \<le> length s" "list_all isSimpleDigit (sub s (Suc ?j) ?k)"
      using scan_while_spec [of "Suc ?j" s isSimpleDigit] True by auto
    then have parts: "sub s i ?k = sub s i ?j @ ''.'' @ sub s (Suc ?j) ?k"
      using sub_split [OF j(1), of ?k s] True by (simp add: sub_Cons)
    have "sub s i ?j \<noteq> []" using \<open>i < ?j\<close> j(2) by (simp add: sub_Cons)
    with parts have "is_number (sub s i ?k)" using j(3) k(3) unfolding is_number_def by blast
    moreover have "ends_before simpleTokenNumber (sub s i ?k) (drop ?k s)"
      using scan_while_ends [of isSimpleDigit s "Suc ?j"] parts by simp
    ultimately show ?thesis using True tokenFrom_scans [of i ?k s] k \<open>i < ?j\<close> by (simp add: scanNumber_def)
  qed
qed

lemma string_scans:
  assumes "i < length s" "s ! i = CHR 0x27"
  shows "scans s i (scanString \<lparr>lexText = s, lexPos = i\<rparr>)"
proof -
  obtain closed j where r: "scan_quoted s (Suc i) = (closed, j)" by (cases "scan_quoted s (Suc i)")
  with scan_quoted_spec [of "Suc i" s closed j] assms(1) obtain u where
    j: "Suc i \<le> j" "j \<le> length s" and u: "sub s (Suc i) j = doubled u @ closing closed" by auto
  have "token_text (if closed then simpleTokenString else simpleTokenError) (sub s i j)"
    using j u assms by (auto simp: sub_Cons quoted_def closing_def)
  moreover have "ends_before (if closed then simpleTokenString else simpleTokenError) (sub s i j) (drop j s)"
    using scan_quoted_ends [OF r] assms(1) by (simp split: if_splits)
  moreover have "scanString \<lparr>lexText = s, lexPos = i\<rparr> =
      tokenFrom (if closed then simpleTokenString else simpleTokenError) i \<lparr>lexText = s, lexPos = j\<rparr>"
    using r by (simp add: scanString_def)
  ultimately show ?thesis using j tokenFrom_scans [of i j s "if closed then simpleTokenString else simpleTokenError"]
    by (simp split: if_splits)
qed

lemma operator_scans:
  assumes "i < length s" "isSimpleOperatorStart (s ! i)"
  shows "scans s i (scanOperator \<lparr>lexText = s, lexPos = i\<rparr>)"
proof -
  let ?pairs = "set [''>='', ''<='', ''<>'', ''!='']"
  have one: "sub s i (Suc i) = [s ! i]" using assms(1) by (simp add: sub_Cons)
  have short: "token_text simpleTokenOperator [s ! i]" using assms(2) by (auto simp: isSimpleOperatorStart_def)
  show ?thesis
  proof (cases "Suc i < length s")
    case False
    then have "ends_before simpleTokenOperator [s ! i] (drop (Suc i) s)" by simp
    with short False assms(1) tokenFrom_scans [of i "Suc i" s simpleTokenOperator] show ?thesis
      by (simp add: scanOperator_def one del: ends_before.simps token_text.simps)
  next
    case True
    have two: "sub s i (Suc (Suc i)) = [s ! i, s ! Suc i]" using True by (simp add: sub_Cons)
    show ?thesis
    proof (cases "[s ! i, s ! Suc i] \<in> ?pairs")
      case pair: True
      then have "token_text simpleTokenOperator [s ! i, s ! Suc i]" by auto
      moreover have "ends_before simpleTokenOperator [s ! i, s ! Suc i] (drop (Suc (Suc i)) s)" by simp
      ultimately have "scans s i (tokenFrom simpleTokenOperator i \<lparr>lexText = s, lexPos = Suc (Suc i)\<rparr>)"
        using True by (intro tokenFrom_scans) (simp_all only: two, simp_all)
      then show ?thesis using True pair by (auto simp: scanOperator_def slice_sub two)
    next
      case False
      then have "ends_before simpleTokenOperator [s ! i] (drop (Suc i) s)" using True by (simp add: hd_drop_conv_nth)
      with short have "scans s i (tokenFrom simpleTokenOperator i \<lparr>lexText = s, lexPos = Suc i\<rparr>)"
        using True by (intro tokenFrom_scans) (simp_all only: one, simp_all)
      then show ?thesis using True False by (auto simp: scanOperator_def slice_sub two)
    qed
  qed
qed

lemma punctuation_scans:
  "i < length s \<Longrightarrow> p = [s ! i] \<Longrightarrow> token_text kind p \<Longrightarrow> kind \<noteq> simpleTokenEOF \<Longrightarrow> ends_before kind p (drop (Suc i) s) \<Longrightarrow>
   scans s i (punctuation kind p \<lparr>lexText = s, lexPos = i\<rparr>)"
  by (simp add: punctuation_def scans_def sub_Cons)

section \<open>The loop\<close>

lemma if_scans: "(c \<Longrightarrow> scans s i r) \<Longrightarrow> (\<not> c \<Longrightarrow> scans s i r') \<Longrightarrow> scans s i (if c then r else r')"
  by simp

lemma error_scans:
  "i < length s \<Longrightarrow> s ! i \<notin> set '',.()?*;'' \<Longrightarrow> s ! i \<noteq> CHR 0x27 \<Longrightarrow> \<not> IsSpace (s ! i) \<Longrightarrow>
   \<not> isSimpleIdentifierStart (s ! i) \<Longrightarrow> \<not> isSimpleDigit (s ! i) \<Longrightarrow> \<not> isSimpleOperatorStart (s ! i) \<Longrightarrow>
   scans s i (tokenFrom simpleTokenError i \<lparr>lexText = s, lexPos = Suc i\<rparr>)"
  by (rule tokenFrom_scans) (simp_all add: sub_Cons isSimpleIdentifierPart_def)

lemma sign_scans:
  assumes "i < length s" "s ! i = c" "(kind, c) \<in> set [(simpleTokenComma, CHR '',''), (simpleTokenDot, CHR ''.''),
     (simpleTokenLeftParen, CHR ''(''), (simpleTokenRightParen, CHR '')''), (simpleTokenPlaceholder, CHR ''?''),
     (simpleTokenAsterisk, CHR ''*''), (simpleTokenSemicolon, CHR '';'')]"
  shows "scans s i (punctuation kind [c] \<lparr>lexText = s, lexPos = i\<rparr>)"
proof -
  have "token_text kind [c]" "kind \<noteq> simpleTokenEOF" "ends_before kind [c] (drop (Suc i) s)"
    using assms(3) by auto
  then show ?thesis using punctuation_scans [OF assms(1)] assms(2) by simp
qed

lemma nextToken_scans:
  assumes "scan_while IsSpace s i = j" "j < length s"
  shows "scans s j (nextToken \<lparr>lexText = s, lexPos = i\<rparr>)"
proof -
  have blank: "\<not> IsSpace (s ! j)" using scan_while_end [of IsSpace s i] assms by simp
  have skip: "skipWhitespace \<lparr>lexText = s, lexPos = i\<rparr> = \<lparr>lexText = s, lexPos = j\<rparr>"
    by (simp add: skipWhitespace_def assms(1))
  have past: "(length s \<le> j) = False" and ch: "idx s j = (Inr (s ! j) :: (unit, char) res)"
    using assms(2) by (simp_all add: idx_def)
  show ?thesis
    unfolding nextToken_def skip Let_def
    by (simp only: simpleLexer.simps past ch if_False bindR.simps)
      (intro if_scans; simp add: assms(2) blank identifier_scans number_scans string_scans operator_scans sign_scans error_scans)
qed

lemma nextToken_spec:
  assumes "i \<le> length s"
  shows "\<exists>tok. nextToken \<lparr>lexText = s, lexPos = i\<rparr> = Inr (tok, \<lparr>lexText = s, lexPos = tokEnd tok\<rparr>) \<and> token_at s i tok \<and>
    (if tokKind tok = simpleTokenEOF then tokStart tok = length s else i < tokEnd tok)"
proof -
  let ?j = "scan_while IsSpace s i"
  note j = scan_while_spec [OF assms, of IsSpace]
  have skip: "skipWhitespace \<lparr>lexText = s, lexPos = i\<rparr> = \<lparr>lexText = s, lexPos = ?j\<rparr>" by (simp add: skipWhitespace_def)
  show ?thesis
  proof (cases "?j < length s")
    case False
    then have "?j = length s" using j by simp
    then show ?thesis using j
      by (intro exI [of _ "\<lparr>tokKind = simpleTokenEOF, tokText = [], tokStart = ?j, tokEnd = ?j\<rparr>"])
        (simp add: nextToken_def skip token_at_def Let_def)
  next
    case True
    from nextToken_scans [OF refl this] obtain tok where
      tok: "nextToken \<lparr>lexText = s, lexPos = i\<rparr> = Inr (tok, \<lparr>lexText = s, lexPos = tokEnd tok\<rparr>)" "tokStart tok = ?j" "?j < tokEnd tok"
        "tokEnd tok \<le> length s" "tokText tok = sub s ?j (tokEnd tok)" "token_text (tokKind tok) (tokText tok)"
        "ends_before (tokKind tok) (tokText tok) (drop (tokEnd tok) s)" "tokKind tok \<noteq> simpleTokenEOF"
      unfolding scans_def by blast
    then have "token_at s i tok" "i < tokEnd tok" using j by (simp_all add: token_at_def)
    with tok(1,8) show ?thesis by (intro exI [of _ tok]) simp
  qed
qed

lemma lexLoop_spec:
  "i \<le> length s \<Longrightarrow> \<exists>toks. lexLoop \<lparr>lexText = s, lexPos = i\<rparr> acc = Some (Inr (acc @ toks)) \<and> tiles s i toks"
proof (induction "length s - i" arbitrary: i acc rule: less_induct)
  case less
  obtain tok where tok: "nextToken \<lparr>lexText = s, lexPos = i\<rparr> = Inr (tok, \<lparr>lexText = s, lexPos = tokEnd tok\<rparr>)" "token_at s i tok"
    "if tokKind tok = simpleTokenEOF then tokStart tok = length s else i < tokEnd tok"
    using nextToken_spec [OF less.prems] by blast
  show ?case
  proof (cases "final tok")
    case True
    then have "lexLoop \<lparr>lexText = s, lexPos = i\<rparr> acc = Some (Inr (acc @ [tok]))"
      by (subst lexLoop.simps) (simp add: tok(1) final_def)
    then show ?thesis using tok(2,3) True by (intro exI [of _ "[tok]"]) auto
  next
    case False
    then have "i < tokEnd tok" "tokEnd tok \<le> length s" using tok(2,3) by (auto simp: final_def token_at_def)
    then obtain toks where "lexLoop \<lparr>lexText = s, lexPos = tokEnd tok\<rparr> (acc @ [tok]) = Some (Inr ((acc @ [tok]) @ toks))"
      "tiles s (tokEnd tok) toks" using less.hyps [of "tokEnd tok" "acc @ [tok]"] by (auto simp: diff_less_mono2)
    moreover have "lexLoop \<lparr>lexText = s, lexPos = i\<rparr> acc = lexLoop \<lparr>lexText = s, lexPos = tokEnd tok\<rparr> (acc @ [tok])"
      using False by (subst lexLoop.simps) (simp add: tok(1) final_def)
    ultimately show ?thesis using tok(2) False by (intro exI [of _ "tok # toks"]) auto
  qed
qed

section \<open>The tiling is unique\<close>

lemma sub_ConsD:
  assumes "sub s i e = x # xs" "e \<le> length s"
  shows "i < e" "s ! i = x" "sub s (Suc i) e = xs"
proof -
  show "i < e" using assms(1) by (cases "i < e") (auto simp: sub_def)
  then show "s ! i = x" "sub s (Suc i) e = xs" using assms by (simp_all add: sub_Cons)
qed

lemma scan_while_unique:
  "i \<le> e \<Longrightarrow> e \<le> length s \<Longrightarrow> list_all p (sub s i e) \<Longrightarrow> drop e s = [] \<or> \<not> p (hd (drop e s)) \<Longrightarrow> scan_while p s i = e"
proof (induction "e - i" arbitrary: i)
  case 0
  then have "i = e" by simp
  moreover have "\<not> (e < length s \<and> p (s ! e))" using 0(5) by (auto simp: hd_drop_conv_nth)
  ultimately show ?case using scan_while_stop by blast
next
  case (Suc n)
  then have "i < e" by simp
  then have "p (s ! i)" "list_all p (sub s (Suc i) e)" using Suc.prems by (simp_all add: sub_Cons)
  moreover have "scan_while p s i = scan_while p s (Suc i)"
    using \<open>i < e\<close> Suc.prems(2) \<open>p (s ! i)\<close> by (subst scan_while.simps) simp
  ultimately show ?case using Suc \<open>i < e\<close> by simp
qed

lemma scan_quoted_closed:
  "sub s i e = doubled u @ [CHR 0x27] \<Longrightarrow> e \<le> length s \<Longrightarrow> drop e s = [] \<or> hd (drop e s) \<noteq> CHR 0x27 \<Longrightarrow>
   scan_quoted s i = (True, e)"
proof (induction u arbitrary: i)
  case Nil
  then have i: "i < e" "s ! i = CHR 0x27" "sub s (Suc i) e = []" using sub_ConsD [of s i e] by auto
  then have "e = Suc i" using Nil.prems(2) sub_Cons [of "Suc i" e s] by (cases "Suc i < e") auto
  then show ?case using i Nil.prems scan_quoted_step(3) [of i s]
    by (cases "Suc i < length s") (auto simp: hd_drop_conv_nth)
next
  case (Cons c u)
  show ?case
  proof (cases "c = CHR 0x27")
    case True
    then have 1: "i < e" "s ! i = CHR 0x27" "sub s (Suc i) e = CHR 0x27 # doubled u @ [CHR 0x27]"
      using sub_ConsD [of s i e] Cons.prems by auto
    from sub_ConsD [OF this(3) Cons.prems(2)] have
      "Suc i < e" "s ! Suc i = CHR 0x27" "sub s (Suc (Suc i)) e = doubled u @ [CHR 0x27]" .
    then show ?thesis using 1 Cons scan_quoted_step(2) [of i s] by auto
  next
    case False
    then have "i < e" "s ! i = c" "sub s (Suc i) e = doubled u @ [CHR 0x27]" using sub_ConsD [of s i e] Cons.prems by auto
    then show ?thesis using False Cons scan_quoted_step(1) [of i s] by auto
  qed
qed

lemma scan_quoted_open:
  "sub s i (length s) = doubled u \<Longrightarrow> i \<le> length s \<Longrightarrow> scan_quoted s i = (False, length s)"
proof (induction u arbitrary: i)
  case Nil
  then have "i = length s" by (cases "i < length s") (auto simp: sub_Cons)
  then show ?case using scan_quoted_step(4) [of i s] by simp
next
  case (Cons c u)
  show ?case
  proof (cases "c = CHR 0x27")
    case True
    then have 1: "i < length s" "s ! i = CHR 0x27" "sub s (Suc i) (length s) = CHR 0x27 # doubled u"
      using sub_ConsD [of s i "length s"] Cons.prems by auto
    from sub_ConsD [OF this(3)] have
      "Suc i < length s" "s ! Suc i = CHR 0x27" "sub s (Suc (Suc i)) (length s) = doubled u" by simp_all
    then show ?thesis using 1 Cons scan_quoted_step(2) [of i s] by auto
  next
    case False
    then have "i < length s" "s ! i = c" "sub s (Suc i) (length s) = doubled u" using sub_ConsD [of s i "length s"] Cons.prems by auto
    then show ?thesis using False Cons scan_quoted_step(1) [of i s] by auto
  qed
qed

definition number_end :: "string \<Rightarrow> nat \<Rightarrow> nat" where
  "number_end s i =
     (let j = scan_while isSimpleDigit s i in
      if j < length s \<and> s ! j = CHR ''.'' then scan_while isSimpleDigit s (Suc j) else j)"

text \<open>The kind and the end of the token that starts at a position.\<close>

definition token_from :: "string \<Rightarrow> nat \<Rightarrow> simpleTokenKind \<times> nat" where
  "token_from s i =
     (if i \<ge> length s then (simpleTokenEOF, i)
      else if isSimpleIdentifierStart (s ! i) then
        (let j = scan_while isSimpleIdentifierPart s i in
         (if isSimpleKeyword (sub s i j) then simpleTokenKeyword else simpleTokenIdentifier, j))
      else if isSimpleDigit (s ! i) then (simpleTokenNumber, number_end s i)
      else if s ! i = CHR 0x27 then
        (case scan_quoted s (Suc i) of (closed, j) \<Rightarrow> (if closed then simpleTokenString else simpleTokenError, j))
      else if s ! i = CHR '','' then (simpleTokenComma, Suc i)
      else if s ! i = CHR ''.'' then (simpleTokenDot, Suc i)
      else if s ! i = CHR ''('' then (simpleTokenLeftParen, Suc i)
      else if s ! i = CHR '')'' then (simpleTokenRightParen, Suc i)
      else if s ! i = CHR ''?'' then (simpleTokenPlaceholder, Suc i)
      else if s ! i = CHR ''*'' then (simpleTokenAsterisk, Suc i)
      else if s ! i = CHR '';'' then (simpleTokenSemicolon, Suc i)
      else if isSimpleOperatorStart (s ! i) then
        (simpleTokenOperator,
         if Suc i < length s \<and> [s ! i, s ! Suc i] \<in> set [''>='', ''<='', ''<>'', ''!=''] then Suc (Suc i) else Suc i)
      else (simpleTokenError, Suc i))"

lemma char_classes:
  "isSimpleIdentifierStart c \<Longrightarrow> \<not> isSimpleDigit c \<and> \<not> IsSpace c \<and> c \<noteq> CHR 0x27 \<and> c \<notin> set '',.()?*;'' \<and> \<not> isSimpleOperatorStart c"
  "isSimpleDigit c \<Longrightarrow> \<not> IsSpace c \<and> c \<noteq> CHR 0x27 \<and> c \<notin> set '',.()?*;'' \<and> \<not> isSimpleOperatorStart c \<and> \<not> isSimpleIdentifierStart c"
  by (auto simp: isSimpleIdentifierStart_def isSimpleDigit_def IsSpace_def isSimpleOperatorStart_def Let_def)

lemma sign_classes:
  "c \<in> set '',.()?*;'' \<or> isSimpleOperatorStart c \<or> c = CHR 0x27 \<Longrightarrow> \<not> IsSpace c \<and> \<not> isSimpleDigit c \<and> \<not> isSimpleIdentifierStart c"
  by (auto simp: isSimpleIdentifierStart_def isSimpleDigit_def IsSpace_def isSimpleOperatorStart_def Let_def)

lemma from_identifier:
  assumes "e \<le> length s" "is_identifier (sub s j e)" "drop e s = [] \<or> \<not> isSimpleIdentifierPart (hd (drop e s))"
  shows "token_from s j = (if isSimpleKeyword (sub s j e) then simpleTokenKeyword else simpleTokenIdentifier, e)"
proof -
  have j: "j < e" "isSimpleIdentifierStart (s ! j)"
    using assms(2) sub_ConsD [OF _ assms(1)] by (auto simp: is_identifier_def neq_Nil_conv)
  then have "scan_while isSimpleIdentifierPart s j = e"
    using assms by (intro scan_while_unique) (auto simp: is_identifier_def)
  then show ?thesis using j assms(1) by (simp add: token_from_def)
qed

lemma sub_append:
  assumes "sub s i e = xs @ ys" "e \<le> length s" "i \<le> e"
  shows "sub s i (i + length xs) = xs" "sub s (i + length xs) e = ys" "i + length xs \<le> e"
proof -
  have l: "e - i = length xs + length ys" using assms by (metis length_append length_drop length_take sub_def diff_le_mono min.absorb2)
  then show le: "i + length xs \<le> e" using assms(3) by linarith
  have "sub s i e = sub s i (i + length xs) @ sub s (i + length xs) e" by (rule sub_split) (use le in auto)
  moreover have "length (sub s i (i + length xs)) = length xs" using le assms(2) by (simp add: sub_def)
  ultimately show "sub s i (i + length xs) = xs" "sub s (i + length xs) e = ys" using assms(1) by auto
qed

lemma from_number:
  assumes "e \<le> length s" "is_number (sub s j e)" "ends_before simpleTokenNumber (sub s j e) (drop e s)"
  shows "token_from s j = (simpleTokenNumber, e)"
proof -
  obtain ds fs where n: "ds \<noteq> []" "list_all isSimpleDigit ds" "list_all isSimpleDigit fs" "sub s j e = ds \<or> sub s j e = ds @ ''.'' @ fs"
    using assms(2) by (auto simp: is_number_def)
  then have j: "j < e" "isSimpleDigit (s ! j)"
    using sub_ConsD [OF _ assms(1)] by (auto simp: neq_Nil_conv)
  have dot: "\<not> isSimpleDigit (CHR ''.'')" by (simp add: isSimpleDigit_def Let_def)
  have "number_end s j = e"
    using n(4)
  proof
    assume ds: "sub s j e = ds"
    then have "scan_while isSimpleDigit s j = e" using assms j n by (intro scan_while_unique) auto
    moreover have "\<not> (e < length s \<and> s ! e = CHR ''.'')"
      using assms(3) ds n(2) dot by (auto simp: hd_drop_conv_nth list_all_iff)
    ultimately show ?thesis by (auto simp: number_end_def)
  next
    assume "sub s j e = ds @ ''.'' @ fs"
    from sub_append [OF this assms(1)] j have
      k: "sub s j (j + length ds) = ds" "sub s (j + length ds) e = ''.'' @ fs" "j + length ds \<le> e" by auto
    let ?k = "j + length ds"
    have f: "?k < e" "s ! ?k = CHR ''.''" "sub s (Suc ?k) e = fs" using sub_ConsD [OF _ assms(1)] k(2) by auto
    have "scan_while isSimpleDigit s j = ?k"
      using k f assms(1) n(2) dot by (intro scan_while_unique) (auto simp: hd_drop_conv_nth)
    moreover have "scan_while isSimpleDigit s (Suc ?k) = e"
      using f assms(1,3) n(3) by (intro scan_while_unique) auto
    ultimately show ?thesis using f assms(1) by (simp add: number_end_def)
  qed
  then show ?thesis using j assms(1) char_classes(2) [OF j(2)] by (simp add: token_from_def)
qed

lemma from_quote:
  assumes "s ! j = CHR 0x27" "j < length s" "scan_quoted s (Suc j) = (closed, e)"
  shows "token_from s j = (if closed then simpleTokenString else simpleTokenError, e)"
  using assms sign_classes [of "CHR 0x27"] by (simp add: token_from_def)

lemma from_operator:
  assumes "e \<le> length s" "token_text simpleTokenOperator (sub s j e)" "ends_before simpleTokenOperator (sub s j e) (drop e s)"
  shows "token_from s j = (simpleTokenOperator, e)"
proof -
  let ?pairs = "set [''>='', ''<='', ''<>'', ''!='']"
  have ne: "sub s j e \<noteq> []" using assms(2) by auto
  then obtain xs where x: "sub s j e = s ! j # xs" "j < e" "sub s (Suc j) e = xs"
    using sub_ConsD [OF _ assms(1)] by (metis neq_Nil_conv)
  have c: "isSimpleOperatorStart (s ! j)" using assms(2) x(1) by (auto simp: isSimpleOperatorStart_def)
  have neq: "s ! j \<noteq> CHR 0x27" "s ! j \<notin> set '',.()?*;''" using c by (auto simp: isSimpleOperatorStart_def)
  have "(if Suc j < length s \<and> [s ! j, s ! Suc j] \<in> ?pairs then Suc (Suc j) else Suc j) = e"
  proof (cases xs)
    case Nil
    then have "e = Suc j" using x(2,3) assms(1) by (cases "Suc j < e") (auto simp: sub_Cons)
    then show ?thesis using assms(3) x(1) Nil by (auto simp: hd_drop_conv_nth)
  next
    case (Cons y ys)
    then have y: "Suc j < e" "s ! Suc j = y" "sub s (Suc (Suc j)) e = ys" using sub_ConsD [OF _ assms(1)] x(3) by auto
    have "ys = []" "[s ! j, y] \<in> ?pairs" using assms(2) x(1) Cons by auto
    moreover have "e = Suc (Suc j)" using y(1,3) assms(1) calculation(1) by (cases "Suc (Suc j) < e") (auto simp: sub_Cons)
    ultimately show ?thesis using y assms(1) by auto
  qed
  then show ?thesis using x(2) assms(1) c neq sign_classes [of "s ! j"] by (simp add: token_from_def)
qed

lemma one_char_end: "sub s j e = [c] \<Longrightarrow> e \<le> length s \<Longrightarrow> e = Suc j \<and> s ! j = c"
  using sub_ConsD [of s j e c "[]"] sub_Cons [of "Suc j" e s] by (cases "Suc j < e") auto

lemma from_error:
  assumes "e \<le> length s" "token_text simpleTokenError (sub s j e)" "ends_before simpleTokenError (sub s j e) (drop e s)"
  shows "token_from s j = (simpleTokenError, e)"
  using assms(2) unfolding token_text.simps
proof (elim disjE exE conjE)
  fix c
  assume c: "sub s j e = [c]" "c \<notin> set '',.()?*;''" "c \<noteq> CHR 0x27" "\<not> isSimpleIdentifierPart c" "\<not> isSimpleOperatorStart c"
  then show ?thesis using one_char_end [OF c(1) assms(1)] assms(1)
    by (auto simp: token_from_def isSimpleIdentifierPart_def)
next
  fix u
  assume u: "sub s j e = CHR 0x27 # doubled u"
  then have "e = length s" using assms(1,3) by simp
  moreover from sub_ConsD [OF u assms(1)] have "j < e" "s ! j = CHR 0x27" "sub s (Suc j) e = doubled u" .
  ultimately show ?thesis using scan_quoted_open [of s "Suc j" u] from_quote [of s j False "length s"] by simp
qed

lemma token_from_at:
  assumes "token_at s i tok"
  shows "token_from s (tokStart tok) = (tokKind tok, tokEnd tok)"
proof -
  let ?j = "tokStart tok" and ?e = "tokEnd tok"
  have e: "?j \<le> ?e" "?e \<le> length s" and t: "token_text (tokKind tok) (sub s ?j ?e)"
    and d: "ends_before (tokKind tok) (sub s ?j ?e) (drop ?e s)"
    using assms by (auto simp: token_at_def)
  show ?thesis
  proof (cases "tokKind tok")
    case simpleTokenEOF
    then have "?e = length s" "sub s ?j ?e = []" using t d e by auto
    then have "?j = length s" using e sub_Cons [of ?j ?e s] by (cases "?j < ?e") auto
    then show ?thesis using simpleTokenEOF \<open>?e = length s\<close> by (simp add: token_from_def)
  next
    case simpleTokenString
    then obtain u where "sub s ?j ?e = CHR 0x27 # doubled u @ [CHR 0x27]" using t by (auto simp: quoted_def)
    from sub_ConsD [OF this e(2)] have "?j < ?e" "s ! ?j = CHR 0x27" "sub s (Suc ?j) ?e = doubled u @ [CHR 0x27]" .
    then show ?thesis using simpleTokenString d e scan_quoted_closed [of s "Suc ?j" ?e u] from_quote [of s ?j True ?e] by simp
  qed (use t d e one_char_end [OF _ e(2), of ?j] from_identifier [OF e(2), of ?j] from_number [OF e(2), of ?j]
      from_operator [OF e(2), of ?j] from_error [OF e(2), of ?j] sign_classes in \<open>auto simp: token_from_def\<close>)
qed

lemma token_text_first: "token_text kind x \<Longrightarrow> kind \<noteq> simpleTokenEOF \<Longrightarrow> x \<noteq> [] \<and> \<not> IsSpace (hd x)"
proof (cases kind)
  case simpleTokenNumber
  assume "token_text kind x"
  then obtain ds fs where "ds \<noteq> []" "list_all isSimpleDigit ds" "x = ds \<or> x = ds @ ''.'' @ fs"
    using simpleTokenNumber by (auto simp: is_number_def)
  then show ?thesis using char_classes(2) by (cases ds) auto
qed (auto simp: is_identifier_def quoted_def dest: char_classes(1) simp: IsSpace_def Let_def)

lemma token_start:
  assumes "token_at s i tok"
  shows "scan_while IsSpace s i = tokStart tok"
proof -
  let ?j = "tokStart tok" and ?e = "tokEnd tok"
  have t: "i \<le> ?j" "?j \<le> ?e" "?e \<le> length s" "list_all IsSpace (sub s i ?j)" "token_text (tokKind tok) (sub s ?j ?e)"
    using assms by (auto simp: token_at_def)
  have "drop ?j s = [] \<or> \<not> IsSpace (hd (drop ?j s))"
  proof (cases "?j < length s")
    case True
    then have "tokKind tok \<noteq> simpleTokenEOF" using token_from_at [OF assms] by (auto simp: token_from_def Let_def split: if_splits prod.splits)
    from token_text_first [OF t(5) this] obtain x xs where "sub s ?j ?e = x # xs" "\<not> IsSpace x" by (auto simp: neq_Nil_conv)
    then show ?thesis using sub_ConsD(2) [OF _ t(3)] True by (auto simp: hd_drop_conv_nth)
  qed simp
  then show ?thesis using t by (intro scan_while_unique) auto
qed

lemma token_at_unique:
  assumes "token_at s i a" "token_at s i b"
  shows "a = b"
proof -
  have "tokStart a = tokStart b" using token_start assms by metis
  moreover from this have "tokKind a = tokKind b" "tokEnd a = tokEnd b"
    using token_from_at [OF assms(1)] token_from_at [OF assms(2)] by simp_all
  moreover from calculation have "tokText a = tokText b" using assms by (simp add: token_at_def)
  ultimately show ?thesis by simp
qed

lemma tiles_unique: "tiles s i xs \<Longrightarrow> tiles s i ys \<Longrightarrow> xs = ys"
proof (induction xs arbitrary: i ys)
  case (Cons x xs)
  obtain y ys' where ys: "ys = y # ys'" using Cons.prems(2) by (cases ys) auto
  have "x = y" using Cons.prems ys token_at_unique by auto
  then show ?case using Cons ys by (auto split: if_splits)
qed simp

section \<open>Property\<close>

text \<open>C18: Lexing ends on every text, without an index outside it, and its result is the only tiling of
  the text by tokens: up to the first error, or to the end of the text, every byte belongs to a blank
  between two tokens or to the token whose span holds it, every token has the shape of its kind, a
  string token being the SQL quoting of some text, and is as long as possible.\<close>

theorem lexSimpleSQL_tiles:
  "\<exists>tokens. lexSimpleSQL sql = Some (Inr tokens) \<and> (\<forall>toks. tiles sql 0 toks \<longleftrightarrow> toks = tokens)"
proof -
  obtain tokens where t: "lexSimpleSQL sql = Some (Inr tokens)" "tiles sql 0 tokens"
    using lexLoop_spec [of 0 sql "[]"] by (auto simp: lexSimpleSQL_def)
  then have "tiles sql 0 toks \<longleftrightarrow> toks = tokens" for toks using tiles_unique by blast
  with t(1) show ?thesis by blast
qed

end
