(* ===== verification/Filter_Tree.thy ===== *)
theory Filter_Tree
  imports Bridge_Types
begin

text \<open>
  Filter trees: the grouped bitmap filters of a query, their rewriting once parts of them have been
  translated into the row numbers of another table (\<^verbatim>\<open>FilterDomainRewriteResult.Apply\<close> of
  \<^verbatim>\<open>qsbridge/quanta_intermediate.go\<close>), and their evaluation (\<^verbatim>\<open>qsruntime/filter_evaluator.go\<close>). The
  leaf evaluator is an interface of the program; it is a record of its operations on a world they
  share, which the context is read from too.
\<close>

section \<open>Fragments, candidate sets and filters\<close>

record LiteralExpr =
  litKind :: ValueKind
  litValue :: any

text \<open>A slice is nil or not, which \<^verbatim>\<open>reflect.DeepEqual\<close> sees; a \<^verbatim>\<open>*big.Int\<close> is nil or a number.\<close>

record QuantaQueryFragment =
  fragIndex :: string
  fragRole :: string
  fragField :: string
  fragOperation :: string
  fragBSIOp :: string
  fragValue :: "int option"
  fragValues :: "int option list"
  fragBegin :: "int option"
  fragEnd :: "int option"
  fragLiteral :: LiteralExpr
  fragLiterals :: "LiteralExpr list option"
  fragBeginLiteral :: LiteralExpr
  fragEndLiteral :: LiteralExpr
  fragHasLiteralRange :: bool
  fragHasLiteral :: bool
  fragRangeCoalesceAllowed :: bool
  fragShardWindow :: bool
  fragNegate :: bool
  fragNullCheck :: bool

record QuantaCandidateSet =
  candIndex :: string
  candLogicalShard :: string
  candReplica :: string
  Rownums :: "u64 list option"

definition no_candidates :: QuantaCandidateSet where
  "no_candidates = \<lparr>candIndex = [], candLogicalShard = [], candReplica = [], Rownums = None\<rparr>"

text \<open>The elements of the slice.\<close>

definition rownums :: "QuantaCandidateSet \<Rightarrow> u64 list" where
  "rownums c = (case Rownums c of None \<Rightarrow> [] | Some rs \<Rightarrow> rs)"

datatype QuantaFilterExpression =
  Filter (Operation: string) (Fragment: QuantaQueryFragment) (CandidateSet: QuantaCandidateSet)
    (Children: "QuantaFilterExpression list")

definition QuantaFilterLeaf :: string where "QuantaFilterLeaf = ''LEAF''"
definition QuantaFilterCandidateSet :: string where "QuantaFilterCandidateSet = ''CANDIDATE_SET''"
definition QuantaFilterIntersect :: string where "QuantaFilterIntersect = ''INTERSECT''"
definition QuantaFilterUnion :: string where "QuantaFilterUnion = ''UNION''"

lemmas filter_ops = QuantaFilterLeaf_def QuantaFilterCandidateSet_def QuantaFilterIntersect_def QuantaFilterUnion_def

definition no_literal :: LiteralExpr where
  "no_literal = \<lparr>litKind = ValueUnknown, litValue = ANil\<rparr>"

text \<open>The zero value of a fragment, as in a composite literal that does not name the field.\<close>

definition no_fragment :: QuantaQueryFragment where
  "no_fragment = \<lparr>fragIndex = [], fragRole = [], fragField = [], fragOperation = [], fragBSIOp = [],
     fragValue = None, fragValues = [], fragBegin = None, fragEnd = None, fragLiteral = no_literal,
     fragLiterals = None, fragBeginLiteral = no_literal, fragEndLiteral = no_literal,
     fragHasLiteralRange = False, fragHasLiteral = False, fragRangeCoalesceAllowed = False,
     fragShardWindow = False, fragNegate = False, fragNullCheck = False\<rparr>"

definition no_filter :: QuantaFilterExpression where
  "no_filter = Filter [] no_fragment no_candidates []"

definition Empty :: "QuantaFilterExpression \<Rightarrow> bool" where
  "Empty e \<longleftrightarrow> Operation e = []"

definition Leaf :: "QuantaFilterExpression \<Rightarrow> bool" where
  "Leaf e \<longleftrightarrow> Operation e = QuantaFilterLeaf"

definition CandidateSetLeaf :: "QuantaFilterExpression \<Rightarrow> bool" where
  "CandidateSetLeaf e \<longleftrightarrow> Operation e = QuantaFilterCandidateSet"

section \<open>Matching\<close>

text \<open>\<^verbatim>\<open>reflect.DeepEqual\<close> of two literal values: floating-point numbers compare as numbers, so a NaN
  is not equal to itself and the two zeros are equal.\<close>

definition float_eq :: "nat \<Rightarrow> nat \<Rightarrow> nat \<Rightarrow> nat \<Rightarrow> bool" where
  "float_eq sign infinity a b \<longleftrightarrow>
     a mod sign \<le> infinity \<and> b mod sign \<le> infinity \<and> (a = b \<or> a mod sign = 0 \<and> b mod sign = 0)"

fun DeepEqual_any :: "any \<Rightarrow> any \<Rightarrow> bool" where
  "DeepEqual_any (AFloat32 a) (AFloat32 b) \<longleftrightarrow> float_eq (2 ^ 31) 0x7F800000 (unat a) (unat b)"
| "DeepEqual_any (AFloat64 a) (AFloat64 b) \<longleftrightarrow> float_eq (2 ^ 63) 0x7FF0000000000000 (unat a) (unat b)"
| "DeepEqual_any a b \<longleftrightarrow> a = b"

definition DeepEqual_literal :: "LiteralExpr \<Rightarrow> LiteralExpr \<Rightarrow> bool" where
  "DeepEqual_literal a b \<longleftrightarrow> litKind a = litKind b \<and> DeepEqual_any (litValue a) (litValue b)"

definition DeepEqual_literals :: "LiteralExpr list option \<Rightarrow> LiteralExpr list option \<Rightarrow> bool" where
  "DeepEqual_literals a b \<longleftrightarrow>
     (case (a, b) of
        (None, None) \<Rightarrow> True
      | (Some xs, Some ys) \<Rightarrow> list_all2 DeepEqual_literal xs ys
      | _ \<Rightarrow> False)"

definition quantaBigIntPtrEqual :: "int option \<Rightarrow> int option \<Rightarrow> bool" where
  "quantaBigIntPtrEqual left right \<longleftrightarrow>
     (case (left, right) of
        (None, None) \<Rightarrow> True
      | (Some a, Some b) \<Rightarrow> a = b
      | _ \<Rightarrow> False)"

definition quantaBigIntPtrSlicesEqual :: "int option list \<Rightarrow> int option list \<Rightarrow> bool" where
  "quantaBigIntPtrSlicesEqual left right \<longleftrightarrow>
     length left = length right \<and> list_all (\<lambda>(l, r). quantaBigIntPtrEqual l r) (zip left right)"

definition filterDomainFragmentMatches :: "QuantaQueryFragment \<Rightarrow> QuantaQueryFragment \<Rightarrow> bool" where
  "filterDomainFragmentMatches left right \<longleftrightarrow>
     fragIndex left = fragIndex right \<and> fragRole left = fragRole right \<and> fragField left = fragField right \<and>
     fragOperation left = fragOperation right \<and> fragBSIOp left = fragBSIOp right \<and>
     fragNegate left = fragNegate right \<and> fragNullCheck left = fragNullCheck right \<and>
     fragHasLiteral left = fragHasLiteral right \<and> fragHasLiteralRange left = fragHasLiteralRange right \<and>
     quantaBigIntPtrEqual (fragValue left) (fragValue right) \<and>
     quantaBigIntPtrSlicesEqual (fragValues left) (fragValues right) \<and>
     quantaBigIntPtrEqual (fragBegin left) (fragBegin right) \<and>
     quantaBigIntPtrEqual (fragEnd left) (fragEnd right) \<and>
     DeepEqual_literal (fragLiteral left) (fragLiteral right) \<and>
     DeepEqual_literals (fragLiterals left) (fragLiterals right) \<and>
     DeepEqual_literal (fragBeginLiteral left) (fragBeginLiteral right) \<and>
     DeepEqual_literal (fragEndLiteral left) (fragEndLiteral right)"

fun filterDomainExpressionMatches :: "QuantaFilterExpression \<Rightarrow> QuantaFilterExpression \<Rightarrow> bool" where
  "filterDomainExpressionMatches (Filter op f c cs) (Filter op' f' c' cs') \<longleftrightarrow>
     (if op \<noteq> op' then False
      else if op = QuantaFilterLeaf then filterDomainFragmentMatches f f'
      else if op = QuantaFilterCandidateSet then c = c'
      else list_all2 filterDomainExpressionMatches cs cs')"

definition filterDomainExpressionMatchesAny :: "QuantaFilterExpression \<Rightarrow> QuantaFilterExpression list \<Rightarrow> bool" where
  "filterDomainExpressionMatchesAny e candidates \<longleftrightarrow> list_ex (filterDomainExpressionMatches e) candidates"

section \<open>Factoring a union\<close>

fun filterDomainConjunctsForFactoring :: "QuantaFilterExpression \<Rightarrow> QuantaFilterExpression list" where
  "filterDomainConjunctsForFactoring (Filter op f c cs) =
     (if op = [] then []
      else if op \<noteq> QuantaFilterIntersect then [Filter op f c cs]
      else concat (map filterDomainConjunctsForFactoring cs))"

fun commonFrom :: "QuantaFilterExpression list list \<Rightarrow> QuantaFilterExpression list \<Rightarrow>
   QuantaFilterExpression list \<Rightarrow> QuantaFilterExpression list" where
  "commonFrom others common [] = common"
| "commonFrom others common (candidate # rest) =
     (if \<not> filterDomainExpressionMatchesAny candidate common \<and>
         list_all (filterDomainExpressionMatchesAny candidate) others
      then commonFrom others (common @ [candidate]) rest
      else commonFrom others common rest)"

definition filterDomainCommonConjuncts :: "QuantaFilterExpression list list \<Rightarrow> QuantaFilterExpression list" where
  "filterDomainCommonConjuncts branches =
     (case branches of [] \<Rightarrow> [] | branch # others \<Rightarrow> commonFrom others [] branch)"

text \<open>The index of the first candidate that matches and is not yet removed.\<close>

fun firstUnremoved :: "QuantaFilterExpression \<Rightarrow> QuantaFilterExpression list \<Rightarrow> bool list \<Rightarrow> nat \<Rightarrow> nat option" where
  "firstUnremoved conjunct (candidate # cs) (r # removed) i =
     (if \<not> r \<and> filterDomainExpressionMatches conjunct candidate then Some i
      else firstUnremoved conjunct cs removed (Suc i))"
| "firstUnremoved conjunct _ _ i = None"

definition filterDomainFirstUnremovedConjunctMatch ::
  "QuantaFilterExpression \<Rightarrow> QuantaFilterExpression list \<Rightarrow> bool list \<Rightarrow> nat option" where
  "filterDomainFirstUnremovedConjunctMatch conjunct candidates removed = firstUnremoved conjunct candidates removed 0"

fun removeFrom :: "QuantaFilterExpression list \<Rightarrow> bool list \<Rightarrow> QuantaFilterExpression list \<Rightarrow> QuantaFilterExpression list" where
  "removeFrom remove removed [] = []"
| "removeFrom remove removed (conjunct # branch) =
     (case filterDomainFirstUnremovedConjunctMatch conjunct remove removed of
        Some i \<Rightarrow> removeFrom remove (removed[i := True]) branch
      | None \<Rightarrow> conjunct # removeFrom remove removed branch)"

definition filterDomainRemoveConjuncts ::
  "QuantaFilterExpression list \<Rightarrow> QuantaFilterExpression list \<Rightarrow> QuantaFilterExpression list" where
  "filterDomainRemoveConjuncts branch remove = removeFrom remove (replicate (length remove) False) branch"

definition filterDomainConjunctExpression :: "QuantaFilterExpression list \<Rightarrow> QuantaFilterExpression" where
  "filterDomainConjunctExpression conjuncts =
     (case conjuncts of
        [] \<Rightarrow> no_filter
      | [e] \<Rightarrow> e
      | _ \<Rightarrow> Filter QuantaFilterIntersect no_fragment no_candidates conjuncts)"

definition filterDomainFactorCommonUnionConjuncts :: "QuantaFilterExpression \<Rightarrow> QuantaFilterExpression" where
  "filterDomainFactorCommonUnionConjuncts e =
     (if Operation e \<noteq> QuantaFilterUnion \<or> length (Children e) < 2 then e
      else
        (let branches = map filterDomainConjunctsForFactoring (Children e);
             common = filterDomainCommonConjuncts branches;
             remaining = map (\<lambda>branch. filterDomainRemoveConjuncts branch common) branches
         in
           if list_ex (\<lambda>conjuncts. conjuncts = []) branches then e
           else if common = [] then e
           else if list_ex (\<lambda>conjuncts. conjuncts = []) remaining then e
           else Filter QuantaFilterIntersect no_fragment no_candidates
                  (common @ [Filter QuantaFilterUnion no_fragment no_candidates
                     (map filterDomainConjunctExpression remaining)])))"

section \<open>Replacing translated parts\<close>

text \<open>Of a translated branch or leaf the rewriting reads the original, the target domain and the
  candidate set.\<close>

record FilterDomainNormalizedBranch =
  OriginalFilter :: QuantaFilterExpression
  branchTargetDomain :: string
  branchCandidateSet :: QuantaCandidateSet

record FilterDomainNormalizedLeaf =
  OriginalFragment :: QuantaQueryFragment
  leafTargetDomain :: string
  leafCandidateSet :: QuantaCandidateSet

record FilterDomainRewriteResult =
  TargetDomain :: string
  Branches :: "FilterDomainNormalizedBranch list"
  Leaves :: "FilterDomainNormalizedLeaf list"

definition candidateLeaf :: "QuantaCandidateSet \<Rightarrow> string \<Rightarrow> QuantaFilterExpression" where
  "candidateLeaf candidateSet targetDomain =
     Filter QuantaFilterCandidateSet no_fragment
       (if candIndex candidateSet = [] then candidateSet\<lparr>candIndex := targetDomain\<rparr> else candidateSet) []"

text \<open>The index of the first branch child that is not yet matched and matches the filter.\<close>

fun markFirst :: "QuantaFilterExpression \<Rightarrow> QuantaFilterExpression list \<Rightarrow> bool list \<Rightarrow> nat \<Rightarrow> nat option" where
  "markFirst e (b # bs) (m # ms) i =
     (if \<not> m \<and> filterDomainExpressionMatches e b then Some i else markFirst e bs ms (Suc i))"
| "markFirst e _ _ i = None"

fun filterDomainMarkConjunctiveBranchMatches ::
  "QuantaFilterExpression list \<Rightarrow> QuantaFilterExpression \<Rightarrow> bool list \<Rightarrow> bool list" where
  "filterDomainMarkConjunctiveBranchMatches branchChildren (Filter op f c cs) matched =
     (case markFirst (Filter op f c cs) branchChildren matched 0 of
        Some i \<Rightarrow> matched[i := True]
      | None \<Rightarrow>
          if op \<noteq> QuantaFilterIntersect then matched
          else fold (filterDomainMarkConjunctiveBranchMatches branchChildren) cs matched)"

definition filterDomainConjunctiveTreeContainsAll ::
  "QuantaFilterExpression \<Rightarrow> QuantaFilterExpression list \<Rightarrow> bool" where
  "filterDomainConjunctiveTreeContainsAll e branchChildren \<longleftrightarrow>
     list_all id (filterDomainMarkConjunctiveBranchMatches branchChildren e (replicate (length branchChildren) False))"

fun filterDomainPruneConjunctiveBranchChildren ::
  "QuantaFilterExpression list \<Rightarrow> QuantaFilterExpression \<Rightarrow> QuantaFilterExpression" where
  "filterDomainPruneConjunctiveBranchChildren branchChildren (Filter op f c cs) =
     (if filterDomainExpressionMatchesAny (Filter op f c cs) branchChildren then no_filter
      else if op \<noteq> QuantaFilterIntersect \<or> length cs = 0 then Filter op f c cs
      else
        (let children = filter (\<lambda>e. \<not> Empty e) (map (filterDomainPruneConjunctiveBranchChildren branchChildren) cs)
         in case children of
              [] \<Rightarrow> no_filter
            | [e] \<Rightarrow> e
            | _ \<Rightarrow> Filter op f c children))"

definition filterDomainPrunedChildren :: "QuantaFilterExpression \<Rightarrow> QuantaFilterExpression list" where
  "filterDomainPrunedChildren e =
     (if Empty e then [] else if Operation e = QuantaFilterIntersect then Children e else [e])"

text \<open>The search of \<^verbatim>\<open>applyIntersectBranchSubset\<close>: the first branch whose conjuncts are all in the filter.\<close>

definition subsetBranch :: "QuantaFilterExpression \<Rightarrow> FilterDomainNormalizedBranch \<Rightarrow> bool" where
  "subsetBranch e branch \<longleftrightarrow>
     Operation (OriginalFilter branch) = QuantaFilterIntersect \<and> length (Children (OriginalFilter branch)) \<noteq> 0 \<and>
     filterDomainConjunctiveTreeContainsAll e (Children (OriginalFilter branch))"

definition remainingChildren :: "QuantaFilterExpression \<Rightarrow> FilterDomainNormalizedBranch \<Rightarrow> QuantaFilterExpression list" where
  "remainingChildren e branch =
     filterDomainPrunedChildren (filterDomainPruneConjunctiveBranchChildren (Children (OriginalFilter branch)) e)"

definition applyIntersectBranchSubset ::
  "(QuantaFilterExpression \<Rightarrow> QuantaFilterExpression) \<Rightarrow> FilterDomainRewriteResult \<Rightarrow> QuantaFilterExpression \<Rightarrow>
   QuantaFilterExpression option" where
  "applyIntersectBranchSubset apply_child r e =
     (case find (subsetBranch e) (Branches r) of
        None \<Rightarrow> None
      | Some branch \<Rightarrow>
          Some (Filter (Operation e) (Fragment e) (CandidateSet e)
            (candidateLeaf (branchCandidateSet branch) (branchTargetDomain branch) #
             map apply_child (remainingChildren e branch))))"

section \<open>Sizes\<close>

fun weight :: "QuantaFilterExpression \<Rightarrow> nat" where
  "weight (Filter op f c cs) = Suc (sum_list (map weight cs))"

lemma weight_child: "e \<in> set cs \<Longrightarrow> weight e \<le> sum_list (map weight cs)"
  by (simp add: member_le_sum_list)

lemma weight_Children: "c \<in> set (Children e) \<Longrightarrow> weight c < weight e"
  using weight_child by (cases e) (auto simp: less_Suc_eq_le)

lemma weight_filter: "sum_list (map weight (filter p cs)) \<le> sum_list (map weight cs)"
  by (induction cs) auto

lemma prune_weight: "weight (filterDomainPruneConjunctiveBranchChildren bs e) \<le> weight e"
proof (induction bs e rule: filterDomainPruneConjunctiveBranchChildren.induct)
  case (1 bs op f c cs)
  let ?prune = "filterDomainPruneConjunctiveBranchChildren bs" and ?e = "Filter op f c cs"
  let ?children = "filter (\<lambda>e. \<not> Empty e) (map ?prune cs)"
  show ?case
  proof (cases "filterDomainExpressionMatchesAny ?e bs \<or> op \<noteq> QuantaFilterIntersect \<or> cs = []")
    case True
    then show ?thesis by (auto simp: no_filter_def)
  next
    case False
    have "sum_list (map weight (map ?prune cs)) \<le> sum_list (map weight cs)"
      using 1 False by (auto simp: comp_def intro!: sum_list_mono)
    then have le: "sum_list (map weight ?children) \<le> sum_list (map weight cs)"
      using weight_filter le_trans by blast
    then show ?thesis using False by (auto simp: Let_def no_filter_def split: list.split)
  qed
qed

lemma prune_shrinks:
  assumes "Operation e = QuantaFilterIntersect"
    and "Operation (filterDomainPruneConjunctiveBranchChildren bs e) \<noteq> QuantaFilterIntersect"
  shows "weight (filterDomainPruneConjunctiveBranchChildren bs e) < weight e \<or>
    Empty (filterDomainPruneConjunctiveBranchChildren bs e)"
proof (cases e)
  case (Filter op f c cs)
  let ?prune = "filterDomainPruneConjunctiveBranchChildren bs"
  have "sum_list (map weight (map ?prune cs)) \<le> sum_list (map weight cs)"
    using prune_weight by (auto simp: comp_def intro!: sum_list_mono)
  then have le: "sum_list (map weight (filter (\<lambda>e. \<not> Empty e) (map ?prune cs))) \<le> sum_list (map weight cs)"
    using weight_filter le_trans by blast
  then show ?thesis using assms Filter by (auto simp: Let_def no_filter_def Empty_def split: list.splits if_splits)
qed

lemma remainingChildren_weight:
  assumes "Operation e = QuantaFilterIntersect" "c \<in> set (remainingChildren e b)"
  shows "weight c < weight e"
proof -
  let ?p = "filterDomainPruneConjunctiveBranchChildren (Children (OriginalFilter b)) e"
  show ?thesis
  proof (cases "Operation ?p = QuantaFilterIntersect")
    case True
    then have "c \<in> set (Children ?p)" using assms(2) by (auto simp: remainingChildren_def filterDomainPrunedChildren_def split: if_splits)
    then have "weight c < weight ?p" by (rule weight_Children)
    then show ?thesis using prune_weight less_le_trans by blast
  next
    case False
    then have "c = ?p" "\<not> Empty ?p"
      using assms(2) by (auto simp: remainingChildren_def filterDomainPrunedChildren_def split: if_splits)
    then show ?thesis using prune_shrinks [OF assms(1) False] by simp
  qed
qed

lemma applyIntersectBranchSubset_cong [fundef_cong]:
  assumes "r = r'" "e = e'" "\<And>b c. c \<in> set (remainingChildren e' b) \<Longrightarrow> f c = g c"
  shows "applyIntersectBranchSubset f r e = applyIntersectBranchSubset g r' e'"
  using assms by (auto simp: applyIntersectBranchSubset_def split: option.split)

section \<open>Rewriting\<close>

function Apply :: "FilterDomainRewriteResult \<Rightarrow> QuantaFilterExpression \<Rightarrow> QuantaFilterExpression" where
  "Apply r e =
     (case find (\<lambda>branch. filterDomainExpressionMatches e (OriginalFilter branch)) (Branches r) of
        Some branch \<Rightarrow> candidateLeaf (branchCandidateSet branch) (branchTargetDomain branch)
      | None \<Rightarrow>
          case (if Operation e = QuantaFilterIntersect then applyIntersectBranchSubset (Apply r) r e else None) of
            Some rewritten \<Rightarrow> rewritten
          | None \<Rightarrow>
              if Leaf e then
                (case find (\<lambda>leaf. filterDomainFragmentMatches (Fragment e) (OriginalFragment leaf)) (Leaves r) of
                   Some leaf \<Rightarrow> candidateLeaf (leafCandidateSet leaf) (leafTargetDomain leaf)
                 | None \<Rightarrow> e)
              else if length (Children e) = 0 then e
              else filterDomainFactorCommonUnionConjuncts
                     (Filter (Operation e) (Fragment e) (CandidateSet e) (map (Apply r) (Children e))))"
  by pat_completeness auto
termination by (relation "measure (\<lambda>(r, e). weight e)") (auto simp: remainingChildren_weight weight_Children)

declare Apply.simps [simp del]

section \<open>Evaluation\<close>

text \<open>Of a diagnostic the evaluator sets and reads the code, the severity, the phase and the message.\<close>

record Diagnostic =
  diagCode :: string
  diagSeverity :: string
  diagPhase :: string
  diagMessage :: string

definition ErrorDiagnostic :: "string \<Rightarrow> string \<Rightarrow> string \<Rightarrow> Diagnostic" where
  "ErrorDiagnostic code phase message =
     \<lparr>diagCode = code, diagSeverity = ''error'', diagPhase = phase, diagMessage = message\<rparr>"

definition diagnosticBlocksNative :: "Diagnostic \<Rightarrow> bool" where
  "diagnosticBlocksNative d \<longleftrightarrow> diagSeverity d = ''error''"

definition BlocksNative :: "Diagnostic list \<Rightarrow> bool" where
  "BlocksNative diagnostics \<longleftrightarrow> list_ex diagnosticBlocksNative diagnostics"

type_synonym evaluated = "QuantaCandidateSet \<times> Diagnostic list \<times> string option"
type_synonym 'w evaluation = "'w \<Rightarrow> evaluated \<times> 'w"

text \<open>\<^verbatim>\<open>QuantaFilterLeafEvaluator\<close> with the optional \<^verbatim>\<open>QuantaConstrainedFilterLeafEvaluator\<close>, and the
  error of the context.\<close>

record 'w QuantaFilterLeafEvaluator =
  EvaluateFilterLeaf :: "QuantaQueryFragment \<Rightarrow> 'w evaluation"
  EvaluateFilterLeafWithinCandidateSet :: "(QuantaQueryFragment \<Rightarrow> QuantaCandidateSet \<Rightarrow> 'w evaluation) option"

record 'w QuantaFilterTreeEvaluator =
  ctxErr :: "'w \<Rightarrow> string option \<times> 'w"
  evaluatorLeaves :: "'w QuantaFilterLeafEvaluator option"

text \<open>The intersection keeps the order of the left side. When the left side is not the longer one the
  code marks the positions of its row numbers that occur on the right.\<close>

definition leftPositions :: "u64 list \<Rightarrow> u64 \<Rightarrow> nat list" where
  "leftPositions left rownum = filter (\<lambda>i. left ! i = rownum) [0..<length left]"

definition markMatched :: "u64 list \<Rightarrow> u64 list \<Rightarrow> bool list" where
  "markMatched left right =
     foldl (\<lambda>matched rownum. foldl (\<lambda>matched position. matched[position := True]) matched (leftPositions left rownum))
       (replicate (length left) False) right"

definition quantaFilterRownumSet :: "u64 list \<Rightarrow> u64 set" where
  "quantaFilterRownumSet rs = set rs"

definition withIndex :: "QuantaCandidateSet \<Rightarrow> QuantaCandidateSet \<Rightarrow> QuantaCandidateSet" where
  "withIndex left right = (if candIndex left = [] then left\<lparr>candIndex := candIndex right\<rparr> else left)"

definition quantaFilterIntersectCandidateSets :: "QuantaCandidateSet \<Rightarrow> QuantaCandidateSet \<Rightarrow> QuantaCandidateSet" where
  "quantaFilterIntersectCandidateSets left right =
     (if length (rownums left) \<le> length (rownums right) then
        (let matched = markMatched (rownums left) (rownums right)
         in withIndex (left\<lparr>Rownums := Some (map fst (filter snd (zip (rownums left) matched)))\<rparr>) right)
      else
        (let rightRows = quantaFilterRownumSet (rownums right)
         in withIndex (left\<lparr>Rownums := Some (filter (\<lambda>r. r \<in> rightRows) (rownums left))\<rparr>) right))"

fun unionRows :: "u64 set \<Rightarrow> u64 list \<Rightarrow> u64 list \<Rightarrow> u64 list" where
  "unionRows seen rs [] = rs"
| "unionRows seen rs (rownum # right) =
     (if rownum \<in> seen then unionRows seen rs right else unionRows (insert rownum seen) (rs @ [rownum]) right)"

text \<open>Appending nothing to a nil slice leaves it nil.\<close>

definition quantaFilterUnionCandidateSets :: "QuantaCandidateSet \<Rightarrow> QuantaCandidateSet \<Rightarrow> QuantaCandidateSet" where
  "quantaFilterUnionCandidateSets left right =
     (let rs = unionRows (quantaFilterRownumSet (rownums left)) (rownums left) (rownums right)
      in withIndex (left\<lparr>Rownums := (if rs = [] then None else Some rs)\<rparr>) right)"

fun quantaFilterExpressionContainsCandidateSetLeaf :: "QuantaFilterExpression \<Rightarrow> bool" where
  "quantaFilterExpressionContainsCandidateSetLeaf (Filter op f c cs) \<longleftrightarrow>
     op = QuantaFilterCandidateSet \<or> list_ex quantaFilterExpressionContainsCandidateSetLeaf cs"

function quantaFilterFlattenIntersectChildren :: "QuantaFilterExpression list \<Rightarrow> QuantaFilterExpression list" where
  "quantaFilterFlattenIntersectChildren [] = []"
| "quantaFilterFlattenIntersectChildren (child # children) =
     (if Operation child = QuantaFilterIntersect then quantaFilterFlattenIntersectChildren (Children child) else [child]) @
     quantaFilterFlattenIntersectChildren children"
  by pat_completeness auto
termination
proof (relation "measure (\<lambda>cs. sum_list (map weight cs))")
  show "(Children child, child # children) \<in> measure (\<lambda>cs. sum_list (map weight cs))" for child children
    by (cases child) simp
  show "(children, child # children) \<in> measure (\<lambda>cs. sum_list (map weight cs))" for child children
    by (cases child) simp
qed simp

definition quantaFilterIntersectEvaluationOrder :: "QuantaFilterExpression list \<Rightarrow> QuantaFilterExpression list" where
  "quantaFilterIntersectEvaluationOrder children =
     (if length children < 2 then children
      else
        (let flattened = quantaFilterFlattenIntersectChildren children;
             ordered = filter CandidateSetLeaf flattened @
               filter (\<lambda>child. \<not> (CandidateSetLeaf child \<or> \<not> quantaFilterExpressionContainsCandidateSetLeaf child)) flattened
         in if ordered = [] then children
            else ordered @
              filter (\<lambda>child. \<not> CandidateSetLeaf child \<and> \<not> quantaFilterExpressionContainsCandidateSetLeaf child) flattened))"

text \<open>The two loops over children, with the evaluation of a child as an argument.\<close>

fun evaluateFilterRest ::
  "'w QuantaFilterTreeEvaluator \<Rightarrow> (QuantaFilterExpression \<Rightarrow> 'w evaluation) \<Rightarrow>
   (QuantaCandidateSet \<Rightarrow> QuantaCandidateSet \<Rightarrow> QuantaCandidateSet) \<Rightarrow>
   QuantaCandidateSet \<Rightarrow> Diagnostic list \<Rightarrow> QuantaFilterExpression list \<Rightarrow> 'w evaluation" where
  "evaluateFilterRest e eval merge current diagnostics [] w = ((current, diagnostics, None), w)"
| "evaluateFilterRest e eval merge current diagnostics (child # children) w =
     (case ctxErr e w of
        (Some err, w) \<Rightarrow> ((no_candidates, [], Some err), w)
      | (None, w) \<Rightarrow>
          let ((next, childDiagnostics, err), w) = eval child w;
              diagnostics = diagnostics @ childDiagnostics
          in if err \<noteq> None \<or> BlocksNative diagnostics then ((current, diagnostics, err), w)
             else evaluateFilterRest e eval merge (merge current next) diagnostics children w)"

definition evaluateFilterChildren ::
  "'w QuantaFilterTreeEvaluator \<Rightarrow> (QuantaFilterExpression \<Rightarrow> 'w evaluation) \<Rightarrow> QuantaFilterExpression list \<Rightarrow>
   (QuantaCandidateSet \<Rightarrow> QuantaCandidateSet \<Rightarrow> QuantaCandidateSet) \<Rightarrow> 'w evaluation" where
  "evaluateFilterChildren e eval children merge w =
     (case children of
        [] \<Rightarrow> ((no_candidates, [], None), w)
      | child # rest \<Rightarrow>
          let ((current, diagnostics, err), w) = eval child w
          in if err \<noteq> None \<or> BlocksNative diagnostics then ((current, diagnostics, err), w)
             else evaluateFilterRest e eval merge current diagnostics rest w)"

definition evaluateFilterIntersectChild ::
  "'w QuantaFilterTreeEvaluator \<Rightarrow> (QuantaFilterExpression \<Rightarrow> 'w evaluation) \<Rightarrow> QuantaFilterExpression \<Rightarrow>
   QuantaCandidateSet \<Rightarrow> 'w evaluation" where
  "evaluateFilterIntersectChild e eval child current w =
     (case Option.bind (evaluatorLeaves e) EvaluateFilterLeafWithinCandidateSet of
        Some constrained \<Rightarrow>
          if Operation child = QuantaFilterLeaf \<and> length (rownums current) > 0
          then constrained (Fragment child) current w else eval child w
      | None \<Rightarrow> eval child w)"

fun evaluateFilterIntersectRest ::
  "'w QuantaFilterTreeEvaluator \<Rightarrow> (QuantaFilterExpression \<Rightarrow> 'w evaluation) \<Rightarrow>
   QuantaCandidateSet \<Rightarrow> Diagnostic list \<Rightarrow> QuantaFilterExpression list \<Rightarrow> 'w evaluation" where
  "evaluateFilterIntersectRest e eval current diagnostics [] w = ((current, diagnostics, None), w)"
| "evaluateFilterIntersectRest e eval current diagnostics (child # children) w =
     (case ctxErr e w of
        (Some err, w) \<Rightarrow> ((no_candidates, [], Some err), w)
      | (None, w) \<Rightarrow>
          let ((next, childDiagnostics, err), w) = evaluateFilterIntersectChild e eval child current w;
              diagnostics = diagnostics @ childDiagnostics
          in if err \<noteq> None \<or> BlocksNative diagnostics then ((current, diagnostics, err), w)
             else
               (let current = quantaFilterIntersectCandidateSets current next in
                if length (rownums current) = 0 then ((current, diagnostics, None), w)
                else evaluateFilterIntersectRest e eval current diagnostics children w))"

definition evaluateFilterIntersectChildren ::
  "'w QuantaFilterTreeEvaluator \<Rightarrow> (QuantaFilterExpression \<Rightarrow> 'w evaluation) \<Rightarrow> QuantaFilterExpression list \<Rightarrow>
   'w evaluation" where
  "evaluateFilterIntersectChildren e eval children w =
     (if length children = 0 then ((no_candidates, [], None), w)
      else case quantaFilterIntersectEvaluationOrder children of
             [] \<Rightarrow> ((no_candidates, [], None), w)
           | child # rest \<Rightarrow>
               let ((current, diagnostics, err), w) = eval child w
               in if err \<noteq> None \<or> BlocksNative diagnostics then ((current, diagnostics, err), w)
                  else if length (rownums current) = 0 then ((current, diagnostics, None), w)
                  else evaluateFilterIntersectRest e eval current diagnostics rest w)"

lemma evaluateFilterRest_eval:
  "(\<And>c. c \<in> set cs \<Longrightarrow> eval c = eval' c) \<Longrightarrow> evaluateFilterRest e eval merge cur d cs w = evaluateFilterRest e eval' merge cur d cs w"
  by (induction cs arbitrary: cur d w) (simp_all add: Let_def split: prod.split option.split)

lemma evaluateFilterIntersectRest_eval:
  "(\<And>c. c \<in> set cs \<Longrightarrow> eval c = eval' c) \<Longrightarrow>
   evaluateFilterIntersectRest e eval cur d cs w = evaluateFilterIntersectRest e eval' cur d cs w"
proof (induction cs arbitrary: cur d w)
  case (Cons c cs)
  have "evaluateFilterIntersectChild e eval c cur = evaluateFilterIntersectChild e eval' c cur" for cur
    using Cons.prems by (auto simp: evaluateFilterIntersectChild_def fun_eq_iff split: option.split)
  then show ?case using Cons by (simp add: Let_def split: prod.split option.split)
qed simp

lemma evaluateFilterChildren_cong [fundef_cong]:
  assumes "e = e'" "cs = cs'" "merge = merge'" "w = w'" "\<And>c. c \<in> set cs' \<Longrightarrow> eval c = eval' c"
  shows "evaluateFilterChildren e eval cs merge w = evaluateFilterChildren e' eval' cs' merge' w'"
  using assms(5) unfolding assms(1-4)
  by (cases cs') (simp_all add: evaluateFilterChildren_def evaluateFilterRest_eval [of _ eval eval'] split: prod.split)

lemma evaluateFilterIntersectChildren_cong [fundef_cong]:
  assumes "e = e'" "cs = cs'" "w = w'" "\<And>c. c \<in> set (quantaFilterIntersectEvaluationOrder cs') \<Longrightarrow> eval c = eval' c"
  shows "evaluateFilterIntersectChildren e eval cs w = evaluateFilterIntersectChildren e' eval' cs' w'"
  using assms(4) unfolding assms(1-3)
  by (cases "quantaFilterIntersectEvaluationOrder cs'")
    (simp_all add: evaluateFilterIntersectChildren_def evaluateFilterIntersectRest_eval [of _ eval eval'] split: prod.split)

lemma flatten_weight: "c \<in> set (quantaFilterFlattenIntersectChildren cs) \<Longrightarrow> weight c \<le> sum_list (map weight cs)"
proof (induction cs rule: quantaFilterFlattenIntersectChildren.induct)
  case (2 child children)
  show ?case
  proof (cases "c \<in> set (quantaFilterFlattenIntersectChildren children)")
    case True
    then show ?thesis using 2(2) by simp
  next
    case False
    then show ?thesis using 2(1,3) by (cases child) (auto split: if_splits)
  qed
qed simp

lemma order_subset:
  "set (quantaFilterIntersectEvaluationOrder cs) \<subseteq> set cs \<union> set (quantaFilterFlattenIntersectChildren cs)"
  by (auto simp: quantaFilterIntersectEvaluationOrder_def Let_def split: if_splits)

lemma order_weight: "c \<in> set (quantaFilterIntersectEvaluationOrder (Children e)) \<Longrightarrow> weight c < weight e"
  using order_subset flatten_weight weight_child by (cases e) (fastforce simp: less_Suc_eq_le)

function EvaluateFilter :: "'w QuantaFilterTreeEvaluator \<Rightarrow> QuantaFilterExpression \<Rightarrow> 'w evaluation" where
  "EvaluateFilter e expr w =
     (case ctxErr e w of
        (Some err, w) \<Rightarrow> ((no_candidates, [], Some err), w)
      | (None, w) \<Rightarrow>
          if Empty expr then ((no_candidates, [], None), w)
          else if Operation expr = QuantaFilterLeaf then
            (case evaluatorLeaves e of
               None \<Rightarrow> ((no_candidates, [ErrorDiagnostic ''internal_invariant'' ''execute''
                 ''filter tree evaluator has no leaf evaluator''], None), w)
             | Some leaves \<Rightarrow> EvaluateFilterLeaf leaves (Fragment expr) w)
          else if Operation expr = QuantaFilterCandidateSet then ((CandidateSet expr, [], None), w)
          else if Operation expr = QuantaFilterIntersect then
            evaluateFilterIntersectChildren e (EvaluateFilter e) (Children expr) w
          else if Operation expr = QuantaFilterUnion then
            evaluateFilterChildren e (EvaluateFilter e) (Children expr) quantaFilterUnionCandidateSets w
          else ((no_candidates, [ErrorDiagnostic ''unsupported_sql'' ''execute''
            (''unsupported filter operation: '' @ Operation expr)], None), w))"
  by pat_completeness auto
termination by (relation "measure (\<lambda>(e, expr, w). weight expr)") (auto simp: order_weight weight_Children)

declare EvaluateFilter.simps [simp del]

section \<open>What a filter means\<close>

text \<open>The rows of a filter, given the rows of the fragments. A node without children has no rows.\<close>

fun rows_of :: "(QuantaQueryFragment \<Rightarrow> u64 set) \<Rightarrow> QuantaFilterExpression \<Rightarrow> u64 set" where
  "rows_of v (Filter op f c cs) =
     (if op = QuantaFilterLeaf then v f
      else if op = QuantaFilterCandidateSet then set (rownums c)
      else if cs = [] then {}
      else if op = QuantaFilterIntersect then (\<Inter>x \<in> set cs. rows_of v x)
      else if op = QuantaFilterUnion then (\<Union>x \<in> set cs. rows_of v x)
      else {})"

text \<open>Filters as the planner builds them: the four operations, and a group is not empty.\<close>

fun grouped :: "QuantaFilterExpression \<Rightarrow> bool" where
  "grouped (Filter op f c cs) \<longleftrightarrow>
     op = QuantaFilterLeaf \<or> op = QuantaFilterCandidateSet \<or>
     (op = QuantaFilterIntersect \<or> op = QuantaFilterUnion) \<and> cs \<noteq> [] \<and> list_all grouped cs"

lemma ops_distinct [simp]:
  "QuantaFilterLeaf \<noteq> QuantaFilterCandidateSet" "QuantaFilterCandidateSet \<noteq> QuantaFilterLeaf"
  "QuantaFilterLeaf \<noteq> QuantaFilterIntersect" "QuantaFilterIntersect \<noteq> QuantaFilterLeaf"
  "QuantaFilterLeaf \<noteq> QuantaFilterUnion" "QuantaFilterUnion \<noteq> QuantaFilterLeaf"
  "QuantaFilterCandidateSet \<noteq> QuantaFilterIntersect" "QuantaFilterIntersect \<noteq> QuantaFilterCandidateSet"
  "QuantaFilterCandidateSet \<noteq> QuantaFilterUnion" "QuantaFilterUnion \<noteq> QuantaFilterCandidateSet"
  "QuantaFilterIntersect \<noteq> QuantaFilterUnion" "QuantaFilterUnion \<noteq> QuantaFilterIntersect"
  "QuantaFilterLeaf \<noteq> []" "QuantaFilterCandidateSet \<noteq> []" "QuantaFilterIntersect \<noteq> []" "QuantaFilterUnion \<noteq> []"
  by (simp_all add: filter_ops)

lemma grouped_not_Empty: "grouped e \<Longrightarrow> \<not> Empty e"
  by (cases e) (auto simp: Empty_def filter_ops)

section \<open>The two set operations\<close>

lemma withIndex_rownums [simp]: "Rownums (withIndex left right) = Rownums left"
  by (simp add: withIndex_def)

lemma marks_nth:
  "i < length m \<Longrightarrow> foldl (\<lambda>m p. m[p := True]) m ps ! i = (m ! i \<or> i \<in> set ps)"
proof (induction ps arbitrary: m)
  case (Cons p ps)
  then show ?case by (cases "p = i") auto
qed simp

lemma marks_length: "length (foldl (\<lambda>m p. m[p := True]) m ps) = length m"
  by (induction ps arbitrary: m) auto

lemma markMatched_step:
  assumes "length m = length left"
  shows "length (foldl (\<lambda>m r. foldl (\<lambda>m p. m[p := True]) m (leftPositions left r)) m right) = length left \<and>
    (i < length left \<longrightarrow>
      foldl (\<lambda>m r. foldl (\<lambda>m p. m[p := True]) m (leftPositions left r)) m right ! i = (m ! i \<or> left ! i \<in> set right))"
  using assms
proof (induction right arbitrary: m)
  case (Cons r right)
  let ?m = "foldl (\<lambda>m p. m[p := True]) m (leftPositions left r)"
  have "i < length left \<Longrightarrow> ?m ! i = (m ! i \<or> left ! i = r)"
    using marks_nth [of i m "leftPositions left r"] Cons.prems by (auto simp: leftPositions_def)
  moreover have "length ?m = length left" using Cons.prems by (simp add: marks_length)
  ultimately show ?case using Cons.IH [of ?m] by auto
qed simp

lemma filter_zip_marks:
  "length m = length xs \<Longrightarrow> (\<And>i. i < length xs \<Longrightarrow> m ! i = p (xs ! i)) \<Longrightarrow>
   map fst (filter snd (zip xs m)) = filter p xs"
proof (induction xs arbitrary: m)
  case (Cons x xs)
  obtain b m' where m: "m = b # m'" "length m' = length xs" using Cons.prems(1) by (cases m) auto
  have "b = p x" using Cons.prems(2) [of 0] m by simp
  moreover have "m' ! i = p (xs ! i)" if "i < length xs" for i using Cons.prems(2) [of "Suc i"] m that by simp
  ultimately show ?case using Cons.IH [OF m(2)] m by simp
qed simp

lemma intersect_rownums:
  "rownums (quantaFilterIntersectCandidateSets left right) = filter (\<lambda>r. r \<in> set (rownums right)) (rownums left)"
proof -
  have "map fst (filter snd (zip (rownums left) (markMatched (rownums left) (rownums right)))) =
      filter (\<lambda>r. r \<in> set (rownums right)) (rownums left)"
    using markMatched_step [of "replicate (length (rownums left)) False" "rownums left"]
    by (intro filter_zip_marks) (auto simp: markMatched_def)
  then show ?thesis
    by (simp add: quantaFilterIntersectCandidateSets_def rownums_def quantaFilterRownumSet_def Let_def)
qed

lemma unionRows_set: "set (unionRows (set rs) rs right) = set rs \<union> set right"
proof (induction right arbitrary: rs)
  case (Cons r right)
  then show ?case using Cons [of "rs @ [r]"] by auto
qed simp

lemma union_rownums:
  "set (rownums (quantaFilterUnionCandidateSets left right)) = set (rownums left) \<union> set (rownums right)"
  using unionRows_set [of "rownums left" "rownums right"]
  by (auto simp: quantaFilterUnionCandidateSets_def rownums_def [of "withIndex _ _"] quantaFilterRownumSet_def Let_def)

section \<open>Evaluation gives the rows\<close>

definition answers :: "u64 set \<Rightarrow> evaluated \<times> 'w \<Rightarrow> bool" where
  "answers X r \<longleftrightarrow> (case r of ((c, d, err), w) \<Rightarrow> err = None \<and> \<not> BlocksNative d \<and> set (rownums c) = X)"

text \<open>What the evaluator relies on: the context is not cancelled, a leaf evaluation gives the rows of its
  fragment, and a constrained one gives them as far as they are among the candidates.\<close>

definition serves :: "'w QuantaFilterTreeEvaluator \<Rightarrow> (QuantaQueryFragment \<Rightarrow> u64 set) \<Rightarrow> bool" where
  "serves e v \<longleftrightarrow>
     (\<forall>w. fst (ctxErr e w) = None) \<and>
     (case evaluatorLeaves e of
        None \<Rightarrow> False
      | Some leaves \<Rightarrow>
          (\<forall>f w. answers (v f) (EvaluateFilterLeaf leaves f w)) \<and>
          (\<forall>within f cur w. EvaluateFilterLeafWithinCandidateSet leaves = Some within \<longrightarrow>
             (\<exists>X. answers X (within f cur w) \<and> X \<inter> set (rownums cur) = v f \<inter> set (rownums cur))))"

lemma BlocksNative_append [simp]: "BlocksNative (a @ b) \<longleftrightarrow> BlocksNative a \<or> BlocksNative b"
  and BlocksNative_Nil [simp]: "\<not> BlocksNative []"
  by (simp_all add: BlocksNative_def)

lemma answersE:
  assumes "answers X r"
  obtains c d w where "r = ((c, d, None), w)" "\<not> BlocksNative d" "set (rownums c) = X"
  using assms by (cases r) (auto simp: answers_def)

lemma answers_simp [simp]: "answers X ((c, d, err), w) \<longleftrightarrow> err = None \<and> \<not> BlocksNative d \<and> set (rownums c) = X"
  by (simp add: answers_def)

lemma serves_ctx: "serves e v \<Longrightarrow> \<exists>w'. ctxErr e w = (None, w')"
  unfolding serves_def by (metis prod.collapse)

lemma rest_answers:
  assumes "serves e v" "\<And>c w. c \<in> set cs \<Longrightarrow> answers (R c) (eval c w)" "\<not> BlocksNative d"
  shows "answers (set (rownums cur) \<union> \<Union> (R ` set cs)) (evaluateFilterRest e eval quantaFilterUnionCandidateSets cur d cs w)"
  using assms(2,3)
proof (induction cs arbitrary: cur d w)
  case (Cons c cs)
  obtain w1 where w1: "ctxErr e w = (None, w1)" using serves_ctx [OF assms(1)] by blast
  obtain nxt d' w2 where r: "eval c w1 = ((nxt, d', None), w2)" "\<not> BlocksNative d'" "set (rownums nxt) = R c"
    using Cons.prems(1) [of c w1] by (auto elim: answersE)
  have "answers (set (rownums (quantaFilterUnionCandidateSets cur nxt)) \<union> \<Union> (R ` set cs))
      (evaluateFilterRest e eval quantaFilterUnionCandidateSets (quantaFilterUnionCandidateSets cur nxt) (d @ d') cs w2)"
    using Cons.prems r(2) by (intro Cons.IH) auto
  then show ?case using w1 r Cons.prems(2) by (simp add: Let_def union_rownums Un_assoc)
qed simp

lemma intersect_child_answers:
  assumes "serves e v" "\<And>w. answers (rows_of v c) (eval c w)"
  shows "\<exists>X. answers X (evaluateFilterIntersectChild e eval c cur w) \<and>
    X \<inter> set (rownums cur) = rows_of v c \<inter> set (rownums cur)"
proof (cases "Option.bind (evaluatorLeaves e) EvaluateFilterLeafWithinCandidateSet")
  case None
  then show ?thesis using assms(2) by (auto simp: evaluateFilterIntersectChild_def)
next
  case (Some within)
  then obtain leaves where l: "evaluatorLeaves e = Some leaves" "EvaluateFilterLeafWithinCandidateSet leaves = Some within"
    by (cases "evaluatorLeaves e") auto
  show ?thesis
  proof (cases "Operation c = QuantaFilterLeaf \<and> length (rownums cur) > 0")
    case True
    then have "rows_of v c = v (Fragment c)" by (cases c) simp
    with assms(1) l True Some show ?thesis by (auto simp: serves_def evaluateFilterIntersectChild_def)
  next
    case False
    then show ?thesis using Some assms(2) by (auto simp: evaluateFilterIntersectChild_def)
  qed
qed

lemma intersect_rest_answers:
  assumes "serves e v" "\<And>c w. c \<in> set cs \<Longrightarrow> answers (rows_of v c) (eval c w)" "\<not> BlocksNative d"
  shows "answers (set (rownums cur) \<inter> \<Inter> (rows_of v ` set cs)) (evaluateFilterIntersectRest e eval cur d cs w)"
  using assms(2,3)
proof (induction cs arbitrary: cur d w)
  case (Cons c cs)
  obtain w1 where w1: "ctxErr e w = (None, w1)" using serves_ctx [OF assms(1)] by blast
  obtain X where X: "answers X (evaluateFilterIntersectChild e eval c cur w1)"
    "X \<inter> set (rownums cur) = rows_of v c \<inter> set (rownums cur)"
    using intersect_child_answers [OF assms(1), of c eval cur w1] Cons.prems(1) by auto
  obtain nxt d' w2 where r: "evaluateFilterIntersectChild e eval c cur w1 = ((nxt, d', None), w2)" "\<not> BlocksNative d'"
    "set (rownums nxt) = X" using X(1) by (auto elim: answersE)
  let ?cur = "quantaFilterIntersectCandidateSets cur nxt"
  have cur: "set (rownums ?cur) = set (rownums cur) \<inter> rows_of v c" using r(3) X(2) by (auto simp: intersect_rownums)
  have rest: "answers (set (rownums ?cur) \<inter> \<Inter> (rows_of v ` set cs)) (evaluateFilterIntersectRest e eval ?cur (d @ d') cs w2)"
    using Cons.prems r(2) by (intro Cons.IH) auto
  show ?case
  proof (cases "rownums ?cur = []")
    case True
    then have "set (rownums cur) \<inter> rows_of v c = {}" using cur by simp
    then show ?thesis using w1 r Cons.prems(2) True by (auto simp: Let_def)
  next
    case False
    then show ?thesis using w1 r Cons.prems(2) rest by (simp add: Let_def cur Int_assoc)
  qed
qed simp

lemma flatten_rows:
  "list_all grouped cs \<Longrightarrow>
   list_all grouped (quantaFilterFlattenIntersectChildren cs) \<and>
   \<Inter> (rows_of v ` set (quantaFilterFlattenIntersectChildren cs)) = \<Inter> (rows_of v ` set cs)"
proof (induction cs rule: quantaFilterFlattenIntersectChildren.induct)
  case (2 child children)
  show ?case
  proof (cases "Operation child = QuantaFilterIntersect")
    case True
    then obtain f c cs where child: "child = Filter QuantaFilterIntersect f c cs" by (cases child) auto
    then have "cs \<noteq> []" "list_all grouped cs" using 2(3) by auto
    then show ?thesis using 2 child by (simp add: INF_union)
  next
    case False
    then show ?thesis using 2 by simp
  qed
qed simp

lemma order_rows:
  assumes "list_all grouped cs"
  shows "list_all grouped (quantaFilterIntersectEvaluationOrder cs)"
    "\<Inter> (rows_of v ` set (quantaFilterIntersectEvaluationOrder cs)) = \<Inter> (rows_of v ` set cs)"
    "cs \<noteq> [] \<Longrightarrow> quantaFilterIntersectEvaluationOrder cs \<noteq> []"
proof -
  let ?f = "quantaFilterFlattenIntersectChildren cs" and ?o = "quantaFilterIntersectEvaluationOrder cs"
  have "?o = cs \<or> set ?o = set ?f" by (auto simp: quantaFilterIntersectEvaluationOrder_def Let_def)
  then show "list_all grouped ?o" "\<Inter> (rows_of v ` set ?o) = \<Inter> (rows_of v ` set cs)"
    using flatten_rows [OF assms, of v] assms by (simp_all add: list_all_iff) (elim disjE; simp)+
  show "cs \<noteq> [] \<Longrightarrow> ?o \<noteq> []" by (auto simp: quantaFilterIntersectEvaluationOrder_def Let_def)
qed

lemma EvaluateFilter_rows:
  assumes "serves e v" "grouped expr"
  shows "answers (rows_of v expr) (EvaluateFilter e expr w)"
  using assms(2)
proof (induction "weight expr" arbitrary: expr w rule: less_induct)
  case less
  obtain w1 where w1: "ctxErr e w = (None, w1)" using serves_ctx [OF assms(1)] by blast
  obtain leaves where l: "evaluatorLeaves e = Some leaves" "\<And>f w. answers (v f) (EvaluateFilterLeaf leaves f w)"
    using assms(1) by (auto simp: serves_def split: option.splits)
  obtain op f c cs where x: "expr = Filter op f c cs" by (cases expr)
  note ev = EvaluateFilter.simps [of e expr w] and ne = grouped_not_Empty [OF less.prems]
  consider "op = QuantaFilterLeaf" | "op = QuantaFilterCandidateSet"
    | (inter) "op = QuantaFilterIntersect" "cs \<noteq> []" "list_all grouped cs"
    | (union) "op = QuantaFilterUnion" "cs \<noteq> []" "list_all grouped cs"
    using less.prems x by auto
  then show ?case
  proof cases
    case inter
    obtain c0 rest where o: "quantaFilterIntersectEvaluationOrder cs = c0 # rest"
      using order_rows(3) [OF inter(3,2)] by (cases "quantaFilterIntersectEvaluationOrder cs") auto
    have IH: "answers (rows_of v y) (EvaluateFilter e y w)" if "y \<in> set (c0 # rest)" for y w
      using less.hyps [of y] order_weight [of y expr] order_rows(1) [OF inter(3)] that x o by (auto simp: list_all_iff)
    obtain cur d w2 where r: "EvaluateFilter e c0 w1 = ((cur, d, None), w2)" "\<not> BlocksNative d" "set (rownums cur) = rows_of v c0"
      using IH [of c0 w1] by (auto elim: answersE)
    have rest: "answers (set (rownums cur) \<inter> \<Inter> (rows_of v ` set rest)) (evaluateFilterIntersectRest e (EvaluateFilter e) cur d rest w2)"
      by (rule intersect_rest_answers [OF assms(1)]) (use IH r(2) in auto)
    have "rows_of v expr = rows_of v c0 \<inter> \<Inter> (rows_of v ` set rest)"
      using order_rows(2) [OF inter(3), of v] inter x o by simp
    then show ?thesis
      using ev ne w1 x inter o r rest by (auto simp: evaluateFilterIntersectChildren_def)
  next
    case union
    obtain c0 rest where o: "cs = c0 # rest" using union(2) by (cases cs) auto
    have IH: "answers (rows_of v y) (EvaluateFilter e y w)" if "y \<in> set cs" for y w
      using less.hyps [of y] weight_Children [of y expr] union(3) that x by (auto simp: list_all_iff)
    obtain cur d w2 where r: "EvaluateFilter e c0 w1 = ((cur, d, None), w2)" "\<not> BlocksNative d" "set (rownums cur) = rows_of v c0"
      using IH [of c0 w1] o by (auto elim: answersE)
    have "answers (set (rownums cur) \<union> \<Union> (rows_of v ` set rest))
        (evaluateFilterRest e (EvaluateFilter e) quantaFilterUnionCandidateSets cur d rest w2)"
      by (rule rest_answers [OF assms(1)]) (use IH r(2) o in auto)
    then show ?thesis using ev ne w1 x union o r by (simp add: evaluateFilterChildren_def)
  qed (use ev ne w1 x l in simp_all)
qed

section \<open>Rewriting keeps the rows\<close>

text \<open>Fragments that match have the same rows.\<close>

definition match_sound :: "(QuantaQueryFragment \<Rightarrow> u64 set) \<Rightarrow> bool" where
  "match_sound v \<longleftrightarrow> (\<forall>f g. filterDomainFragmentMatches f g \<longrightarrow> v f = v g)"

text \<open>The translated parts hold the rows of what they replace.\<close>

definition translated :: "(QuantaQueryFragment \<Rightarrow> u64 set) \<Rightarrow> FilterDomainRewriteResult \<Rightarrow> bool" where
  "translated v r \<longleftrightarrow>
     (\<forall>b \<in> set (Branches r). set (rownums (branchCandidateSet b)) = rows_of v (OriginalFilter b)) \<and>
     (\<forall>l \<in> set (Leaves r). set (rownums (leafCandidateSet l)) = v (OriginalFragment l))"

lemma list_all2_image_eq: "list_all2 (\<lambda>x y. g x = g y) xs ys \<Longrightarrow> g ` set xs = g ` set ys"
  by (induction rule: list_all2_induct) auto

lemma matches_rows:
  "match_sound v \<Longrightarrow> filterDomainExpressionMatches a b \<Longrightarrow> rows_of v a = rows_of v b"
proof (induction a b rule: filterDomainExpressionMatches.induct)
  case (1 op f c cs op' f' c' cs')
  show ?case
  proof (cases "op = QuantaFilterLeaf \<or> op = QuantaFilterCandidateSet")
    case True
    then show ?thesis using 1(2,3) by (auto simp: match_sound_def split: if_splits)
  next
    case False
    with 1(3) have op: "op' = op" and l: "list_all2 filterDomainExpressionMatches cs cs'" by (auto split: if_splits)
    from l have "list_all2 (\<lambda>x y. rows_of v x = rows_of v y) cs cs'"
      by (rule list.rel_mono_strong) (use 1 op False in auto)
    then have "rows_of v ` set cs = rows_of v ` set cs'" by (rule list_all2_image_eq)
    moreover have "cs = [] \<longleftrightarrow> cs' = []" using l by auto
    ultimately show ?thesis using op False by simp
  qed
qed

lemma matches_any_rows:
  "match_sound v \<Longrightarrow> filterDomainExpressionMatchesAny e bs \<Longrightarrow> \<exists>b \<in> set bs. rows_of v e = rows_of v b"
  using matches_rows by (auto simp: filterDomainExpressionMatchesAny_def list_ex_iff)

subsection \<open>Factoring\<close>

lemma conjuncts_rows:
  "grouped e \<Longrightarrow> list_all grouped (filterDomainConjunctsForFactoring e) \<and> filterDomainConjunctsForFactoring e \<noteq> [] \<and>
   \<Inter> (rows_of v ` set (filterDomainConjunctsForFactoring e)) = rows_of v e"
proof (induction e rule: filterDomainConjunctsForFactoring.induct)
  case (1 op f c cs)
  show ?case
  proof (cases "op = QuantaFilterIntersect")
    case True
    then have cs: "cs \<noteq> []" "list_all grouped cs" using 1(2) by auto
    have IH: "list_all grouped (filterDomainConjunctsForFactoring x)" "filterDomainConjunctsForFactoring x \<noteq> []"
      "\<Inter> (rows_of v ` set (filterDomainConjunctsForFactoring x)) = rows_of v x" if "x \<in> set cs" for x
      using 1(1) [of x] True that cs(2) by (auto simp: list_all_iff)
    have "\<Inter> (rows_of v ` (\<Union>x \<in> set cs. set (filterDomainConjunctsForFactoring x))) = (\<Inter>x \<in> set cs. rows_of v x)"
    proof -
      have "\<Inter> (rows_of v ` (\<Union>x \<in> set cs. set (filterDomainConjunctsForFactoring x))) =
          (\<Inter>x \<in> set cs. \<Inter> (rows_of v ` set (filterDomainConjunctsForFactoring x)))" by blast
      then show ?thesis using IH(3) by simp
    qed
    moreover have "\<exists>x \<in> set cs. filterDomainConjunctsForFactoring x \<noteq> []" using IH(2) cs(1) by (cases cs) auto
    ultimately show ?thesis using True cs(1) IH(1) by (auto simp: list_all_iff)
  next
    case False
    then show ?thesis using 1(2) by (auto simp: filter_ops)
  qed
qed

lemma commonFrom_mem:
  "c \<in> set (commonFrom others common branch) \<Longrightarrow>
   c \<in> set common \<or> c \<in> set branch \<and> (\<forall>d \<in> set others. filterDomainExpressionMatchesAny c d)"
  by (induction branch arbitrary: common) (fastforce simp: list_all_iff split: if_splits)+

lemma common_rows:
  assumes "match_sound v" "c \<in> set (filterDomainCommonConjuncts branches)" "b \<in> set branches"
  shows "\<Inter> (rows_of v ` set b) \<subseteq> rows_of v c"
proof -
  obtain b0 others where bs: "branches = b0 # others" using assms(3) by (cases branches) auto
  with commonFrom_mem [of c others "[]" b0] assms(2) have
    c: "c \<in> set b0" "\<forall>d \<in> set others. filterDomainExpressionMatchesAny c d" by (auto simp: filterDomainCommonConjuncts_def)
  show ?thesis
  proof (cases "b = b0")
    case True
    then show ?thesis using c(1) by auto
  next
    case False
    then have "filterDomainExpressionMatchesAny c b" using assms(3) bs c(2) by auto
    then show ?thesis using matches_any_rows [OF assms(1)] by blast
  qed
qed

lemma firstUnremoved_matches: "firstUnremoved e cs removed i = Some j \<Longrightarrow> \<exists>c \<in> set cs. filterDomainExpressionMatches e c"
  by (induction e cs removed i rule: firstUnremoved.induct) (auto split: if_splits)

lemma removeFrom_mem:
  "set (removeFrom remove removed branch) \<subseteq> set branch \<and>
   (\<forall>x \<in> set branch. x \<in> set (removeFrom remove removed branch) \<or> (\<exists>c \<in> set remove. filterDomainExpressionMatches x c))"
proof (induction branch arbitrary: removed)
  case (Cons x branch)
  show ?case
  proof (cases "filterDomainFirstUnremovedConjunctMatch x remove removed")
    case None
    then show ?thesis using Cons [of removed] by auto
  next
    case (Some i)
    then have "\<exists>c \<in> set remove. filterDomainExpressionMatches x c"
      by (auto simp: filterDomainFirstUnremovedConjunctMatch_def dest: firstUnremoved_matches)
    then show ?thesis using Some Cons [of "removed[i := True]"] by auto
  qed
qed simp

lemma remove_rows:
  assumes "match_sound v" "\<And>c. c \<in> set common \<Longrightarrow> \<Inter> (rows_of v ` set b) \<subseteq> rows_of v c"
  shows "\<Inter> (rows_of v ` set b) = \<Inter> (rows_of v ` set common) \<inter> \<Inter> (rows_of v ` set (filterDomainRemoveConjuncts b common))"
proof -
  let ?r = "set (filterDomainRemoveConjuncts b common)"
  have r: "?r \<subseteq> set b" "\<And>x. x \<in> set b \<Longrightarrow> x \<in> ?r \<or> (\<exists>c \<in> set common. filterDomainExpressionMatches x c)"
    using removeFrom_mem unfolding filterDomainRemoveConjuncts_def by blast+
  have "\<Inter> (rows_of v ` set common) \<inter> \<Inter> (rows_of v ` ?r) \<subseteq> rows_of v x" if "x \<in> set b" for x
    using r(2) [OF that] matches_rows [OF assms(1)] by blast
  then show ?thesis using r(1) assms(2) by blast
qed

lemma conjunct_expression_rows:
  "cs \<noteq> [] \<Longrightarrow> list_all grouped cs \<Longrightarrow>
   grouped (filterDomainConjunctExpression cs) \<and> rows_of v (filterDomainConjunctExpression cs) = \<Inter> (rows_of v ` set cs)"
  by (auto simp: filterDomainConjunctExpression_def split: list.split)

lemma common_grouped:
  assumes "\<And>b. b \<in> set bs \<Longrightarrow> list_all grouped b" "x \<in> set (filterDomainCommonConjuncts bs)"
  shows "grouped x"
proof -
  obtain b0 others where bs: "bs = b0 # others" using assms(2) by (cases bs) (auto simp: filterDomainCommonConjuncts_def)
  then have "x \<in> set b0" using assms(2) commonFrom_mem [of x others "[]" b0] by (auto simp: filterDomainCommonConjuncts_def)
  then show ?thesis using assms(1) [of b0] bs by (auto simp: list_all_iff)
qed

definition factored :: "QuantaFilterExpression list list \<Rightarrow> QuantaFilterExpression list \<Rightarrow> QuantaFilterExpression" where
  "factored bs common = Filter QuantaFilterIntersect no_fragment no_candidates
     (common @ [Filter QuantaFilterUnion no_fragment no_candidates
        (map filterDomainConjunctExpression (map (\<lambda>b. filterDomainRemoveConjuncts b common) bs))])"

lemma factored_rows:
  assumes v: "match_sound v" and bs: "bs \<noteq> []" "\<And>b. b \<in> set bs \<Longrightarrow> list_all grouped b"
    and common: "common = filterDomainCommonConjuncts bs"
    and ne: "\<And>b. b \<in> set bs \<Longrightarrow> filterDomainRemoveConjuncts b common \<noteq> []"
  shows "grouped (factored bs common)" "rows_of v (factored bs common) = (\<Union>b \<in> set bs. \<Inter> (rows_of v ` set b))"
proof -
  define rem where "rem b = filterDomainRemoveConjuncts b common" for b
  have sub: "set (rem b) \<subseteq> set b" for b
    using removeFrom_mem unfolding filterDomainRemoveConjuncts_def rem_def by blast
  have rem: "grouped (filterDomainConjunctExpression (rem b))"
      "rows_of v (filterDomainConjunctExpression (rem b)) = \<Inter> (rows_of v ` set (rem b))" if "b \<in> set bs" for b
  proof -
    have "rem b \<noteq> []" "list_all grouped (rem b)"
      using ne [OF that] bs(2) [OF that] sub [of b] by (auto simp: list_all_iff rem_def)
    from conjunct_expression_rows [OF this, of v]
    show "grouped (filterDomainConjunctExpression (rem b))"
      "rows_of v (filterDomainConjunctExpression (rem b)) = \<Inter> (rows_of v ` set (rem b))" by blast+
  qed
  have gc: "grouped x" if "x \<in> set common" for x using common_grouped bs(2) that common by blast
  show "grouped (factored bs common)"
    unfolding factored_def rem_def [symmetric] using gc rem(1) bs(1) by (simp add: list_all_iff)
  have split: "\<Inter> (rows_of v ` set b) = \<Inter> (rows_of v ` set common) \<inter> \<Inter> (rows_of v ` set (rem b))" if "b \<in> set bs" for b
    unfolding rem_def by (rule remove_rows [OF v]) (use common_rows [OF v _ that] common in blast)
  have "rows_of v (factored bs common) = \<Inter> (rows_of v ` set common) \<inter> (\<Union>b \<in> set bs. \<Inter> (rows_of v ` set (rem b)))"
    unfolding factored_def rem_def [symmetric] using bs(1) rem(2) by (simp add: Int_commute)
  also have "\<dots> = (\<Union>b \<in> set bs. \<Inter> (rows_of v ` set common) \<inter> \<Inter> (rows_of v ` set (rem b)))"
    by (rule Int_UN_distrib)
  also have "\<dots> = (\<Union>b \<in> set bs. \<Inter> (rows_of v ` set b))" using split by (intro SUP_cong) auto
  finally show "rows_of v (factored bs common) = (\<Union>b \<in> set bs. \<Inter> (rows_of v ` set b))" .
qed

lemma factor_rows:
  assumes "match_sound v" "grouped e"
  shows "grouped (filterDomainFactorCommonUnionConjuncts e)" "rows_of v (filterDomainFactorCommonUnionConjuncts e) = rows_of v e"
proof -
  define bs where "bs = map filterDomainConjunctsForFactoring (Children e)"
  define common where "common = filterDomainCommonConjuncts bs"
  have cases: "filterDomainFactorCommonUnionConjuncts e = e \<or>
      Operation e = QuantaFilterUnion \<and> (\<forall>b \<in> set bs. filterDomainRemoveConjuncts b common \<noteq> []) \<and>
      filterDomainFactorCommonUnionConjuncts e = factored bs common"
    unfolding filterDomainFactorCommonUnionConjuncts_def bs_def [symmetric] Let_def common_def [symmetric] factored_def
    by (auto simp: list_ex_iff image_iff)
  have "grouped (filterDomainFactorCommonUnionConjuncts e) \<and> rows_of v (filterDomainFactorCommonUnionConjuncts e) = rows_of v e"
    using cases
  proof (elim disjE conjE)
    assume u: "Operation e = QuantaFilterUnion" and ne: "\<forall>b \<in> set bs. filterDomainRemoveConjuncts b common \<noteq> []"
      and f: "filterDomainFactorCommonUnionConjuncts e = factored bs common"
    obtain x c cs where e: "e = Filter QuantaFilterUnion x c cs" using u by (cases e) auto
    then have cs: "cs \<noteq> []" "list_all grouped cs" using assms(2) by auto
    have g: "list_all grouped b" if "b \<in> set bs" for b
      using that conjuncts_rows cs(2) e by (auto simp: bs_def list_all_iff)
    have "rows_of v e = (\<Union>y \<in> set cs. rows_of v y)" using e cs(1) by simp
    also have "\<dots> = (\<Union>y \<in> set cs. \<Inter> (rows_of v ` set (filterDomainConjunctsForFactoring y)))"
      using conjuncts_rows cs(2) by (intro SUP_cong) (auto simp: list_all_iff)
    also have "\<dots> = (\<Union>b \<in> set bs. \<Inter> (rows_of v ` set b))" using e by (simp add: bs_def)
    finally have r: "rows_of v e = (\<Union>b \<in> set bs. \<Inter> (rows_of v ` set b))" .
    have "bs \<noteq> []" using e cs(1) by (simp add: bs_def)
    from factored_rows [OF assms(1) this g common_def] ne show ?thesis unfolding f r by blast
  qed (use assms(2) in simp)
  then show "grouped (filterDomainFactorCommonUnionConjuncts e)" "rows_of v (filterDomainFactorCommonUnionConjuncts e) = rows_of v e"
    by blast+
qed

subsection \<open>Replacing some of the conjuncts\<close>

lemma markFirst_matches:
  "markFirst e bs m i = Some j \<Longrightarrow>
   i \<le> j \<and> j - i < length bs \<and> j - i < length m \<and> filterDomainExpressionMatches e (bs ! (j - i))"
proof (induction e bs m i rule: markFirst.induct)
  case (1 e b bs x m i)
  show ?case
  proof (cases "\<not> x \<and> filterDomainExpressionMatches e b")
    case True
    then show ?thesis using 1(2) by simp
  next
    case False
    then have "markFirst e bs m (Suc i) = Some j" using 1(2) by (auto split: if_splits)
    from 1(1) [OF False this] obtain k where "j = Suc i + k" "k < length bs" "k < length m" "filterDomainExpressionMatches e (bs ! k)"
      by (metis le_add_diff_inverse)
    then show ?thesis by simp
  qed
qed auto

text \<open>The marks of a set of rows: every marked branch child holds them all.\<close>

definition marks_hold :: "(QuantaQueryFragment \<Rightarrow> u64 set) \<Rightarrow> u64 set \<Rightarrow> QuantaFilterExpression list \<Rightarrow> bool list \<Rightarrow> bool" where
  "marks_hold v X bs m \<longleftrightarrow> length m = length bs \<and> (\<forall>i < length bs. m ! i \<longrightarrow> X \<subseteq> rows_of v (bs ! i))"

lemma fold_invariant: "(\<And>x s. x \<in> set xs \<Longrightarrow> P s \<Longrightarrow> P (f x s)) \<Longrightarrow> P s \<Longrightarrow> P (fold f xs s)"
  by (induction xs arbitrary: s) auto

lemma mark_holds:
  "match_sound v \<Longrightarrow> grouped e \<Longrightarrow> X \<subseteq> rows_of v e \<Longrightarrow> marks_hold v X bs m \<Longrightarrow>
   marks_hold v X bs (filterDomainMarkConjunctiveBranchMatches bs e m)"
proof (induction bs e m rule: filterDomainMarkConjunctiveBranchMatches.induct)
  case (1 bs op f c cs m)
  let ?e = "Filter op f c cs"
  show ?case
  proof (cases "markFirst ?e bs m 0")
    case (Some i)
    then have i: "i < length bs" "filterDomainExpressionMatches ?e (bs ! i)" using markFirst_matches by force+
    then have "X \<subseteq> rows_of v (bs ! i)" using matches_rows [OF 1(2) i(2)] 1(4) by simp
    then have "marks_hold v X bs (m[i := True])"
      using 1(5) i(1) by (simp add: marks_hold_def nth_list_update)
    then show ?thesis using Some by simp
  next
    case None
    show ?thesis
    proof (cases "op = QuantaFilterIntersect")
      case False
      then show ?thesis using None 1(5) by simp
    next
      case True
      then have cs: "cs \<noteq> []" "list_all grouped cs" using 1(3) by auto
      then have x: "grouped x" "X \<subseteq> rows_of v x" if "x \<in> set cs" for x
        using that 1(4) True by (auto simp: list_all_iff)
      have "marks_hold v X bs (fold (filterDomainMarkConjunctiveBranchMatches bs) cs m)"
        by (rule fold_invariant [where P = "marks_hold v X bs"]) (use 1(1) None True 1(2,5) x in auto)
      then show ?thesis using None True by simp
    qed
  qed
qed

lemma contains_all_rows:
  assumes "match_sound v" "grouped e" "filterDomainConjunctiveTreeContainsAll e bs"
  shows "rows_of v e \<subseteq> \<Inter> (rows_of v ` set bs)"
proof -
  let ?m = "filterDomainMarkConjunctiveBranchMatches bs e (replicate (length bs) False)"
  have "marks_hold v (rows_of v e) bs ?m"
    by (rule mark_holds [OF assms(1,2)]) (auto simp: marks_hold_def)
  moreover have "list_all id ?m" using assms(3) by (simp add: filterDomainConjunctiveTreeContainsAll_def)
  ultimately have "rows_of v e \<subseteq> rows_of v (bs ! i)" if "i < length bs" for i
    using that by (auto simp: marks_hold_def list_all_length)
  then show ?thesis by (fastforce simp: in_set_conv_nth)
qed

text \<open>What is left of a filter; nothing left is no restriction.\<close>

definition left_rows :: "(QuantaQueryFragment \<Rightarrow> u64 set) \<Rightarrow> QuantaFilterExpression \<Rightarrow> u64 set" where
  "left_rows v e = (if Empty e then UNIV else rows_of v e)"

lemma left_rows_filter:
  "\<Inter> (rows_of v ` set (filter (\<lambda>e. \<not> Empty e) cs)) = \<Inter> (left_rows v ` set cs)"
  by (auto simp: left_rows_def)

lemma Empty_no_filter [simp]: "Empty no_filter"
  by (simp add: Empty_def no_filter_def)

lemma prune_rows:
  assumes v: "match_sound v" and B: "B = \<Inter> (rows_of v ` set bs)"
  shows "grouped e \<Longrightarrow>
    (Empty (filterDomainPruneConjunctiveBranchChildren bs e) \<or> grouped (filterDomainPruneConjunctiveBranchChildren bs e)) \<and>
    B \<inter> left_rows v (filterDomainPruneConjunctiveBranchChildren bs e) = B \<inter> rows_of v e"
proof (induction "weight e" arbitrary: e rule: less_induct)
  case less
  obtain op f c cs where e: "e = Filter op f c cs" by (cases e)
  let ?prune = "filterDomainPruneConjunctiveBranchChildren bs"
  show ?case
  proof (cases "filterDomainExpressionMatchesAny e bs")
    case True
    then have "?prune e = no_filter" using e by simp
    moreover have "B \<subseteq> rows_of v e" using matches_any_rows [OF v True] B by auto
    ultimately show ?thesis by (auto simp: left_rows_def)
  next
    case no: False
    show ?thesis
    proof (cases "op = QuantaFilterIntersect")
      case False
      then have "?prune e = e" using e no by simp
      then show ?thesis using less.prems grouped_not_Empty by (simp add: left_rows_def)
    next
      case True
      then have cs: "cs \<noteq> []" "list_all grouped cs" using less.prems e by auto
      have IH: "Empty (?prune x) \<or> grouped (?prune x)" "B \<inter> left_rows v (?prune x) = B \<inter> rows_of v x" if "x \<in> set cs" for x
        using less.hyps [of x] weight_Children [of x e] that e cs(2) by (auto simp: list_all_iff)
      define ch where "ch = filter (\<lambda>e. \<not> Empty e) (map ?prune cs)"
      have p: "?prune e = (case ch of [] \<Rightarrow> no_filter | [y] \<Rightarrow> y | _ \<Rightarrow> Filter QuantaFilterIntersect f c ch)"
        unfolding ch_def using e no True cs(1) by (simp add: Let_def)
      have g: "grouped y" "\<not> Empty y" if "y \<in> set ch" for y using that IH(1) by (auto simp: ch_def)
      have "\<Inter> (rows_of v ` set ch) = (\<Inter>x \<in> set cs. left_rows v (?prune x))"
        unfolding ch_def by (subst left_rows_filter) simp
      then have "B \<inter> \<Inter> (rows_of v ` set ch) = B \<inter> (\<Inter>x \<in> set cs. rows_of v x)" using IH(2) by blast
      moreover have "rows_of v e = (\<Inter>x \<in> set cs. rows_of v x)" using e True cs(1) by simp
      moreover have "left_rows v (?prune e) = \<Inter> (rows_of v ` set ch)" "Empty (?prune e) \<or> grouped (?prune e)"
        unfolding p using g by (auto simp: left_rows_def Empty_def no_filter_def list_all_iff split: list.split)
      ultimately show ?thesis by simp
    qed
  qed
qed

lemma pruned_children_rows:
  assumes "Empty p \<or> grouped p"
  shows "list_all grouped (filterDomainPrunedChildren p)" "\<Inter> (rows_of v ` set (filterDomainPrunedChildren p)) = left_rows v p"
proof -
  obtain op f c cs where p: "p = Filter op f c cs" by (cases p)
  show "list_all grouped (filterDomainPrunedChildren p)" "\<Inter> (rows_of v ` set (filterDomainPrunedChildren p)) = left_rows v p"
    using assms p by (auto simp: filterDomainPrunedChildren_def left_rows_def Empty_def filter_ops)
qed

lemma candidateLeaf_rows [simp]:
  "grouped (candidateLeaf c t)" "rows_of v (candidateLeaf c t) = set (rownums c)"
  by (simp_all add: candidateLeaf_def rownums_def)

lemma subset_rows:
  assumes "match_sound v" "grouped e" "subsetBranch e b"
  shows "rows_of v e = rows_of v (OriginalFilter b) \<inter> \<Inter> (rows_of v ` set (remainingChildren e b))"
    "list_all grouped (remainingChildren e b)"
proof -
  let ?bs = "Children (OriginalFilter b)"
  let ?p = "filterDomainPruneConjunctiveBranchChildren ?bs e"
  have all: "rows_of v e \<subseteq> \<Inter> (rows_of v ` set ?bs)"
    using contains_all_rows [OF assms(1,2)] assms(3) by (simp add: subsetBranch_def)
  have o: "rows_of v (OriginalFilter b) = \<Inter> (rows_of v ` set ?bs)"
    using assms(3) by (cases "OriginalFilter b") (auto simp: subsetBranch_def)
  note p = prune_rows [OF assms(1) refl assms(2), of ?bs]
  then show "list_all grouped (remainingChildren e b)"
    using pruned_children_rows(1) by (auto simp: remainingChildren_def)
  have "\<Inter> (rows_of v ` set (remainingChildren e b)) = left_rows v ?p"
    using pruned_children_rows(2) p by (simp add: remainingChildren_def)
  then show "rows_of v e = rows_of v (OriginalFilter b) \<inter> \<Inter> (rows_of v ` set (remainingChildren e b))"
    using p o all by auto
qed

subsection \<open>The whole rewriting\<close>

lemma find_mem: "find p xs = Some x \<Longrightarrow> x \<in> set xs \<and> p x"
  by (auto simp: find_Some_iff)

lemma Apply_rows:
  assumes v: "match_sound v" and r: "translated v r"
  shows "grouped e \<Longrightarrow> grouped (Apply r e) \<and> rows_of v (Apply r e) = rows_of v e"
proof (induction "weight e" arbitrary: e rule: less_induct)
  case less
  obtain op f c cs where e: "e = Filter op f c cs" by (cases e)
  have leaf_rows: "v (Fragment e) = set (rownums (leafCandidateSet l))"
    if "find (\<lambda>leaf. filterDomainFragmentMatches (Fragment e) (OriginalFragment leaf)) (Leaves r) = Some l" for l
    using find_mem [OF that] v r by (auto simp: match_sound_def translated_def)
  show ?case
  proof (cases "find (\<lambda>branch. filterDomainExpressionMatches e (OriginalFilter branch)) (Branches r)")
    case (Some b)
    then have "rows_of v e = set (rownums (branchCandidateSet b))"
      using find_mem [OF Some] matches_rows [OF v] r by (auto simp: translated_def)
    then show ?thesis using Some by (simp add: Apply.simps [of r e])
  next
    case none: None
    consider (subset) b where "op = QuantaFilterIntersect" "find (subsetBranch e) (Branches r) = Some b"
      | (leaf) "op = QuantaFilterLeaf" | (candidates) "op = QuantaFilterCandidateSet"
      | (group) "op = QuantaFilterIntersect \<or> op = QuantaFilterUnion" "op \<noteq> QuantaFilterIntersect \<or> find (subsetBranch e) (Branches r) = None"
      using less.prems e by (cases "find (subsetBranch e) (Branches r)") auto
    then show ?thesis
    proof cases
      case subset
      note b = find_mem [OF subset(2)]
      have IH: "grouped (Apply r x) \<and> rows_of v (Apply r x) = rows_of v x" if "x \<in> set (remainingChildren e b)" for x
        using less.hyps [of x] remainingChildren_weight [of e x b] subset_rows(2) [OF v less.prems] b that subset(1) e
        by (auto simp: list_all_iff)
      have "Apply r e = Filter op f c (candidateLeaf (branchCandidateSet b) (branchTargetDomain b) # map (Apply r) (remainingChildren e b))"
        unfolding Apply.simps [of r e] using none subset e by (simp add: applyIntersectBranchSubset_def)
      moreover have "set (rownums (branchCandidateSet b)) = rows_of v (OriginalFilter b)" using r b by (simp add: translated_def)
      ultimately show ?thesis using subset(1) IH subset_rows(1) [OF v less.prems conjunct2 [OF b]]
        by (auto simp: list_all_iff)
    next
      case leaf
      then show ?thesis unfolding Apply.simps [of r e] using none e leaf_rows
        by (cases "find (\<lambda>leaf. filterDomainFragmentMatches (Fragment e) (OriginalFragment leaf)) (Leaves r)")
          (simp_all add: Leaf_def)
    next
      case candidates
      then have "Apply r e = e \<or> (\<exists>cs'. Apply r e = Filter QuantaFilterCandidateSet f c cs')"
        unfolding Apply.simps [of r e] using none e by (simp add: Leaf_def filterDomainFactorCommonUnionConjuncts_def)
      then show ?thesis using candidates e by auto
    next
      case group
      then have cs: "cs \<noteq> []" "list_all grouped cs" using less.prems e by auto
      have IH: "grouped (Apply r x)" "rows_of v (Apply r x) = rows_of v x" if "x \<in> set cs" for x
        using less.hyps [of x] weight_Children [of x e] that e cs(2) by (auto simp: list_all_iff)
      let ?e = "Filter op f c (map (Apply r) cs)"
      have "grouped ?e" "rows_of v ?e = rows_of v e" using group(1) cs(1) IH e by (auto simp: list_all_iff)
      moreover have "Apply r e = filterDomainFactorCommonUnionConjuncts ?e"
        unfolding Apply.simps [of r e] using none group e cs(1) by (auto simp: Leaf_def applyIntersectBranchSubset_def)
      ultimately show ?thesis using factor_rows [OF v] by simp
    qed
  qed
qed

section \<open>Property\<close>

text \<open>The fragments a filter still evaluates.\<close>

fun fragments :: "QuantaFilterExpression \<Rightarrow> QuantaQueryFragment list" where
  "fragments (Filter op f c cs) =
     (if op = QuantaFilterLeaf then [f]
      else if op = QuantaFilterCandidateSet then []
      else concat (map fragments cs))"

lemma rows_of_agree: "list_all (\<lambda>f. u f = v f) (fragments e) \<Longrightarrow> rows_of u e = rows_of v e"
proof (induction e rule: fragments.induct)
  case (1 op f c cs)
  show ?case
  proof (cases "op = QuantaFilterLeaf \<or> op = QuantaFilterCandidateSet")
    case False
    then have "rows_of u x = rows_of v x" if "x \<in> set cs" for x
      using 1 that by (auto simp: list_all_iff)
    then show ?thesis using False by simp
  qed (use 1(2) in auto)
qed

text \<open>C13: Evaluating a filter gives exactly its rows, however the evaluator orders, flattens and cuts off
  intersections and whichever way it intersects; and when parts of the filter have been translated
  into the rows of another table, the rewritten filter, with translated branches, leaves and subsets
  of conjuncts replaced and common conjuncts factored out of unions, evaluates to the rows the
  original filter means there.\<close>

theorem filter_rewriting_exact:
  assumes "serves e u" "match_sound v" "translated v r" "grouped expr"
    and "list_all (\<lambda>f. u f = v f) (fragments (Apply r expr))"
  shows "answers (rows_of u expr) (EvaluateFilter e expr w) \<and> answers (rows_of v expr) (EvaluateFilter e (Apply r expr) w)"
  using EvaluateFilter_rows [OF assms(1,4), of w] EvaluateFilter_rows [OF assms(1), of "Apply r expr" w]
    Apply_rows [OF assms(2,3,4)] rows_of_agree [OF assms(5)] by simp

definition demo_fragment :: "string \<Rightarrow> QuantaQueryFragment" where
  "demo_fragment field = no_fragment\<lparr>fragField := field\<rparr>"

definition demo_leaf :: "string \<Rightarrow> QuantaFilterExpression" where
  "demo_leaf field = Filter QuantaFilterLeaf (demo_fragment field) no_candidates []"

definition demo_group :: "string \<Rightarrow> QuantaFilterExpression list \<Rightarrow> QuantaFilterExpression" where
  "demo_group op cs = Filter op no_fragment no_candidates cs"

definition demo_rows :: "u64 list \<Rightarrow> QuantaCandidateSet" where
  "demo_rows rs = no_candidates\<lparr>Rownums := Some rs\<rparr>"

text \<open>The rows of \<open>a\<close> in its own table and in the target; \<open>b\<close> and \<open>c\<close> are fields of the target.\<close>

definition demo_list :: "u64 list \<Rightarrow> QuantaQueryFragment \<Rightarrow> u64 list" where
  "demo_list a f =
     (if fragField f = ''a'' then a else if fragField f = ''b'' then [2, 5] else if fragField f = ''c'' then [3, 4] else [])"

definition demo_evaluator :: "unit QuantaFilterTreeEvaluator" where
  "demo_evaluator =
     \<lparr>ctxErr = (\<lambda>w. (None, w)),
      evaluatorLeaves = Some
        \<lparr>EvaluateFilterLeaf = (\<lambda>f w. ((demo_rows (demo_list [100, 101] f), [], None), w)),
         EvaluateFilterLeafWithinCandidateSet = Some (\<lambda>f cur w.
           ((demo_rows (filter (\<lambda>r. r \<in> set (rownums cur)) (demo_list [100, 101] f)), [], None), w))\<rparr>\<rparr>"

definition demo_rewrite :: FilterDomainRewriteResult where
  "demo_rewrite = \<lparr>TargetDomain = ''orders'', Branches = [],
     Leaves = [\<lparr>OriginalFragment = demo_fragment ''a'', leafTargetDomain = ''orders'', leafCandidateSet = demo_rows [1, 2, 3]\<rparr>]\<rparr>"

definition demo_filter :: QuantaFilterExpression where
  "demo_filter = demo_group QuantaFilterUnion
     [demo_group QuantaFilterIntersect [demo_leaf ''a'', demo_leaf ''b''],
      demo_group QuantaFilterIntersect [demo_leaf ''a'', demo_leaf ''c'']]"

lemma demo_serves: "serves demo_evaluator (\<lambda>f. set (demo_list [100, 101] f))"
  by (auto simp: serves_def demo_evaluator_def demo_rows_def rownums_def)

lemma demo_sound: "match_sound (\<lambda>f. set (demo_list [1, 2, 3] f))"
  by (auto simp: match_sound_def filterDomainFragmentMatches_def demo_list_def)

lemma demo_translated: "translated (\<lambda>f. set (demo_list [1, 2, 3] f)) demo_rewrite"
  by (simp add: translated_def demo_rewrite_def demo_rows_def rownums_def demo_list_def demo_fragment_def)

lemma demo_grouped: "grouped demo_filter"
  by (simp add: demo_filter_def demo_group_def demo_leaf_def)

lemma demo_agrees:
  "list_all (\<lambda>f. set (demo_list [100, 101] f) = set (demo_list [1, 2, 3] f)) (fragments (Apply demo_rewrite demo_filter))"
  by code_simp

lemma demo_means: "rows_of (\<lambda>f. set (demo_list [1, 2, 3] f)) demo_filter = {2, 3}"
  by (simp add: demo_filter_def demo_group_def demo_leaf_def demo_list_def demo_fragment_def filter_ops) auto

text \<open>Witness: \<open>(a AND b) OR (a AND c)\<close>, with \<open>a\<close> translated to the rows 1, 2 and 3 of the target, is
  rewritten to \<open>a AND (b OR c)\<close> and evaluates to the rows 2 and 3.\<close>

theorem filter_rewriting_exact_witness:
  "Operation (Apply demo_rewrite demo_filter) = QuantaFilterIntersect \<and>
   answers {2, 3} (EvaluateFilter demo_evaluator (Apply demo_rewrite demo_filter) ())"
proof -
  have "Operation (Apply demo_rewrite demo_filter) = QuantaFilterIntersect" by code_simp
  then show ?thesis
    using filter_rewriting_exact [OF demo_serves demo_sound demo_translated demo_grouped demo_agrees, of "()"]
    unfolding demo_means by blast
qed

end
