(* ===== verification/Sharded_Cache.thy ===== *)
theory Sharded_Cache
  imports QS_Prelude "HOL-Library.AList" "HOL-Library.List_Lexorder" "HOL-Library.Char_ord" "HOL-Library.Multiset"
begin

text \<open>
  The metadata cache of the SQL front end (\<^verbatim>\<open>qsbridge/sharded_cache.go\<close>): 256 shards, each a map from
  keys to elements of a list in the order of use. The elements are references: a shard has the
  values of its elements apart from the order of the list, as the code has them on the heap. The
  locks make every operation on a shard atomic; operations follow one another here. The cache is
  shown to return what plain lists in the order of use return, and to keep its limit. The hit ratio
  and the operations on a nil cache, which do nothing, are left out.
\<close>

unbundle bit_operations_syntax

section \<open>Shards\<close>

record 'v shardedValueCacheItem =
  itemKey :: string
  itemValue :: 'v

text \<open>A Go map is an association list without a repeated key. \<open>elements\<close> is \<^verbatim>\<open>element.Value\<close>,
  \<open>fresh_element\<close> the next reference to allocate.\<close>

record 'v shardedValueCacheShard =
  entries :: "(string \<times> nat) list"
  order :: "nat list"
  elements :: "(nat \<times> 'v shardedValueCacheItem) list"
  fresh_element :: nat
  maxEntries :: int
  hits :: u64
  misses :: u64
  evictions :: u64

type_synonym 'v shardedValueCache = "'v shardedValueCacheShard list"

definition shardedValueCacheShardCount :: nat where
  "shardedValueCacheShardCount = 256"

text \<open>\<^verbatim>\<open>list.MoveToFront\<close> and \<^verbatim>\<open>list.Remove\<close> of an element of the list.\<close>

definition MoveToFront :: "nat \<Rightarrow> nat list \<Rightarrow> nat list" where
  "MoveToFront e es = (if e \<in> set es then e # remove1 e es else es)"

definition fnv32aString :: "string \<Rightarrow> u32" where
  "fnv32aString s = foldl (\<lambda>hash c. (hash XOR of_char c) * 16777619) 2166136261 s"

definition shard_index :: "string \<Rightarrow> nat" where
  "shard_index key = unat (fnv32aString key) mod shardedValueCacheShardCount"

text \<open>The loop of \<^verbatim>\<open>evictOverflow\<close>; it ends because every round removes an
  element from the list, or finds the list empty. An element of the list always has a value.\<close>

function evictOverflow :: "'v shardedValueCacheShard \<Rightarrow> 'v shardedValueCacheShard" where
  "evictOverflow s =
     (if maxEntries s \<ge> 0 \<and> int (length (entries s)) > maxEntries s then
        (if order s = [] then s
         else
           (let back = last (order s) in
            case map_of (elements s) back of
              None \<Rightarrow> s
            | Some item \<Rightarrow>
                evictOverflow (s\<lparr>entries := AList.delete (itemKey item) (entries s),
                  order := remove1 back (order s), evictions := evictions s + 1\<rparr>)))
      else s)"
  by pat_completeness auto
termination
  by (relation "measure (\<lambda>s. length (order s))") (auto simp: length_remove1 neq_Nil_conv)

declare evictOverflow.simps [simp del]

definition deleteLocked :: "string \<Rightarrow> 'v shardedValueCacheShard \<Rightarrow> 'v shardedValueCacheShard" where
  "deleteLocked key s =
     (case map_of (entries s) key of
        None \<Rightarrow> s
      | Some element \<Rightarrow> s\<lparr>entries := AList.delete key (entries s), order := remove1 element (order s)\<rparr>)"

definition getLocked :: "string \<Rightarrow> 'v shardedValueCacheShard \<Rightarrow> 'v option \<times> 'v shardedValueCacheShard" where
  "getLocked key s =
     (case map_of (entries s) key of
        None \<Rightarrow> (None, s\<lparr>misses := misses s + 1\<rparr>)
      | Some element \<Rightarrow>
          (map_option itemValue (map_of (elements s) element),
           s\<lparr>hits := hits s + 1, order := MoveToFront element (order s)\<rparr>))"

definition setLocked :: "string \<Rightarrow> 'v \<Rightarrow> 'v shardedValueCacheShard \<Rightarrow> 'v shardedValueCacheShard" where
  "setLocked key v s =
     (case map_of (entries s) key of
        Some element \<Rightarrow>
          s\<lparr>elements := AList.update element \<lparr>itemKey = key, itemValue = v\<rparr> (elements s),
            order := MoveToFront element (order s)\<rparr>
      | None \<Rightarrow>
          if maxEntries s = 0 then s
          else
            (let element = fresh_element s in
             evictOverflow (s\<lparr>elements := AList.update element \<lparr>itemKey = key, itemValue = v\<rparr> (elements s),
               fresh_element := element + 1, order := element # order s,
               entries := AList.update key element (entries s)\<rparr>)))"

section \<open>The cache\<close>

definition on_shard :: "string \<Rightarrow> ('v shardedValueCacheShard \<Rightarrow> 'v shardedValueCacheShard) \<Rightarrow> 'v shardedValueCache \<Rightarrow> 'v shardedValueCache" where
  "on_shard key f c = c[shard_index key := f (c ! shard_index key)]"

definition Get :: "'v shardedValueCache \<Rightarrow> string \<Rightarrow> 'v option \<times> 'v shardedValueCache" where
  "Get c key = (fst (getLocked key (c ! shard_index key)), on_shard key (\<lambda>s. snd (getLocked key s)) c)"

definition Set :: "'v shardedValueCache \<Rightarrow> string \<Rightarrow> 'v \<Rightarrow> 'v shardedValueCache" where
  "Set c key v = on_shard key (setLocked key v) c"

definition Delete :: "'v shardedValueCache \<Rightarrow> string \<Rightarrow> 'v shardedValueCache" where
  "Delete c key = on_shard key (deleteLocked key) c"

definition Clear :: "'v shardedValueCache \<Rightarrow> 'v shardedValueCache" where
  "Clear c = map (\<lambda>s. s\<lparr>entries := [], order := []\<rparr>) c"

definition shardedValueCacheLimits :: "int \<Rightarrow> nat \<Rightarrow> int list" where
  "shardedValueCacheLimits n shardCount =
     (if n \<le> 0 then replicate shardCount (- 1)
      else
        (let base = n div int shardCount; remainder = n mod int shardCount
         in map (\<lambda>i. if int i < remainder then base + 1 else base) [0..<shardCount]))"

definition SetMaxEntries :: "'v shardedValueCache \<Rightarrow> int \<Rightarrow> 'v shardedValueCache" where
  "SetMaxEntries c n =
     map (\<lambda>(s, limit). evictOverflow (s\<lparr>maxEntries := limit\<rparr>)) (zip c (shardedValueCacheLimits n (length c)))"

definition new_shard :: "'v shardedValueCacheShard" where
  "new_shard = \<lparr>entries = [], order = [], elements = [], fresh_element = 0, maxEntries = 0, hits = 0, misses = 0, evictions = 0\<rparr>"

definition newShardedValueCacheWithMaxEntries :: "int \<Rightarrow> 'v shardedValueCache" where
  "newShardedValueCacheWithMaxEntries n = SetMaxEntries (replicate shardedValueCacheShardCount new_shard) n"

definition newShardedValueCache :: "'v shardedValueCache" where
  "newShardedValueCache = newShardedValueCacheWithMaxEntries 0"

record shardedValueCacheStats =
  Entries_count :: int
  MaxEntries :: int
  Hits :: u64
  Misses :: u64
  Evictions :: u64

definition Stats :: "'v shardedValueCache \<Rightarrow> shardedValueCacheStats" where
  "Stats c =
     \<lparr>Entries_count = (\<Sum>s \<leftarrow> c. int (length (entries s))),
      MaxEntries = (if list_ex (\<lambda>s. maxEntries s < 0) c then - 1 else (\<Sum>s \<leftarrow> c. maxEntries s)),
      Hits = (\<Sum>s \<leftarrow> c. hits s), Misses = (\<Sum>s \<leftarrow> c. misses s), Evictions = (\<Sum>s \<leftarrow> c. evictions s)\<rparr>"

text \<open>The keys of a cache are distinct, so that the order of the sort is determined.\<close>

definition Entries :: "'v shardedValueCache \<Rightarrow> (string \<times> 'v option) list" where
  "Entries c =
     sort_key fst (concat (map (\<lambda>s. map (\<lambda>(key, element). (key, map_option itemValue (map_of (elements s) element))) (entries s)) c))"

section \<open>The specification\<close>

text \<open>
  What a shard promises: the pairs of key and value from the most to the least recently used, a
  limit (negative for none) and the counters. There are no references and no separate map.
\<close>

record 'v lru =
  recent :: "(string \<times> 'v) list"
  limit :: int
  found :: u64
  missed :: u64
  dropped :: u64

definition trim :: "'v lru \<Rightarrow> 'v lru" where
  "trim l =
     (if limit l < 0 then l
      else l\<lparr>recent := take (nat (limit l)) (recent l),
        dropped := dropped l + of_nat (length (recent l) - nat (limit l))\<rparr>)"

definition lru_get :: "string \<Rightarrow> 'v lru \<Rightarrow> 'v option \<times> 'v lru" where
  "lru_get key l =
     (case map_of (recent l) key of
        None \<Rightarrow> (None, l\<lparr>missed := missed l + 1\<rparr>)
      | Some v \<Rightarrow> (Some v, l\<lparr>found := found l + 1, recent := (key, v) # AList.delete key (recent l)\<rparr>))"

definition lru_set :: "string \<Rightarrow> 'v \<Rightarrow> 'v lru \<Rightarrow> 'v lru" where
  "lru_set key v l =
     (if map_of (recent l) key \<noteq> None then l\<lparr>recent := (key, v) # AList.delete key (recent l)\<rparr>
      else if limit l = 0 then l
      else trim (l\<lparr>recent := (key, v) # recent l\<rparr>))"

definition lru_delete :: "string \<Rightarrow> 'v lru \<Rightarrow> 'v lru" where
  "lru_delete key l = l\<lparr>recent := AList.delete key (recent l)\<rparr>"

section \<open>A shard refines its specification\<close>

abbreviation item_of :: "'v shardedValueCacheShard \<Rightarrow> nat \<Rightarrow> 'v shardedValueCacheItem" where
  "item_of s e \<equiv> the (map_of (elements s) e)"

abbreviation key_of :: "'v shardedValueCacheShard \<Rightarrow> nat \<Rightarrow> string" where
  "key_of s e \<equiv> itemKey (item_of s e)"

text \<open>The map of a shard has the elements of its list, each under the key of its item.\<close>

definition shard_ok :: "'v shardedValueCacheShard \<Rightarrow> bool" where
  "shard_ok s \<longleftrightarrow>
     distinct (order s) \<and> distinct (map fst (entries s)) \<and>
     set (entries s) = (\<lambda>e. (key_of s e, e)) ` set (order s) \<and>
     (\<forall>e \<in> set (order s). e < fresh_element s \<and> map_of (elements s) e \<noteq> None)"

definition lru_of :: "'v shardedValueCacheShard \<Rightarrow> 'v lru" where
  "lru_of s =
     \<lparr>recent = map (\<lambda>e. (key_of s e, itemValue (item_of s e))) (order s), limit = maxEntries s,
      found = hits s, missed = misses s, dropped = evictions s\<rparr>"

lemma lru_of_simps [simp]:
  "recent (lru_of s) = map (\<lambda>e. (key_of s e, itemValue (item_of s e))) (order s)"
  "limit (lru_of s) = maxEntries s" "found (lru_of s) = hits s" "missed (lru_of s) = misses s"
  "dropped (lru_of s) = evictions s"
  by (simp_all add: lru_of_def)

lemma lru_eqI:
  "recent (l :: 'v lru) = recent m \<Longrightarrow> limit l = limit m \<Longrightarrow> found l = found m \<Longrightarrow> missed l = missed m \<Longrightarrow>
   dropped l = dropped m \<Longrightarrow> l = m"
  by simp

lemma shard_okD:
  assumes "shard_ok s"
  shows "distinct (order s)" "distinct (map fst (entries s))"
    "set (entries s) = (\<lambda>e. (key_of s e, e)) ` set (order s)"
    "e \<in> set (order s) \<Longrightarrow> e < fresh_element s"
    "e \<in> set (order s) \<Longrightarrow> \<exists>item. map_of (elements s) e = Some item"
  using assms by (auto simp: shard_ok_def)

lemma entries_lookup:
  assumes "shard_ok s"
  shows "map_of (entries s) key = Some e \<longleftrightarrow> e \<in> set (order s) \<and> key_of s e = key"
proof -
  have "map_of (entries s) key = Some e \<longleftrightarrow> (key, e) \<in> set (entries s)"
    using shard_okD(2) [OF assms] by (rule map_of_eq_Some_iff)
  then show ?thesis unfolding shard_okD(3) [OF assms] by auto
qed

lemma entries_miss:
  assumes "shard_ok s"
  shows "map_of (entries s) key = None \<longleftrightarrow> (\<forall>e \<in> set (order s). key_of s e \<noteq> key)"
  using entries_lookup [OF assms, of key] by (metis not_Some_eq)

lemma key_of_inj: "inj_on (key_of s) (set (order s))" if "shard_ok s"
proof (rule inj_onI)
  fix d e
  assume de: "d \<in> set (order s)" "e \<in> set (order s)" "key_of s d = key_of s e"
  have "map_of (entries s) (key_of s e) = Some d" using de by (simp add: entries_lookup [OF that])
  moreover have "map_of (entries s) (key_of s e) = Some e" using de by (simp add: entries_lookup [OF that])
  ultimately show "d = e" by simp
qed

lemma entries_length: "length (entries s) = length (order s)" if "shard_ok s"
proof -
  have "inj_on (\<lambda>e. (key_of s e, e)) (set (order s))" by (rule inj_onI) simp
  then have "card (set (entries s)) = card (set (order s))"
    unfolding shard_okD(3) [OF that] by (rule card_image)
  then show ?thesis
    using distinct_card [OF shard_okD(1) [OF that]] distinct_card [of "entries s"] shard_okD(2) [OF that]
    by (simp add: distinct_map)
qed

lemma recent_distinct: "distinct (map fst (recent (lru_of s)))" if "shard_ok s"
  using shard_okD(1) [OF that] key_of_inj [OF that] by (simp add: distinct_map comp_def)

lemma recent_lookup:
  assumes "shard_ok s"
  shows "map_of (recent (lru_of s)) key = map_option (\<lambda>e. itemValue (item_of s e)) (map_of (entries s) key)"
proof (cases "map_of (entries s) key")
  case None
  then have "map_of (recent (lru_of s)) key = None"
    using entries_miss [OF assms, of key] by (auto simp: map_of_eq_None_iff)
  then show ?thesis using None by simp
next
  case (Some e)
  then have "e \<in> set (order s)" "key_of s e = key" using entries_lookup [OF assms] by simp_all
  then have "(key, itemValue (item_of s e)) \<in> set (recent (lru_of s))" by force
  then show ?thesis using Some map_of_is_SomeI [OF recent_distinct [OF assms]] by simp
qed

lemma recent_remove:
  assumes "shard_ok s" "map_of (entries s) key = Some e"
  shows "map (\<lambda>e. (key_of s e, itemValue (item_of s e))) (remove1 e (order s)) = AList.delete key (recent (lru_of s))"
proof -
  have e: "e \<in> set (order s)" "key_of s e = key" using entries_lookup [OF assms(1)] assms(2) by simp_all
  have "filter (\<lambda>d. d \<noteq> e) (order s) = filter (\<lambda>d. key_of s d \<noteq> key) (order s)"
    by (rule filter_cong) (use e key_of_inj [OF assms(1)] in \<open>auto dest: inj_onD\<close>)
  moreover have "remove1 e (order s) = filter (\<lambda>d. d \<noteq> e) (order s)"
    using shard_okD(1) [OF assms(1)] by (simp add: distinct_remove1_removeAll removeAll_filter_not_eq eq_commute)
  ultimately show ?thesis
    by (simp add: AList.delete_eq filter_map comp_def case_prod_beta eq_commute)
qed

text \<open>Removing a key with its element.\<close>

lemma remove_ok:
  assumes "shard_ok s" "map_of (entries s) key = Some e"
  shows "shard_ok (s\<lparr>entries := AList.delete key (entries s), order := remove1 e (order s), evictions := n\<rparr>)"
proof -
  note ok = shard_okD [OF assms(1)]
  have e: "e \<in> set (order s)" "key_of s e = key" using entries_lookup [OF assms(1)] assms(2) by simp_all
  have "set (AList.delete key (entries s)) = (\<lambda>d. (key_of s d, d)) ` (set (order s) - {e})"
    using e key_of_inj [OF assms(1)] unfolding AList.delete_eq set_filter ok(3) by (auto dest: inj_onD)
  then show ?thesis
    using ok(1,2,4,5) by (auto simp: shard_ok_def distinct_delete set_remove1_eq)
qed

lemma front_ok:
  assumes "shard_ok s" "map_of (entries s) key = Some e"
  shows "shard_ok (s\<lparr>order := MoveToFront e (order s)\<rparr>)"
  using assms entries_lookup [OF assms(1), of key e] shard_okD(1) [OF assms(1)]
  by (auto simp: shard_ok_def MoveToFront_def set_remove1_eq insert_absorb)

text \<open>Eviction keeps the most recently used pairs, and ends with the shard within its limit.\<close>

lemma trim_within: "limit l < 0 \<or> int (length (recent l)) \<le> limit l \<Longrightarrow> trim l = l"
  by (auto simp: trim_def)

lemma trim_last:
  assumes "0 \<le> limit l" "limit l < int (length (recent l))"
  shows "trim (l\<lparr>recent := butlast (recent l), dropped := dropped l + 1\<rparr>) = trim l"
proof -
  have n: "nat (limit l) < length (recent l)" using assms by linarith
  then have "length (recent l) - nat (limit l) = Suc (length (recent l) - 1 - nat (limit l))" by linarith
  then have "dropped l + 1 + of_nat (length (recent l) - 1 - nat (limit l)) =
      dropped l + of_nat (length (recent l) - nat (limit l))"
    by simp
  then show ?thesis using assms(1) n by (simp add: trim_def take_butlast)
qed

lemma evictOverflow_refines:
  assumes "shard_ok s"
  shows "shard_ok (evictOverflow s) \<and> lru_of (evictOverflow s) = trim (lru_of s)"
  using assms
proof (induction s rule: evictOverflow.induct)
  case (1 s)
  note len = entries_length [OF 1(2)]
  show ?case
  proof (cases "maxEntries s \<ge> 0 \<and> int (length (entries s)) > maxEntries s")
    case False
    then have "evictOverflow s = s" by (subst evictOverflow.simps) auto
    moreover have "trim (lru_of s) = lru_of s" using False len by (intro trim_within) auto
    ultimately show ?thesis using 1(2) by simp
  next
    case True
    then have ne: "order s \<noteq> []" using len by auto
    let ?b = "last (order s)"
    obtain item where item: "map_of (elements s) ?b = Some item"
      using shard_okD(5) [OF 1(2) last_in_set [OF ne]] by blast
    have hit: "map_of (entries s) (itemKey item) = Some ?b"
      using item ne by (simp add: entries_lookup [OF 1(2)])
    let ?s = "s\<lparr>entries := AList.delete (itemKey item) (entries s), order := remove1 ?b (order s),
      evictions := evictions s + 1\<rparr>"
    have step: "evictOverflow s = evictOverflow ?s"
      using True ne item by (subst evictOverflow.simps) simp
    have IH: "shard_ok (evictOverflow ?s) \<and> lru_of (evictOverflow ?s) = trim (lru_of ?s)"
      using 1(1) [OF True ne refl item] remove_ok [OF 1(2) hit] by blast
    have "remove1 ?b (order s) = butlast (order s)"
      using ne shard_okD(1) [OF 1(2)] by (cases "order s" rule: rev_cases) (auto simp: remove1_append)
    then have "lru_of ?s = (lru_of s)\<lparr>recent := butlast (recent (lru_of s)), dropped := dropped (lru_of s) + 1\<rparr>"
      by (simp add: lru_of_def map_butlast)
    then have "trim (lru_of ?s) = trim (lru_of s)" using trim_last [of "lru_of s"] True len by simp
    then show ?thesis using IH step by simp
  qed
qed

lemma deleteLocked_refines:
  assumes "shard_ok s"
  shows "shard_ok (deleteLocked key s) \<and> lru_of (deleteLocked key s) = lru_delete key (lru_of s)"
proof (cases "map_of (entries s) key")
  case None
  then have "map_of (recent (lru_of s)) key = None" by (simp add: recent_lookup [OF assms] del: lru_of_simps)
  then have "AList.delete key (recent (lru_of s)) = recent (lru_of s)"
    by (intro AList.delete_id) (simp add: map_of_eq_None_iff)
  then show ?thesis using None assms by (simp add: deleteLocked_def lru_delete_def lru_of_def)
next
  case (Some e)
  have "shard_ok (deleteLocked key s)"
    using remove_ok [OF assms Some, of "evictions s"] Some by (simp add: deleteLocked_def)
  then show ?thesis
    using Some recent_remove [OF assms Some] by (simp add: deleteLocked_def lru_delete_def lru_of_def)
qed

lemma getLocked_refines:
  assumes "shard_ok s"
  shows "shard_ok (snd (getLocked key s)) \<and>
    map_prod id lru_of (getLocked key s) = lru_get key (lru_of s)"
proof (cases "map_of (entries s) key")
  case None
  then have "map_of (recent (lru_of s)) key = None" by (simp add: recent_lookup [OF assms] del: lru_of_simps)
  then show ?thesis using None assms by (simp add: getLocked_def lru_get_def lru_of_def shard_ok_def)
next
  case (Some e)
  then have e: "e \<in> set (order s)" "key_of s e = key" using entries_lookup [OF assms] by simp_all
  obtain item where item: "map_of (elements s) e = Some item" using shard_okD(5) [OF assms e(1)] by blast
  have "map_of (recent (lru_of s)) key = Some (itemValue item)"
    using Some item by (simp add: recent_lookup [OF assms] del: lru_of_simps)
  moreover have "shard_ok (snd (getLocked key s))"
    using front_ok [OF assms Some] Some by (simp add: getLocked_def shard_ok_def)
  ultimately show ?thesis
    using Some item e recent_remove [OF assms Some]
    by (simp add: getLocked_def lru_get_def lru_of_def MoveToFront_def)
qed

lemma update_new: "map_of al k = None \<Longrightarrow> AList.update k v al = al @ [(k, v)]"
  by (induction al) (auto split: if_splits)

abbreviation pushed :: "string \<Rightarrow> 'v \<Rightarrow> 'v shardedValueCacheShard \<Rightarrow> 'v shardedValueCacheShard" where
  "pushed key v s \<equiv>
     s\<lparr>elements := AList.update (fresh_element s) \<lparr>itemKey = key, itemValue = v\<rparr> (elements s),
       fresh_element := fresh_element s + 1, order := fresh_element s # order s,
       entries := AList.update key (fresh_element s) (entries s)\<rparr>"

lemma pushed_refines:
  assumes "shard_ok s" "map_of (entries s) key = None"
  shows "shard_ok (pushed key v s)"
    and "lru_of (pushed key v s) = (lru_of s)\<lparr>recent := (key, v) # recent (lru_of s)\<rparr>"
proof -
  let ?s = "pushed key v s"
  note ok = shard_okD [OF assms(1)]
  have old: "map_of (elements ?s) e = map_of (elements s) e" if "e \<in> set (order s)" for e
    using ok(4) [OF that] by (simp add: update_conv')
  have new: "map_of (elements ?s) (fresh_element s) = Some \<lparr>itemKey = key, itemValue = v\<rparr>"
    by (simp add: update_conv')
  have "set (entries ?s) = insert (key, fresh_element s) ((\<lambda>e. (key_of s e, e)) ` set (order s))"
    using ok(3) assms(2) by (simp add: update_new)
  also have "\<dots> = (\<lambda>e. (key_of ?s e, e)) ` set (order ?s)"
    using old new by (auto simp: image_iff)
  finally have img: "set (entries ?s) = (\<lambda>e. (key_of ?s e, e)) ` set (order ?s)" .
  have "\<forall>e \<in> set (order ?s). e < fresh_element ?s \<and> map_of (elements ?s) e \<noteq> None"
    using ok(4,5) old new by fastforce
  moreover have "distinct (order ?s)" "distinct (map fst (entries ?s))"
    using ok(1,2,4) by (auto simp: distinct_update)
  ultimately show "shard_ok ?s" using img unfolding shard_ok_def by blast
  show "lru_of ?s = (lru_of s)\<lparr>recent := (key, v) # recent (lru_of s)\<rparr>"
    using old new by (simp add: lru_of_def)
qed

abbreviation revalued :: "string \<Rightarrow> 'v \<Rightarrow> nat \<Rightarrow> 'v shardedValueCacheShard \<Rightarrow> 'v shardedValueCacheShard" where
  "revalued key v e s \<equiv>
     s\<lparr>elements := AList.update e \<lparr>itemKey = key, itemValue = v\<rparr> (elements s), order := MoveToFront e (order s)\<rparr>"

lemma revalued_refines:
  assumes "shard_ok s" "map_of (entries s) key = Some e"
  shows "shard_ok (revalued key v e s)"
    and "lru_of (revalued key v e s) = (lru_of s)\<lparr>recent := (key, v) # AList.delete key (recent (lru_of s))\<rparr>"
proof -
  let ?s = "revalued key v e s"
  note ok = shard_okD [OF assms(1)]
  have e: "e \<in> set (order s)" "key_of s e = key" using entries_lookup [OF assms(1)] assms(2) by simp_all
  have old: "map_of (elements ?s) d = map_of (elements s) d" if "d \<noteq> e" for d
    using that by (simp add: update_conv')
  have new: "map_of (elements ?s) e = Some \<lparr>itemKey = key, itemValue = v\<rparr>" by (simp add: update_conv')
  have keys: "key_of ?s d = key_of s d" for d using e(2) old new by (cases "d = e") simp_all
  have "distinct (order ?s)" "set (order ?s) = set (order s)"
    using ok(1) e(1) by (auto simp: MoveToFront_def set_remove1_eq)
  moreover have "map_of (elements ?s) d \<noteq> None" if "d \<in> set (order s)" for d
    using old new ok(5) [OF that] by (cases "d = e") auto
  ultimately show "shard_ok ?s" using assms(1) keys by (simp add: shard_ok_def)
  have "map (\<lambda>d. (key_of ?s d, itemValue (item_of ?s d))) (remove1 e (order s)) =
      map (\<lambda>d. (key_of s d, itemValue (item_of s d))) (remove1 e (order s))"
    using old ok(1) by (intro map_cong) (auto simp: set_remove1_eq)
  then show "lru_of ?s = (lru_of s)\<lparr>recent := (key, v) # AList.delete key (recent (lru_of s))\<rparr>"
    using new e(1) recent_remove [OF assms] by (simp add: lru_of_def MoveToFront_def)
qed

lemma setLocked_refines:
  assumes "shard_ok s"
  shows "shard_ok (setLocked key v s) \<and> lru_of (setLocked key v s) = lru_set key v (lru_of s)"
proof (cases "map_of (entries s) key")
  case None
  then have miss: "map_of (recent (lru_of s)) key = None" by (simp add: recent_lookup [OF assms] del: lru_of_simps)
  have "setLocked key v s = (if maxEntries s = 0 then s else evictOverflow (pushed key v s))"
    using None by (simp add: setLocked_def Let_def)
  moreover have "shard_ok (evictOverflow (pushed key v s)) \<and>
      lru_of (evictOverflow (pushed key v s)) = trim ((lru_of s)\<lparr>recent := (key, v) # recent (lru_of s)\<rparr>)"
    using evictOverflow_refines [OF pushed_refines(1) [OF assms None]] pushed_refines(2) [OF assms None] by metis
  ultimately show ?thesis using miss assms by (simp add: lru_set_def del: lru_of_simps(1))
next
  case (Some e)
  then have hit: "map_of (recent (lru_of s)) key \<noteq> None" by (simp add: recent_lookup [OF assms] del: lru_of_simps)
  have "setLocked key v s = revalued key v e s" using Some by (simp add: setLocked_def)
  then show ?thesis
    using hit revalued_refines [OF assms Some] by (simp add: lru_set_def del: lru_of_simps)
qed

section \<open>The cache refines a list of least-recently-used lists\<close>

text \<open>One operation of the cache with what it returns, and a sequence of operations.\<close>

datatype 'v cache_op =
  GetOp string | SetOp string 'v | DeleteOp string | ClearOp | SetMaxEntriesOp int | StatsOp | EntriesOp

datatype 'v cache_result =
  Value "'v option" | Done | Counts shardedValueCacheStats | Listing "(string \<times> 'v option) list"

primrec exec :: "'v cache_op \<Rightarrow> 'v shardedValueCache \<Rightarrow> 'v cache_result \<times> 'v shardedValueCache" where
  "exec (GetOp key) c = (Value (fst (Get c key)), snd (Get c key))"
| "exec (SetOp key v) c = (Done, Set c key v)"
| "exec (DeleteOp key) c = (Done, Delete c key)"
| "exec ClearOp c = (Done, Clear c)"
| "exec (SetMaxEntriesOp n) c = (Done, SetMaxEntries c n)"
| "exec StatsOp c = (Counts (Stats c), c)"
| "exec EntriesOp c = (Listing (Entries c), c)"

primrec lru_exec :: "'v cache_op \<Rightarrow> 'v lru list \<Rightarrow> 'v cache_result \<times> 'v lru list" where
  "lru_exec (GetOp key) ls =
     (let i = shard_index key; (r, l) = lru_get key (ls ! i) in (Value r, ls[i := l]))"
| "lru_exec (SetOp key v) ls = (let i = shard_index key in (Done, ls[i := lru_set key v (ls ! i)]))"
| "lru_exec (DeleteOp key) ls = (let i = shard_index key in (Done, ls[i := lru_delete key (ls ! i)]))"
| "lru_exec ClearOp ls = (Done, map (recent_update (\<lambda>_. [])) ls)"
| "lru_exec (SetMaxEntriesOp n) ls =
     (Done, map2 (\<lambda>l m. trim (l\<lparr>limit := m\<rparr>)) ls (shardedValueCacheLimits n (length ls)))"
| "lru_exec StatsOp ls =
     (Counts
       \<lparr>Entries_count = (\<Sum>l \<leftarrow> ls. int (length (recent l))),
        MaxEntries = (if list_ex (\<lambda>l. limit l < 0) ls then - 1 else (\<Sum>l \<leftarrow> ls. limit l)),
        Hits = (\<Sum>l \<leftarrow> ls. found l), Misses = (\<Sum>l \<leftarrow> ls. missed l), Evictions = (\<Sum>l \<leftarrow> ls. dropped l)\<rparr>, ls)"
| "lru_exec EntriesOp ls =
     (Listing (map (map_prod id Some) (sort_key fst (concat (map recent ls)))), ls)"

primrec results :: "('o \<Rightarrow> 's \<Rightarrow> 'r \<times> 's) \<Rightarrow> 'o list \<Rightarrow> 's \<Rightarrow> 'r list" where
  "results f [] s = []"
| "results f (x # xs) s = fst (f x s) # results f xs (snd (f x s))"

text \<open>A step function that refines another one under an invariant returns what the other one returns.\<close>

locale refinement_mapping =
  fixes inv :: "'s \<Rightarrow> bool" and abstraction :: "'s \<Rightarrow> 't"
    and concrete :: "'o \<Rightarrow> 's \<Rightarrow> 'r \<times> 's" and abstract :: "'o \<Rightarrow> 't \<Rightarrow> 'r \<times> 't"
  assumes keeps: "inv s \<Longrightarrow> inv (snd (concrete x s))"
    and refines: "inv s \<Longrightarrow> map_prod id abstraction (concrete x s) = abstract x (abstraction s)"
begin

lemma results_eq: "inv s \<Longrightarrow> results concrete xs s = results abstract xs (abstraction s)"
proof (induction xs arbitrary: s)
  case (Cons x xs)
  have "abstract x (abstraction s) = (fst (concrete x s), abstraction (snd (concrete x s)))"
    using refines [OF Cons.prems, of x] by (metis fst_map_prod id_apply prod.collapse snd_map_prod)
  then show ?case using Cons.IH [OF keeps [OF Cons.prems]] by simp
qed simp

end

text \<open>Every shard is well formed and holds only keys that hash to it.\<close>

definition homed :: "nat \<Rightarrow> 'v lru \<Rightarrow> bool" where
  "homed i l \<longleftrightarrow> distinct (map fst (recent l)) \<and> (\<forall>(key, v) \<in> set (recent l). shard_index key = i)"

definition cache_ok :: "'v shardedValueCache \<Rightarrow> bool" where
  "cache_ok c \<longleftrightarrow> length c = shardedValueCacheShardCount \<and>
     (\<forall>i < length c. shard_ok (c ! i) \<and> homed i (lru_of (c ! i)))"

lemma shard_index_less: "shard_index key < shardedValueCacheShardCount"
  by (simp add: shard_index_def shardedValueCacheShardCount_def)

lemma homed_trim: "homed i l \<Longrightarrow> homed i (trim l)"
  by (auto simp: homed_def trim_def take_map [symmetric] dest: in_set_takeD)

lemma homed_delete: "homed i l \<Longrightarrow> homed i (lru_delete key l)"
  by (auto simp: homed_def lru_delete_def AList.delete_eq distinct_map_filter)

lemma delete_absent [simp]: "(key, v) \<notin> set (AList.delete key xs)"
  by (simp add: AList.delete_eq)

lemma homed_front:
  assumes "homed i l" "shard_index key = i" "recent m = (key, v) # AList.delete key (recent l)"
  shows "homed i m"
proof -
  have "key \<notin> fst ` set (AList.delete key (recent l))" by auto
  then show ?thesis
    using homed_delete [OF assms(1), of key] assms(2) by (simp add: homed_def lru_delete_def assms(3))
qed

lemma homed_get:
  assumes "homed i l"
  shows "homed i (snd (lru_get key l))"
proof (cases "map_of (recent l) key")
  case (Some v)
  then have "shard_index key = i" using assms map_of_SomeD [OF Some] unfolding homed_def by fast
  then show ?thesis using Some by (intro homed_front [OF assms]) (simp_all add: lru_get_def)
qed (use assms in \<open>simp add: homed_def lru_get_def\<close>)

lemma homed_set:
  assumes "homed (shard_index key) l"
  shows "homed (shard_index key) (lru_set key v l)"
proof (cases "map_of (recent l) key")
  case None
  then have "homed (shard_index key) (l\<lparr>recent := (key, v) # recent l\<rparr>)"
    using assms by (auto simp: homed_def map_of_eq_None_iff)
  then show ?thesis using None assms by (simp add: lru_set_def homed_trim)
next
  case (Some w)
  then show ?thesis by (intro homed_front [OF assms refl]) (simp add: lru_set_def)
qed

lemma on_shard_refines:
  assumes ok: "cache_ok c"
    and f: "\<And>s. shard_ok s \<Longrightarrow> shard_ok (f s) \<and> lru_of (f s) = g (lru_of s)"
    and g: "\<And>l. homed (shard_index key) l \<Longrightarrow> homed (shard_index key) (g l)"
  shows "cache_ok (on_shard key f c)"
    and "map lru_of (on_shard key f c) = (map lru_of c)[shard_index key := g (map lru_of c ! shard_index key)]"
proof -
  let ?i = "shard_index key"
  have i: "?i < length c" and s: "shard_ok (c ! ?i)" and h: "homed ?i (lru_of (c ! ?i))"
    using ok shard_index_less [of key] by (simp_all add: cache_ok_def)
  then show "cache_ok (on_shard key f c)"
    using ok f [OF s] g [OF h] by (auto simp: cache_ok_def on_shard_def nth_list_update)
  show "map lru_of (on_shard key f c) = (map lru_of c)[?i := g (map lru_of c ! ?i)]"
    using i f [OF s] by (simp add: on_shard_def map_update)
qed

lemma limits_length [simp]: "length (shardedValueCacheLimits n k) = k"
  by (simp add: shardedValueCacheLimits_def Let_def)

lemma SetMaxEntries_refines:
  assumes "cache_ok c"
  shows "cache_ok (SetMaxEntries c n)"
    and "map lru_of (SetMaxEntries c n) =
      map2 (\<lambda>l m. trim (l\<lparr>limit := m\<rparr>)) (map lru_of c) (shardedValueCacheLimits n (length c))"
proof -
  let ?m = "shardedValueCacheLimits n (length c)"
  have nth: "SetMaxEntries c n ! i = evictOverflow ((c ! i)\<lparr>maxEntries := ?m ! i\<rparr>)" if "i < length c" for i
    using that by (simp add: SetMaxEntries_def)
  have ok: "shard_ok (SetMaxEntries c n ! i) \<and>
      lru_of (SetMaxEntries c n ! i) = trim ((lru_of (c ! i))\<lparr>limit := ?m ! i\<rparr>)" if "i < length c" for i
  proof -
    have "shard_ok ((c ! i)\<lparr>maxEntries := ?m ! i\<rparr>)" using assms that by (simp add: cache_ok_def shard_ok_def)
    from evictOverflow_refines [OF this] show ?thesis unfolding nth [OF that] by (simp add: lru_of_def)
  qed
  have len: "length (SetMaxEntries c n) = length c" by (simp add: SetMaxEntries_def)
  have "homed i (trim ((lru_of (c ! i))\<lparr>limit := ?m ! i\<rparr>))" if "i < length c" for i
    using assms that by (intro homed_trim) (simp add: cache_ok_def homed_def)
  then show "cache_ok (SetMaxEntries c n)" using assms ok len by (simp add: cache_ok_def)
  show "map lru_of (SetMaxEntries c n) = map2 (\<lambda>l m. trim (l\<lparr>limit := m\<rparr>)) (map lru_of c) ?m"
    using ok len by (intro nth_equalityI) simp_all
qed

lemma Clear_refines:
  assumes "cache_ok c"
  shows "cache_ok (Clear c)" and "map lru_of (Clear c) = map (recent_update (\<lambda>_. [])) (map lru_of c)"
  using assms by (auto simp: cache_ok_def Clear_def shard_ok_def homed_def lru_of_def)

text \<open>The listing of a cache is that of its lists: a key is in one shard, once.\<close>

abbreviation shard_pairs :: "'v shardedValueCacheShard \<Rightarrow> (string \<times> 'v option) list" where
  "shard_pairs s \<equiv> map (\<lambda>(key, element). (key, map_option itemValue (map_of (elements s) element))) (entries s)"

lemma shard_pairs_mset:
  assumes "shard_ok s"
  shows "mset (shard_pairs s) = mset (map (map_prod id Some) (recent (lru_of s)))"
proof -
  note ok = shard_okD [OF assms]
  have "distinct (entries s)" using ok(2) by (simp add: distinct_map)
  moreover have "distinct (map (\<lambda>e. (key_of s e, e)) (order s))"
    using ok(1) by (auto simp: distinct_map intro: inj_onI)
  ultimately have "mset (entries s) = mset (map (\<lambda>e. (key_of s e, e)) (order s))"
    using ok(3) by (simp only: set_eq_iff_mset_eq_distinct [symmetric] set_map)
  then have "mset (shard_pairs s) =
      mset (map (\<lambda>(key, element). (key, map_option itemValue (map_of (elements s) element)))
        (map (\<lambda>e. (key_of s e, e)) (order s)))"
    by (metis mset_map)
  also have "map (\<lambda>(key, element). (key, map_option itemValue (map_of (elements s) element)))
        (map (\<lambda>e. (key_of s e, e)) (order s)) = map (map_prod id Some) (recent (lru_of s))"
    using ok(5) by (fastforce simp: comp_def)
  finally show ?thesis .
qed

lemma pairs_inj:
  assumes "cache_ok c"
  shows "inj_on fst (set (concat (map recent (map lru_of c))))"
proof (rule inj_onI)
  fix p q
  assume p: "p \<in> set (concat (map recent (map lru_of c)))" and q: "q \<in> set (concat (map recent (map lru_of c)))"
    and eq: "fst p = fst q"
  have home: "\<exists>l. l = lru_of (c ! shard_index (fst r)) \<and> distinct (map fst (recent l)) \<and> r \<in> set (recent l)"
    if r: "r \<in> set (concat (map recent (map lru_of c)))" for r
  proof -
    obtain i where i: "i < length c" "r \<in> set (recent (lru_of (c ! i)))"
      using r by (auto simp: in_set_conv_nth [of _ c] simp del: lru_of_simps)
    then have h: "homed i (lru_of (c ! i))" using assms by (simp add: cache_ok_def)
    then have "shard_index (fst r) = i" using i(2) by (auto simp: homed_def simp del: lru_of_simps)
    then show ?thesis using i h by (simp add: homed_def del: lru_of_simps)
  qed
  show "p = q" using home [OF p] home [OF q] eq by (metis eq_key_imp_eq_value prod.collapse)
qed

lemma Entries_refines:
  assumes "cache_ok c"
  shows "Entries c = map (map_prod id Some) (sort_key fst (concat (map recent (map lru_of c))))"
proof -
  let ?z = "concat (map recent (map lru_of c))"
  have "mset (concat (map shard_pairs d)) = mset (map (map_prod id Some) (concat (map recent (map lru_of d))))"
    if "\<forall>s \<in> set d. shard_ok s" for d :: "'a shardedValueCache"
    using that by (induction d) (simp_all add: shard_pairs_mset del: lru_of_simps mset_map)
  moreover have "\<forall>s \<in> set c. shard_ok s" using assms by (auto simp: cache_ok_def in_set_conv_nth)
  ultimately have m: "mset (concat (map shard_pairs c)) = mset (map (map_prod id Some) ?z)" by blast
  have "set (concat (map shard_pairs c)) = map_prod id Some ` set ?z"
    using mset_eq_setD [OF m] by (simp only: set_map)
  then have "inj_on fst (set (concat (map shard_pairs c)))"
    using pairs_inj [OF assms] by (force simp: inj_on_def simp del: lru_of_simps)
  moreover have "map fst (map (map_prod id Some) (sort_key fst ?z)) = map fst (sort_key fst ?z)"
    by (simp add: comp_def del: lru_of_simps)
  ultimately show ?thesis
    unfolding Entries_def using m by (intro sort_key_inj_key_eq) (simp_all del: lru_of_simps)
qed

lemma Stats_refines:
  assumes "cache_ok c"
  shows "lru_exec StatsOp (map lru_of c) = (Counts (Stats c), map lru_of c)"
proof -
  have "\<forall>s \<in> set c. length (entries s) = length (recent (lru_of s))"
    using assms entries_length by (fastforce simp: cache_ok_def in_set_conv_nth)
  then have "map (\<lambda>s. int (length (order s))) c = map (\<lambda>s. int (length (entries s))) c" by simp
  then show ?thesis by (simp add: Stats_def comp_def list_ex_iff del: map_eq_conv)
qed

lemma exec_refines:
  assumes "cache_ok c"
  shows "cache_ok (snd (exec x c)) \<and> map_prod id (map lru_of) (exec x c) = lru_exec x (map lru_of c)"
proof (cases x)
  case (GetOp key)
  have i: "shard_index key < length c" and s: "shard_ok (c ! shard_index key)"
    using assms shard_index_less [of key] by (simp_all add: cache_ok_def)
  have get: "lru_get key (lru_of s) = (fst (getLocked key s), lru_of (snd (getLocked key s)))" if "shard_ok s"
    for s :: "'a shardedValueCacheShard"
    using getLocked_refines [OF that, of key] by (metis fst_map_prod id_apply prod.collapse snd_map_prod)
  have "shard_ok (snd (getLocked key s)) \<and> lru_of (snd (getLocked key s)) = snd (lru_get key (lru_of s))"
    if "shard_ok s" for s :: "'a shardedValueCacheShard"
    using getLocked_refines [OF that, of key] get [OF that] by simp
  from on_shard_refines [where f = "\<lambda>s. snd (getLocked key s)" and g = "\<lambda>l. snd (lru_get key l)",
      OF assms this homed_get] show ?thesis
    using get [OF s] i by (simp add: GetOp Get_def Let_def)
next
  case (SetOp key v)
  then show ?thesis
    using on_shard_refines [where f = "setLocked key v" and g = "lru_set key v", OF assms setLocked_refines homed_set]
    by (simp add: Set_def Let_def)
next
  case (DeleteOp key)
  then show ?thesis
    using on_shard_refines [where f = "deleteLocked key" and g = "lru_delete key" and key = key,
        OF assms deleteLocked_refines homed_delete]
    by (simp add: Delete_def Let_def)
next
  case ClearOp
  then show ?thesis using Clear_refines [OF assms] by simp
next
  case (SetMaxEntriesOp n)
  then show ?thesis using SetMaxEntries_refines [OF assms] by simp
next
  case StatsOp
  then show ?thesis using Stats_refines [OF assms] assms by simp
next
  case EntriesOp
  then show ?thesis using Entries_refines [OF assms] assms by (simp del: lru_of_simps)
qed

interpretation cache: refinement_mapping cache_ok "map lru_of" exec lru_exec
proof
  fix c :: "'v shardedValueCache" and x
  assume "cache_ok c"
  from exec_refines [OF this, of x] show "cache_ok (snd (exec x c))"
    and "map_prod id (map lru_of) (exec x c) = lru_exec x (map lru_of c)" by blast+
qed

definition empty_lru :: "int \<Rightarrow> 'v lru" where
  "empty_lru n = \<lparr>recent = [], limit = n, found = 0, missed = 0, dropped = 0\<rparr>"

lemma new_cache_refines:
  "cache_ok (newShardedValueCacheWithMaxEntries n)"
  "map lru_of (newShardedValueCacheWithMaxEntries n) =
     map empty_lru (shardedValueCacheLimits n shardedValueCacheShardCount)"
proof -
  let ?c = "replicate shardedValueCacheShardCount new_shard :: 'v shardedValueCache"
  have ok: "cache_ok ?c"
    by (simp add: cache_ok_def shard_ok_def new_shard_def homed_def)
  show "cache_ok (newShardedValueCacheWithMaxEntries n :: 'v shardedValueCache)"
    unfolding newShardedValueCacheWithMaxEntries_def by (rule SetMaxEntries_refines(1) [OF ok])
  have "map lru_of (newShardedValueCacheWithMaxEntries n :: 'v shardedValueCache) =
      map2 (\<lambda>l m. trim (l\<lparr>limit := m\<rparr>)) (map lru_of ?c) (shardedValueCacheLimits n shardedValueCacheShardCount)"
    unfolding newShardedValueCacheWithMaxEntries_def using SetMaxEntries_refines(2) [OF ok] by simp
  also have "\<dots> = map empty_lru (shardedValueCacheLimits n shardedValueCacheShardCount)"
    by (rule nth_equalityI) (simp_all add: lru_of_def new_shard_def empty_lru_def trim_def)
  finally show "map lru_of (newShardedValueCacheWithMaxEntries n :: 'v shardedValueCache) =
      map empty_lru (shardedValueCacheLimits n shardedValueCacheShardCount)" .
qed

text \<open>C14: whatever sequence of lookups, insertions, deletions, clearings, changes of the limit, statistics and
  listings follows the creation of a cache, every one of them returns what 256 plain lists of pairs in the
  order of their last use return, each cut to its share of the limit after an insertion and after a change of
  the limit. So a lookup gives the last value set unless the pair was deleted or is among the least recently
  used ones beyond the limit, and the counters count exactly the hits, the misses and the pairs cut off.\<close>

theorem cache_is_lru:
  "results exec ops (newShardedValueCacheWithMaxEntries n) =
   results lru_exec ops (map empty_lru (shardedValueCacheLimits n shardedValueCacheShardCount))"
  unfolding new_cache_refines(2) [symmetric] by (rule cache.results_eq [OF new_cache_refines(1)])

section \<open>The limit of a cache\<close>

text \<open>The caches that can be reached, each with the limit last set.\<close>

inductive limited :: "int \<Rightarrow> 'v shardedValueCache \<Rightarrow> bool" where
  created: "limited n (newShardedValueCacheWithMaxEntries n)"
| operation: "limited n c \<Longrightarrow> \<forall>m. x \<noteq> SetMaxEntriesOp m \<Longrightarrow> limited n (snd (exec x c))"
| changed: "limited n c \<Longrightarrow> limited m (SetMaxEntries c m)"

definition within :: "'v lru \<Rightarrow> bool" where
  "within l \<longleftrightarrow> limit l < 0 \<or> int (length (recent l)) \<le> limit l"

lemma trim_limit [simp]: "limit (trim l) = limit l" "within (trim l)"
  by (auto simp: trim_def within_def)

lemma front_length: "map_of xs key = Some w \<Longrightarrow> length ((key, v) # AList.delete key xs) \<le> length xs"
  by (induction xs) (auto simp: AList.delete_eq le_SucI split: if_splits)

lemma lru_ops_within:
  assumes "within l"
  shows "within (snd (lru_get key l)) \<and> limit (snd (lru_get key l)) = limit l"
    and "within (lru_set key v l) \<and> limit (lru_set key v l) = limit l"
    and "within (lru_delete key l) \<and> limit (lru_delete key l) = limit l"
proof -
  show "within (snd (lru_get key l)) \<and> limit (snd (lru_get key l)) = limit l"
    using assms front_length [of "recent l" key]
    by (cases "map_of (recent l) key") (auto simp: lru_get_def within_def)
  show "within (lru_set key v l) \<and> limit (lru_set key v l) = limit l"
  proof (cases "map_of (recent l) key")
    case None
    then show ?thesis using assms by (simp add: lru_set_def)
  next
    case (Some w)
    then show ?thesis using assms front_length [OF Some] by (auto simp: lru_set_def within_def)
  qed
  show "within (lru_delete key l) \<and> limit (lru_delete key l) = limit l"
    using assms length_delete_le [of key "recent l"] by (auto simp: lru_delete_def within_def)
qed

lemma update_within:
  assumes "list_all within ls" "i < length ls" "within l" "limit l = limit (ls ! i)"
  shows "list_all within (ls[i := l]) \<and> map limit (ls[i := l]) = map limit ls"
  using assms by (auto simp: list_all_length nth_list_update map_update list_update_same_conv)

lemma lru_exec_within:
  assumes "length ls = shardedValueCacheShardCount" "list_all within ls" "\<forall>m. x \<noteq> SetMaxEntriesOp m"
  shows "list_all within (snd (lru_exec x ls)) \<and> map limit (snd (lru_exec x ls)) = map limit ls"
proof -
  have i: "shard_index key < length ls" for key using assms(1) shard_index_less by simp
  then have w: "within (ls ! shard_index key)" for key using assms(2) by (simp add: list_all_length)
  note ops = lru_ops_within [OF w]
  show ?thesis
  proof (cases x)
    case ClearOp
    then show ?thesis using assms(2) by (auto simp: list_all_length within_def)
  qed (use assms ops update_within [OF assms(2) i] in \<open>auto simp: Let_def case_prod_beta\<close>)
qed

lemma SetMaxEntries_within:
  assumes "cache_ok c"
  shows "list_all within (map lru_of (SetMaxEntries c n)) \<and>
    map limit (map lru_of (SetMaxEntries c n)) = shardedValueCacheLimits n shardedValueCacheShardCount"
proof -
  have len: "length c = shardedValueCacheShardCount" using assms by (simp add: cache_ok_def)
  show ?thesis unfolding SetMaxEntries_refines(2) [OF assms] len
    by (auto simp: list_all_length len intro!: nth_equalityI)
qed

lemma limited_ok:
  assumes "limited n c"
  shows "cache_ok c \<and> list_all within (map lru_of c) \<and>
    map limit (map lru_of c) = shardedValueCacheLimits n shardedValueCacheShardCount"
  using assms
proof induction
  case (created n)
  have "cache_ok (replicate shardedValueCacheShardCount new_shard)"
    by (simp add: cache_ok_def shard_ok_def new_shard_def homed_def)
  from SetMaxEntries_within [OF this, of n] new_cache_refines(1) [of n] show ?case
    unfolding newShardedValueCacheWithMaxEntries_def by blast
next
  case (operation n c x)
  have ok: "cache_ok c" using operation.IH by blast
  then have len: "length (map lru_of c) = shardedValueCacheShardCount" by (simp add: cache_ok_def)
  have "map lru_of (snd (exec x c)) = snd (lru_exec x (map lru_of c))"
    using cache.refines [OF ok, of x] by (metis snd_map_prod)
  then show ?case
    using cache.keeps [OF ok, of x] lru_exec_within [OF len _ operation.hyps(2)] operation.IH by metis
next
  case (changed n c m)
  then show ?case using SetMaxEntries_refines(1) SetMaxEntries_within by blast
qed

lemma limits_sum:
  assumes "0 < n" "0 < k"
  shows "sum_list (shardedValueCacheLimits n k) = n"
proof -
  define b r where "b = n div int k" and "r = n mod int k"
  have r: "0 \<le> r" "r < int k" using assms by (simp_all add: r_def)
  have "{i \<in> {0..<k}. int i < r} = {0..<nat r}" using r by auto
  then have extra: "(\<Sum>i = 0..<k. if int i < r then 1 else 0) = r" using r by (simp add: sum.If_cases Int_def)
  have "sum_list (shardedValueCacheLimits n k) = (\<Sum>i = 0..<k. b + (if int i < r then 1 else 0))"
    using assms by (simp add: shardedValueCacheLimits_def Let_def b_def r_def interv_sum_list_conv_sum_set_nat)
      (rule sum.cong, simp_all)
  also have "\<dots> = int k * b + r" using extra by (simp add: sum.distrib)
  also have "\<dots> = n" by (simp add: b_def r_def)
  finally show ?thesis .
qed

lemma limits_nth:
  "i < k \<Longrightarrow> shardedValueCacheLimits n k ! i =
     (if n \<le> 0 then - 1 else n div int k + (if int i < n mod int k then 1 else 0))"
  by (simp add: shardedValueCacheLimits_def Let_def)

lemma limits_zero:
  assumes "i < k"
  shows "shardedValueCacheLimits n k ! i = 0 \<longleftrightarrow> 0 < n \<and> n \<le> int i"
proof (cases "0 < n \<and> n < int k")
  case True
  then show ?thesis using assms by (simp add: limits_nth)
next
  case False
  then have "1 \<le> n div int k" if "0 < n" using that assms by (simp add: zdiv_mono1 [of "int k" n "int k", simplified])
  then show ?thesis using assms False by (auto simp: limits_nth)
qed

lemma trim_head: "limit l \<noteq> 0 \<Longrightarrow> recent l = p # ps \<Longrightarrow> \<exists>qs. recent (trim l) = p # qs"
  by (cases "nat (limit l)") (auto simp: trim_def)

lemma lru_get_set:
  assumes "within l"
  shows "fst (lru_get key (lru_set key v l)) = (if limit l = 0 then None else Some v)"
proof (cases "limit l = 0")
  case True
  then have "recent l = []" using assms by (simp add: within_def)
  then show ?thesis using True by (simp add: lru_get_def lru_set_def)
next
  case False
  have "\<exists>qs. recent (lru_set key v l) = (key, v) # qs"
    using False trim_head [of "l\<lparr>recent := (key, v) # recent l\<rparr>" "(key, v)" "recent l"] by (simp add: lru_set_def)
  then show ?thesis using False by (auto simp: lru_get_def)
qed

lemma Get_Set:
  assumes "cache_ok c"
  shows "fst (Get (Set c key v) key) = fst (lru_get key (lru_set key v (lru_of (c ! shard_index key))))"
proof -
  have i: "shard_index key < length c" and s: "shard_ok (c ! shard_index key)"
    using assms shard_index_less [of key] by (simp_all add: cache_ok_def)
  have "shard_ok (setLocked key v (c ! shard_index key))"
    "lru_of (setLocked key v (c ! shard_index key)) = lru_set key v (lru_of (c ! shard_index key))"
    using setLocked_refines [OF s, of key v] by simp_all
  then show ?thesis
    using i getLocked_refines [of "setLocked key v (c ! shard_index key)" key]
    by (simp add: Get_def Set_def on_shard_def) (metis fst_map_prod id_apply)
qed

text \<open>C15: in every cache that operations reach, the statistics report the limit last set (or no limit when it
  is not positive), the number of entries never exceeds a positive limit, and a value set is found by the next
  lookup of its key unless the key hashes to a shard whose share of the limit is zero: under a limit below 256
  the shards from that number on never hold anything.\<close>

theorem cache_hard_limit:
  assumes "limited n c"
  shows "MaxEntries (Stats c) = (if 0 < n then n else - 1) \<and>
    (n \<le> 0 \<or> Entries_count (Stats c) \<le> n) \<and>
    fst (Get (Set c key v) key) = (if 0 < n \<and> n \<le> int (shard_index key) then None else Some v)"
proof -
  let ?k = shardedValueCacheShardCount and ?i = "shard_index key"
  have ok: "cache_ok c" and w: "list_all within (map lru_of c)"
    and lim: "map limit (map lru_of c) = shardedValueCacheLimits n ?k"
    using limited_ok [OF assms] by blast+
  have len: "length c = ?k" and k: "0 < ?k" using ok by (simp_all add: cache_ok_def shardedValueCacheShardCount_def)
  have max: "map maxEntries c = shardedValueCacheLimits n ?k" using lim by (simp add: comp_def)
  have i: "?i < length c" using len shard_index_less [of key] by simp
  then have "limit (lru_of (c ! ?i)) = shardedValueCacheLimits n ?k ! ?i" using max by (metis lru_of_simps(2) nth_map)
  then have get: "fst (Get (Set c key v) key) = (if 0 < n \<and> n \<le> int ?i then None else Some v)"
    using i w len by (simp add: Get_Set [OF ok] lru_get_set list_all_length limits_zero)
  have neg: "(\<exists>s \<in> set c. maxEntries s < 0) \<longleftrightarrow> (\<exists>m \<in> set (shardedValueCacheLimits n ?k). m < 0)"
    unfolding max [symmetric] by simp
  have sign: "(\<exists>m \<in> set (shardedValueCacheLimits n ?k). m < 0) \<longleftrightarrow> n \<le> 0"
    using k by (auto simp: shardedValueCacheLimits_def Let_def pos_imp_zdiv_nonneg_iff not_less split: if_splits)
  have "MaxEntries (Stats c) = (if 0 < n then n else - 1)"
    using neg sign max limits_sum [of n ?k] k by (auto simp: Stats_def list_ex_iff)
  moreover have "Entries_count (Stats c) \<le> n" if "0 < n"
  proof -
    have "int (length (entries s)) \<le> maxEntries s" if s: "s \<in> set c" for s
      using s w ok neg sign \<open>0 < n\<close> entries_length [of s]
      by (fastforce simp: list_all_iff within_def cache_ok_def in_set_conv_nth)
    then have "Entries_count (Stats c) \<le> (\<Sum>s \<leftarrow> c. maxEntries s)" by (simp add: Stats_def sum_list_mono)
    then show ?thesis using max limits_sum [OF that k] by simp
  qed
  ultimately show ?thesis using get by (cases "0 < n") simp_all
qed

theorem cache_hard_limit_witness:
  "MaxEntries (Stats (Set (newShardedValueCacheWithMaxEntries 300) ''t'' (5 :: int))) = 300 \<and>
   Entries_count (Stats (Set (newShardedValueCacheWithMaxEntries 300) ''t'' (5 :: int))) \<le> 300 \<and>
   fst (Get (Set (Set (newShardedValueCacheWithMaxEntries 300) ''t'' (5 :: int)) ''u'' 6) ''u'') = Some 6"
proof -
  have "limited 300 (Set (newShardedValueCacheWithMaxEntries 300) ''t'' (5 :: int))"
    using limited.operation [OF limited.created, of "SetOp ''t'' (5 :: int)" 300] by simp
  from cache_hard_limit [OF this, of "''u''" 6] show ?thesis
    using shard_index_less [of "''u''"] by (simp add: shardedValueCacheShardCount_def)
qed

end
