(* ===== verification/Spec2Isabelle.thy ===== *)
theory Spec2Isabelle
  imports MySQL_Session WAL_Example Payload_Hash PK_Resolver SQL_Lexer Filter_Tree Sharded_Cache
begin

text \<open>
  A verification library for QuantaStream, a distributed bitmap-index database with a MySQL front
  door, a write-ahead log and a bit-sliced column store.

  \<^bold>\<open>The program.\<close> A client speaks the MySQL protocol to \<^verbatim>\<open>qsmysql\<close>, which decodes its packets,
  authenticates it and hands its commands to a handler. The handler gives SQL text to \<^verbatim>\<open>qsbridge\<close>,
  which lexes, parses, binds and plans it; plans carry filter trees that \<^verbatim>\<open>qsruntime\<close> evaluates to row
  numbers with the clients of the bitmap services in \<^verbatim>\<open>server\<close>. Rows come in through the sessions of
  \<^verbatim>\<open>core\<close>: a payload is hashed for deduplication, its timestamps are parsed, its primary key is
  resolved to a row, for which a column identifier is drawn from the server, and the operation is
  written to a local write-ahead log before the batch is flushed.

  \<^bold>\<open>Conventions.\<close> A Go function is a HOL function of the same name; a struct is a record, a closed
  enumeration a datatype, an integer of width \<open>w\<close> a word of that width or, where the code only
  counts or indexes, a natural number. A fallible function returns \<open>Inl (Err e)\<close> for the error \<open>e\<close>
  and \<open>Inl Panic\<close> where the code would panic; \<^verbatim>\<open>idx\<close> and \<^verbatim>\<open>slice\<close> are the checked accesses.
  Code that changes state takes the state and returns it. Interfaces of the program and code outside
  the repository (the YAML package, float formatting, the key backend, leaf evaluators, the writer of
  a connection) are arguments, and what is relied on of them is a named hypothesis or the
  assumptions of a locale.

  \<^bold>\<open>Prelude and standard library.\<close>
  \<^item> \<^verbatim>\<open>QS_Prelude\<close>: results, checked access, little-endian numbers, \<^verbatim>\<open>strings.TrimSpace\<close>, and the
    locales \<^verbatim>\<open>prefix_code\<close> (concatenations of encodings decode uniquely) and \<^verbatim>\<open>prefix_decoder\<close>.
  \<^item> \<^verbatim>\<open>Go_Strings\<close>, \<^verbatim>\<open>Go_Time\<close>, \<^verbatim>\<open>Go_RFC3339\<close>, \<^verbatim>\<open>Go_Crypto\<close>: number formatting, case folding, hexadecimal,
    the calendar, RFC 3339 texts, SHA-1 and SHA-256.
  \<^item> \<^verbatim>\<open>Go_JSON\<close>, \<^verbatim>\<open>JSON_Scan\<close>, \<^verbatim>\<open>JSON_Struct\<close>: what the log uses of \<^verbatim>\<open>encoding/json\<close>. The scanner recurses
    under fuel of the length of the text, which \<^verbatim>\<open>JSON_Scan\<close> shows to be enough.

  \<^bold>\<open>The MySQL front door\<close> (\<^verbatim>\<open>src/qsmysql\<close>).
  \<^item> \<^verbatim>\<open>MySQL_Wire\<close> (packet.go, stream.go, packetio.go): packets and length-encoded values. Encoders and
    decoders are exact inverses, decoders never panic, and what \<^verbatim>\<open>writeResponsePackets\<close> writes through
    any writer that is a \<^verbatim>\<open>byte_sink\<close> reads back. The modelled connection is one.
  \<^item> \<^verbatim>\<open>Bridge_Types\<close> (result and parameter types of \<^verbatim>\<open>src/qsbridge\<close>), \<^verbatim>\<open>MySQL_Prepared\<close> (prepared.go),
    \<^verbatim>\<open>MySQL_Command\<close> (command.go), \<^verbatim>\<open>MySQL_Response\<close> (statement.go, response.go), \<^verbatim>\<open>MySQL_Result\<close>
    (resultset.go, binary_resultset.go), \<^verbatim>\<open>MySQL_Handshake\<close> (handshake.go, handshake_response.go): every
    message of the protocol the server reads or writes. A decoder is described exactly, or shown to
    recover what a client encoded; an encoder is read back by a client's parser.
  \<^item> \<^verbatim>\<open>MySQL_Auth\<close> (auth*.go): the authenticators accept exactly the credentials of the account, password
    verifiers accept the password's token for every scramble, and updates of the account file refine
    the update of a map.
  \<^item> \<^verbatim>\<open>MySQL_Session\<close> (connection.go, session.go): the state machine and the runner. The handler sees
    commands of an authenticated client only, and no input makes a session panic. The command loop
    recurses on the bytes left to read, of which every command takes some.

  \<^bold>\<open>The write-ahead log\<close> (\<^verbatim>\<open>src/core/local_wal.go\<close>).
  \<^item> \<^verbatim>\<open>Local_WAL\<close>: frames, appends, commits, checkpoints, opening, planning, replay on a disk that knows how
    much of a file is durable; every file operation has an explicit outcome.
  \<^item> \<^verbatim>\<open>WAL_JSON\<close> gives the JSON of its structs; \<^verbatim>\<open>WAL_Runs\<close> states what the log relies on of it as the
    locale \<^verbatim>\<open>wal_codec\<close>, the runs of the log with crashes as an inductive relation, and the invariant
    of runs; \<^verbatim>\<open>WAL_Props\<close> interprets the locale on the modelled \<^verbatim>\<open>encoding/json\<close> and has the
    properties (durable and atomic appends, restart, recovery of exactly the committed part, replay),
    \<^verbatim>\<open>WAL_Example\<close> runs they hold on. A run has valid UTF-8 texts, and its appends fail in a write or a
    sync only by a crash; the durability property covers the other failures of an append.

  \<^bold>\<open>Keys, rows and payloads\<close> (\<^verbatim>\<open>src/core\<close>, \<^verbatim>\<open>src/shared\<close>, \<^verbatim>\<open>src/server\<close>).
  \<^item> \<^verbatim>\<open>PK_Identity\<close> (primary_key_identity_encoding.go): identity bytes are equal exactly for the same
    typed key; the parts of an identity interpret the locales of the prelude.
  \<^item> \<^verbatim>\<open>Column_IDs\<close> (sequencer.go on both sides, \<^verbatim>\<open>CheckoutSequence\<close>, \<^verbatim>\<open>NextColumnID\<close>): in every interleaving of
    clients with the server no identifier of a shard is issued twice, as long as the ranges handed
    out do not reach the end of the 64-bit numbers.
  \<^item> \<^verbatim>\<open>PK_Resolver\<close> (primary_key_bsi.go, primary_key_authority_value.go, primary_key_domain_state.go, the
    identities of a batch, \<^verbatim>\<open>lookupParentPrimaryKeyColumnID\<close>): a key has one row while a batch is
    open. Two properties state what the code does where that ends: a key is given a second row
    after a flush when its domain was believed empty, and a search for a parent row inserts it.
  \<^item> \<^verbatim>\<open>Payload_Hash\<close> (ingest_payload_hash.go): the hashed bytes are a canonical form, an interpretation of
    \<^verbatim>\<open>prefix_code\<close>. \<^verbatim>\<open>Time_Parse\<close> (time_parse.go): the fast parser agrees with the general one.

  \<^bold>\<open>Queries\<close> (\<^verbatim>\<open>src/qsbridge\<close>, \<^verbatim>\<open>src/qsruntime\<close>).
  \<^item> \<^verbatim>\<open>SQL_Lexer\<close> (simple_lexer.go): lexing ends on every text and gives the only tiling of the text by
    longest tokens. The loop is a partial function, so that the theorem includes that it returns.
  \<^item> \<^verbatim>\<open>Filter_Tree\<close> (quanta_intermediate.go, filter_evaluator.go): evaluation gives the rows a filter means,
    and the rewriting after a domain translation keeps them. Recursion is on the size of the tree.
  \<^item> \<^verbatim>\<open>Sharded_Cache\<close> (sharded_cache.go): the cache of keys, elements and counters refines plain lists in the
    order of use, an interpretation of \<^verbatim>\<open>refinement_mapping\<close>, and keeps its limit.

  \<^bold>\<open>Not modelled.\<close> The bitmap, key-value and search services and the runtime over them work on the
  roaring-bitmap, bit-sliced-index and embedded key-value packages, whose code is not in the
  repository: a model would be one of these packages' specifications. The row path of the sessions
  (\<^verbatim>\<open>PutRow\<close>, the mappers) runs on reflection over row values and on user functions. Pools, routers and
  registries are goroutines behind mutexes; only sequential code, and the interleavings of the
  identifier clients, are modelled. The SQL parser, the binder and the planner are modelled as far
  as the lexer and the filter trees; the rest of them is left out for its extent. Command-line
  tools, fixtures, generated service stubs and process wiring have no properties of their own.
  Elapsed times, log lines and traces are left out everywhere; the texts of errors are modelled
  where a client sees them and are constructors elsewhere.
\<close>

end
